(* ===== verification/Prelude.thy ===== *)
theory Prelude
  imports Main "HOL-Library.AList" "HOL-Library.Word" "HOL-Library.Multiset"
begin

text \<open>
  What the components share: the names of the model's machine types, the collections of facts
  that carry the component proofs, hash maps as association lists, the recency list of an LRU
  cache, and decimal numerals.

  A \<^verbatim>\<open>std::unordered_map\<close> is an association list with distinct keys; its order stands for the
  iteration order, which the standard leaves open, so no result below depends on it unless the
  statement says so.  A \<^verbatim>\<open>std::list\<close> of keys with an iterator per key is the list of the
  keys; the iterator stored with a key is the position of that key.
\<close>

type_synonym u8 = "8 word"
type_synonym u16 = "16 word"
type_synonym u32 = "32 word"
type_synonym u64 = "64 word"

type_synonym byte = "8 word"
type_synonym bytes = "8 word list"

type_synonym ('k, 'v) umap = "('k \<times> 'v) list"

abbreviation um_find :: "('k, 'v) umap \<Rightarrow> 'k \<Rightarrow> 'v option" where
  "um_find \<equiv> map_of"

abbreviation um_set :: "'k \<Rightarrow> 'v \<Rightarrow> ('k, 'v) umap \<Rightarrow> ('k, 'v) umap" where
  "um_set \<equiv> AList.update"

abbreviation um_erase :: "'k \<Rightarrow> ('k, 'v) umap \<Rightarrow> ('k, 'v) umap" where
  "um_erase \<equiv> AList.delete"

abbreviation um_size :: "('k, 'v) umap \<Rightarrow> nat" where
  "um_size \<equiv> length"

abbreviation um_keys :: "('k, 'v) umap \<Rightarrow> 'k list" where
  "um_keys m \<equiv> map fst m"

definition um_wf :: "('k, 'v) umap \<Rightarrow> bool" where
  "um_wf m \<longleftrightarrow> distinct (um_keys m)"

text \<open>
  \<open>splice_front k xs\<close> moves the node of \<open>k\<close> to the front of a recency list, the effect of
  \<^verbatim>\<open>splice(begin(), list, iter)\<close> and of \<^verbatim>\<open>erase(iter); push_front(k)\<close>.
\<close>

definition splice_front :: "'k \<Rightarrow> 'k list \<Rightarrow> 'k list" where
  "splice_front k xs = k # remove1 k xs"

text \<open>The agreement of a recency list with the map it orders.\<close>

definition lru_wf :: "'k list \<Rightarrow> ('k, 'v) umap \<Rightarrow> bool" where
  "lru_wf lru m \<longleftrightarrow> distinct lru \<and> um_wf m \<and> set lru = fst ` set m"

text \<open>Decimal numerals, as \<^verbatim>\<open>std::to_string\<close> and the streams print them.\<close>

fun show_nat :: "nat \<Rightarrow> string" where
  "show_nat n =
     (if n < 10 then [char_of (48 + n)] else show_nat (n div 10) @ [char_of (48 + n mod 10)])"

definition show_int :: "int \<Rightarrow> string" where
  "show_int i = (if i < 0 then CHR ''-'' # show_nat (nat (- i)) else show_nat (nat i))"

declare show_nat.simps [simp del]

text \<open>
  \<^verbatim>\<open>std::sort\<close> with a comparator.  The standard fixes the result up to the order of equivalent
  elements; this is the order of an insertion sort, and what is proved of a sorted range is only
  that it is sorted and a permutation.
\<close>

fun insert_by :: "('a \<Rightarrow> 'a \<Rightarrow> bool) \<Rightarrow> 'a \<Rightarrow> 'a list \<Rightarrow> 'a list" where
  "insert_by lt x [] = [x]"
| "insert_by lt x (y # ys) = (if lt y x then y # insert_by lt x ys else x # y # ys)"

definition std_sort :: "('a \<Rightarrow> 'a \<Rightarrow> bool) \<Rightarrow> 'a list \<Rightarrow> 'a list" where
  "std_sort lt xs = foldr (insert_by lt) xs []"

text \<open>What \<^verbatim>\<open>std::sort\<close> requires of its comparator on the values it meets.\<close>

definition strict_weak_on :: "('a \<Rightarrow> 'a \<Rightarrow> bool) \<Rightarrow> 'a set \<Rightarrow> bool" where
  "strict_weak_on lt S \<longleftrightarrow>
     (\<forall>a \<in> S. \<forall>b \<in> S. lt a b \<longrightarrow> \<not> lt b a) \<and>
     (\<forall>a \<in> S. \<forall>b \<in> S. \<forall>c \<in> S. \<not> lt b a \<longrightarrow> \<not> lt c b \<longrightarrow> \<not> lt c a)"

named_theorems nv_inv "every operation keeps its component's invariant"
named_theorems nv_simps "rewrites of the components' observers through their operations"

subsection \<open>Hash maps\<close>

lemma um_wf_Nil [simp]: "um_wf []"
  by (simp add: um_wf_def)

lemma um_wf_set [simp, intro]: "um_wf m \<Longrightarrow> um_wf (um_set k v m)"
  by (simp add: um_wf_def distinct_update)

lemma um_wf_erase [simp, intro]: "um_wf m \<Longrightarrow> um_wf (um_erase k m)"
  by (simp add: um_wf_def distinct_delete)

lemma um_find_set [simp]: "um_find (um_set k v m) k' = (if k' = k then Some v else um_find m k')"
  by (simp add: update_conv')

lemma um_find_erase [simp]: "um_find (um_erase k m) k' = (if k' = k then None else um_find m k')"
  by (simp add: delete_conv')

lemma um_keys_set [simp]: "fst ` set (um_set k v m) = insert k (fst ` set m)"
  by (simp add: update_conv' del: um_find_set flip: dom_map_of_conv_image_fst)

lemma um_keys_erase [simp]: "fst ` set (um_erase k m) = fst ` set m - {k}"
  by (simp add: delete_conv' del: um_find_erase flip: dom_map_of_conv_image_fst)

lemma um_find_None: "um_find m k = None \<longleftrightarrow> k \<notin> fst ` set m"
  by (rule map_of_eq_None_iff)

lemma um_find_Some_key: "um_find m k = Some v \<Longrightarrow> k \<in> fst ` set m"
  by (metis um_find_None option.simps(3))

lemma um_size_card: "um_wf m \<Longrightarrow> um_size m = card (fst ` set m)"
  by (metis distinct_card length_map list.set_map um_wf_def)

lemma um_size_set:
  "um_wf m \<Longrightarrow> um_size (um_set k v m) = (if k \<in> fst ` set m then um_size m else Suc (um_size m))"
  by (simp add: um_size_card um_wf_set card_insert_if)

lemma um_size_erase:
  "um_wf m \<Longrightarrow> um_size (um_erase k m) = (if k \<in> fst ` set m then um_size m - 1 else um_size m)"
  by (simp add: um_size_card um_wf_erase card_Diff_singleton_if)

lemma um_find_in_set: "um_wf m \<Longrightarrow> um_find m k = Some v \<longleftrightarrow> (k, v) \<in> set m"
  by (simp add: um_wf_def)

lemma um_keys_filter_wf: "um_wf m \<Longrightarrow> um_wf (filter P m)"
  by (simp add: um_wf_def distinct_map_filter)

lemma um_find_filter:
  "um_wf m \<Longrightarrow> um_find (filter (\<lambda>(k, v). P k v) m) k =
     (case um_find m k of None \<Rightarrow> None | Some v \<Rightarrow> if P k v then Some v else None)"
proof (induction m)
  case (Cons p m)
  then show ?case
    by (cases p) (auto simp: um_wf_def um_find_None split: option.splits dest: um_find_Some_key)
qed simp

lemma um_find_map: "um_find (map (\<lambda>(k, v). (k, f v)) m) k = map_option f (um_find m k)"
  by (simp add: map_of_map)

lemma um_wf_map [simp]: "um_wf (map (\<lambda>(k, v). (k, f v)) m) = um_wf m"
  by (simp add: um_wf_def case_prod_unfold comp_def)

subsection \<open>Recency lists\<close>

lemma splice_front_set [simp]: "k \<in> set xs \<Longrightarrow> set (splice_front k xs) = set xs"
  by (induction xs) (auto simp: splice_front_def)

lemma splice_front_distinct [simp]: "distinct xs \<Longrightarrow> distinct (splice_front k xs)"
  by (simp add: splice_front_def)

lemma splice_front_length [simp]: "k \<in> set xs \<Longrightarrow> length (splice_front k xs) = length xs"
  by (cases xs) (auto simp: splice_front_def length_remove1 dest: length_pos_if_in_set)

lemma hd_splice_front [simp]: "hd (splice_front k xs) = k"
  by (simp add: splice_front_def)

lemma lru_wf_Nil [simp]: "lru_wf [] []"
  by (simp add: lru_wf_def)

lemma lru_wf_length: "lru_wf lru m \<Longrightarrow> um_size m = length lru"
  by (metis distinct_card lru_wf_def um_size_card)

lemma lru_wf_mem: "\<lbrakk>lru_wf lru m; um_find m k = Some v\<rbrakk> \<Longrightarrow> k \<in> set lru \<and> k \<in> fst ` set m"
  by (auto simp: lru_wf_def dest: um_find_Some_key)

lemma lru_wf_dom: "lru_wf lru m \<Longrightarrow> set lru = dom (um_find m)"
  by (simp add: lru_wf_def dom_map_of_conv_image_fst)

lemma lru_wf_splice [intro]:
  "\<lbrakk>lru_wf lru m; um_find m k = Some v\<rbrakk> \<Longrightarrow> lru_wf (splice_front k lru) (um_set k v' m)"
  using lru_wf_mem [of lru m k v] by (auto simp: lru_wf_def)

lemma lru_wf_push [intro]:
  "\<lbrakk>lru_wf lru m; um_find m k = None\<rbrakk> \<Longrightarrow> lru_wf (k # lru) (um_set k v m)"
  by (simp add: lru_wf_def um_find_None)

lemma lru_wf_splice_length:
  "\<lbrakk>lru_wf lru m; um_find m k = Some v\<rbrakk> \<Longrightarrow> length (splice_front k lru) = length lru"
  using lru_wf_mem [of lru m k v] by simp

lemma set_butlast_distinct: "\<lbrakk>distinct xs; xs \<noteq> []\<rbrakk> \<Longrightarrow> set (butlast xs) = set xs - {last xs}"
  by (cases xs rule: rev_cases) auto

lemma lru_wf_evict [intro]:
  "\<lbrakk>lru_wf lru m; lru \<noteq> []\<rbrakk> \<Longrightarrow> lru_wf (butlast lru) (um_erase (last lru) m)"
  by (simp add: lru_wf_def distinct_butlast set_butlast_distinct)

subsection \<open>Sorting\<close>

lemma mset_insert_by [simp]: "mset (insert_by lt x xs) = add_mset x (mset xs)"
  by (induction xs) auto

lemma mset_std_sort [simp]: "mset (std_sort lt xs) = mset xs"
  unfolding std_sort_def by (induction xs) auto

lemma set_std_sort [simp]: "set (std_sort lt xs) = set xs"
  by (metis mset_std_sort set_mset_mset)

lemma length_std_sort [simp]: "length (std_sort lt xs) = length xs"
  by (metis mset_std_sort size_mset)

lemma sorted_insert_by:
  "\<lbrakk>strict_weak_on lt S; sorted_wrt (\<lambda>a b. \<not> lt b a) xs; x \<in> S; set xs \<subseteq> S\<rbrakk> \<Longrightarrow>
     sorted_wrt (\<lambda>a b. \<not> lt b a) (insert_by lt x xs)"
proof (induction xs)
  case (Cons y ys)
  have set_ins: "set (insert_by lt x ys) = insert x (set ys)"
    by (metis mset_insert_by set_mset_add_mset_insert set_mset_mset)
  have IH: "sorted_wrt (\<lambda>a b. \<not> lt b a) (insert_by lt x ys)"
    using Cons by simp
  show ?case
  proof (cases "lt y x")
    case True
    moreover have "x \<in> S" "y \<in> S" using Cons.prems(3,4) by simp_all
    ultimately have "\<not> lt x y" using Cons.prems(1) unfolding strict_weak_on_def by blast
    then show ?thesis using Cons.prems(2) \<open>lt y x\<close> IH set_ins by simp
  next
    case False
    have "\<not> lt z x" if "z \<in> set ys" for z
    proof -
      have "x \<in> S" "y \<in> S" "z \<in> S" "\<not> lt z y" using Cons.prems that by auto
      with Cons.prems(1) False show ?thesis unfolding strict_weak_on_def by blast
    qed
    then show ?thesis using Cons.prems(2) False by simp
  qed
qed simp

lemma sorted_std_sort:
  "\<lbrakk>strict_weak_on lt S; set xs \<subseteq> S\<rbrakk> \<Longrightarrow> sorted_wrt (\<lambda>a b. \<not> lt b a) (std_sort lt xs)"
proof (induction xs)
  case (Cons x xs)
  then have "sorted_wrt (\<lambda>a b. \<not> lt b a) (insert_by lt x (std_sort lt xs))"
    by (intro sorted_insert_by [of lt S]) auto
  then show ?case by (simp add: std_sort_def)
qed (simp add: std_sort_def)

subsection \<open>Decimal numerals\<close>

lemma show_nat_nonempty [simp]: "show_nat n \<noteq> []"
  by (subst show_nat.simps) simp

lemma show_nat_digits: "c \<in> set (show_nat n) \<Longrightarrow> (48 :: nat) \<le> of_char c \<and> of_char c \<le> (57 :: nat)"
proof (induction n rule: show_nat.induct)
  case (1 n)
  show ?case
  proof (cases "n < 10")
    case True
    then show ?thesis using "1.prems" by (auto simp: show_nat.simps [of n])
  next
    case False
    have "n mod 10 < 10" by simp
    then show ?thesis using 1 False by (auto simp: show_nat.simps [of n])
  qed
qed

lemma show_nat_inj: "show_nat m = show_nat n \<longleftrightarrow> m = n"
proof (induction m arbitrary: n rule: show_nat.induct)
  case (1 m)
  have digit: "(char_of (48 + a mod 10) :: char) = char_of (48 + b mod 10) \<longleftrightarrow> a mod 10 = b mod 10" for a b :: nat
  proof -
    have "(48 + a mod 10) mod 256 = 48 + a mod 10" "(48 + b mod 10) mod 256 = 48 + b mod 10"
      by (simp_all add: mod_less)
    then show ?thesis by (simp add: char_of_eq_iff take_bit_eq_mod)
  qed
  show ?case
  proof (cases "m < 10"; cases "n < 10")
    assume "m < 10" "n < 10"
    then show ?thesis using digit [of m n] by (simp add: show_nat.simps [of m] show_nat.simps [of n])
  next
    assume "m < 10" "\<not> n < 10"
    then show ?thesis by (auto dest: sym [of "[]"] simp: show_nat.simps [of m] show_nat.simps [of n])
  next
    assume "\<not> m < 10" "n < 10"
    then show ?thesis by (auto simp: show_nat.simps [of m] show_nat.simps [of n])
  next
    assume big: "\<not> m < 10" "\<not> n < 10"
    have "show_nat m = show_nat n \<longleftrightarrow> m div 10 = n div 10 \<and> m mod 10 = n mod 10"
      using 1 [OF big(1), of "n div 10"] digit [of m n] big
      by (simp add: show_nat.simps [of m] show_nat.simps [of n])
    also have "\<dots> \<longleftrightarrow> m = n" by (metis div_mult_mod_eq)
    finally show ?thesis .
  qed
qed

lemma show_nat_no_sign: "CHR ''-'' \<notin> set (show_nat n)" "CHR '':'' \<notin> set (show_nat n)"
  using show_nat_digits [of "CHR ''-''" n] show_nat_digits [of "CHR '':''" n] by auto

lemma show_int_no_colon: "CHR '':'' \<notin> set (show_int i)"
  by (simp add: show_int_def show_nat_no_sign)

lemma show_int_inj: "show_int i = show_int j \<longleftrightarrow> i = j"
proof -
  have "CHR ''-'' # xs \<noteq> show_nat n" for xs n
    using show_nat_no_sign(1) [of n] by (metis list.set_intros(1))
  then show ?thesis
    by (auto simp: show_int_def show_nat_inj dest: sym)
qed

lemma separator_unique:
  "\<lbrakk>c \<notin> set a; c \<notin> set b\<rbrakk> \<Longrightarrow> a @ c # x = b @ c # y \<longleftrightarrow> a = b \<and> x = y"
  by (induction a arbitrary: b) (case_tac b; auto)+

end
