(* ===== verification/Floats.thy ===== *)
theory Floats
  imports Complex_Main Prelude
begin

text \<open>
  IEEE 754 arithmetic as the source uses it on \<^verbatim>\<open>float\<close> and \<^verbatim>\<open>double\<close>: a value is a rational
  number, an infinity or not a number, and an operation is the exact result rounded to the
  nearest representable value, ties to even, with gradual underflow and overflow to infinity.
  Everything is executable.  The two zeros are one value here: no modelled operation tells them
  apart (none divides by a value that can be zero, and none prints a zero).
\<close>

datatype fl = Fin rat | Inf bool | NaN  \<comment> \<open>\<open>Inf True\<close> is the negative infinity\<close>

datatype fmt = F32 | F64

fun fmt_prec :: "fmt \<Rightarrow> int" where
  "fmt_prec F32 = 24"
| "fmt_prec F64 = 53"

fun fmt_emin :: "fmt \<Rightarrow> int" where
  "fmt_emin F32 = - 126"
| "fmt_emin F64 = - 1022"

fun fmt_emax :: "fmt \<Rightarrow> int" where
  "fmt_emax F32 = 127"
| "fmt_emax F64 = 1023"

definition pow2 :: "int \<Rightarrow> rat" where
  "pow2 e = (if 0 \<le> e then 2 ^ nat e else 1 / 2 ^ nat (- e))"

lemma ceiling_half_less: "1 < y \<Longrightarrow> \<lceil>y / 2\<rceil> < \<lceil>y\<rceil>" for y :: rat
proof (cases "y \<le> 2")
  case True
  assume "1 < y"
  with True have "\<lceil>y / 2\<rceil> \<le> 1" "1 < \<lceil>y\<rceil>" by (simp_all add: ceiling_le_iff less_ceiling_iff)
  then show ?thesis by linarith
next
  case False
  then show ?thesis by linarith
qed

text \<open>The exponent of a positive rational: the \<open>e\<close> with \<open>2 ^ e \<le> x < 2 ^ (e + 1)\<close>.\<close>

function rat_exp :: "rat \<Rightarrow> int" where
  "rat_exp x =
     (if 2 \<le> x then rat_exp (x / 2) + 1 else if 0 < x \<and> x < 1 then rat_exp (2 * x) - 1 else 0)"
  by pat_completeness auto
termination
proof (relation "measure (\<lambda>x. nat (if 2 \<le> x then \<lfloor>x\<rfloor> else if 0 < x \<and> x < 1 then \<lceil>1 / x\<rceil> else 0))")
  show "wf (measure (\<lambda>x::rat. nat (if 2 \<le> x then \<lfloor>x\<rfloor> else if 0 < x \<and> x < 1 then \<lceil>1 / x\<rceil> else 0)))"
    by simp
next
  fix x :: rat
  assume "2 \<le> x"
  moreover from this have "\<lfloor>x / 2\<rfloor> < \<lfloor>x\<rfloor>" by linarith
  ultimately show "(x / 2, x) \<in> measure (\<lambda>x. nat (if 2 \<le> x then \<lfloor>x\<rfloor>
      else if 0 < x \<and> x < 1 then \<lceil>1 / x\<rceil> else 0))"
    by auto
next
  fix x :: rat
  assume x: "\<not> 2 \<le> x" "0 < x \<and> x < 1"
  then have "1 < 1 / x" by simp
  then have "\<lceil>1 / x / 2\<rceil> < \<lceil>1 / x\<rceil>" by (rule ceiling_half_less)
  moreover have "1 / x / 2 = 1 / (2 * x)" by simp
  ultimately show "(2 * x, x) \<in> measure (\<lambda>x. nat (if 2 \<le> x then \<lfloor>x\<rfloor>
      else if 0 < x \<and> x < 1 then \<lceil>1 / x\<rceil> else 0))"
    using x by (auto simp: mult.commute)
qed

declare rat_exp.simps [simp del]

definition round_half_even :: "rat \<Rightarrow> int" where
  "round_half_even q =
     (let f = \<lfloor>q\<rfloor>; r = q - of_int f
      in if r < 1 / 2 then f else if 1 / 2 < r then f + 1 else if even f then f else f + 1)"

definition fl_round :: "fmt \<Rightarrow> rat \<Rightarrow> fl" where
  "fl_round f x =
     (if x = 0 then Fin 0
      else let u = pow2 (max (rat_exp \<bar>x\<bar>) (fmt_emin f) - fmt_prec f + 1);
               r = of_int (round_half_even (x / u)) * u
           in if pow2 (fmt_emax f + 1) \<le> \<bar>r\<bar> then Inf (r < 0) else Fin r)"

fun fl_neg :: "fl \<Rightarrow> fl" where
  "fl_neg (Fin x) = Fin (- x)"
| "fl_neg (Inf s) = Inf (\<not> s)"
| "fl_neg NaN = NaN"

fun fl_abs :: "fl \<Rightarrow> fl" where
  "fl_abs (Fin x) = Fin \<bar>x\<bar>"
| "fl_abs (Inf s) = Inf False"
| "fl_abs NaN = NaN"

fun fl_add :: "fmt \<Rightarrow> fl \<Rightarrow> fl \<Rightarrow> fl" where
  "fl_add f (Fin x) (Fin y) = fl_round f (x + y)"
| "fl_add f (Inf s) (Inf t) = (if s = t then Inf s else NaN)"
| "fl_add f (Inf s) (Fin y) = Inf s"
| "fl_add f (Fin x) (Inf t) = Inf t"
| "fl_add f NaN b = NaN"
| "fl_add f a NaN = NaN"

definition fl_sub :: "fmt \<Rightarrow> fl \<Rightarrow> fl \<Rightarrow> fl" where
  "fl_sub f a b = fl_add f a (fl_neg b)"

fun fl_mul :: "fmt \<Rightarrow> fl \<Rightarrow> fl \<Rightarrow> fl" where
  "fl_mul f (Fin x) (Fin y) = fl_round f (x * y)"
| "fl_mul f (Inf s) (Inf t) = Inf (s \<noteq> t)"
| "fl_mul f (Inf s) (Fin y) = (if y = 0 then NaN else Inf (s \<noteq> (y < 0)))"
| "fl_mul f (Fin x) (Inf t) = (if x = 0 then NaN else Inf (t \<noteq> (x < 0)))"
| "fl_mul f NaN b = NaN"
| "fl_mul f a NaN = NaN"

text \<open>A quotient by zero takes the sign of the dividend: the divisors of the source are positive.\<close>

fun fl_div :: "fmt \<Rightarrow> fl \<Rightarrow> fl \<Rightarrow> fl" where
  "fl_div f (Fin x) (Fin y) =
     (if y = 0 then if x = 0 then NaN else Inf (x < 0) else fl_round f (x / y))"
| "fl_div f (Inf s) (Inf t) = NaN"
| "fl_div f (Inf s) (Fin y) = Inf (s \<noteq> (y < 0))"
| "fl_div f (Fin x) (Inf t) = Fin 0"
| "fl_div f NaN b = NaN"
| "fl_div f a NaN = NaN"

text \<open>Comparisons: every comparison with \<open>NaN\<close> is false.\<close>

fun fl_less :: "fl \<Rightarrow> fl \<Rightarrow> bool" where
  "fl_less (Fin x) (Fin y) = (x < y)"
| "fl_less (Inf s) (Inf t) = (s \<and> \<not> t)"
| "fl_less (Inf s) (Fin y) = s"
| "fl_less (Fin x) (Inf t) = (\<not> t)"
| "fl_less NaN b = False"
| "fl_less a NaN = False"

fun fl_eq :: "fl \<Rightarrow> fl \<Rightarrow> bool" where
  "fl_eq (Fin x) (Fin y) = (x = y)"
| "fl_eq (Inf s) (Inf t) = (s = t)"
| "fl_eq a b = False"

definition fl_le :: "fl \<Rightarrow> fl \<Rightarrow> bool" where
  "fl_le a b \<longleftrightarrow> fl_less a b \<or> fl_eq a b"

fun isfinite :: "fl \<Rightarrow> bool" where
  "isfinite (Fin x) = True"
| "isfinite a = False"

text \<open>\<^verbatim>\<open>std::max(a, b)\<close> returns \<open>b\<close> only when \<open>a < b\<close>, and \<^verbatim>\<open>std::min(a, b)\<close> only when \<open>b < a\<close>.\<close>

definition fl_max :: "fl \<Rightarrow> fl \<Rightarrow> fl" where
  "fl_max a b = (if fl_less a b then b else a)"

definition fl_min :: "fl \<Rightarrow> fl \<Rightarrow> fl" where
  "fl_min a b = (if fl_less b a then b else a)"

text \<open>Conversions: \<^verbatim>\<open>static_cast\<close> from an integer and between the two formats.\<close>

definition fl_of_int :: "fmt \<Rightarrow> int \<Rightarrow> fl" where
  "fl_of_int f i = fl_round f (of_int i)"

fun fl_cast :: "fmt \<Rightarrow> fl \<Rightarrow> fl" where
  "fl_cast f (Fin x) = fl_round f x"
| "fl_cast f (Inf s) = Inf s"
| "fl_cast f NaN = NaN"

text \<open>A value that the format can hold.\<close>

definition representable :: "fmt \<Rightarrow> rat \<Rightarrow> bool" where
  "representable f x \<longleftrightarrow> fl_round f x = Fin x"

definition f32_max :: rat where
  "f32_max = (2 ^ 24 - 1) * 2 ^ 104"

text \<open>Values whose magnitude a bound limits; the finite values of \<^verbatim>\<open>float\<close>.\<close>

fun fl_within :: "rat \<Rightarrow> fl \<Rightarrow> bool" where
  "fl_within B (Fin x) = (\<bar>x\<bar> \<le> B)"
| "fl_within B v = False"

lemma fl_round_0 [simp]: "fl_round f 0 = Fin 0"
  by (simp add: fl_round_def)

lemma fl_add_commute: "fl_add f a b = fl_add f b a"
  by (cases a; cases b) (auto simp: add.commute)

lemma fl_mul_commute: "fl_mul f a b = fl_mul f b a"
  by (cases a; cases b) (auto simp: mult.commute)

lemma fl_less_irrefl [simp]: "\<not> fl_less a a"
  by (cases a) auto

lemma fl_less_trans: "\<lbrakk>fl_less a b; fl_less b c\<rbrakk> \<Longrightarrow> fl_less a c"
  by (cases a; cases b; cases c) auto

lemma fl_less_asym: "fl_less a b \<Longrightarrow> \<not> fl_less b a"
  by (cases a; cases b) auto

lemma fl_less_linear: "\<lbrakk>a \<noteq> NaN; b \<noteq> NaN\<rbrakk> \<Longrightarrow> fl_less a b \<or> a = b \<or> fl_less b a"
  by (cases a; cases b) auto

lemma fl_eq_iff: "fl_eq a b \<longleftrightarrow> a = b \<and> a \<noteq> NaN"
  by (cases a; cases b) auto

lemma fl_abs_neg [simp]: "fl_abs (fl_neg a) = fl_abs a"
  by (cases a) auto

lemma floor_quotient [simp]:
  "\<lfloor>numeral a / numeral b :: rat\<rfloor> = numeral a div numeral b"
  "\<lfloor>- (numeral a / numeral b) :: rat\<rfloor> = - numeral a div numeral b"
  "\<lfloor>1 / numeral b :: rat\<rfloor> = 1 div numeral b"
  "\<lfloor>- (1 / numeral b) :: rat\<rfloor> = - 1 div numeral b"
  using floor_divide_of_int_eq [of "numeral a" "numeral b", where 'a = rat]
    floor_divide_of_int_eq [of "- numeral a" "numeral b", where 'a = rat]
    floor_divide_of_int_eq [of 1 "numeral b", where 'a = rat]
    floor_divide_of_int_eq [of "- 1" "numeral b", where 'a = rat]
  by simp_all

lemmas fl_eval = fl_round_def Let_def pow2_def round_half_even_def rat_exp.simps fl_of_int_def

lemma pow2_pos [simp]: "0 < pow2 e"
  by (simp add: pow2_def)

subsection \<open>Bounds on rounding\<close>

lemma pow2_nonneg [simp]: "0 \<le> pow2 e"
  by (simp add: less_imp_le)

lemma pow2_0 [simp]: "pow2 0 = 1"
  by (simp add: pow2_def)

lemma pow2_double: "pow2 (e + 1) = 2 * pow2 e"
proof (cases "0 \<le> e")
  case True
  then show ?thesis by (simp add: pow2_def nat_add_distrib)
next
  case False
  then have "nat (- e) = Suc (nat (- e - 1))" by simp
  with False show ?thesis by (auto simp: pow2_def)
qed

lemma pow2_mono: "a \<le> b \<Longrightarrow> pow2 a \<le> pow2 b"
proof (induction "nat (b - a)" arbitrary: b)
  case (Suc n)
  then have "pow2 a \<le> pow2 (b - 1)" by simp
  moreover have "pow2 b = 2 * pow2 (b - 1)" using pow2_double [of "b - 1"] by simp
  ultimately show ?case using pow2_pos [of "b - 1"] by linarith
qed simp

lemma rat_exp_bounds: "0 < x \<Longrightarrow> pow2 (rat_exp x) \<le> x \<and> x < pow2 (rat_exp x + 1)"
proof (induction x rule: rat_exp.induct)
  case (1 x)
  have pred: "pow2 e = 2 * pow2 (e - 1)" for e using pow2_double [of "e - 1"] by simp
  consider "2 \<le> x" | "x < 1" | "1 \<le> x" "x < 2" by linarith
  then show ?case
  proof cases
    case 1
    with "1.IH"(1) have "pow2 (rat_exp (x / 2)) \<le> x / 2" "x / 2 < pow2 (rat_exp (x / 2) + 1)" by simp_all
    with 1 show ?thesis
      using pow2_double [of "rat_exp (x / 2) + 1"] pow2_double [of "rat_exp (x / 2)"]
      by (simp add: rat_exp.simps [of x] add.commute)
  next
    case 2
    with "1.IH"(2) "1.prems" have "pow2 (rat_exp (2 * x)) \<le> 2 * x" "2 * x < pow2 (rat_exp (2 * x) + 1)"
      by simp_all
    with 2 "1.prems" show ?thesis
      by (simp add: rat_exp.simps [of x] pow2_double pred [of "rat_exp (2 * x)"])
  next
    case 3
    then show ?thesis by (simp add: rat_exp.simps [of x] pow2_def)
  qed
qed

lemma round_half_even_near: "\<bar>of_int (round_half_even q) - q\<bar> \<le> 1 / 2"
proof -
  have "of_int \<lfloor>q\<rfloor> \<le> q" "q < of_int \<lfloor>q\<rfloor> + 1" "of_int \<lfloor>q\<rfloor> * 2 - q * 2 \<le> 1" by linarith+
  then show ?thesis by (auto simp: round_half_even_def Let_def abs_if)
qed

lemma fl_round_F32_bounded:
  assumes z: "\<bar>z\<bar> < 2 ^ 128 - 2 ^ 103"
  shows "\<exists>r. fl_round F32 z = Fin r \<and> \<bar>r\<bar> \<le> f32_max"
proof (cases "z = 0")
  case True
  then show ?thesis by (simp add: f32_max_def)
next
  case False
  define e where "e = rat_exp \<bar>z\<bar>"
  define u where "u = pow2 (max e (- 126) - 23)"
  define n where "n = round_half_even (z / u)"
  have u: "0 < u" by (simp add: u_def)
  have near: "\<bar>of_int n - z / u\<bar> \<le> 1 / 2" unfolding n_def by (rule round_half_even_near)
  have eb: "pow2 e \<le> \<bar>z\<bar>" "\<bar>z\<bar> < pow2 (e + 1)" using False rat_exp_bounds [of "\<bar>z\<bar>"] by (simp_all add: e_def)
  have zs: "\<bar>z\<bar> < pow2 128" using z by (simp add: pow2_def)
  have "e < 128"
  proof (rule ccontr)
    assume "\<not> e < 128"
    then have "pow2 128 \<le> pow2 e" by (intro pow2_mono) simp
    with eb(1) zs show False by linarith
  qed
  have "\<bar>of_int n * u\<bar> \<le> f32_max"
  proof (cases "e = 127")
    case True
    then have u104: "u = 2 ^ 104" by (simp add: u_def pow2_def)
    have "\<bar>z / u\<bar> < 2 ^ 24 - 1 / 2" using z by (simp add: u104 abs_if field_simps split: if_splits)
    with near have "\<bar>of_int n :: rat\<bar> < 2 ^ 24" by linarith
    then have "of_int \<bar>n\<bar> < (of_int (2 ^ 24) :: rat)" by simp
    then have "\<bar>n\<bar> \<le> 2 ^ 24 - 1" by (simp only: of_int_less_iff)
    then have "of_int \<bar>n\<bar> \<le> (of_int (2 ^ 24 - 1) :: rat)" by (simp only: of_int_le_iff)
    then have "\<bar>of_int n :: rat\<bar> \<le> 2 ^ 24 - 1" by simp
    then show ?thesis by (simp add: u104 abs_mult f32_max_def)
  next
    case False
    with \<open>e < 128\<close> have le: "e + 1 \<le> 127" by simp
    have "\<bar>z\<bar> < pow2 127" using eb(2) pow2_mono [OF le] by linarith
    moreover have "u \<le> pow2 103" unfolding u_def using le by (intro pow2_mono) simp
    moreover have "\<bar>of_int n * u\<bar> \<le> \<bar>z\<bar> + u / 2"
    proof -
      have "of_int n * u - z = (of_int n - z / u) * u" using u by (simp add: left_diff_distrib)
      then have "\<bar>of_int n * u - z\<bar> = \<bar>of_int n - z / u\<bar> * u" using u by (simp add: abs_mult)
      also have "\<dots> \<le> 1 / 2 * u" using near u by (intro mult_right_mono) auto
      finally show ?thesis by linarith
    qed
    ultimately show ?thesis by (simp add: pow2_def f32_max_def)
  qed
  moreover have "f32_max < pow2 128" by (simp add: f32_max_def pow2_def)
  moreover have "fl_round F32 z =
      (if pow2 128 \<le> \<bar>of_int n * u\<bar> then Inf (of_int n * u < 0) else Fin (of_int n * u))"
    using False by (simp add: fl_round_def Let_def n_def u_def e_def)
  ultimately show ?thesis by simp
qed

lemma pow2_split: "e \<le> k \<Longrightarrow> pow2 k = of_int (2 ^ nat (k - e)) * pow2 e"
proof (induction "nat (k - e)" arbitrary: k)
  case (Suc n)
  then have "pow2 (k - 1) = of_int (2 ^ nat (k - 1 - e)) * pow2 e" by simp
  moreover have "pow2 k = 2 * pow2 (k - 1)" using pow2_double [of "k - 1"] by simp
  moreover have "nat (k - e) = Suc (nat (k - 1 - e))" using Suc.hyps(2) by linarith
  ultimately show ?case by simp
qed simp

lemma round_half_even_le: "\<bar>q\<bar> \<le> of_int N \<Longrightarrow> \<bar>round_half_even q\<bar> \<le> N"
  using round_half_even_near [of q] by linarith

lemma fl_round_le_pow2:
  assumes z: "\<bar>z\<bar> \<le> pow2 k" and k: "fmt_emin f - fmt_prec f + 1 \<le> k" "k \<le> fmt_emax f"
  shows "\<exists>r. fl_round f z = Fin r \<and> \<bar>r\<bar> \<le> pow2 k"
proof (cases "z = 0")
  case True
  then show ?thesis by simp
next
  case False
  define m where "m = max (rat_exp \<bar>z\<bar>) (fmt_emin f) - fmt_prec f + 1"
  define n where "n = round_half_even (z / pow2 m)"
  have "pow2 (rat_exp \<bar>z\<bar>) \<le> pow2 k" using z False rat_exp_bounds [of "\<bar>z\<bar>"] by simp
  then have "rat_exp \<bar>z\<bar> \<le> k"
    using pow2_mono [of "k + 1" "rat_exp \<bar>z\<bar>"] pow2_double [of k] pow2_pos [of k] by linarith
  moreover have "1 < fmt_prec f" by (cases f) simp_all
  ultimately have "m \<le> k" using k by (simp add: m_def)
  then have split: "pow2 k = of_int (2 ^ nat (k - m)) * pow2 m" by (rule pow2_split)
  have "\<bar>z / pow2 m\<bar> \<le> of_int (2 ^ nat (k - m))"
    using z pow2_pos [of m] by (simp add: split abs_divide divide_le_eq)
  then have "\<bar>n\<bar> \<le> 2 ^ nat (k - m)" unfolding n_def by (rule round_half_even_le)
  then have "of_int \<bar>n\<bar> \<le> (of_int (2 ^ nat (k - m)) :: rat)" by (simp only: of_int_le_iff)
  then have r: "\<bar>of_int n * pow2 m\<bar> \<le> pow2 k" using pow2_pos [of m] by (simp add: split abs_mult)
  have "pow2 k < pow2 (fmt_emax f + 1)"
    using pow2_mono [OF k(2)] pow2_double [of "fmt_emax f"] pow2_pos [of "fmt_emax f"] by linarith
  moreover have "fl_round f z =
      (if pow2 (fmt_emax f + 1) \<le> \<bar>of_int n * pow2 m\<bar> then Inf (of_int n * pow2 m < 0)
       else Fin (of_int n * pow2 m))"
    using False by (simp add: fl_round_def Let_def n_def m_def)
  ultimately show ?thesis using r by simp
qed

lemma fl_within_iff: "fl_within B v \<longleftrightarrow> (\<exists>x. v = Fin x \<and> \<bar>x\<bar> \<le> B)"
  by (cases v) auto

lemma fl_within_neg [simp]: "fl_within B (fl_neg v) = fl_within B v"
  by (cases v) auto

lemma fl_within_mono: "\<lbrakk>fl_within A v; A \<le> B\<rbrakk> \<Longrightarrow> fl_within B v"
  by (cases v) auto

lemma fl_within_cast:
  "\<lbrakk>fl_within (pow2 k) v; fmt_emin f - fmt_prec f + 1 \<le> k; k \<le> fmt_emax f\<rbrakk> \<Longrightarrow> fl_within (pow2 k) (fl_cast f v)"
  using fl_round_le_pow2 [of _ k f] by (auto simp: fl_within_iff)

lemma fl_within_mul:
  assumes "fl_within (pow2 j) a" "fl_within (pow2 k) b"
    and "fmt_emin f - fmt_prec f + 1 \<le> j + k" "j + k \<le> fmt_emax f" "0 \<le> j" "0 \<le> k"
  shows "fl_within (pow2 (j + k)) (fl_mul f a b)"
proof -
  obtain x y where xy: "a = Fin x" "b = Fin y" "\<bar>x\<bar> \<le> pow2 j" "\<bar>y\<bar> \<le> pow2 k"
    using assms(1,2) by (auto simp: fl_within_iff)
  have "pow2 (j + k) = pow2 j * pow2 k" using assms by (simp add: pow2_def nat_add_distrib power_add)
  then have "\<bar>x * y\<bar> \<le> pow2 (j + k)" using xy by (auto simp: abs_mult intro!: mult_mono)
  then show ?thesis using fl_round_le_pow2 [of "x * y" "j + k" f] assms xy by (auto simp: fl_within_iff)
qed

lemma f32_max_add:
  assumes "fl_within f32_max a" "fl_within (pow2 102) b"
  shows "fl_within f32_max (fl_add F32 a b)"
proof -
  obtain x y where xy: "a = Fin x" "b = Fin y" "\<bar>x\<bar> \<le> f32_max" "\<bar>y\<bar> \<le> pow2 102"
    using assms by (auto simp: fl_within_iff)
  have "\<bar>x + y\<bar> \<le> f32_max + pow2 102" using xy by linarith
  also have "\<dots> < 2 ^ 128 - 2 ^ 103" by (simp add: f32_max_def pow2_def)
  finally show ?thesis using fl_round_F32_bounded [of "x + y"] xy by (auto simp: fl_within_iff)
qed

lemma f32_max_shrink:
  assumes "fl_within f32_max a" "fl_within 1 b"
  shows "fl_within f32_max (fl_mul F32 a b)"
proof -
  obtain x y where xy: "a = Fin x" "b = Fin y" "\<bar>x\<bar> \<le> f32_max" "\<bar>y\<bar> \<le> 1"
    using assms by (auto simp: fl_within_iff)
  have "\<bar>x * y\<bar> \<le> f32_max * 1" unfolding abs_mult using xy by (intro mult_mono) auto
  also have "\<dots> < 2 ^ 128 - 2 ^ 103" by (simp add: f32_max_def)
  finally show ?thesis using fl_round_F32_bounded [of "x * y"] xy by (auto simp: fl_within_iff)
qed

lemma fl_round_cases:
  assumes "z \<noteq> 0"
  obtains u where "0 < u" "fl_round f z =
      (let r = of_int (round_half_even (z / u)) * u
       in if pow2 (fmt_emax f + 1) \<le> \<bar>r\<bar> then Inf (r < 0) else Fin r)"
  using assms that [of "pow2 (max (rat_exp \<bar>z\<bar>) (fmt_emin f) - fmt_prec f + 1)"]
  by (simp add: fl_round_def Let_def)

lemma round_half_even_sign: "q \<le> 0 \<Longrightarrow> round_half_even q \<le> 0" "0 \<le> q \<Longrightarrow> 0 \<le> round_half_even q"
proof -
  have near: "of_int (round_half_even q) \<le> q + 1 / 2" "q - 1 / 2 \<le> of_int (round_half_even q)"
    using round_half_even_near [of q] by (simp_all add: abs_if split: if_splits)
  show "round_half_even q \<le> 0" if "q \<le> 0"
  proof (rule ccontr)
    assume "\<not> round_half_even q \<le> 0"
    then have "(1 :: rat) \<le> of_int (round_half_even q)" by simp
    with that near show False by linarith
  qed
  show "0 \<le> round_half_even q" if "0 \<le> q"
  proof (rule ccontr)
    assume "\<not> 0 \<le> round_half_even q"
    then have "of_int (round_half_even q) \<le> (of_int (- 1) :: rat)" by (simp only: of_int_le_iff)
    with that near show False by simp
  qed
qed

lemma fl_round_sign:
  "z \<le> 0 \<Longrightarrow> fl_le (fl_round f z) (Fin 0)" "0 \<le> z \<Longrightarrow> fl_le (Fin 0) (fl_round f z)"
proof -
  have sign: "(z \<le> 0 \<longrightarrow> fl_le (fl_round f z) (Fin 0)) \<and> (0 \<le> z \<longrightarrow> fl_le (Fin 0) (fl_round f z))"
  proof (cases "z = 0")
    case True
    then show ?thesis by (simp add: fl_le_def)
  next
    case False
    obtain u where u: "0 < u" "fl_round f z =
        (let r = of_int (round_half_even (z / u)) * u
         in if pow2 (fmt_emax f + 1) \<le> \<bar>r\<bar> then Inf (r < 0) else Fin r)"
      using fl_round_cases [OF False] by blast
    define r where "r = of_int (round_half_even (z / u)) * u"
    have "z \<le> 0 \<Longrightarrow> r \<le> 0" "0 \<le> z \<Longrightarrow> 0 \<le> r"
      using u(1) round_half_even_sign [of "z / u"]
      by (simp_all add: r_def mult_nonpos_nonneg divide_nonpos_pos)
    moreover have "r \<noteq> 0" if "pow2 (fmt_emax f + 1) \<le> \<bar>r\<bar>"
      using that by (metis abs_zero linorder_not_le pow2_pos)
    ultimately show ?thesis
      unfolding u(2) Let_def r_def [symmetric] by (auto simp: fl_le_def)
  qed
  then show "z \<le> 0 \<Longrightarrow> fl_le (fl_round f z) (Fin 0)" "0 \<le> z \<Longrightarrow> fl_le (Fin 0) (fl_round f z)"
    by simp_all
qed

end
