(* ===== verification/Distance.thy ===== *)
theory Distance
  imports Floats "HOL-Library.Multiset"
begin

text \<open>
  Distances between vectors (\<^verbatim>\<open>src/vectors/distance.h\<close>, \<^verbatim>\<open>distance_scalar.h\<close>, \<^verbatim>\<open>distance_avx2.h\<close>,
  \<^verbatim>\<open>distance_neon.h\<close>, \<^verbatim>\<open>distance_simd.h\<close>, \<^verbatim>\<open>cpu_features.cpp\<close>).

  A pointer with its dimension is the list of components.  Whether the compiler contracts a product
  and a sum into one rounding is the argument \<open>fused\<close>; the theorem on the kernels holds either way.
\<close>

subsection \<open>Square root and multiply-add\<close>

fun isqrt :: "nat \<Rightarrow> nat" where
  "isqrt n =
     (if n = 0 then 0
      else let r = 2 * isqrt (n div 4) in if (r + 1) * (r + 1) \<le> n then r + 1 else r)"

declare isqrt.simps [simp del]

text \<open>
  The correctly rounded square root: \<open>m\<close> is the root in units of the last place, rounded down, and
  it is rounded up when the root is beyond the middle, or on the middle and \<open>m\<close> is odd.
\<close>

definition sqrt_round :: "fmt \<Rightarrow> rat \<Rightarrow> rat" where
  "sqrt_round f x =
     (let u = pow2 (max (rat_exp x div 2) (fmt_emin f) - fmt_prec f + 1);
          q = x / (u * u);
          m = int (isqrt (nat \<lfloor>q\<rfloor>));
          mid = (of_int m + 1 / 2) * (of_int m + 1 / 2)
      in of_int (if mid < q \<or> mid = q \<and> odd m then m + 1 else m) * u)"

fun fl_sqrt :: "fmt \<Rightarrow> fl \<Rightarrow> fl" where
  "fl_sqrt f (Fin x) = (if x < 0 then NaN else if x = 0 then Fin 0 else Fin (sqrt_round f x))"
| "fl_sqrt f (Inf s) = (if s then NaN else Inf False)"
| "fl_sqrt f NaN = NaN"

fun fl_fma :: "fmt \<Rightarrow> fl \<Rightarrow> fl \<Rightarrow> fl \<Rightarrow> fl" where
  "fl_fma f s (Fin x) (Fin y) = (case s of Fin z \<Rightarrow> fl_round f (z + x * y) | _ \<Rightarrow> s)"
| "fl_fma f s x y = fl_add f s (fl_mul f x y)"

definition fl_mac :: "bool \<Rightarrow> fl \<Rightarrow> fl \<Rightarrow> fl \<Rightarrow> fl" where
  "fl_mac fused s x y = (if fused then fl_fma F32 s x y else fl_add F32 s (fl_mul F32 x y))"

subsection \<open>Kernels\<close>

text \<open>What one lane adds to its sum: a product, or the square of a difference.\<close>

definition dot_lane :: "bool \<Rightarrow> fl \<Rightarrow> fl \<Rightarrow> fl \<Rightarrow> fl" where
  "dot_lane fused s x y = fl_mac fused s x y"

definition diff_lane :: "bool \<Rightarrow> fl \<Rightarrow> fl \<Rightarrow> fl \<Rightarrow> fl" where
  "diff_lane fused s x y = (let d = fl_sub F32 x y in fl_mac fused s d d)"

fun scalar_sum :: "(fl \<Rightarrow> fl \<Rightarrow> fl \<Rightarrow> fl) \<Rightarrow> fl \<Rightarrow> fl list \<Rightarrow> fl list \<Rightarrow> fl" where
  "scalar_sum lane s (x # xs) (y # ys) = scalar_sum lane (lane s x y) xs ys"
| "scalar_sum lane s _ _ = s"

definition DotProductScalar :: "bool \<Rightarrow> fl list \<Rightarrow> fl list \<Rightarrow> fl" where
  "DotProductScalar fused a b = scalar_sum (dot_lane fused) (Fin 0) a b"

definition L2NormScalar :: "bool \<Rightarrow> fl list \<Rightarrow> fl" where
  "L2NormScalar fused v = fl_sqrt F32 (scalar_sum (dot_lane fused) (Fin 0) v v)"

definition L2DistanceScalar :: "bool \<Rightarrow> fl list \<Rightarrow> fl list \<Rightarrow> fl" where
  "L2DistanceScalar fused a b = fl_sqrt F32 (scalar_sum (diff_lane fused) (Fin 0) a b)"

text \<open>
  A register is the list of its lanes.  \<open>simd_strided\<close> is the loop with four accumulators and
  \<open>simd_blocks\<close> the loop with one; both return the components they have not consumed.
\<close>

type_synonym register = "fl list"

definition simd_lanes :: "(fl \<Rightarrow> fl \<Rightarrow> fl \<Rightarrow> fl) \<Rightarrow> register \<Rightarrow> fl list \<Rightarrow> fl list \<Rightarrow> register" where
  "simd_lanes lane acc xs ys = map (\<lambda>(s, x, y). lane s x y) (zip acc (zip xs ys))"

definition simd_add :: "register \<Rightarrow> register \<Rightarrow> register" where
  "simd_add s t = map (\<lambda>(x, y). fl_add F32 x y) (zip s t)"

definition simd_zero :: "nat \<Rightarrow> register" where
  "simd_zero w = replicate w (Fin 0)"

function simd_strided :: "nat \<Rightarrow> (fl \<Rightarrow> fl \<Rightarrow> fl \<Rightarrow> fl) \<Rightarrow> register \<times> register \<times> register \<times> register \<Rightarrow> fl list \<Rightarrow> fl list \<Rightarrow>
    (register \<times> register \<times> register \<times> register) \<times> fl list \<times> fl list" where
  "simd_strided w lane (s0, s1, s2, s3) xs ys =
     (if 0 < w \<and> 4 * w \<le> length xs
      then simd_strided w lane
             (simd_lanes lane s0 xs ys, simd_lanes lane s1 (drop w xs) (drop w ys),
              simd_lanes lane s2 (drop (2 * w) xs) (drop (2 * w) ys),
              simd_lanes lane s3 (drop (3 * w) xs) (drop (3 * w) ys))
             (drop (4 * w) xs) (drop (4 * w) ys)
      else ((s0, s1, s2, s3), xs, ys))"
  by pat_completeness auto
termination
  by (relation "measure (\<lambda>(w, lane, acc, xs, ys). length xs)") auto

function simd_blocks :: "nat \<Rightarrow> (fl \<Rightarrow> fl \<Rightarrow> fl \<Rightarrow> fl) \<Rightarrow> register \<Rightarrow> fl list \<Rightarrow> fl list \<Rightarrow>
    register \<times> fl list \<times> fl list" where
  "simd_blocks w lane s xs ys =
     (if 0 < w \<and> w \<le> length xs then simd_blocks w lane (simd_lanes lane s xs ys) (drop w xs) (drop w ys)
      else (s, xs, ys))"
  by pat_completeness auto
termination
  by (relation "measure (\<lambda>(w, lane, acc, xs, ys). length xs)") auto

declare simd_strided.simps [simp del] simd_blocks.simps [simp del]

lemma simd_strided_done:
  "\<not> (0 < w \<and> 4 * w \<le> length xs) \<Longrightarrow> simd_strided w lane (s0, s1, s2, s3) xs ys = ((s0, s1, s2, s3), xs, ys)"
  by (subst simd_strided.simps) (simp only: if_False)

lemma simd_blocks_done: "\<not> (0 < w \<and> w \<le> length xs) \<Longrightarrow> simd_blocks w lane s xs ys = (s, xs, ys)"
  by (subst simd_blocks.simps) (simp only: if_False)

definition HorizontalSumAVX2 :: "register \<Rightarrow> fl" where
  "HorizontalSumAVX2 v =
     (let s = simd_add (take 4 v) (drop 4 v)
      in fl_add F32 (fl_add F32 (s ! 0) (s ! 1)) (fl_add F32 (s ! 2) (s ! 3)))"

text \<open>The sum of four lanes: in pairs of neighbours on AArch64, of the two halves on ARMv7.\<close>

definition HorizontalSumNEON :: "bool \<Rightarrow> register \<Rightarrow> fl" where
  "HorizontalSumNEON aarch64 v =
     (if aarch64 then fl_add F32 (fl_add F32 (v ! 0) (v ! 1)) (fl_add F32 (v ! 2) (v ! 3))
      else let p = simd_add (take 2 v) (drop 2 v) in fl_add F32 (p ! 0) (p ! 1))"

definition unrolled_sum :: "nat \<Rightarrow> (register \<Rightarrow> fl) \<Rightarrow> (fl \<Rightarrow> fl \<Rightarrow> fl \<Rightarrow> fl) \<Rightarrow> fl list \<Rightarrow> fl list \<Rightarrow> fl" where
  "unrolled_sum w hsum lane a b =
     (let ((s0, s1, s2, s3), xs, ys) = simd_strided w lane (simd_zero w, simd_zero w, simd_zero w, simd_zero w) a b;
          (s0, xs, ys) = simd_blocks w lane s0 xs ys
      in scalar_sum lane (hsum (simd_add (simd_add s0 s1) (simd_add s2 s3))) xs ys)"

definition blocked_sum :: "nat \<Rightarrow> (register \<Rightarrow> fl) \<Rightarrow> (fl \<Rightarrow> fl \<Rightarrow> fl \<Rightarrow> fl) \<Rightarrow> fl list \<Rightarrow> fl list \<Rightarrow> fl" where
  "blocked_sum w hsum lane a b =
     (let (s, xs, ys) = simd_blocks w lane (simd_zero w) a b in scalar_sum lane (hsum s) xs ys)"

definition DotProductAVX2 :: "bool \<Rightarrow> fl list \<Rightarrow> fl list \<Rightarrow> fl" where
  "DotProductAVX2 fused a b = unrolled_sum 8 HorizontalSumAVX2 (dot_lane fused) a b"

definition L2NormAVX2 :: "bool \<Rightarrow> fl list \<Rightarrow> fl" where
  "L2NormAVX2 fused v = fl_sqrt F32 (unrolled_sum 8 HorizontalSumAVX2 (dot_lane fused) v v)"

definition L2DistanceAVX2 :: "bool \<Rightarrow> fl list \<Rightarrow> fl list \<Rightarrow> fl" where
  "L2DistanceAVX2 fused a b = fl_sqrt F32 (unrolled_sum 8 HorizontalSumAVX2 (diff_lane fused) a b)"

definition DotProductNEON :: "bool \<Rightarrow> bool \<Rightarrow> fl list \<Rightarrow> fl list \<Rightarrow> fl" where
  "DotProductNEON aarch64 fused a b = unrolled_sum 4 (HorizontalSumNEON aarch64) (dot_lane fused) a b"

definition L2NormNEON :: "bool \<Rightarrow> bool \<Rightarrow> fl list \<Rightarrow> fl" where
  "L2NormNEON aarch64 fused v = fl_sqrt F32 (blocked_sum 4 (HorizontalSumNEON aarch64) (dot_lane fused) v v)"

definition L2DistanceNEON :: "bool \<Rightarrow> bool \<Rightarrow> fl list \<Rightarrow> fl list \<Rightarrow> fl" where
  "L2DistanceNEON aarch64 fused a b = fl_sqrt F32 (blocked_sum 4 (HorizontalSumNEON aarch64) (diff_lane fused) a b)"

subsection \<open>Selection at run time\<close>

record DistanceFunctions =
  dot_product :: "fl list \<Rightarrow> fl list \<Rightarrow> fl"
  l2_norm :: "fl list \<Rightarrow> fl"
  l2_distance :: "fl list \<Rightarrow> fl list \<Rightarrow> fl"
  implementation_name :: string

record CpuInfo =
  arch_name :: string
  has_avx2 :: bool
  has_neon :: bool

datatype arch = X86_64 | AArch64 | Arm32 | OtherArch

record build =
  target_arch :: arch
  avx2_macro :: bool  \<comment> \<open>\<^verbatim>\<open>__AVX2__\<close>\<close>
  neon_macro :: bool  \<comment> \<open>\<^verbatim>\<open>__ARM_NEON\<close>\<close>
  gnu_compiler :: bool
  contracts :: bool

definition DetectCpuFeatures :: "build \<Rightarrow> bool \<Rightarrow> CpuInfo" where
  "DetectCpuFeatures bd cpu_supports_avx2 =
     (case target_arch bd of
        X86_64 \<Rightarrow> \<lparr>arch_name = ''x86_64'',
                  has_avx2 = (avx2_macro bd \<and> (gnu_compiler bd \<longrightarrow> cpu_supports_avx2)), has_neon = False\<rparr>
      | AArch64 \<Rightarrow> \<lparr>arch_name = ''ARM64'', has_avx2 = False, has_neon = neon_macro bd\<rparr>
      | Arm32 \<Rightarrow> \<lparr>arch_name = ''ARM32'', has_avx2 = False, has_neon = neon_macro bd\<rparr>
      | OtherArch \<Rightarrow> \<lparr>arch_name = ''Unknown'', has_avx2 = False, has_neon = False\<rparr>)"

definition GetOptimalImpl :: "build \<Rightarrow> bool \<Rightarrow> DistanceFunctions" where
  "GetOptimalImpl bd cpu_supports_avx2 =
     (let cpu = DetectCpuFeatures bd cpu_supports_avx2; fused = contracts bd; a64 = (target_arch bd = AArch64)
      in if avx2_macro bd \<and> has_avx2 cpu
         then \<lparr>dot_product = DotProductAVX2 fused, l2_norm = L2NormAVX2 fused,
               l2_distance = L2DistanceAVX2 fused, implementation_name = ''AVX2''\<rparr>
         else if neon_macro bd \<and> has_neon cpu
         then \<lparr>dot_product = DotProductNEON a64 fused, l2_norm = L2NormNEON a64 fused,
               l2_distance = L2DistanceNEON a64 fused, implementation_name = ''NEON''\<rparr>
         else \<lparr>dot_product = DotProductScalar fused, l2_norm = L2NormScalar fused,
               l2_distance = L2DistanceScalar fused, implementation_name = ''Scalar''\<rparr>)"

subsection \<open>Distances of vectors\<close>

definition kNormEpsilon :: fl where
  "kNormEpsilon = fl_round F32 (1 / 10 ^ 7)"

definition DotProduct :: "DistanceFunctions \<Rightarrow> fl list \<Rightarrow> fl list \<Rightarrow> fl" where
  "DotProduct impl lhs rhs =
     (if length lhs \<noteq> length rhs \<or> lhs = [] then Fin 0 else dot_product impl lhs rhs)"

definition L2Norm :: "DistanceFunctions \<Rightarrow> fl list \<Rightarrow> fl" where
  "L2Norm impl vec = (if vec = [] then Fin 0 else l2_norm impl vec)"

definition CosineDistanceRaw :: "DistanceFunctions \<Rightarrow> fl list \<Rightarrow> fl list \<Rightarrow> fl" where
  "CosineDistanceRaw impl a b =
     (let dot = dot_product impl a b; norm_a = l2_norm impl a; norm_b = l2_norm impl b
      in if fl_less norm_a kNormEpsilon \<or> fl_less norm_b kNormEpsilon then Fin 0
         else fl_div F32 dot (fl_mul F32 norm_a norm_b))"

definition DotProductRaw :: "DistanceFunctions \<Rightarrow> fl list \<Rightarrow> fl list \<Rightarrow> fl" where
  "DotProductRaw impl a b = dot_product impl a b"

definition L2SimilarityRaw :: "DistanceFunctions \<Rightarrow> fl list \<Rightarrow> fl list \<Rightarrow> fl" where
  "L2SimilarityRaw impl a b = fl_div F32 (Fin 1) (fl_add F32 (Fin 1) (l2_distance impl a b))"

definition GetDistanceFunc :: "DistanceFunctions \<Rightarrow> string \<Rightarrow> fl list \<Rightarrow> fl list \<Rightarrow> fl" where
  "GetDistanceFunc impl metric =
     (if metric = ''dot'' then DotProductRaw impl
      else if metric = ''l2'' then L2SimilarityRaw impl
      else CosineDistanceRaw impl)"

definition CosineSimilarity :: "DistanceFunctions \<Rightarrow> fl list \<Rightarrow> fl list \<Rightarrow> fl" where
  "CosineSimilarity impl lhs rhs =
     (if length lhs \<noteq> length rhs \<or> lhs = [] then Fin 0
      else let dot = dot_product impl lhs rhs; norm_lhs = l2_norm impl lhs; norm_rhs = l2_norm impl rhs
           in if fl_less norm_lhs kNormEpsilon \<or> fl_less norm_rhs kNormEpsilon then Fin 0
              else fl_div F32 dot (fl_mul F32 norm_lhs norm_rhs))"

definition CosineSimilarityPreNorm :: "DistanceFunctions \<Rightarrow> fl list \<Rightarrow> fl list \<Rightarrow> fl \<Rightarrow> fl \<Rightarrow> fl" where
  "CosineSimilarityPreNorm impl lhs rhs norm_lhs norm_rhs =
     (if fl_less norm_lhs kNormEpsilon \<or> fl_less norm_rhs kNormEpsilon then Fin 0
      else fl_div F32 (dot_product impl lhs rhs) (fl_mul F32 norm_lhs norm_rhs))"

definition L2Distance :: "DistanceFunctions \<Rightarrow> fl list \<Rightarrow> fl list \<Rightarrow> fl" where
  "L2Distance impl lhs rhs =
     (if length lhs \<noteq> length rhs \<or> lhs = [] then Fin 0 else l2_distance impl lhs rhs)"

definition Normalize :: "DistanceFunctions \<Rightarrow> fl list \<Rightarrow> (fl list) option" where
  "Normalize impl vec =
     (let norm = L2Norm impl vec
      in if fl_less norm kNormEpsilon then None else Some (map (\<lambda>v. fl_div F32 v norm) vec))"

definition NormalizedCopy :: "DistanceFunctions \<Rightarrow> fl list \<Rightarrow> fl list" where
  "NormalizedCopy impl vec = (case Normalize impl vec of None \<Rightarrow> [] | Some v \<Rightarrow> v)"

subsection \<open>Integers are exact\<close>

definition fint :: "int \<Rightarrow> fl" where
  "fint k = Fin (of_int k)"

lemma rat_exp_le:
  assumes "0 < x" "x < pow2 (k + 1)"
  shows "rat_exp x \<le> k"
proof (rule ccontr)
  assume "\<not> rat_exp x \<le> k"
  then have "pow2 (k + 1) \<le> pow2 (rat_exp x)" by (intro pow2_mono) simp
  moreover have "pow2 (rat_exp x) \<le> x" using assms(1) rat_exp_bounds by blast
  ultimately show False using assms(2) by linarith
qed

lemma round_half_even_of_int [simp]: "round_half_even (of_int n) = n"
  by (simp add: round_half_even_def Let_def)


lemma fl_round_multiple:
  assumes "z = of_int n * u" "u = pow2 (max (rat_exp \<bar>z\<bar>) (fmt_emin f) - fmt_prec f + 1)" "\<bar>z\<bar> < pow2 (fmt_emax f + 1)"
  shows "fl_round f z = Fin z"
proof -
  have "u \<noteq> 0" using assms(2) pow2_pos by (metis less_irrefl)
  then have "z / u = of_int n" using assms(1) by simp
  then have "of_int (round_half_even (z / u)) * u = z" using assms(1) by simp
  then show ?thesis using assms(3) unfolding fl_round_def Let_def assms(2) [symmetric] by simp
qed

lemma fl_round_int:
  assumes "\<bar>k\<bar> \<le> 2 ^ 24"
  shows "fl_round F32 (of_int k) = fint k"
proof (cases "k = 0 \<or> \<bar>k\<bar> = 2 ^ 24")
  case True
  have big: "fl_round F32 (2 ^ 24) = Fin (2 ^ 24)" "fl_round F32 (- (2 ^ 24)) = Fin (- (2 ^ 24))"
    by (simp_all add: fl_eval)
  from True consider "k = 0" | "k = 2 ^ 24" | "k = - (2 ^ 24)" by linarith
  then show ?thesis using big by cases (simp_all add: fint_def)
next
  case False
  define z :: rat where "z = of_int k"
  define e where "e = max (rat_exp \<bar>z\<bar>) (- 126) - 23"
  have "\<bar>k\<bar> < 2 ^ 24" using assms False by linarith
  then have "of_int \<bar>k\<bar> < (of_int (2 ^ 24) :: rat)" by (simp only: of_int_less_iff)
  then have z: "0 < \<bar>z\<bar>" "\<bar>z\<bar> < 2 ^ 24" using False by (simp_all add: z_def)
  then have "rat_exp \<bar>z\<bar> \<le> 23" by (intro rat_exp_le) (simp_all add: pow2_def)
  then have "e \<le> 0" by (simp add: e_def)
  then have "z = of_int (k * 2 ^ nat (- e)) * pow2 e"
    using pow2_split [of e 0] by (simp add: z_def)
  moreover have "\<bar>z\<bar> < pow2 128" using z(2) by (simp add: pow2_def)
  ultimately show ?thesis
    using fl_round_multiple [of z "k * 2 ^ nat (- e)" "pow2 e" F32] by (simp add: e_def z_def fint_def)
qed


lemma fl_add_fint: "\<bar>a + b\<bar> \<le> 2 ^ 24 \<Longrightarrow> fl_add F32 (fint a) (fint b) = fint (a + b)"
  using fl_round_int [of "a + b"] by (simp add: fint_def)

lemma fl_mul_fint: "\<bar>a * b\<bar> \<le> 2 ^ 24 \<Longrightarrow> fl_mul F32 (fint a) (fint b) = fint (a * b)"
  using fl_round_int [of "a * b"] by (simp add: fint_def)

lemma fl_sub_fint: "\<bar>a - b\<bar> \<le> 2 ^ 24 \<Longrightarrow> fl_sub F32 (fint a) (fint b) = fint (a - b)"
  using fl_round_int [of "a - b"] by (simp add: fint_def fl_sub_def)

lemma fl_mac_fint: "\<bar>s\<bar> + \<bar>x * y\<bar> \<le> 2 ^ 24 \<Longrightarrow> fl_mac fused (fint s) (fint x) (fint y) = fint (s + x * y)"
  using fl_round_int [of "s + x * y"] fl_mul_fint [of x y] fl_add_fint [of s "x * y"]
  by (auto simp: fl_mac_def fint_def)

text \<open>The sum of \<open>g\<close> over two vectors of integers, and the sum of its absolute values.\<close>

definition gsum :: "(int \<Rightarrow> int \<Rightarrow> int) \<Rightarrow> int list \<Rightarrow> int list \<Rightarrow> int" where
  "gsum g xs ys = sum_list (map (\<lambda>(x, y). g x y) (zip xs ys))"

definition gabs :: "(int \<Rightarrow> int \<Rightarrow> int) \<Rightarrow> int list \<Rightarrow> int list \<Rightarrow> int" where
  "gabs g xs ys = sum_list (map (\<lambda>(x, y). \<bar>g x y\<bar>) (zip xs ys))"

abbreviation abs_sum :: "int list \<Rightarrow> int" where
  "abs_sum xs \<equiv> sum_list (map abs xs)"

lemma gsum_Cons [simp]: "gsum g (x # xs) (y # ys) = g x y + gsum g xs ys" "gsum g [] ys = 0" "gsum g xs [] = 0"
  by (simp_all add: gsum_def)

lemma gabs_Cons [simp]: "gabs g (x # xs) (y # ys) = \<bar>g x y\<bar> + gabs g xs ys" "gabs g [] ys = 0" "gabs g xs [] = 0"
  by (simp_all add: gabs_def)

lemma gabs_nonneg: "0 \<le> gabs g xs ys"
  by (auto simp: gabs_def intro!: sum_list_nonneg)

lemma abs_sum_nonneg: "0 \<le> abs_sum xs"
  by (auto intro!: sum_list_nonneg)

lemma gsum_split: "length xs = length ys \<Longrightarrow> gsum g xs ys = gsum g (take n xs) (take n ys) + gsum g (drop n xs) (drop n ys)"
  unfolding gsum_def by (metis append_take_drop_id drop_zip map_append sum_list.append take_zip)

lemma gabs_split: "length xs = length ys \<Longrightarrow> gabs g xs ys = gabs g (take n xs) (take n ys) + gabs g (drop n xs) (drop n ys)"
  unfolding gabs_def by (metis append_take_drop_id drop_zip map_append sum_list.append take_zip)

lemma simd_add_fint:
  "\<lbrakk>length a = length b; abs_sum a + abs_sum b \<le> 2 ^ 24\<rbrakk> \<Longrightarrow>
     \<exists>c. simd_add (map fint a) (map fint b) = map fint c \<and> length c = length a \<and>
         sum_list c = sum_list a + sum_list b \<and> abs_sum c \<le> abs_sum a + abs_sum b"
proof (induction a b rule: list_induct2)
  case (Cons x xs y ys)
  have n: "0 \<le> abs_sum xs" "0 \<le> abs_sum ys" by (rule abs_sum_nonneg)+
  have "abs_sum xs + abs_sum ys \<le> 2 ^ 24" "\<bar>x + y\<bar> \<le> 2 ^ 24" using Cons.prems n by simp_all
  then obtain c where "simd_add (map fint xs) (map fint ys) = map fint c" "length c = length xs"
      "sum_list c = sum_list xs + sum_list ys" "abs_sum c \<le> abs_sum xs + abs_sum ys"
    using Cons.IH by blast
  with fl_add_fint [OF \<open>\<bar>x + y\<bar> \<le> 2 ^ 24\<close>] show ?case
    by (intro exI [of _ "(x + y) # c"]) (simp add: simd_add_def)
qed (simp add: simd_add_def)

text \<open>A horizontal sum of \<open>w\<close> lanes that is exact on integers.\<close>

definition hsum_exact :: "nat \<Rightarrow> (register \<Rightarrow> fl) \<Rightarrow> bool" where
  "hsum_exact w hsum \<longleftrightarrow> (\<forall>acc. length acc = w \<and> abs_sum acc \<le> 2 ^ 24 \<longrightarrow> hsum (map fint acc) = fint (sum_list acc))"

locale exact_lane =
  fixes lane :: "fl \<Rightarrow> fl \<Rightarrow> fl \<Rightarrow> fl" and g :: "int \<Rightarrow> int \<Rightarrow> int"
  assumes exact: "\<bar>s\<bar> + \<bar>g x y\<bar> \<le> 2 ^ 24 \<Longrightarrow> lane (fint s) (fint x) (fint y) = fint (s + g x y)"
begin

lemma scalar_exact:
  "\<lbrakk>length xs = length ys; \<bar>s\<bar> + gabs g xs ys \<le> 2 ^ 24\<rbrakk> \<Longrightarrow>
     scalar_sum lane (fint s) (map fint xs) (map fint ys) = fint (s + gsum g xs ys)"
proof (induction xs ys arbitrary: s rule: list_induct2)
  case (Cons x xs y ys)
  have n: "0 \<le> gabs g xs ys" by (rule gabs_nonneg)
  have "\<bar>s + g x y\<bar> + gabs g xs ys \<le> 2 ^ 24" using Cons.prems n by simp
  moreover have "\<bar>s\<bar> + \<bar>g x y\<bar> \<le> 2 ^ 24" using Cons.prems n by simp
  ultimately show ?case using Cons.IH [of "s + g x y"] exact [of s x y] by (simp add: add.assoc)
qed simp

lemma lanes_exact:
  "\<lbrakk>length acc \<le> length xs; length xs = length ys;
    abs_sum acc + gabs g (take (length acc) xs) (take (length acc) ys) \<le> 2 ^ 24\<rbrakk> \<Longrightarrow>
   \<exists>acc'. simd_lanes lane (map fint acc) (map fint xs) (map fint ys) = map fint acc' \<and> length acc' = length acc \<and>
     sum_list acc' = sum_list acc + gsum g (take (length acc) xs) (take (length acc) ys) \<and>
     abs_sum acc' \<le> abs_sum acc + gabs g (take (length acc) xs) (take (length acc) ys)"
proof (induction acc arbitrary: xs ys)
  case (Cons s acc)
  obtain x xs' y ys' where eq: "xs = x # xs'" "ys = y # ys'"
    using Cons.prems by (cases xs; cases ys) auto
  have n: "0 \<le> abs_sum acc" "0 \<le> gabs g (take (length acc) xs') (take (length acc) ys')"
    by (rule abs_sum_nonneg, rule gabs_nonneg)
  have "abs_sum acc + gabs g (take (length acc) xs') (take (length acc) ys') \<le> 2 ^ 24" "\<bar>s\<bar> + \<bar>g x y\<bar> \<le> 2 ^ 24"
    using Cons.prems n by (simp_all add: eq)
  moreover have "length acc \<le> length xs'" "length xs' = length ys'" using Cons.prems by (simp_all add: eq)
  ultimately obtain acc' where "simd_lanes lane (map fint acc) (map fint xs') (map fint ys') = map fint acc'"
      "length acc' = length acc"
      "sum_list acc' = sum_list acc + gsum g (take (length acc) xs') (take (length acc) ys')"
      "abs_sum acc' \<le> abs_sum acc + gabs g (take (length acc) xs') (take (length acc) ys')"
    using Cons.IH by blast
  with exact [OF \<open>\<bar>s\<bar> + \<bar>g x y\<bar> \<le> 2 ^ 24\<close>] show ?case
    by (intro exI [of _ "(s + g x y) # acc'"]) (simp add: eq simd_lanes_def)
qed (simp add: simd_lanes_def)

lemma blocks_exact:
  "\<lbrakk>length acc = w; length xs = length ys; abs_sum acc + gabs g xs ys \<le> 2 ^ 24\<rbrakk> \<Longrightarrow>
   \<exists>acc' xs' ys'. simd_blocks w lane (map fint acc) (map fint xs) (map fint ys) = (map fint acc', map fint xs', map fint ys') \<and>
     length acc' = w \<and> length xs' = length ys' \<and> sum_list acc' + gsum g xs' ys' = sum_list acc + gsum g xs ys \<and>
     abs_sum acc' + gabs g xs' ys' \<le> abs_sum acc + gabs g xs ys"
proof (induction "length xs" arbitrary: acc xs ys rule: less_induct)
  case less
  show ?case
  proof (cases "0 < w \<and> w \<le> length xs")
    case True
    have n: "0 \<le> gabs g (drop w xs) (drop w ys)" by (rule gabs_nonneg)
    have split: "gsum g xs ys = gsum g (take w xs) (take w ys) + gsum g (drop w xs) (drop w ys)"
      "gabs g xs ys = gabs g (take w xs) (take w ys) + gabs g (drop w xs) (drop w ys)"
      using less.prems(2) by (rule gsum_split, rule gabs_split)
    obtain acc1 where a: "simd_lanes lane (map fint acc) (map fint xs) (map fint ys) = map fint acc1" "length acc1 = w"
        "sum_list acc1 = sum_list acc + gsum g (take w xs) (take w ys)"
        "abs_sum acc1 \<le> abs_sum acc + gabs g (take w xs) (take w ys)"
      using lanes_exact [of acc xs ys] less.prems True split n by auto
    have "abs_sum acc1 + gabs g (drop w xs) (drop w ys) \<le> 2 ^ 24" using a(4) less.prems(3) split by linarith
    moreover have l: "length (drop w xs) < length xs" using True by auto
    moreover have l': "length (drop w xs) = length (drop w ys)" using less.prems(2) by simp
    ultimately obtain acc' xs' ys' where "simd_blocks w lane (map fint acc1) (map fint (drop w xs)) (map fint (drop w ys)) =
        (map fint acc', map fint xs', map fint ys')" "length acc' = w" "length xs' = length ys'"
        "sum_list acc' + gsum g xs' ys' = sum_list acc1 + gsum g (drop w xs) (drop w ys)"
        "abs_sum acc' + gabs g xs' ys' \<le> abs_sum acc1 + gabs g (drop w xs) (drop w ys)"
      using less.hyps [OF l a(2) l'] by blast
    with a split True show ?thesis
      by (intro exI [of _ acc'] exI [of _ xs'] exI [of _ ys']) (simp add: simd_blocks.simps [of w lane "map fint acc"] drop_map)
  next
    case False
    then show ?thesis using less.prems
      by (intro exI [of _ acc] exI [of _ xs] exI [of _ ys]) (simp add: simd_blocks_done)
  qed
qed

text \<open>The lanes of the block that starts at component \<open>n\<close>.\<close>

lemma lanes_exact_at:
  assumes "n + length acc \<le> length xs" "length xs = length ys"
    and "abs_sum acc + gabs g (take (length acc) (drop n xs)) (take (length acc) (drop n ys)) \<le> 2 ^ 24"
  obtains acc' where "simd_lanes lane (map fint acc) (drop n (map fint xs)) (drop n (map fint ys)) = map fint acc'"
    "length acc' = length acc"
    "sum_list acc' = sum_list acc + gsum g (take (length acc) (drop n xs)) (take (length acc) (drop n ys))"
    "abs_sum acc' \<le> abs_sum acc + gabs g (take (length acc) (drop n xs)) (take (length acc) (drop n ys))"
proof -
  have "length acc \<le> length (drop n xs)" "length (drop n xs) = length (drop n ys)" using assms by simp_all
  from lanes_exact [OF this assms(3)] show thesis using that unfolding drop_map by blast
qed

lemma strided_exact:
  "\<lbrakk>length a0 = w; length a1 = w; length a2 = w; length a3 = w; length xs = length ys;
    abs_sum (a0 @ a1 @ a2 @ a3) + gabs g xs ys \<le> 2 ^ 24\<rbrakk> \<Longrightarrow>
   \<exists>b0 b1 b2 b3 xs' ys'. simd_strided w lane (map fint a0, map fint a1, map fint a2, map fint a3) (map fint xs) (map fint ys) =
       ((map fint b0, map fint b1, map fint b2, map fint b3), map fint xs', map fint ys') \<and>
     length b0 = w \<and> length b1 = w \<and> length b2 = w \<and> length b3 = w \<and> length xs' = length ys' \<and>
     sum_list (b0 @ b1 @ b2 @ b3) + gsum g xs' ys' = sum_list (a0 @ a1 @ a2 @ a3) + gsum g xs ys \<and>
     abs_sum (b0 @ b1 @ b2 @ b3) + gabs g xs' ys' \<le> abs_sum (a0 @ a1 @ a2 @ a3) + gabs g xs ys"
proof (induction "length xs" arbitrary: a0 a1 a2 a3 xs ys rule: less_induct)
  case less
  show ?case
  proof (cases "0 < w \<and> 4 * w \<le> length xs")
    case True
    define S where "S = (\<lambda>n. gsum g (take w (drop n xs)) (take w (drop n ys)))"
    define A where "A = (\<lambda>n. gabs g (take w (drop n xs)) (take w (drop n ys)))"
    have step: "gsum g (drop n xs) (drop n ys) = S n + gsum g (drop (n + w) xs) (drop (n + w) ys)"
      "gabs g (drop n xs) (drop n ys) = A n + gabs g (drop (n + w) xs) (drop (n + w) ys)" for n
      using gsum_split [of "drop n xs" "drop n ys" g w] gabs_split [of "drop n xs" "drop n ys" g w] less.prems(5)
      by (simp_all add: S_def A_def add.commute)
    have split: "gsum g xs ys = S 0 + S w + S (2 * w) + S (3 * w) + gsum g (drop (4 * w) xs) (drop (4 * w) ys)"
      "gabs g xs ys = A 0 + A w + A (2 * w) + A (3 * w) + gabs g (drop (4 * w) xs) (drop (4 * w) ys)"
      using step [of 0] step [of w] step [of "2 * w"] step [of "3 * w"]
      by (simp_all add: mult_2 [symmetric])
    have n: "0 \<le> A k" "0 \<le> gabs g (drop k xs) (drop k ys)" "0 \<le> abs_sum l" for k l
      unfolding A_def by (rule gabs_nonneg abs_sum_nonneg)+
    have bound: "abs_sum a0 + A 0 \<le> 2 ^ 24" "abs_sum a1 + A w \<le> 2 ^ 24" "abs_sum a2 + A (2 * w) \<le> 2 ^ 24"
      "abs_sum a3 + A (3 * w) \<le> 2 ^ 24"
      using less.prems(6) split(2) n(1) [of 0] n(1) [of w] n(1) [of "2 * w"] n(1) [of "3 * w"] n(2) [of "4 * w"]
        n(3) [of a0] n(3) [of a1] n(3) [of a2] n(3) [of a3] unfolding map_append sum_list.append by linarith+
    obtain c0 where c0: "simd_lanes lane (map fint a0) (drop 0 (map fint xs)) (drop 0 (map fint ys)) = map fint c0" "length c0 = w"
        "sum_list c0 = sum_list a0 + S 0" "abs_sum c0 \<le> abs_sum a0 + A 0"
      using lanes_exact_at [of 0 a0 xs ys] bound(1) True less.prems unfolding S_def A_def by auto
    obtain c1 where c1: "simd_lanes lane (map fint a1) (drop w (map fint xs)) (drop w (map fint ys)) = map fint c1" "length c1 = w"
        "sum_list c1 = sum_list a1 + S w" "abs_sum c1 \<le> abs_sum a1 + A w"
      using lanes_exact_at [of w a1 xs ys] bound(2) True less.prems unfolding S_def A_def by auto
    obtain c2 where c2: "simd_lanes lane (map fint a2) (drop (2 * w) (map fint xs)) (drop (2 * w) (map fint ys)) = map fint c2"
        "length c2 = w" "sum_list c2 = sum_list a2 + S (2 * w)" "abs_sum c2 \<le> abs_sum a2 + A (2 * w)"
      using lanes_exact_at [of "2 * w" a2 xs ys] bound(3) True less.prems unfolding S_def A_def by auto
    obtain c3 where c3: "simd_lanes lane (map fint a3) (drop (3 * w) (map fint xs)) (drop (3 * w) (map fint ys)) = map fint c3"
        "length c3 = w" "sum_list c3 = sum_list a3 + S (3 * w)" "abs_sum c3 \<le> abs_sum a3 + A (3 * w)"
      using lanes_exact_at [of "3 * w" a3 xs ys] bound(4) True less.prems unfolding S_def A_def by auto
    have l: "length (drop (4 * w) xs) < length xs" using True by auto
    have l': "length (drop (4 * w) xs) = length (drop (4 * w) ys)" using less.prems(5) by simp
    have "abs_sum (c0 @ c1 @ c2 @ c3) + gabs g (drop (4 * w) xs) (drop (4 * w) ys) \<le> 2 ^ 24"
      using less.prems(6) split(2) c0(4) c1(4) c2(4) c3(4) unfolding map_append sum_list.append by linarith
    from less.hyps [OF l c0(2) c1(2) c2(2) c3(2) l' this]
    obtain b0 b1 b2 b3 xs' ys' where b: "simd_strided w lane (map fint c0, map fint c1, map fint c2, map fint c3)
         (map fint (drop (4 * w) xs)) (map fint (drop (4 * w) ys)) =
         ((map fint b0, map fint b1, map fint b2, map fint b3), map fint xs', map fint ys')"
       "length b0 = w" "length b1 = w" "length b2 = w" "length b3 = w" "length xs' = length ys'"
       "sum_list (b0 @ b1 @ b2 @ b3) + gsum g xs' ys' = sum_list (c0 @ c1 @ c2 @ c3) + gsum g (drop (4 * w) xs) (drop (4 * w) ys)"
       "abs_sum (b0 @ b1 @ b2 @ b3) + gabs g xs' ys' \<le> abs_sum (c0 @ c1 @ c2 @ c3) + gabs g (drop (4 * w) xs) (drop (4 * w) ys)"
      by blast
    have "simd_strided w lane (map fint a0, map fint a1, map fint a2, map fint a3) (map fint xs) (map fint ys) =
       ((map fint b0, map fint b1, map fint b2, map fint b3), map fint xs', map fint ys')"
      using b(1) c0(1) c1(1) c2(1) c3(1) True by (simp add: simd_strided.simps [of w lane "map fint a0"] drop_map)
    moreover have "sum_list (b0 @ b1 @ b2 @ b3) + gsum g xs' ys' = sum_list (a0 @ a1 @ a2 @ a3) + gsum g xs ys"
      using b(7) c0(3) c1(3) c2(3) c3(3) split(1) by simp
    moreover have "abs_sum (b0 @ b1 @ b2 @ b3) + gabs g xs' ys' \<le> abs_sum (a0 @ a1 @ a2 @ a3) + gabs g xs ys"
      using b(8) c0(4) c1(4) c2(4) c3(4) split(2) unfolding map_append sum_list.append by linarith
    ultimately show ?thesis using b(2-6) by blast
  next
    case False
    then have "\<not> (0 < w \<and> 4 * w \<le> length (map fint xs))" by simp
    from simd_strided_done [OF this] less.prems(1-5) show ?thesis by blast
  qed
qed

lemma blocked_exact:
  assumes "hsum_exact w hsum" "length xs = length ys" "gabs g xs ys \<le> 2 ^ 24"
  shows "blocked_sum w hsum lane (map fint xs) (map fint ys) = fint (gsum g xs ys)"
proof -
  have z: "simd_zero w = map fint (replicate w 0)" by (simp add: simd_zero_def fint_def)
  obtain acc xs' ys' where b: "simd_blocks w lane (simd_zero w) (map fint xs) (map fint ys) = (map fint acc, map fint xs', map fint ys')"
      "length acc = w" "length xs' = length ys'" "sum_list acc + gsum g xs' ys' = gsum g xs ys"
      "abs_sum acc + gabs g xs' ys' \<le> gabs g xs ys"
    using blocks_exact [of "replicate w 0" w xs ys] assms unfolding z by (auto simp: sum_list_replicate)
  have n: "0 \<le> gabs g xs' ys'" by (rule gabs_nonneg)
  have "\<bar>sum_list acc\<bar> \<le> abs_sum acc" by (rule sum_list_abs)
  then have "\<bar>sum_list acc\<bar> + gabs g xs' ys' \<le> 2 ^ 24" "abs_sum acc \<le> 2 ^ 24" using b(5) assms(3) n by linarith+
  then show ?thesis using b assms(1) scalar_exact [of xs' ys' "sum_list acc"]
    by (simp add: blocked_sum_def hsum_exact_def)
qed

lemma unrolled_exact:
  assumes "hsum_exact w hsum" "length xs = length ys" "gabs g xs ys \<le> 2 ^ 24"
  shows "unrolled_sum w hsum lane (map fint xs) (map fint ys) = fint (gsum g xs ys)"
proof -
  have z: "simd_zero w = map fint (replicate w 0)" by (simp add: simd_zero_def fint_def)
  let ?z = "replicate w (0 :: int)"
  have le: "abs_sum (?z @ ?z @ ?z @ ?z) + gabs g xs ys \<le> 2 ^ 24" using assms(3) by (simp add: sum_list_replicate)
  obtain b0 b1 b2 b3 xs1 ys1 where b:
      "simd_strided w lane (simd_zero w, simd_zero w, simd_zero w, simd_zero w) (map fint xs) (map fint ys) =
       ((map fint b0, map fint b1, map fint b2, map fint b3), map fint xs1, map fint ys1)"
      "length b0 = w" "length b1 = w" "length b2 = w" "length b3 = w" "length xs1 = length ys1"
      "sum_list (b0 @ b1 @ b2 @ b3) + gsum g xs1 ys1 = gsum g xs ys"
      "abs_sum (b0 @ b1 @ b2 @ b3) + gabs g xs1 ys1 \<le> gabs g xs ys"
    using strided_exact [OF _ _ _ _ assms(2) le] unfolding z by (auto simp: sum_list_replicate)
  have n: "0 \<le> abs_sum l" "0 \<le> gabs g us vs" for l us vs by (rule abs_sum_nonneg, rule gabs_nonneg)
  have le: "abs_sum b0 + abs_sum b1 + abs_sum b2 + abs_sum b3 + gabs g xs1 ys1 \<le> 2 ^ 24" using b(8) assms(3) by simp
  then have "abs_sum b0 + gabs g xs1 ys1 \<le> 2 ^ 24" using n(1) [of b1] n(1) [of b2] n(1) [of b3] by linarith
  then obtain c0 xs' ys' where c: "simd_blocks w lane (map fint b0) (map fint xs1) (map fint ys1) = (map fint c0, map fint xs', map fint ys')"
      "length c0 = w" "length xs' = length ys'" "sum_list c0 + gsum g xs' ys' = sum_list b0 + gsum g xs1 ys1"
      "abs_sum c0 + gabs g xs' ys' \<le> abs_sum b0 + gabs g xs1 ys1"
    using blocks_exact [OF b(2) b(6)] by blast
  have le: "abs_sum c0 + abs_sum b1 + abs_sum b2 + abs_sum b3 + gabs g xs' ys' \<le> 2 ^ 24" using c(5) le by linarith
  obtain d where d: "simd_add (map fint c0) (map fint b1) = map fint d" "length d = w"
      "sum_list d = sum_list c0 + sum_list b1" "abs_sum d \<le> abs_sum c0 + abs_sum b1"
    using simd_add_fint [of c0 b1] c(2) b(3) le n(1) [of b2] n(1) [of b3] n(2) [of xs' ys'] by auto
  obtain e where e: "simd_add (map fint b2) (map fint b3) = map fint e" "length e = w"
      "sum_list e = sum_list b2 + sum_list b3" "abs_sum e \<le> abs_sum b2 + abs_sum b3"
    using simd_add_fint [of b2 b3] b(4,5) le n(1) [of c0] n(1) [of b1] n(2) [of xs' ys'] by auto
  obtain f where f: "simd_add (map fint d) (map fint e) = map fint f" "length f = w"
      "sum_list f = sum_list d + sum_list e" "abs_sum f \<le> abs_sum d + abs_sum e"
    using simd_add_fint [of d e] d(2,4) e(2,4) le n(2) [of xs' ys'] by auto
  have "\<bar>sum_list f\<bar> \<le> abs_sum f" by (rule sum_list_abs)
  then have "\<bar>sum_list f\<bar> + gabs g xs' ys' \<le> 2 ^ 24" "abs_sum f \<le> 2 ^ 24"
    using f(4) d(4) e(4) le n(2) [of xs' ys'] by linarith+
  then have "unrolled_sum w hsum lane (map fint xs) (map fint ys) = fint (sum_list f + gsum g xs' ys')"
    using b(1) c(1,3) d(1) e(1) f(1,2) assms(1) scalar_exact [of xs' ys' "sum_list f"]
    by (simp add: unrolled_sum_def hsum_exact_def)
  moreover have "sum_list f + gsum g xs' ys' = gsum g xs ys" using f(3) d(3) e(3) c(4) b(7) by simp
  ultimately show ?thesis by simp
qed

end

lemma length_nat_cases: "length xs = 4 \<Longrightarrow> \<exists>a b c d. xs = [a, b, c, d]" "length xs = 8 \<Longrightarrow> \<exists>a b c d e f g h. xs = [a, b, c, d, e, f, g, h]"
  by (auto simp: length_Suc_conv numeral_eq_Suc)

lemma HorizontalSumNEON_exact: "hsum_exact 4 (HorizontalSumNEON aarch64)"
  unfolding hsum_exact_def
proof (intro allI impI)
  fix acc :: "int list"
  assume "length acc = 4 \<and> abs_sum acc \<le> 2 ^ 24"
  then obtain a b c d where acc: "acc = [a, b, c, d]" and "\<bar>a\<bar> + \<bar>b\<bar> + \<bar>c\<bar> + \<bar>d\<bar> \<le> 2 ^ 24"
    using length_nat_cases(1) [of acc] by (auto simp: add.assoc)
  then have "\<bar>a + b\<bar> \<le> 2 ^ 24" "\<bar>c + d\<bar> \<le> 2 ^ 24" "\<bar>a + c\<bar> \<le> 2 ^ 24" "\<bar>b + d\<bar> \<le> 2 ^ 24"
    "\<bar>(a + b) + (c + d)\<bar> \<le> 2 ^ 24" "\<bar>(a + c) + (b + d)\<bar> \<le> 2 ^ 24" by linarith+
  then show "HorizontalSumNEON aarch64 (map fint acc) = fint (sum_list acc)"
    by (simp add: acc HorizontalSumNEON_def simd_add_def fl_add_fint ac_simps)
qed

lemma abs_sum_prefix:
  assumes "mset xs \<subseteq># mset ys" "abs_sum ys \<le> B"
  shows "\<bar>sum_list xs\<bar> \<le> B"
proof -
  obtain M where "mset ys = mset xs + M" using assms(1) by (auto simp: mset_subset_eq_exists_conv)
  then have "sum_mset (image_mset abs (mset ys)) = abs_sum xs + sum_mset (image_mset abs M)"
    by (simp flip: sum_mset_sum_list)
  moreover have "0 \<le> sum_mset (image_mset abs M)" by (induction M) auto
  moreover have "\<bar>sum_list xs\<bar> \<le> abs_sum xs" by (rule sum_list_abs)
  ultimately show ?thesis using assms(2) by (simp flip: sum_mset_sum_list)
qed

lemma HorizontalSumAVX2_exact: "hsum_exact 8 HorizontalSumAVX2"
  unfolding hsum_exact_def
proof (intro allI impI)
  fix acc :: "int list"
  assume "length acc = 8 \<and> abs_sum acc \<le> 2 ^ 24"
  then obtain a b c d e f g h where acc: "acc = [a, b, c, d, e, f, g, h]"
    and "\<bar>a\<bar> + \<bar>b\<bar> + \<bar>c\<bar> + \<bar>d\<bar> + \<bar>e\<bar> + \<bar>f\<bar> + \<bar>g\<bar> + \<bar>h\<bar> \<le> 2 ^ 24"
    using length_nat_cases(2) [of acc] by (auto simp: add.assoc)
  then have "abs_sum [a, e, b, f, c, g, d, h] \<le> 2 ^ 24" by simp
  note small = abs_sum_prefix [OF _ this]
  have "\<bar>a + e\<bar> \<le> 2 ^ 24" "\<bar>b + f\<bar> \<le> 2 ^ 24" "\<bar>c + g\<bar> \<le> 2 ^ 24" "\<bar>d + h\<bar> \<le> 2 ^ 24"
    "\<bar>(a + e) + (b + f)\<bar> \<le> 2 ^ 24" "\<bar>(c + g) + (d + h)\<bar> \<le> 2 ^ 24"
    "\<bar>((a + e) + (b + f)) + ((c + g) + (d + h))\<bar> \<le> 2 ^ 24"
    using small [of "[a, e]"] small [of "[b, f]"] small [of "[c, g]"] small [of "[d, h]"] small [of "[a, e, b, f]"]
      small [of "[c, g, d, h]"] small [of "[a, e, b, f, c, g, d, h]"] by (simp_all add: add.assoc)
  note eqs = this [THEN fl_add_fint]
  have "HorizontalSumAVX2 (map fint acc) = fint (((a + e) + (b + f)) + ((c + g) + (d + h)))"
    by (simp only: acc HorizontalSumAVX2_def simd_add_def Let_def list.map take_Cons_numeral drop_Cons_numeral eqs)
       (simp add: eqs)
  then show "HorizontalSumAVX2 (map fint acc) = fint (sum_list acc)"
    by (simp add: acc ac_simps)
qed

interpretation dot_exact: exact_lane "dot_lane fused" "(*)" for fused
  by unfold_locales (simp add: dot_lane_def fl_mac_fint)

lemma abs_le_square: "\<bar>d\<bar> \<le> \<bar>d * d\<bar>" for d :: int
  using mult_left_mono [of 1 "\<bar>d\<bar>" "\<bar>d\<bar>"] by (cases "d = 0") (simp_all add: abs_mult)

interpretation diff_exact: exact_lane "diff_lane fused" "\<lambda>x y. (x - y) * (x - y)" for fused
proof
  fix s x y :: int
  assume "\<bar>s\<bar> + \<bar>(x - y) * (x - y)\<bar> \<le> 2 ^ 24"
  then show "diff_lane fused (fint s) (fint x) (fint y) = fint (s + (x - y) * (x - y))"
    using abs_le_square [of "x - y"] by (simp add: diff_lane_def fl_sub_fint fl_mac_fint)
qed

lemmas kernel_exact =
  dot_exact.scalar_exact [where s = 0, simplified] dot_exact.unrolled_exact dot_exact.blocked_exact
  diff_exact.scalar_exact [where s = 0, simplified] diff_exact.unrolled_exact diff_exact.blocked_exact
  HorizontalSumAVX2_exact HorizontalSumNEON_exact


subsection \<open>Properties\<close>

text \<open>
  C27. The optimised kernels compute what the scalar reference computes: on integer components whose
  products (squares, squared differences) add up to at most \<open>2\<^sup>2\<^sup>4\<close> in absolute value, whichever
  implementation the dispatcher selects, in whatever order it adds and whether or not products and
  sums are fused, the dot product is the exact sum, and norm and distance are the square root of
  the exact sum.
\<close>

theorem simd_kernels_exact:
  assumes len: "length xs = length ys"
    and dot: "sum_list (map (\<lambda>(x, y). \<bar>x * y\<bar>) (zip xs ys)) \<le> 2 ^ 24"
    and sq: "sum_list (map (\<lambda>x. x * x) xs) \<le> 2 ^ 24"
    and dist: "sum_list (map (\<lambda>(x, y). (x - y) * (x - y)) (zip xs ys)) \<le> 2 ^ 24"
  shows "dot_product (GetOptimalImpl bd cpu) (map fint xs) (map fint ys) = fint (sum_list (map (\<lambda>(x, y). x * y) (zip xs ys))) \<and>
    l2_norm (GetOptimalImpl bd cpu) (map fint xs) = fl_sqrt F32 (fint (sum_list (map (\<lambda>x. x * x) xs))) \<and>
    l2_distance (GetOptimalImpl bd cpu) (map fint xs) (map fint ys) =
      fl_sqrt F32 (fint (sum_list (map (\<lambda>(x, y). (x - y) * (x - y)) (zip xs ys))))"
proof -
  have self: "gsum (*) xs xs = sum_list (map (\<lambda>x. x * x) xs)" "gabs (*) xs xs = sum_list (map (\<lambda>x. x * x) xs)"
    by (induction xs) simp_all
  have d: "gabs (*) xs ys \<le> 2 ^ 24" "gabs (*) xs xs \<le> 2 ^ 24" "gabs (\<lambda>x y. (x - y) * (x - y)) xs ys \<le> 2 ^ 24"
    using dot sq dist by (simp_all add: self) (simp_all add: gabs_def)
  note zero = fint_def [of 0, simplified, symmetric]
  have "dot_product (GetOptimalImpl bd cpu) (map fint xs) (map fint ys) = fint (gsum (*) xs ys)"
    using len d(1) by (simp add: GetOptimalImpl_def Let_def DotProductAVX2_def DotProductNEON_def DotProductScalar_def zero kernel_exact)
  moreover have "l2_norm (GetOptimalImpl bd cpu) (map fint xs) = fl_sqrt F32 (fint (gsum (*) xs xs))"
    using d(2) by (simp add: GetOptimalImpl_def Let_def L2NormAVX2_def L2NormNEON_def L2NormScalar_def zero kernel_exact)
  moreover have "l2_distance (GetOptimalImpl bd cpu) (map fint xs) (map fint ys) =
      fl_sqrt F32 (fint (gsum (\<lambda>x y. (x - y) * (x - y)) xs ys))"
    using len d(3) by (simp add: GetOptimalImpl_def Let_def L2DistanceAVX2_def L2DistanceNEON_def L2DistanceScalar_def zero kernel_exact)
  ultimately show ?thesis by (simp add: self) (simp add: gsum_def)
qed

theorem simd_kernels_exact_witness:
  "l2_norm (GetOptimalImpl \<lparr>target_arch = X86_64, avx2_macro = True, neon_macro = False, gnu_compiler = True, contracts = False\<rparr> True)
     (map fint [3, 4, 0, 0, 0, 0, 0, 0, 0]) = fl_sqrt F32 (fint 25)"
  using simd_kernels_exact [of "[3, 4, 0, 0, 0, 0, 0, 0, 0]" "[3, 4, 0, 0, 0, 0, 0, 0, 0]"
      "\<lparr>target_arch = X86_64, avx2_macro = True, neon_macro = False, gnu_compiler = True, contracts = False\<rparr>" True]
  by simp

end
