(* ===== verification/Errors.thy ===== *)
theory Errors
  imports Prelude
begin

text \<open>
  The error values of \<^verbatim>\<open>src/src/utils/error.h\<close> and the result type of
  \<^verbatim>\<open>src/src/utils/expected.h\<close>.  \<^verbatim>\<open>ErrorCode\<close> is a scoped enumeration over
  \<^verbatim>\<open>uint16_t\<close>, so its values are the 16-bit words and the enumerators are named words; a word
  that is no enumerator takes the \<^verbatim>\<open>default\<close> branch of \<^verbatim>\<open>ErrorCodeToString\<close>.
  \<^verbatim>\<open>Expected<T, Error>\<close> is the sum type with \<open>Inl\<close> the error.
\<close>

type_synonym ErrorCode = "16 word"

text \<open>The enumerators, with the numbers the source gives them.\<close>

abbreviation kSuccess :: ErrorCode where "kSuccess \<equiv> 0"
abbreviation kUnknown :: ErrorCode where "kUnknown \<equiv> 1"
abbreviation kInvalidArgument :: ErrorCode where "kInvalidArgument \<equiv> 2"
abbreviation kOutOfRange :: ErrorCode where "kOutOfRange \<equiv> 3"
abbreviation kNotImplemented :: ErrorCode where "kNotImplemented \<equiv> 4"
abbreviation kInternalError :: ErrorCode where "kInternalError \<equiv> 5"
abbreviation kIOError :: ErrorCode where "kIOError \<equiv> 6"
abbreviation kPermissionDenied :: ErrorCode where "kPermissionDenied \<equiv> 7"
abbreviation kNotFound :: ErrorCode where "kNotFound \<equiv> 8"
abbreviation kAlreadyExists :: ErrorCode where "kAlreadyExists \<equiv> 9"
abbreviation kTimeout :: ErrorCode where "kTimeout \<equiv> 10"
abbreviation kCancelled :: ErrorCode where "kCancelled \<equiv> 11"
abbreviation kConfigFileNotFound :: ErrorCode where "kConfigFileNotFound \<equiv> 1000"
abbreviation kConfigParseError :: ErrorCode where "kConfigParseError \<equiv> 1001"
abbreviation kConfigValidationError :: ErrorCode where "kConfigValidationError \<equiv> 1002"
abbreviation kConfigMissingRequired :: ErrorCode where "kConfigMissingRequired \<equiv> 1003"
abbreviation kConfigInvalidValue :: ErrorCode where "kConfigInvalidValue \<equiv> 1004"
abbreviation kConfigSchemaError :: ErrorCode where "kConfigSchemaError \<equiv> 1005"
abbreviation kConfigYamlError :: ErrorCode where "kConfigYamlError \<equiv> 1006"
abbreviation kConfigJsonError :: ErrorCode where "kConfigJsonError \<equiv> 1007"
abbreviation kEventStoreError :: ErrorCode where "kEventStoreError \<equiv> 2000"
abbreviation kEventCtxBufferFull :: ErrorCode where "kEventCtxBufferFull \<equiv> 2001"
abbreviation kEventInvalidScore :: ErrorCode where "kEventInvalidScore \<equiv> 2002"
abbreviation kEventCtxNotFound :: ErrorCode where "kEventCtxNotFound \<equiv> 2003"
abbreviation kEventDecayFailed :: ErrorCode where "kEventDecayFailed \<equiv> 2004"
abbreviation kEventCoOccurrenceError :: ErrorCode where "kEventCoOccurrenceError \<equiv> 2005"
abbreviation kCommandSyntaxError :: ErrorCode where "kCommandSyntaxError \<equiv> 3000"
abbreviation kCommandInvalidToken :: ErrorCode where "kCommandInvalidToken \<equiv> 3001"
abbreviation kCommandUnexpectedToken :: ErrorCode where "kCommandUnexpectedToken \<equiv> 3002"
abbreviation kCommandMissingArgument :: ErrorCode where "kCommandMissingArgument \<equiv> 3003"
abbreviation kCommandInvalidArgument :: ErrorCode where "kCommandInvalidArgument \<equiv> 3004"
abbreviation kCommandTooLong :: ErrorCode where "kCommandTooLong \<equiv> 3005"
abbreviation kCommandUnknown :: ErrorCode where "kCommandUnknown \<equiv> 3006"
abbreviation kCommandInvalidTopK :: ErrorCode where "kCommandInvalidTopK \<equiv> 3007"
abbreviation kCommandInvalidMode :: ErrorCode where "kCommandInvalidMode \<equiv> 3008"
abbreviation kCommandInvalidVector :: ErrorCode where "kCommandInvalidVector \<equiv> 3009"
abbreviation kCommandParseError :: ErrorCode where "kCommandParseError \<equiv> 3010"
abbreviation kVectorDimensionMismatch :: ErrorCode where "kVectorDimensionMismatch \<equiv> 4000"
abbreviation kVectorNotFound :: ErrorCode where "kVectorNotFound \<equiv> 4001"
abbreviation kVectorInvalidDimension :: ErrorCode where "kVectorInvalidDimension \<equiv> 4002"
abbreviation kVectorStoreFull :: ErrorCode where "kVectorStoreFull \<equiv> 4003"
abbreviation kVectorStoreError :: ErrorCode where "kVectorStoreError \<equiv> 4004"
abbreviation kSimilaritySearchFailed :: ErrorCode where "kSimilaritySearchFailed \<equiv> 4010"
abbreviation kSimilarityInvalidMode :: ErrorCode where "kSimilarityInvalidMode \<equiv> 4011"
abbreviation kSimilarityNoResults :: ErrorCode where "kSimilarityNoResults \<equiv> 4012"
abbreviation kSimilarityComputeError :: ErrorCode where "kSimilarityComputeError \<equiv> 4013"
abbreviation kStorageFileNotFound :: ErrorCode where "kStorageFileNotFound \<equiv> 5000"
abbreviation kStorageReadError :: ErrorCode where "kStorageReadError \<equiv> 5001"
abbreviation kStorageWriteError :: ErrorCode where "kStorageWriteError \<equiv> 5002"
abbreviation kStorageCorrupted :: ErrorCode where "kStorageCorrupted \<equiv> 5003"
abbreviation kStorageCRCMismatch :: ErrorCode where "kStorageCRCMismatch \<equiv> 5004"
abbreviation kStorageVersionMismatch :: ErrorCode where "kStorageVersionMismatch \<equiv> 5005"
abbreviation kStorageCompressionFailed :: ErrorCode where "kStorageCompressionFailed \<equiv> 5006"
abbreviation kStorageDecompressionFailed :: ErrorCode where "kStorageDecompressionFailed \<equiv> 5007"
abbreviation kStorageInvalidFormat :: ErrorCode where "kStorageInvalidFormat \<equiv> 5008"
abbreviation kStorageSnapshotBuildFailed :: ErrorCode where "kStorageSnapshotBuildFailed \<equiv> 5009"
abbreviation kStorageDocIdExhausted :: ErrorCode where "kStorageDocIdExhausted \<equiv> 5010"
abbreviation kStorageDumpReadError :: ErrorCode where "kStorageDumpReadError \<equiv> 5011"
abbreviation kStorageDumpWriteError :: ErrorCode where "kStorageDumpWriteError \<equiv> 5012"
abbreviation kSnapshotSaveFailed :: ErrorCode where "kSnapshotSaveFailed \<equiv> 5013"
abbreviation kSnapshotLoadFailed :: ErrorCode where "kSnapshotLoadFailed \<equiv> 5014"
abbreviation kSnapshotVerifyFailed :: ErrorCode where "kSnapshotVerifyFailed \<equiv> 5015"
abbreviation kSnapshotInfoFailed :: ErrorCode where "kSnapshotInfoFailed \<equiv> 5016"
abbreviation kSnapshotForkFailed :: ErrorCode where "kSnapshotForkFailed \<equiv> 5020"
abbreviation kSnapshotAlreadyInProgress :: ErrorCode where "kSnapshotAlreadyInProgress \<equiv> 5021"
abbreviation kSnapshotChildFailed :: ErrorCode where "kSnapshotChildFailed \<equiv> 5022"
abbreviation kWalWriteError :: ErrorCode where "kWalWriteError \<equiv> 5030"
abbreviation kWalReadError :: ErrorCode where "kWalReadError \<equiv> 5031"
abbreviation kWalCRCMismatch :: ErrorCode where "kWalCRCMismatch \<equiv> 5032"
abbreviation kWalCorrupted :: ErrorCode where "kWalCorrupted \<equiv> 5033"
abbreviation kWalRotationFailed :: ErrorCode where "kWalRotationFailed \<equiv> 5034"
abbreviation kWalReplayFailed :: ErrorCode where "kWalReplayFailed \<equiv> 5035"
abbreviation kWalTruncateFailed :: ErrorCode where "kWalTruncateFailed \<equiv> 5036"
abbreviation kWalNotOpen :: ErrorCode where "kWalNotOpen \<equiv> 5037"
abbreviation kNetworkBindFailed :: ErrorCode where "kNetworkBindFailed \<equiv> 6000"
abbreviation kNetworkListenFailed :: ErrorCode where "kNetworkListenFailed \<equiv> 6001"
abbreviation kNetworkAcceptFailed :: ErrorCode where "kNetworkAcceptFailed \<equiv> 6002"
abbreviation kNetworkConnectionRefused :: ErrorCode where "kNetworkConnectionRefused \<equiv> 6003"
abbreviation kNetworkConnectionClosed :: ErrorCode where "kNetworkConnectionClosed \<equiv> 6004"
abbreviation kNetworkSendFailed :: ErrorCode where "kNetworkSendFailed \<equiv> 6005"
abbreviation kNetworkReceiveFailed :: ErrorCode where "kNetworkReceiveFailed \<equiv> 6006"
abbreviation kNetworkInvalidRequest :: ErrorCode where "kNetworkInvalidRequest \<equiv> 6007"
abbreviation kNetworkProtocolError :: ErrorCode where "kNetworkProtocolError \<equiv> 6008"
abbreviation kNetworkIPNotAllowed :: ErrorCode where "kNetworkIPNotAllowed \<equiv> 6009"
abbreviation kNetworkServerNotStarted :: ErrorCode where "kNetworkServerNotStarted \<equiv> 6010"
abbreviation kNetworkAlreadyRunning :: ErrorCode where "kNetworkAlreadyRunning \<equiv> 6011"
abbreviation kNetworkSocketCreationFailed :: ErrorCode where "kNetworkSocketCreationFailed \<equiv> 6012"
abbreviation kNetworkInvalidBindAddress :: ErrorCode where "kNetworkInvalidBindAddress \<equiv> 6013"
abbreviation kNetworkUnixSocketPathTooLong :: ErrorCode where "kNetworkUnixSocketPathTooLong \<equiv> 6014"
abbreviation kNetworkUnixSocketStale :: ErrorCode where "kNetworkUnixSocketStale \<equiv> 6015"
abbreviation kNetworkRateLimited :: ErrorCode where "kNetworkRateLimited \<equiv> 6016"
abbreviation kClientNotConnected :: ErrorCode where "kClientNotConnected \<equiv> 7000"
abbreviation kClientConnectionFailed :: ErrorCode where "kClientConnectionFailed \<equiv> 7001"
abbreviation kClientSendFailed :: ErrorCode where "kClientSendFailed \<equiv> 7002"
abbreviation kClientReceiveFailed :: ErrorCode where "kClientReceiveFailed \<equiv> 7003"
abbreviation kClientInvalidResponse :: ErrorCode where "kClientInvalidResponse \<equiv> 7004"
abbreviation kClientTimeout :: ErrorCode where "kClientTimeout \<equiv> 7005"
abbreviation kClientAlreadyConnected :: ErrorCode where "kClientAlreadyConnected \<equiv> 7006"
abbreviation kClientCommandFailed :: ErrorCode where "kClientCommandFailed \<equiv> 7007"
abbreviation kClientConnectionClosed :: ErrorCode where "kClientConnectionClosed \<equiv> 7008"
abbreviation kClientInvalidArgument :: ErrorCode where "kClientInvalidArgument \<equiv> 7009"
abbreviation kClientServerError :: ErrorCode where "kClientServerError \<equiv> 7010"
abbreviation kClientProtocolError :: ErrorCode where "kClientProtocolError \<equiv> 7011"
abbreviation kCacheMiss :: ErrorCode where "kCacheMiss \<equiv> 8000"
abbreviation kCacheDisabled :: ErrorCode where "kCacheDisabled \<equiv> 8001"
abbreviation kCacheCompressionFailed :: ErrorCode where "kCacheCompressionFailed \<equiv> 8002"
abbreviation kCacheDecompressionFailed :: ErrorCode where "kCacheDecompressionFailed \<equiv> 8003"

text \<open>The \<^verbatim>\<open>switch\<close> of \<^verbatim>\<open>ErrorCodeToString\<close>, as the table of its cases in the source's order.\<close>

definition error_table :: "(ErrorCode \<times> string) list" where
  "error_table = [
     (kSuccess, ''Success''),
     (kUnknown, ''Unknown error''),
     (kInvalidArgument, ''Invalid argument''),
     (kOutOfRange, ''Out of range''),
     (kNotImplemented, ''Not implemented''),
     (kInternalError, ''Internal error''),
     (kIOError, ''I/O error''),
     (kPermissionDenied, ''Permission denied''),
     (kNotFound, ''Not found''),
     (kAlreadyExists, ''Already exists''),
     (kTimeout, ''Timeout''),
     (kCancelled, ''Cancelled''),
     (kConfigFileNotFound, ''Configuration file not found''),
     (kConfigParseError, ''Configuration parse error''),
     (kConfigValidationError, ''Configuration validation error''),
     (kConfigMissingRequired, ''Missing required configuration''),
     (kConfigInvalidValue, ''Invalid configuration value''),
     (kConfigSchemaError, ''JSON schema error''),
     (kConfigYamlError, ''YAML parsing error''),
     (kConfigJsonError, ''JSON parsing error''),
     (kEventStoreError, ''Event store error''),
     (kEventCtxBufferFull, ''Context buffer full''),
     (kEventInvalidScore, ''Invalid score value''),
     (kEventCtxNotFound, ''Context not found''),
     (kEventDecayFailed, ''Event decay failed''),
     (kEventCoOccurrenceError, ''Co-occurrence error''),
     (kCommandSyntaxError, ''Command syntax error''),
     (kCommandInvalidToken, ''Invalid token''),
     (kCommandUnexpectedToken, ''Unexpected token''),
     (kCommandMissingArgument, ''Missing argument''),
     (kCommandInvalidArgument, ''Invalid argument''),
     (kCommandTooLong, ''Command too long''),
     (kCommandUnknown, ''Unknown command''),
     (kCommandInvalidTopK, ''Invalid top_k''),
     (kCommandInvalidMode, ''Invalid mode''),
     (kCommandInvalidVector, ''Invalid vector''),
     (kCommandParseError, ''Command parse error''),
     (kVectorDimensionMismatch, ''Vector dimension mismatch''),
     (kVectorNotFound, ''Vector not found''),
     (kVectorInvalidDimension, ''Invalid vector dimension''),
     (kVectorStoreFull, ''Vector store full''),
     (kVectorStoreError, ''Vector store error''),
     (kSimilaritySearchFailed, ''Similarity search failed''),
     (kSimilarityInvalidMode, ''Invalid similarity mode''),
     (kSimilarityNoResults, ''No similarity results''),
     (kSimilarityComputeError, ''Similarity compute error''),
     (kStorageFileNotFound, ''Storage file not found''),
     (kStorageReadError, ''Storage read error''),
     (kStorageWriteError, ''Storage write error''),
     (kStorageCorrupted, ''Storage corrupted''),
     (kStorageCRCMismatch, ''CRC mismatch''),
     (kStorageVersionMismatch, ''Version mismatch''),
     (kStorageCompressionFailed, ''Compression failed''),
     (kStorageDecompressionFailed, ''Decompression failed''),
     (kStorageInvalidFormat, ''Invalid format''),
     (kStorageSnapshotBuildFailed, ''Snapshot build failed''),
     (kStorageDocIdExhausted, ''DocID exhausted''),
     (kStorageDumpReadError, ''Dump read error''),
     (kStorageDumpWriteError, ''Dump write error''),
     (kSnapshotSaveFailed, ''Snapshot save failed''),
     (kSnapshotLoadFailed, ''Snapshot load failed''),
     (kSnapshotVerifyFailed, ''Snapshot verify failed''),
     (kSnapshotInfoFailed, ''Snapshot info failed''),
     (kSnapshotForkFailed, ''Snapshot fork failed''),
     (kSnapshotAlreadyInProgress, ''Snapshot already in progress''),
     (kSnapshotChildFailed, ''Snapshot child process failed''),
     (kWalWriteError, ''WAL write error''),
     (kWalReadError, ''WAL read error''),
     (kWalCRCMismatch, ''WAL CRC mismatch''),
     (kWalCorrupted, ''WAL corrupted''),
     (kWalRotationFailed, ''WAL rotation failed''),
     (kWalReplayFailed, ''WAL replay failed''),
     (kWalTruncateFailed, ''WAL truncate failed''),
     (kWalNotOpen, ''WAL not open''),
     (kNetworkBindFailed, ''Bind failed''),
     (kNetworkListenFailed, ''Listen failed''),
     (kNetworkAcceptFailed, ''Accept failed''),
     (kNetworkConnectionRefused, ''Connection refused''),
     (kNetworkConnectionClosed, ''Connection closed''),
     (kNetworkSendFailed, ''Send failed''),
     (kNetworkReceiveFailed, ''Receive failed''),
     (kNetworkInvalidRequest, ''Invalid request''),
     (kNetworkProtocolError, ''Protocol error''),
     (kNetworkIPNotAllowed, ''IP not allowed''),
     (kNetworkServerNotStarted, ''Server not started''),
     (kNetworkAlreadyRunning, ''Server already running''),
     (kNetworkSocketCreationFailed, ''Socket creation failed''),
     (kNetworkInvalidBindAddress, ''Invalid bind address''),
     (kNetworkUnixSocketPathTooLong, ''Unix socket path too long''),
     (kNetworkUnixSocketStale, ''Unix socket already in use by another server''),
     (kNetworkRateLimited, ''Rate limited''),
     (kClientNotConnected, ''Not connected''),
     (kClientConnectionFailed, ''Connection failed''),
     (kClientSendFailed, ''Send failed''),
     (kClientReceiveFailed, ''Receive failed''),
     (kClientInvalidResponse, ''Invalid response''),
     (kClientTimeout, ''Timeout''),
     (kClientAlreadyConnected, ''Already connected''),
     (kClientCommandFailed, ''Command failed''),
     (kClientConnectionClosed, ''Connection closed''),
     (kClientInvalidArgument, ''Invalid argument''),
     (kClientServerError, ''Server error''),
     (kClientProtocolError, ''Protocol error''),
     (kCacheMiss, ''Cache miss''),
     (kCacheDisabled, ''Cache disabled''),
     (kCacheCompressionFailed, ''Cache compression failed''),
     (kCacheDecompressionFailed, ''Cache decompression failed'')]"

definition ErrorCodeToString :: "ErrorCode \<Rightarrow> string" where
  "ErrorCodeToString c =
     (case map_of error_table c of Some s \<Rightarrow> s | None \<Rightarrow> ''Unknown error code'')"

record Error =
  err_code :: ErrorCode
  err_message :: string
  err_context :: string

type_synonym 'a expected = "Error + 'a"

definition MakeErrorCode :: "ErrorCode \<Rightarrow> Error" where
  "MakeErrorCode c = \<lparr>err_code = c, err_message = ErrorCodeToString c, err_context = []\<rparr>"

definition MakeError :: "ErrorCode \<Rightarrow> string \<Rightarrow> Error" where
  "MakeError c msg = \<lparr>err_code = c, err_message = msg, err_context = []\<rparr>"

definition is_error :: "Error \<Rightarrow> bool" where
  "is_error e \<longleftrightarrow> err_code e \<noteq> kSuccess"

text \<open>
  \<^verbatim>\<open>Error::to_string\<close>: the code's name and number, then the message and the context when
  they are not empty.  \<open>show_nat\<close> is the decimal notation the stream prints for an \<^verbatim>\<open>int\<close>
  that is not negative.
\<close>

definition to_string :: "Error \<Rightarrow> string" where
  "to_string e =
     ''['' @ ErrorCodeToString (err_code e) @ '' ('' @ show_nat (unat (err_code e)) @ '')]''
     @ (if err_message e \<noteq> [] then '' '' @ err_message e else [])
     @ (if err_context e \<noteq> [] then '' (context: '' @ err_context e @ '')'' else [])"

lemmas error_simps = MakeErrorCode_def MakeError_def is_error_def

lemma MakeError_code [simp]: "err_code (MakeError c msg) = c"
  by (simp add: MakeError_def)

lemma MakeError_message [simp]: "err_message (MakeError c msg) = msg"
  by (simp add: MakeError_def)

text \<open>No two enumerators share a number.\<close>

lemma error_table_increasing: "successively (<) (map fst error_table)"
  by (simp add: error_table_def)

lemma error_table_distinct: "distinct (map fst error_table)"
proof -
  have "sorted_wrt (<) (map fst error_table)"
    using error_table_increasing by (simp add: successively_iff_sorted_wrt_strong)
  then show ?thesis by (simp add: strict_sorted_iff)
qed

end
