(* ===== verification/Config.thy ===== *)
theory Config
  imports Floats Errors
begin

text \<open>
  \<^verbatim>\<open>src/src/config/config.h\<close> and the semantic validation of \<^verbatim>\<open>src/src/config/config.cpp\<close>: the
  configuration structures with their default member initialisers, and \<^verbatim>\<open>ValidateConfig\<close>, the
  last gate every loaded configuration passes.  Reading the YAML file and the JSON-schema check
  are library code and are not modelled.  A \<^verbatim>\<open>double\<close> literal is the nearest double.
\<close>

record EventsConfig =
  ec_ctx_buffer_size :: u32
  ec_max_contexts :: u32
  ec_max_neighbors_per_item :: u32
  ec_min_support :: fl
  ec_decay_interval_sec :: u32
  ec_decay_alpha :: fl
  ec_dedup_window_sec :: u32
  ec_dedup_cache_size :: u32
  ec_temporal_cooccurrence :: bool
  ec_temporal_half_life_sec :: fl
  ec_negative_signals :: bool
  ec_negative_weight :: fl

record VectorsConfig =
  vc_default_dimension :: u32
  vc_distance_metric :: string

record SimilarityConfig =
  sc_default_top_k :: u32
  sc_max_top_k :: u32
  sc_fusion_alpha :: fl
  sc_fusion_beta :: fl
  sc_sample_size :: u32
  sc_adaptive_fusion :: bool
  sc_adaptive_min_alpha :: fl
  sc_adaptive_max_alpha :: fl
  sc_adaptive_maturity_threshold :: u32
  sc_index_type :: string
  sc_ivf_enabled :: bool
  sc_ivf_nlist :: u32
  sc_ivf_nprobe :: u32
  sc_ivf_train_threshold :: u32
  sc_ivf_seal_threshold :: u32
  sc_hnsw_m :: u32
  sc_hnsw_ef_construction :: u32
  sc_hnsw_ef_search :: u32
  sc_hnsw_max_elements :: u32

record SnapshotConfig =
  sn_dir :: string
  sn_default_filename :: string
  sn_interval_sec :: int
  sn_retain :: int
  sn_mode :: string

record PerformanceConfig =
  pf_thread_pool_size :: int
  pf_max_connections :: int
  pf_max_connections_per_ip :: int
  pf_connection_timeout_sec :: int
  pf_recv_buffer_size :: int
  pf_send_buffer_size :: int
  pf_max_query_length :: int
  pf_shutdown_timeout_ms :: int
  pf_reactor_max_total_buffered_bytes :: int

record TcpConfig =
  tcp_bind :: string
  tcp_port :: int

record HttpConfig =
  http_enable :: bool
  http_bind :: string
  http_port :: int
  http_enable_cors :: bool
  http_cors_allow_origin :: string
  http_timeout_sec :: int

record RateLimitConfig =
  rlc_enable :: bool
  rlc_capacity :: int
  rlc_refill_rate :: int
  rlc_max_clients :: int

record ApiConfig =
  api_tcp :: TcpConfig
  api_http :: HttpConfig
  api_unix_socket_path :: string
  api_rate_limiting :: RateLimitConfig

record LoggingConfig =
  lg_level :: string
  lg_json :: bool
  lg_file :: string

record CacheConfig =
  cc_enabled :: bool
  cc_max_memory_bytes :: nat
  cc_min_query_cost_ms :: fl
  cc_ttl_seconds :: int
  cc_compression_enabled :: bool
  cc_eviction_batch_size :: int

record WalConfig =
  wc_enabled :: bool
  wc_dir :: string
  wc_max_file_size :: u64
  wc_sync_on_write :: bool
  wc_sync_interval_ms :: u32
  wc_include_vectors :: bool

record Config =
  cfg_events :: EventsConfig
  cfg_vectors :: VectorsConfig
  cfg_similarity :: SimilarityConfig
  cfg_snapshot :: SnapshotConfig
  cfg_perf :: PerformanceConfig
  cfg_api :: ApiConfig
  cfg_allow_cidrs :: "string list"
  cfg_logging :: LoggingConfig
  cfg_cache :: CacheConfig
  cfg_requirepass :: string
  cfg_wal :: WalConfig

subsection \<open>Defaults\<close>

definition dbl :: "rat \<Rightarrow> fl" where
  "dbl x = fl_round F64 x"

definition default_events :: EventsConfig where
  "default_events =
     \<lparr>ec_ctx_buffer_size = 50, ec_max_contexts = 0, ec_max_neighbors_per_item = 0,
      ec_min_support = Fin 0, ec_decay_interval_sec = 3600, ec_decay_alpha = dbl (99 / 100),
      ec_dedup_window_sec = 60, ec_dedup_cache_size = 10000, ec_temporal_cooccurrence = False,
      ec_temporal_half_life_sec = dbl 86400, ec_negative_signals = False,
      ec_negative_weight = dbl (1 / 2)\<rparr>"

definition default_vectors :: VectorsConfig where
  "default_vectors = \<lparr>vc_default_dimension = 768, vc_distance_metric = ''cosine''\<rparr>"

definition default_similarity :: SimilarityConfig where
  "default_similarity =
     \<lparr>sc_default_top_k = 100, sc_max_top_k = 1000, sc_fusion_alpha = dbl (6 / 10),
      sc_fusion_beta = dbl (4 / 10), sc_sample_size = 10000, sc_adaptive_fusion = False,
      sc_adaptive_min_alpha = dbl (2 / 10), sc_adaptive_max_alpha = dbl (9 / 10),
      sc_adaptive_maturity_threshold = 50, sc_index_type = ''flat'', sc_ivf_enabled = False,
      sc_ivf_nlist = 256, sc_ivf_nprobe = 8, sc_ivf_train_threshold = 10000,
      sc_ivf_seal_threshold = 100000, sc_hnsw_m = 16, sc_hnsw_ef_construction = 200,
      sc_hnsw_ef_search = 50, sc_hnsw_max_elements = 0\<rparr>"

definition default_snapshot :: SnapshotConfig where
  "default_snapshot =
     \<lparr>sn_dir = ''/var/lib/nvecd/snapshots'', sn_default_filename = ''nvecd.snapshot'',
      sn_interval_sec = 0, sn_retain = 3, sn_mode = ''fork''\<rparr>"

definition default_perf :: PerformanceConfig where
  "default_perf =
     \<lparr>pf_thread_pool_size = 8, pf_max_connections = 1000, pf_max_connections_per_ip = 100,
      pf_connection_timeout_sec = 300, pf_recv_buffer_size = 4096, pf_send_buffer_size = 65536,
      pf_max_query_length = 1024 * 1024, pf_shutdown_timeout_ms = 5000,
      pf_reactor_max_total_buffered_bytes = 256 * 1024 * 1024\<rparr>"

definition default_api :: ApiConfig where
  "default_api =
     \<lparr>api_tcp = \<lparr>tcp_bind = ''127.0.0.1'', tcp_port = 11017\<rparr>,
      api_http = \<lparr>http_enable = False, http_bind = ''127.0.0.1'', http_port = 8080,
                  http_enable_cors = False, http_cors_allow_origin = [], http_timeout_sec = 5\<rparr>,
      api_unix_socket_path = [],
      api_rate_limiting = \<lparr>rlc_enable = False, rlc_capacity = 100, rlc_refill_rate = 10,
                           rlc_max_clients = 10000\<rparr>\<rparr>"

definition default_logging :: LoggingConfig where
  "default_logging = \<lparr>lg_level = ''info'', lg_json = True, lg_file = []\<rparr>"

definition default_cache :: CacheConfig where
  "default_cache =
     \<lparr>cc_enabled = True, cc_max_memory_bytes = 32 * 1024 * 1024, cc_min_query_cost_ms = dbl 10,
      cc_ttl_seconds = 3600, cc_compression_enabled = True, cc_eviction_batch_size = 10\<rparr>"

definition default_wal :: WalConfig where
  "default_wal =
     \<lparr>wc_enabled = False, wc_dir = ''/var/lib/nvecd/wal'', wc_max_file_size = 64 * 1024 * 1024,
      wc_sync_on_write = False, wc_sync_interval_ms = 100, wc_include_vectors = True\<rparr>"

definition default_config :: Config where
  "default_config =
     \<lparr>cfg_events = default_events, cfg_vectors = default_vectors,
      cfg_similarity = default_similarity, cfg_snapshot = default_snapshot,
      cfg_perf = default_perf, cfg_api = default_api, cfg_allow_cidrs = [],
      cfg_logging = default_logging, cfg_cache = default_cache, cfg_requirepass = [],
      cfg_wal = default_wal\<rparr>"

subsection \<open>Validation\<close>

text \<open>
  \<^verbatim>\<open>ValidateConfig\<close> is a sequence of guarded returns.  A check is the condition under which the
  code returns an error and the message of that error; the checks run in the source's order and
  the first that applies decides.
\<close>

type_synonym check = "bool \<times> string"

fun run_checks :: "check list \<Rightarrow> unit expected" where
  "run_checks [] = Inr ()"
| "run_checks ((bad, msg) # cs) =
     (if bad then Inl (MakeError kConfigInvalidValue msg) else run_checks cs)"

definition squote :: string where
  "squote = [CHR 0x27]"

definition quoted :: "string \<Rightarrow> string" where
  "quoted s = squote @ s @ squote"

definition check_finite :: "Config \<Rightarrow> check list" where
  "check_finite c = map (\<lambda>(v, name). (\<not> isfinite v, name @ '' must be finite''))
     [(ec_min_support (cfg_events c), ''events.min_support''),
      (ec_decay_alpha (cfg_events c), ''events.decay_alpha''),
      (ec_temporal_half_life_sec (cfg_events c), ''events.temporal_half_life_sec''),
      (ec_negative_weight (cfg_events c), ''events.negative_weight''),
      (sc_fusion_alpha (cfg_similarity c), ''similarity.fusion_alpha''),
      (sc_fusion_beta (cfg_similarity c), ''similarity.fusion_beta''),
      (sc_adaptive_min_alpha (cfg_similarity c), ''similarity.adaptive_min_alpha''),
      (sc_adaptive_max_alpha (cfg_similarity c), ''similarity.adaptive_max_alpha''),
      (cc_min_query_cost_ms (cfg_cache c), ''cache.min_query_cost_ms'')]"

definition outside01 :: "fl \<Rightarrow> bool" where
  "outside01 v \<longleftrightarrow> fl_less v (Fin 0) \<or> fl_less (Fin 1) v"

definition check_events :: "EventsConfig \<Rightarrow> check list" where
  "check_events e =
     [(ec_ctx_buffer_size e = 0, ''events.ctx_buffer_size must be greater than 0''),
      (fl_less (ec_min_support e) (Fin 0), ''events.min_support must not be negative''),
      (outside01 (ec_decay_alpha e), ''events.decay_alpha must be between 0.0 and 1.0''),
      (fl_le (ec_temporal_half_life_sec e) (Fin 0),
         ''events.temporal_half_life_sec must be greater than 0''),
      (outside01 (ec_negative_weight e), ''events.negative_weight must be between 0.0 and 1.0'')]"

definition check_vectors :: "VectorsConfig \<Rightarrow> check list" where
  "check_vectors v =
     [(vc_default_dimension v = 0, ''vectors.default_dimension must be greater than 0''),
      (vc_distance_metric v \<noteq> ''cosine'' \<and> vc_distance_metric v \<noteq> ''dot'' \<and>
         vc_distance_metric v \<noteq> ''l2'',
       ''vectors.distance_metric must be one of: cosine, dot, l2 (got: '' @ vc_distance_metric v @ '')'')]"

definition check_similarity :: "SimilarityConfig \<Rightarrow> check list" where
  "check_similarity s =
     [(sc_default_top_k s = 0, ''similarity.default_top_k must be greater than 0''),
      (sc_max_top_k s < sc_default_top_k s, ''similarity.max_top_k must be >= default_top_k''),
      (outside01 (sc_fusion_alpha s), ''similarity.fusion_alpha must be between 0.0 and 1.0''),
      (outside01 (sc_fusion_beta s), ''similarity.fusion_beta must be between 0.0 and 1.0''),
      (outside01 (sc_adaptive_min_alpha s),
         ''similarity.adaptive_min_alpha must be between 0.0 and 1.0''),
      (outside01 (sc_adaptive_max_alpha s),
         ''similarity.adaptive_max_alpha must be between 0.0 and 1.0''),
      (fl_less (sc_adaptive_max_alpha s) (sc_adaptive_min_alpha s),
         ''similarity.adaptive_min_alpha must be <= adaptive_max_alpha''),
      (sc_adaptive_maturity_threshold s = 0,
         ''similarity.adaptive_maturity_threshold must be greater than 0'')]"

definition check_index :: "SimilarityConfig \<Rightarrow> check list" where
  "check_index s =
     (let idx = sc_index_type s;
          ivf = sc_ivf_enabled s \<or> idx = ''ivf'';
          hnsw = (idx = ''hnsw'')
      in [(idx \<noteq> ''flat'' \<and> idx \<noteq> ''ivf'' \<and> idx \<noteq> ''hnsw'',
           ''similarity.index_type must be '' @ quoted ''flat'' @ '', '' @ quoted ''ivf'' @ '', or ''
             @ quoted ''hnsw'' @ '' (got: '' @ idx @ '')''),
          (ivf \<and> sc_ivf_nprobe s = 0, ''similarity.ivf_nprobe must be greater than 0''),
          (ivf \<and> sc_ivf_train_threshold s = 0,
             ''similarity.ivf_train_threshold must be greater than 0''),
          (ivf \<and> 0 < sc_ivf_nlist s \<and> sc_ivf_nlist s < sc_ivf_nprobe s,
             ''similarity.ivf_nprobe must be <= similarity.ivf_nlist''),
          (hnsw \<and> sc_hnsw_m s < 2, ''similarity.hnsw_m must be >= 2''),
          (hnsw \<and> sc_hnsw_ef_construction s = 0,
             ''similarity.hnsw_ef_construction must be greater than 0''),
          (hnsw \<and> sc_hnsw_ef_search s = 0, ''similarity.hnsw_ef_search must be greater than 0'')])"

definition check_snapshot :: "SnapshotConfig \<Rightarrow> check list" where
  "check_snapshot s =
     [(sn_interval_sec s < 0, ''snapshot.interval_sec must be >= 0 (0 = disabled)''),
      (sn_retain s < 0, ''snapshot.retain must be >= 0''),
      (sn_mode s \<noteq> ''fork'' \<and> sn_mode s \<noteq> ''lock'',
       ''snapshot.mode must be '' @ quoted ''fork'' @ '' or '' @ quoted ''lock'' @ '' (got: ''
         @ sn_mode s @ '')'')]"

definition check_perf :: "PerformanceConfig \<Rightarrow> check list" where
  "check_perf p =
     [(pf_thread_pool_size p < 0, ''performance.thread_pool_size must be >= 0 (0 = auto-detect)''),
      (pf_max_connections p \<le> 0, ''performance.max_connections must be greater than 0''),
      (pf_connection_timeout_sec p \<le> 0, ''performance.connection_timeout_sec must be greater than 0''),
      (pf_recv_buffer_size p < 1024 \<or> 1048576 < pf_recv_buffer_size p,
         ''performance.recv_buffer_size must be between 1024 and 1048576''),
      (pf_send_buffer_size p < 1024 \<or> 16777216 < pf_send_buffer_size p,
         ''performance.send_buffer_size must be between 1024 and 16777216''),
      (pf_max_query_length p < 1024 \<or> 16777216 < pf_max_query_length p,
         ''performance.max_query_length must be between 1024 and 16777216''),
      (pf_shutdown_timeout_ms p < 100 \<or> 60000 < pf_shutdown_timeout_ms p,
         ''performance.shutdown_timeout_ms must be between 100 and 60000''),
      (pf_reactor_max_total_buffered_bytes p < 1024 * 1024 \<or>
         1024 * 1024 * 1024 < pf_reactor_max_total_buffered_bytes p,
       ''performance.reactor_max_total_buffered_bytes must be between 1048576 and 1073741824'')]"

definition kMaxPortNumber :: int where
  "kMaxPortNumber = 65535"

definition check_api :: "ApiConfig \<Rightarrow> check list" where
  "check_api a =
     (let http = api_http a; rl = api_rate_limiting a
      in [(tcp_port (api_tcp a) \<le> 0 \<or> kMaxPortNumber < tcp_port (api_tcp a),
             ''api.tcp.port must be between 1 and 65535''),
          (http_enable http \<and> (http_port http \<le> 0 \<or> kMaxPortNumber < http_port http),
             ''api.http.port must be between 1 and 65535''),
          (http_timeout_sec http < 1 \<or> 300 < http_timeout_sec http,
             ''api.http.timeout_sec must be between 1 and 300''),
          (rlc_enable rl \<and> rlc_capacity rl \<le> 0, ''api.rate_limiting.capacity must be greater than 0''),
          (rlc_enable rl \<and> rlc_refill_rate rl \<le> 0,
             ''api.rate_limiting.refill_rate must be greater than 0''),
          (rlc_enable rl \<and> rlc_max_clients rl \<le> 0,
             ''api.rate_limiting.max_clients must be greater than 0'')])"

definition check_logging :: "LoggingConfig \<Rightarrow> check list" where
  "check_logging l =
     [(lg_level l \<noteq> ''trace'' \<and> lg_level l \<noteq> ''debug'' \<and> lg_level l \<noteq> ''info'' \<and>
         lg_level l \<noteq> ''warn'' \<and> lg_level l \<noteq> ''error'',
       ''logging.level must be one of: trace, debug, info, warn, error (got: '' @ lg_level l @ '')'')]"

definition check_cache :: "CacheConfig \<Rightarrow> check list" where
  "check_cache c =
     [(cc_max_memory_bytes c = 0 \<and> cc_enabled c,
         ''cache.max_memory_mb must be greater than 0 when cache is enabled''),
      (cc_ttl_seconds c < 0, ''cache.ttl_seconds must be >= 0 (0 = no TTL)''),
      (fl_less (cc_min_query_cost_ms c) (Fin 0), ''cache.min_query_cost_ms must be >= 0''),
      (cc_eviction_batch_size c \<le> 0, ''cache.eviction_batch_size must be greater than 0'')]"

definition check_wal :: "WalConfig \<Rightarrow> check list" where
  "check_wal w =
     [(wc_enabled w \<and> wc_dir w = [], ''wal.dir must not be empty when wal.enabled is true'')]"

definition config_checks :: "Config \<Rightarrow> check list" where
  "config_checks c =
     check_finite c @ check_events (cfg_events c) @ check_vectors (cfg_vectors c)
     @ check_similarity (cfg_similarity c) @ check_index (cfg_similarity c)
     @ check_snapshot (cfg_snapshot c) @ check_perf (cfg_perf c) @ check_api (cfg_api c)
     @ check_logging (cfg_logging c) @ check_cache (cfg_cache c) @ check_wal (cfg_wal c)"

definition ValidateConfig :: "Config \<Rightarrow> unit expected" where
  "ValidateConfig c = run_checks (config_checks c)"

subsection \<open>What a validated configuration guarantees\<close>

fun unit_interval :: "fl \<Rightarrow> bool" where
  "unit_interval (Fin x) = (0 \<le> x \<and> x \<le> 1)"
| "unit_interval v = False"

definition events_ok :: "EventsConfig \<Rightarrow> bool" where
  "events_ok e \<longleftrightarrow> 0 < unat (ec_ctx_buffer_size e) \<and>
     (\<exists>x. ec_min_support e = Fin x \<and> 0 \<le> x) \<and> unit_interval (ec_decay_alpha e) \<and>
     (\<exists>x. ec_temporal_half_life_sec e = Fin x \<and> 0 < x) \<and> unit_interval (ec_negative_weight e)"

definition similarity_ok :: "SimilarityConfig \<Rightarrow> bool" where
  "similarity_ok s \<longleftrightarrow> 0 < sc_default_top_k s \<and> sc_default_top_k s \<le> sc_max_top_k s \<and>
     unit_interval (sc_fusion_alpha s) \<and> unit_interval (sc_fusion_beta s) \<and>
     unit_interval (sc_adaptive_min_alpha s) \<and> unit_interval (sc_adaptive_max_alpha s) \<and>
     fl_le (sc_adaptive_min_alpha s) (sc_adaptive_max_alpha s) \<and>
     0 < sc_adaptive_maturity_threshold s \<and> sc_index_type s \<in> {''flat'', ''ivf'', ''hnsw''} \<and>
     (sc_ivf_enabled s \<or> sc_index_type s = ''ivf'' \<longrightarrow>
        0 < sc_ivf_nprobe s \<and> 0 < sc_ivf_train_threshold s \<and>
        (sc_ivf_nlist s = 0 \<or> sc_ivf_nprobe s \<le> sc_ivf_nlist s)) \<and>
     (sc_index_type s = ''hnsw'' \<longrightarrow>
        2 \<le> sc_hnsw_m s \<and> 0 < sc_hnsw_ef_construction s \<and> 0 < sc_hnsw_ef_search s)"

definition runtime_ok :: "Config \<Rightarrow> bool" where
  "runtime_ok c \<longleftrightarrow>
     0 < vc_default_dimension (cfg_vectors c) \<and>
     vc_distance_metric (cfg_vectors c) \<in> {''cosine'', ''dot'', ''l2''} \<and>
     0 \<le> sn_interval_sec (cfg_snapshot c) \<and> 0 \<le> sn_retain (cfg_snapshot c) \<and>
     sn_mode (cfg_snapshot c) \<in> {''fork'', ''lock''} \<and>
     0 \<le> pf_thread_pool_size (cfg_perf c) \<and> 0 < pf_max_connections (cfg_perf c) \<and>
     0 < pf_connection_timeout_sec (cfg_perf c) \<and>
     pf_recv_buffer_size (cfg_perf c) \<in> {1024..1048576} \<and>
     pf_send_buffer_size (cfg_perf c) \<in> {1024..16777216} \<and>
     pf_max_query_length (cfg_perf c) \<in> {1024..16777216} \<and>
     pf_shutdown_timeout_ms (cfg_perf c) \<in> {100..60000} \<and>
     pf_reactor_max_total_buffered_bytes (cfg_perf c) \<in> {1048576..1073741824} \<and>
     tcp_port (api_tcp (cfg_api c)) \<in> {1..65535} \<and>
     (http_enable (api_http (cfg_api c)) \<longrightarrow> http_port (api_http (cfg_api c)) \<in> {1..65535}) \<and>
     http_timeout_sec (api_http (cfg_api c)) \<in> {1..300} \<and>
     (rlc_enable (api_rate_limiting (cfg_api c)) \<longrightarrow>
        0 < rlc_capacity (api_rate_limiting (cfg_api c)) \<and>
        0 < rlc_refill_rate (api_rate_limiting (cfg_api c)) \<and>
        0 < rlc_max_clients (api_rate_limiting (cfg_api c))) \<and>
     lg_level (cfg_logging c) \<in> {''trace'', ''debug'', ''info'', ''warn'', ''error''} \<and>
     (cc_enabled (cfg_cache c) \<longrightarrow> 0 < cc_max_memory_bytes (cfg_cache c)) \<and>
     0 \<le> cc_ttl_seconds (cfg_cache c) \<and> 0 < cc_eviction_batch_size (cfg_cache c) \<and>
     (\<exists>x. cc_min_query_cost_ms (cfg_cache c) = Fin x \<and> 0 \<le> x) \<and>
     (wc_enabled (cfg_wal c) \<longrightarrow> wc_dir (cfg_wal c) \<noteq> [])"

lemma run_checks_ok: "run_checks cs = Inr () \<longleftrightarrow> (\<forall>c \<in> set cs. \<not> fst c)"
  by (induction cs rule: run_checks.induct) auto

lemma run_checks_find:
  "run_checks cs = (case List.find fst cs of
     None \<Rightarrow> Inr () | Some c \<Rightarrow> Inl (MakeError kConfigInvalidValue (snd c)))"
  by (induction cs rule: run_checks.induct) auto

lemma finite_outside01: "isfinite v \<Longrightarrow> outside01 v \<longleftrightarrow> \<not> unit_interval v"
  by (cases v) (auto simp: outside01_def)

lemma unit_interval_finite: "unit_interval v \<Longrightarrow> isfinite v"
  by (cases v) auto

lemma isfinite_iff: "isfinite v \<longleftrightarrow> (\<exists>x. v = Fin x)"
  by (cases v) auto

lemma fl_sign_iff:
  "isfinite v \<and> \<not> fl_less v (Fin 0) \<longleftrightarrow> (\<exists>x. v = Fin x \<and> 0 \<le> x)"
  "isfinite v \<and> \<not> fl_le v (Fin 0) \<longleftrightarrow> (\<exists>x. v = Fin x \<and> 0 < x)"
  by (cases v; auto simp: fl_le_def)+

lemma unit_interval_iff: "isfinite v \<and> \<not> outside01 v \<longleftrightarrow> unit_interval v"
  using finite_outside01 unit_interval_finite by blast

lemma fl_less_le_unit:
  "\<lbrakk>unit_interval v; unit_interval w\<rbrakk> \<Longrightarrow> \<not> fl_less w v \<longleftrightarrow> fl_le v w"
  by (cases v; cases w) (auto simp: fl_le_def)

lemma check_events_iff:
  "isfinite (ec_min_support e) \<and> isfinite (ec_decay_alpha e) \<and>
   isfinite (ec_temporal_half_life_sec e) \<and> isfinite (ec_negative_weight e) \<and>
   (\<forall>x \<in> set (check_events e). \<not> fst x) \<longleftrightarrow> events_ok e"
  unfolding events_ok_def unit_interval_iff [symmetric] fl_sign_iff [symmetric]
  by (auto simp: check_events_def unat_gt_0)

lemma check_similarity_iff:
  "isfinite (sc_fusion_alpha s) \<and> isfinite (sc_fusion_beta s) \<and>
   isfinite (sc_adaptive_min_alpha s) \<and> isfinite (sc_adaptive_max_alpha s) \<and>
   (\<forall>x \<in> set (check_similarity s @ check_index s). \<not> fst x) \<longleftrightarrow> similarity_ok s"
proof (cases "unit_interval (sc_adaptive_min_alpha s) \<and> unit_interval (sc_adaptive_max_alpha s)")
  case True
  then show ?thesis
    using fl_less_le_unit [of "sc_adaptive_min_alpha s" "sc_adaptive_max_alpha s"]
      unit_interval_iff [of "sc_fusion_alpha s"] unit_interval_iff [of "sc_fusion_beta s"]
      unit_interval_iff [of "sc_adaptive_min_alpha s"] unit_interval_iff [of "sc_adaptive_max_alpha s"]
    by (auto simp: check_similarity_def check_index_def similarity_ok_def Let_def word_neq_0_conv
        linorder_not_less)
next
  case False
  then show ?thesis
    using unit_interval_iff [of "sc_adaptive_min_alpha s"] unit_interval_iff [of "sc_adaptive_max_alpha s"]
    by (auto simp: check_similarity_def similarity_ok_def)
qed

lemma check_runtime_iff:
  "isfinite (cc_min_query_cost_ms (cfg_cache c)) \<and>
   (\<forall>x \<in> set (check_vectors (cfg_vectors c) @ check_snapshot (cfg_snapshot c)
     @ check_perf (cfg_perf c) @ check_api (cfg_api c) @ check_logging (cfg_logging c)
     @ check_cache (cfg_cache c) @ check_wal (cfg_wal c)). \<not> fst x) \<longleftrightarrow> runtime_ok c"
  unfolding runtime_ok_def fl_sign_iff [symmetric]
  by (simp add: check_vectors_def check_snapshot_def check_perf_def check_api_def check_logging_def
      check_cache_def check_wal_def Let_def kMaxPortNumber_def word_neq_0_conv linorder_not_less
      linorder_not_le int_one_le_iff_zero_less) argo

lemma check_finite_iff:
  "(\<forall>x \<in> set (check_finite c). \<not> fst x) \<longleftrightarrow>
     (isfinite (ec_min_support (cfg_events c)) \<and> isfinite (ec_decay_alpha (cfg_events c)) \<and>
      isfinite (ec_temporal_half_life_sec (cfg_events c)) \<and>
      isfinite (ec_negative_weight (cfg_events c))) \<and>
     (isfinite (sc_fusion_alpha (cfg_similarity c)) \<and> isfinite (sc_fusion_beta (cfg_similarity c)) \<and>
      isfinite (sc_adaptive_min_alpha (cfg_similarity c)) \<and>
      isfinite (sc_adaptive_max_alpha (cfg_similarity c))) \<and>
     isfinite (cc_min_query_cost_ms (cfg_cache c))"
  by (simp add: check_finite_def conj_assoc)

lemma ValidateConfig_ok_iff:
  "ValidateConfig c = Inr () \<longleftrightarrow>
     events_ok (cfg_events c) \<and> similarity_ok (cfg_similarity c) \<and> runtime_ok c"
  unfolding ValidateConfig_def config_checks_def run_checks_ok set_append ball_Un check_finite_iff
    check_events_iff [symmetric] check_similarity_iff [symmetric] check_runtime_iff [symmetric]
  by argo

subsection \<open>Properties\<close>

text \<open>
  \<^verbatim>\<open>ValidateConfig\<close> accepts a configuration exactly when every section is within the bounds
  the rest of the program relies on: finite weights in their ranges, a positive ring-buffer
  capacity, consistent top-k limits, valid index, snapshot, network, cache and WAL settings.
\<close>

theorem validate_config_iff:
  "ValidateConfig c = Inr () \<longleftrightarrow>
     events_ok (cfg_events c) \<and> similarity_ok (cfg_similarity c) \<and> runtime_ok c"
  by (rule ValidateConfig_ok_iff)

lemmas default_defs = default_config_def default_events_def default_vectors_def
  default_similarity_def default_snapshot_def default_perf_def default_api_def default_logging_def
  default_cache_def default_wal_def

lemma default_events_ok: "events_ok default_events"
  by (simp add: events_ok_def default_events_def dbl_def fl_eval unat_gt_0)

lemma default_similarity_ok: "similarity_ok default_similarity"
  by (simp add: similarity_ok_def default_similarity_def dbl_def fl_eval fl_le_def)

lemma default_runtime_ok: "runtime_ok default_config"
  by (simp add: runtime_ok_def default_defs dbl_def fl_eval)

text \<open>
  The defaults are a configuration the validator accepts, and a rejected configuration is
  reported with the code \<^verbatim>\<open>kConfigInvalidValue\<close> and the message of the first check that fails.
\<close>

theorem validate_config_default_and_errors:
  "ValidateConfig default_config = Inr () \<and>
   (ValidateConfig c = Inl e \<longleftrightarrow>
     (\<exists>k. List.find fst (config_checks c) = Some k \<and> e = MakeError kConfigInvalidValue (snd k)))"
proof -
  have "ValidateConfig default_config = Inr ()"
    using default_events_ok default_similarity_ok default_runtime_ok
    by (simp add: ValidateConfig_ok_iff) (simp add: default_config_def)
  then show ?thesis
    by (auto simp: ValidateConfig_def run_checks_find split: option.splits)
qed

end
