(* ===== verification/KeyValue.thy ===== *)
theory KeyValue
  imports Prelude
begin

text \<open>
  The interface of a keyed store: what a read returns after a write or a deletion.  The item
  metadata and the vectors provide it, and what a run of writes leaves behind is shown once here.
\<close>

datatype ('k, 'v) kv_op = Put 'k 'v | Del 'k

text \<open>What the writes to a key leave: the value of the last one, if it was not a deletion.\<close>

fun kv_last :: "'k \<Rightarrow> ('k, 'v) kv_op list \<Rightarrow> 'v option \<Rightarrow> 'v option" where
  "kv_last k [] v = v"
| "kv_last k (Put k' w # xs) v = kv_last k xs (if k' = k then Some w else v)"
| "kv_last k (Del k' # xs) v = kv_last k xs (if k' = k then None else v)"

locale kv_store =
  fixes inv :: "'s \<Rightarrow> bool"
    and get :: "'s \<Rightarrow> 'k \<Rightarrow> 'v option"
    and put :: "'k \<Rightarrow> 'v \<Rightarrow> 's \<Rightarrow> 's"
    and del :: "'k \<Rightarrow> 's \<Rightarrow> 's"
    and legal :: "'s \<Rightarrow> 'k \<Rightarrow> 'v \<Rightarrow> bool"
  assumes inv_put: "\<lbrakk>inv s; legal s k v\<rbrakk> \<Longrightarrow> inv (put k v s)"
    and inv_del: "inv s \<Longrightarrow> inv (del k s)"
    and get_put: "\<lbrakk>inv s; legal s k v\<rbrakk> \<Longrightarrow> get (put k v s) j = (if j = k then Some v else get s j)"
    and get_del: "inv s \<Longrightarrow> get (del k s) j = (if j = k then None else get s j)"
begin

fun apply_op :: "('k, 'v) kv_op \<Rightarrow> 's \<Rightarrow> 's" where
  "apply_op (Put k v) s = put k v s"
| "apply_op (Del k) s = del k s"

fun legal_run :: "('k, 'v) kv_op list \<Rightarrow> 's \<Rightarrow> bool" where
  "legal_run [] s = True"
| "legal_run (Put k v # xs) s = (legal s k v \<and> legal_run xs (put k v s))"
| "legal_run (Del k # xs) s = legal_run xs (del k s)"

lemma run_keeps: "\<lbrakk>inv s; legal_run xs s\<rbrakk> \<Longrightarrow> inv (fold apply_op xs s)"
proof (induction xs arbitrary: s)
  case (Cons x xs)
  then show ?case by (cases x) (simp_all add: inv_put inv_del)
qed simp

lemma run_get: "\<lbrakk>inv s; legal_run xs s\<rbrakk> \<Longrightarrow> get (fold apply_op xs s) k = kv_last k xs (get s k)"
proof (induction xs arbitrary: s)
  case (Cons x xs)
  then show ?case by (cases x) (simp_all add: inv_put inv_del get_put get_del)
qed simp

end

end
