(* ===== verification/VectorStore.thy ===== *)
theory VectorStore
  imports Distance Config KeyValue Errors "HOL-Library.Monad_Syntax"
begin

text \<open>
  The vector store (\<^verbatim>\<open>src/vectors/vector_store.h\<close>, \<^verbatim>\<open>src/vectors/vector_store.cpp\<close>): vectors in one
  contiguous matrix with tombstones, reuse of slots and defragmentation.

  \<^verbatim>\<open>SetVector\<close> validates and normalises before it takes the lock, so it is two steps here,
  \<open>vs_prepare\<close> and \<open>vs_commit\<close>, and other operations can run between them.  An access out of the
  range of a \<^verbatim>\<open>std::vector\<close> is undefined: such an operation returns \<open>None\<close>.  The counts of slots
  are natural numbers.  The estimate of the memory in use, which depends on the capacities of the
  containers, is not modelled.
\<close>

subsection \<open>State\<close>

definition kMaxVectorDimension :: nat where
  "kMaxVectorDimension = 4096"

record Vector =
  vec_data :: "fl list"
  vec_normalized :: bool

record VectorStore =
  vs_config :: VectorsConfig
  vs_dimension :: nat
  vs_generation :: u64
  vs_matrix :: "fl list"
  vs_norms :: "fl list"
  vs_normalized :: "bool list"
  vs_id_to_idx :: "(string, nat) umap"
  vs_idx_to_id :: "string list"
  vs_deleted :: "bool list"
  vs_free_slots :: "nat list"
  vs_active_count :: nat
  vs_tombstone_count :: nat

definition vs_new :: "VectorsConfig \<Rightarrow> VectorStore" where
  "vs_new config = \<lparr>vs_config = config, vs_dimension = 0, vs_generation = 0, vs_matrix = [], vs_norms = [],
     vs_normalized = [], vs_id_to_idx = [], vs_idx_to_id = [], vs_deleted = [], vs_free_slots = [],
     vs_active_count = 0, vs_tombstone_count = 0\<rparr>"

definition bump_generation :: "VectorStore \<Rightarrow> VectorStore" where
  "bump_generation s = s\<lparr>vs_generation := vs_generation s + 1\<rparr>"

subsection \<open>Arrays\<close>

definition set_at :: "nat \<Rightarrow> 'a \<Rightarrow> 'a list \<Rightarrow> 'a list option" where
  "set_at i x xs = (if i < length xs then Some (xs[i := x]) else None)"

definition get_at :: "nat \<Rightarrow> 'a list \<Rightarrow> 'a option" where
  "get_at i xs = (if i < length xs then Some (xs ! i) else None)"

text \<open>\<^verbatim>\<open>std::copy\<close> into and out of the row of the matrix that starts at \<open>i * dimn\<close>.\<close>

definition write_row :: "nat \<Rightarrow> nat \<Rightarrow> 'a list \<Rightarrow> 'a list \<Rightarrow> 'a list option" where
  "write_row dimn i data m =
     (if i * dimn + length data \<le> length m
      then Some (take (i * dimn) m @ data @ drop (i * dimn + length data) m) else None)"

definition read_row :: "nat \<Rightarrow> nat \<Rightarrow> 'a list \<Rightarrow> 'a list option" where
  "read_row dimn i m = (if i * dimn + dimn \<le> length m then Some (take dimn (drop (i * dimn) m)) else None)"

subsection \<open>Writing\<close>

definition dimension_mismatch :: "nat \<Rightarrow> nat \<Rightarrow> Error" where
  "dimension_mismatch dimn n = MakeError kVectorDimensionMismatch
     (''Vector dimension mismatch: expected '' @ show_nat dimn @ '', got '' @ show_nat n)"

definition ValidateVector :: "DistanceFunctions \<Rightarrow> string \<Rightarrow> fl list \<Rightarrow> VectorStore \<Rightarrow> unit expected" where
  "ValidateVector impl vector_id vec s =
     (if vector_id = [] then Inl (MakeError kInvalidArgument ''ID cannot be empty'')
      else if vec = [] then Inl (MakeError kInvalidArgument ''Vector cannot be empty'')
      else if kMaxVectorDimension < length vec
      then Inl (MakeError kVectorDimensionMismatch
             (''Vector dimension exceeds maximum of '' @ show_nat kMaxVectorDimension))
      else if \<not> list_all isfinite vec then Inl (MakeError kInvalidArgument ''Vector components must be finite'')
      else if \<not> isfinite (l2_norm impl vec) then Inl (MakeError kInvalidArgument ''Vector norm must be finite'')
      else if 0 < vs_dimension s \<and> length vec \<noteq> vs_dimension s then Inl (dimension_mismatch (vs_dimension s) (length vec))
      else Inr ())"

definition vs_prepare :: "DistanceFunctions \<Rightarrow> string \<Rightarrow> fl list \<Rightarrow> bool \<Rightarrow> VectorStore \<Rightarrow> (fl list) expected" where
  "vs_prepare impl vector_id vec norml s =
     (case ValidateVector impl vector_id vec s of
        Inl e \<Rightarrow> Inl e
      | Inr _ \<Rightarrow>
          if norml
          then case Normalize impl vec of
                 None \<Rightarrow> Inl (MakeError kInvalidArgument ''Cannot norml zero vector'')
               | Some data \<Rightarrow> Inr data
          else Inr vec)"

text \<open>The writes to one slot that exists.\<close>

definition store_row :: "DistanceFunctions \<Rightarrow> nat \<Rightarrow> fl list \<Rightarrow> bool \<Rightarrow> VectorStore \<Rightarrow> VectorStore option" where
  "store_row impl idx data norml s = do {
     m \<leftarrow> write_row (vs_dimension s) idx data (vs_matrix s);
     norms \<leftarrow> set_at idx (l2_norm impl data) (vs_norms s);
     nz \<leftarrow> set_at idx norml (vs_normalized s);
     Some (s\<lparr>vs_matrix := m, vs_norms := norms, vs_normalized := nz\<rparr>)
   }"

definition reuse_slot :: "DistanceFunctions \<Rightarrow> string \<Rightarrow> fl list \<Rightarrow> bool \<Rightarrow> VectorStore \<Rightarrow> VectorStore option" where
  "reuse_slot impl vector_id data norml s = do {
     let idx = last (vs_free_slots s);
     deleted \<leftarrow> set_at idx False (vs_deleted s);
     s \<leftarrow> store_row impl idx data norml
       (s\<lparr>vs_free_slots := butlast (vs_free_slots s), vs_deleted := deleted, vs_tombstone_count := vs_tombstone_count s - 1\<rparr>);
     ids \<leftarrow> set_at idx vector_id (vs_idx_to_id s);
     Some (s\<lparr>vs_idx_to_id := ids, vs_id_to_idx := um_set vector_id idx (vs_id_to_idx s),
             vs_active_count := vs_active_count s + 1\<rparr>)
   }"

definition append_slot :: "DistanceFunctions \<Rightarrow> string \<Rightarrow> fl list \<Rightarrow> bool \<Rightarrow> VectorStore \<Rightarrow> VectorStore option" where
  "append_slot impl vector_id data norml s = do {
     let idx = length (vs_idx_to_id s);
     m \<leftarrow> write_row (vs_dimension s) idx data (vs_matrix s @ replicate (vs_dimension s) (Fin 0));
     Some (s\<lparr>vs_matrix := m, vs_norms := vs_norms s @ [l2_norm impl data], vs_normalized := vs_normalized s @ [norml],
             vs_idx_to_id := vs_idx_to_id s @ [vector_id], vs_deleted := vs_deleted s @ [False],
             vs_id_to_idx := um_set vector_id idx (vs_id_to_idx s), vs_active_count := vs_active_count s + 1\<rparr>)
   }"

definition vs_commit :: "DistanceFunctions \<Rightarrow> string \<Rightarrow> fl list \<Rightarrow> bool \<Rightarrow> VectorStore \<Rightarrow> (unit expected \<times> VectorStore) option" where
  "vs_commit impl vector_id data norml s0 =
     (let s = (if vs_dimension s0 = 0 then s0\<lparr>vs_dimension := length data\<rparr> else s0)
      in if length data \<noteq> vs_dimension s then Some (Inl (dimension_mismatch (vs_dimension s) (length data)), s)
         else map_option (\<lambda>s. (Inr (), bump_generation s))
           (case um_find (vs_id_to_idx s) vector_id of
              Some idx \<Rightarrow> store_row impl idx data norml s
            | None \<Rightarrow>
                if vs_free_slots s \<noteq> [] then reuse_slot impl vector_id data norml s
                else append_slot impl vector_id data norml s))"

definition SetVector :: "DistanceFunctions \<Rightarrow> string \<Rightarrow> fl list \<Rightarrow> bool \<Rightarrow> VectorStore \<Rightarrow> (unit expected \<times> VectorStore) option" where
  "SetVector impl vector_id vec norml s =
     (case vs_prepare impl vector_id vec norml s of
        Inl e \<Rightarrow> Some (Inl e, s)
      | Inr data \<Rightarrow> vs_commit impl vector_id data norml s)"

subsection \<open>Reading\<close>

definition vs_IsDeleted :: "VectorStore \<Rightarrow> nat \<Rightarrow> bool" where
  "vs_IsDeleted s idx \<longleftrightarrow> idx < length (vs_deleted s) \<and> vs_deleted s ! idx"

text \<open>The outer option is an access out of range, the inner one an id that is not stored.\<close>

definition GetVector :: "VectorStore \<Rightarrow> string \<Rightarrow> Vector option option" where
  "GetVector s vector_id =
     (case um_find (vs_id_to_idx s) vector_id of
        None \<Rightarrow> Some None
      | Some idx \<Rightarrow>
          if vs_IsDeleted s idx then Some None
          else do {
            data \<leftarrow> read_row (vs_dimension s) idx (vs_matrix s);
            nz \<leftarrow> get_at idx (vs_normalized s);
            Some (Some \<lparr>vec_data = data, vec_normalized = nz\<rparr>)
          })"

definition HasVector :: "VectorStore \<Rightarrow> string \<Rightarrow> bool" where
  "HasVector s vector_id \<longleftrightarrow> um_find (vs_id_to_idx s) vector_id \<noteq> None"

definition GetAllIds :: "VectorStore \<Rightarrow> string list" where
  "GetAllIds s = um_keys (vs_id_to_idx s)"

definition GetVectorCount :: "VectorStore \<Rightarrow> nat" where
  "GetVectorCount s = vs_active_count s"

definition GetCompactCount :: "VectorStore \<Rightarrow> nat" where
  "GetCompactCount s = length (vs_idx_to_id s)"

definition GetMatrixRow :: "VectorStore \<Rightarrow> nat \<Rightarrow> fl list option" where
  "GetMatrixRow s idx = read_row (vs_dimension s) idx (vs_matrix s)"

definition GetMatrixCount :: "VectorStore \<Rightarrow> nat" where
  "GetMatrixCount s = (if 0 < vs_dimension s then length (vs_matrix s) div vs_dimension s else 0)"

definition GetNorm :: "VectorStore \<Rightarrow> nat \<Rightarrow> fl option" where
  "GetNorm s idx = get_at idx (vs_norms s)"

definition GetIdByIndex :: "VectorStore \<Rightarrow> nat \<Rightarrow> string option" where
  "GetIdByIndex s idx = get_at idx (vs_idx_to_id s)"

definition GetCompactIndex :: "VectorStore \<Rightarrow> string \<Rightarrow> nat option" where
  "GetCompactIndex s vector_id = um_find (vs_id_to_idx s) vector_id"

text \<open>A snapshot holds the lock, so what its pointers see is the state it was taken in.\<close>

record CompactSnapshot =
  snap_matrix :: "fl list"
  snap_norms :: "fl list"
  snap_count :: nat
  snap_dim :: nat
  snap_generation :: u64
  snap_id_to_idx :: "(string, nat) umap"
  snap_idx_to_id :: "string list"
  snap_deleted :: "bool list"

definition GetCompactSnapshot :: "VectorStore \<Rightarrow> CompactSnapshot" where
  "GetCompactSnapshot s =
     (if vs_matrix s = []
      then \<lparr>snap_matrix = [], snap_norms = [], snap_count = 0, snap_dim = 0, snap_generation = vs_generation s,
            snap_id_to_idx = [], snap_idx_to_id = [], snap_deleted = []\<rparr>
      else \<lparr>snap_matrix = vs_matrix s, snap_norms = vs_norms s, snap_count = length (vs_idx_to_id s),
            snap_dim = vs_dimension s, snap_generation = vs_generation s, snap_id_to_idx = vs_id_to_idx s,
            snap_idx_to_id = vs_idx_to_id s, snap_deleted = vs_deleted s\<rparr>)"

definition snap_Empty :: "CompactSnapshot \<Rightarrow> bool" where
  "snap_Empty snap \<longleftrightarrow> snap_matrix snap = [] \<or> snap_count snap = 0"

definition snap_IsDeleted :: "CompactSnapshot \<Rightarrow> nat \<Rightarrow> bool" where
  "snap_IsDeleted snap idx \<longleftrightarrow> idx < length (snap_deleted snap) \<and> snap_deleted snap ! idx"

subsection \<open>Deletion and defragmentation\<close>

definition clear_slots :: "VectorStore \<Rightarrow> VectorStore" where
  "clear_slots s = s\<lparr>vs_matrix := [], vs_norms := [], vs_normalized := [], vs_id_to_idx := [], vs_idx_to_id := [],
     vs_deleted := [], vs_free_slots := [], vs_active_count := 0, vs_tombstone_count := 0\<rparr>"

text \<open>The copy loop: the next new slot, the new arrays, map and ids.\<close>

type_synonym defrag = "nat \<times> fl list \<times> fl list \<times> bool list \<times> (string, nat) umap \<times> string list"

definition defrag_step :: "VectorStore \<Rightarrow> nat \<Rightarrow> defrag \<Rightarrow> defrag option" where
  "defrag_step s old_idx = (\<lambda>(new_idx, m, norms, nz, to_idx, to_id). do {
     dead \<leftarrow> get_at old_idx (vs_deleted s);
     if dead then Some (new_idx, m, norms, nz, to_idx, to_id)
     else do {
       src \<leftarrow> read_row (vs_dimension s) old_idx (vs_matrix s);
       m \<leftarrow> write_row (vs_dimension s) new_idx src m;
       norm \<leftarrow> get_at old_idx (vs_norms s);
       norms \<leftarrow> set_at new_idx norm norms;
       flag \<leftarrow> get_at old_idx (vs_normalized s);
       nz \<leftarrow> set_at new_idx flag nz;
       vid \<leftarrow> get_at old_idx (vs_idx_to_id s);
       Some (new_idx + 1, m, norms, nz, um_set vid new_idx to_idx, to_id @ [vid])
     }
   })"

fun defrag_loop :: "VectorStore \<Rightarrow> nat list \<Rightarrow> defrag \<Rightarrow> defrag option" where
  "defrag_loop s [] d = Some d"
| "defrag_loop s (i # idxs) d = Option.bind (defrag_step s i d) (defrag_loop s idxs)"

definition DefragmentLocked :: "VectorStore \<Rightarrow> VectorStore option" where
  "DefragmentLocked s =
     (let dimn = vs_dimension s; new_n = vs_active_count s
      in if dimn = 0 \<or> new_n = 0 then Some (clear_slots s)
         else map_option
           (\<lambda>(_, m, norms, nz, to_idx, to_id).
              s\<lparr>vs_matrix := m, vs_norms := norms, vs_normalized := nz, vs_id_to_idx := to_idx, vs_idx_to_id := to_id,
                vs_deleted := replicate new_n False, vs_free_slots := [], vs_tombstone_count := 0\<rparr>)
           (defrag_loop s [0..<length (vs_idx_to_id s)]
              (0, replicate (new_n * dimn) (Fin 0), replicate new_n (Fin 0), replicate new_n False, [], [])))"

definition Defragment :: "VectorStore \<Rightarrow> VectorStore option" where
  "Defragment s = map_option bump_generation (DefragmentLocked s)"

definition DeleteVector :: "string \<Rightarrow> VectorStore \<Rightarrow> (bool \<times> VectorStore) option" where
  "DeleteVector vector_id s0 =
     (case um_find (vs_id_to_idx s0) vector_id of
        None \<Rightarrow> Some (False, s0)
      | Some idx \<Rightarrow> do {
          deleted \<leftarrow> set_at idx True (vs_deleted s0);
          let s = s0\<lparr>vs_deleted := deleted, vs_free_slots := vs_free_slots s0 @ [idx],
                    vs_id_to_idx := um_erase vector_id (vs_id_to_idx s0), vs_active_count := vs_active_count s0 - 1,
                    vs_tombstone_count := vs_tombstone_count s0 + 1\<rparr>;
          let total_slots = length (vs_idx_to_id s);
          s \<leftarrow> (if 0 < total_slots \<and> total_slots < vs_tombstone_count s * 4 then DefragmentLocked s else Some s);
          Some (True, bump_generation s)
        })"

definition vs_Clear :: "VectorStore \<Rightarrow> VectorStore" where
  "vs_Clear s = bump_generation ((clear_slots s)\<lparr>vs_dimension := 0\<rparr>)"

text \<open>Swapping exchanges everything but the configurations and the generations, which both advance.\<close>

definition take_state :: "VectorStore \<Rightarrow> VectorStore \<Rightarrow> VectorStore" where
  "take_state s other = bump_generation (other\<lparr>vs_config := vs_config s, vs_generation := vs_generation s\<rparr>)"

definition vs_SwapState :: "VectorStore \<Rightarrow> VectorStore \<Rightarrow> VectorStore \<times> VectorStore" where
  "vs_SwapState s other = (take_state s other, take_state other s)"


subsection \<open>Rows\<close>

definition row_at :: "nat \<Rightarrow> nat \<Rightarrow> 'a list \<Rightarrow> 'a list" where
  "row_at d i m = take d (drop (i * d) m)"

lemma row_end: "i < n \<Longrightarrow> i * d + d \<le> n * d" for i n d :: nat
  by (metis Suc_leI mult_Suc mult_le_mono1 add.commute)

lemma row_sep: "i < j \<Longrightarrow> k < d \<Longrightarrow> i * d + k < j * d" for i j d k :: nat
  using row_end [of i j d] by linarith

lemma read_row_Some: "\<lbrakk>length m = n * d; i < n\<rbrakk> \<Longrightarrow> read_row d i m = Some (row_at d i m)"
  using row_end [of i n d] by (simp add: read_row_def row_at_def)

definition put_row :: "nat \<Rightarrow> nat \<Rightarrow> 'a list \<Rightarrow> 'a list \<Rightarrow> 'a list" where
  "put_row d i data m = take (i * d) m @ data @ drop (i * d + d) m"

lemma write_row_Some: "\<lbrakk>length m = n * d; i < n; length data = d\<rbrakk> \<Longrightarrow> write_row d i data m = Some (put_row d i data m)"
  using row_end [of i n d] by (simp add: write_row_def put_row_def)

lemma length_row_at: "\<lbrakk>length m = n * d; i < n\<rbrakk> \<Longrightarrow> length (row_at d i m) = d"
  using row_end [of i n d] by (simp add: row_at_def)

lemma length_put_row: "\<lbrakk>length m = n * d; i < n; length data = d\<rbrakk> \<Longrightarrow> length (put_row d i data m) = n * d"
  using row_end [of i n d] by (simp add: put_row_def)

lemma row_put_row:
  assumes "length m = n * d" "i < n" "j < n" "length data = d"
  shows "row_at d j (put_row d i data m) = (if j = i then data else row_at d j m)"
proof (rule nth_equalityI)
  have ends: "i * d + d \<le> n * d" "j * d + d \<le> n * d" using assms row_end by blast+
  have len: "length (put_row d i data m) = n * d" using assms by (simp add: length_put_row)
  then have l: "length (row_at d j (put_row d i data m)) = d" "length (row_at d j m) = d"
    using assms(1,3) length_row_at by blast+
  then show "length (row_at d j (put_row d i data m)) = length (if j = i then data else row_at d j m)" using assms by simp
  fix k
  assume "k < length (row_at d j (put_row d i data m))"
  then have k: "k < d" using l by simp
  then have "row_at d j (put_row d i data m) ! k = put_row d i data m ! (j * d + k)"
    using len assms(3) by (simp add: row_at_def)
  also have "\<dots> = (if j = i then data else row_at d j m) ! k"
  proof (cases i j rule: linorder_cases)
    case less
    then have "i * d + d \<le> j * d" by (rule row_end)
    then have "\<not> j * d + k < i * d" "\<not> j * d + k - i * d < d" "i * d + d + (j * d + k - i * d - d) = j * d + k" by linarith+
    then show ?thesis using less k assms ends by (simp add: put_row_def row_at_def nth_append)
  next
    case equal
    then show ?thesis using k assms ends by (simp add: put_row_def nth_append)
  next
    case greater
    then have "j * d + k < i * d" using k by (intro row_sep)
    then show ?thesis using greater k assms ends by (simp add: put_row_def row_at_def nth_append)
  qed
  finally show "row_at d j (put_row d i data m) ! k = (if j = i then data else row_at d j m) ! k" .
qed

lemma row_append:
  assumes "length m = n * d" "length x = d" "j \<le> n"
  shows "row_at d j (m @ x) = (if j = n then x else row_at d j m)"
proof (cases "j = n")
  case False
  then have "j * d + d \<le> n * d" using assms by (intro row_end) simp
  then show ?thesis using assms False by (simp add: row_at_def)
qed (simp add: row_at_def assms)

subsection \<open>The invariant\<close>

text \<open>
  The arrays have one entry per slot; the map and the ids of the live slots are inverse to each
  other; the free slots are the dead ones; and at most a quarter of the slots are dead.
\<close>

definition slot_live :: "VectorStore \<Rightarrow> nat \<Rightarrow> bool" where
  "slot_live s i \<longleftrightarrow> i < length (vs_idx_to_id s) \<and> \<not> vs_deleted s ! i"

definition vs_shape :: "VectorStore \<Rightarrow> bool" where
  "vs_shape s \<longleftrightarrow>
     length (vs_matrix s) = length (vs_idx_to_id s) * vs_dimension s \<and>
     length (vs_norms s) = length (vs_idx_to_id s) \<and> length (vs_normalized s) = length (vs_idx_to_id s) \<and>
     length (vs_deleted s) = length (vs_idx_to_id s) \<and> (vs_dimension s = 0 \<longrightarrow> vs_idx_to_id s = [])"

definition vs_maps :: "VectorStore \<Rightarrow> bool" where
  "vs_maps s \<longleftrightarrow> um_wf (vs_id_to_idx s) \<and>
     (\<forall>i k. um_find (vs_id_to_idx s) k = Some i \<longleftrightarrow> slot_live s i \<and> vs_idx_to_id s ! i = k)"

definition vs_free :: "VectorStore \<Rightarrow> bool" where
  "vs_free s \<longleftrightarrow> distinct (vs_free_slots s) \<and> set (vs_free_slots s) = {i. i < length (vs_idx_to_id s) \<and> vs_deleted s ! i}"

definition vs_counts :: "VectorStore \<Rightarrow> bool" where
  "vs_counts s \<longleftrightarrow> vs_active_count s = um_size (vs_id_to_idx s) \<and> vs_tombstone_count s = length (vs_free_slots s) \<and>
     vs_active_count s + vs_tombstone_count s = length (vs_idx_to_id s)"

definition vs_norms_ok :: "DistanceFunctions \<Rightarrow> VectorStore \<Rightarrow> bool" where
  "vs_norms_ok impl s \<longleftrightarrow>
     (\<forall>i. slot_live s i \<longrightarrow> vs_norms s ! i = l2_norm impl (row_at (vs_dimension s) i (vs_matrix s)))"

text \<open>All of it but the bound on the dead slots, which a deletion restores by defragmenting.\<close>

definition vs_wf :: "DistanceFunctions \<Rightarrow> VectorStore \<Rightarrow> bool" where
  "vs_wf impl s \<longleftrightarrow> vs_shape s \<and> vs_maps s \<and> vs_free s \<and> vs_counts s \<and> vs_norms_ok impl s"

definition vs_inv :: "DistanceFunctions \<Rightarrow> VectorStore \<Rightarrow> bool" where
  "vs_inv impl s \<longleftrightarrow> vs_wf impl s \<and> vs_tombstone_count s * 4 \<le> length (vs_idx_to_id s)"

lemmas vs_defs = vs_wf_def vs_shape_def vs_maps_def vs_free_def vs_counts_def vs_norms_ok_def slot_live_def

text \<open>What the store holds, as the map from ids to vectors it stands for.\<close>

definition vs_abs :: "VectorStore \<Rightarrow> string \<Rightarrow> Vector option" where
  "vs_abs s k = map_option
     (\<lambda>i. \<lparr>vec_data = row_at (vs_dimension s) i (vs_matrix s), vec_normalized = vs_normalized s ! i\<rparr>) (um_find (vs_id_to_idx s) k)"

lemma vs_inv_new [nv_inv]: "vs_inv impl (vs_new config)"
  by (simp add: vs_inv_def vs_defs vs_new_def)

lemma vs_maps_find: "\<lbrakk>vs_maps s; um_find (vs_id_to_idx s) k = Some i\<rbrakk> \<Longrightarrow> slot_live s i \<and> vs_idx_to_id s ! i = k"
  by (simp add: vs_maps_def)

lemma GetVector_abs:
  assumes "vs_wf impl s"
  shows "GetVector s k = Some (vs_abs s k)"
proof (cases "um_find (vs_id_to_idx s) k")
  case (Some i)
  then have "slot_live s i" using assms vs_maps_find by (auto simp: vs_wf_def)
  moreover have "vs_shape s" using assms by (simp add: vs_wf_def)
  ultimately show ?thesis using Some
    by (simp add: GetVector_def vs_abs_def vs_IsDeleted_def vs_shape_def slot_live_def get_at_def
        read_row_Some [where n = "length (vs_idx_to_id s)"])
qed (simp add: GetVector_def vs_abs_def)

lemma bump_simps [simp]:
  "vs_dimension (bump_generation s) = vs_dimension s" "vs_matrix (bump_generation s) = vs_matrix s"
  "vs_norms (bump_generation s) = vs_norms s" "vs_normalized (bump_generation s) = vs_normalized s"
  "vs_id_to_idx (bump_generation s) = vs_id_to_idx s" "vs_idx_to_id (bump_generation s) = vs_idx_to_id s"
  "vs_deleted (bump_generation s) = vs_deleted s" "vs_free_slots (bump_generation s) = vs_free_slots s"
  "vs_active_count (bump_generation s) = vs_active_count s" "vs_tombstone_count (bump_generation s) = vs_tombstone_count s"
  "vs_generation (bump_generation s) = vs_generation s + 1" "vs_config (bump_generation s) = vs_config s"
  by (simp_all add: bump_generation_def)

lemma vs_inv_bump [simp]: "vs_inv impl (bump_generation s) = vs_inv impl s" "vs_wf impl (bump_generation s) = vs_wf impl s"
  by (simp_all add: vs_inv_def vs_defs)

lemma vs_abs_bump [simp]: "vs_abs (bump_generation s) = vs_abs s"
  by (simp add: vs_abs_def fun_eq_iff)

subsection \<open>Writing a slot\<close>

lemma store_row_Some:
  assumes "vs_shape s" "i < length (vs_idx_to_id s)" "length data = vs_dimension s"
  shows "store_row impl i data norml s = Some (s\<lparr>vs_matrix := put_row (vs_dimension s) i data (vs_matrix s),
     vs_norms := (vs_norms s)[i := l2_norm impl data], vs_normalized := (vs_normalized s)[i := norml]\<rparr>)"
  using assms by (simp add: store_row_def vs_shape_def set_at_def write_row_Some [where n = "length (vs_idx_to_id s)"])

lemma overwrite_ok:
  assumes wf: "vs_wf impl s" and k: "um_find (vs_id_to_idx s) k = Some i" and len: "length data = vs_dimension s"
  obtains s' where "store_row impl i data norml s = Some s'" "vs_wf impl s'" "vs_idx_to_id s' = vs_idx_to_id s"
    "vs_tombstone_count s' = vs_tombstone_count s" "vs_dimension s' = vs_dimension s"
    "vs_abs s' = (vs_abs s)(k \<mapsto> \<lparr>vec_data = data, vec_normalized = norml\<rparr>)"
proof -
  have live: "slot_live s i" "vs_idx_to_id s ! i = k" using wf k vs_maps_find by (auto simp: vs_wf_def)
  let ?s = "s\<lparr>vs_matrix := put_row (vs_dimension s) i data (vs_matrix s),
     vs_norms := (vs_norms s)[i := l2_norm impl data], vs_normalized := (vs_normalized s)[i := norml]\<rparr>"
  have shape: "vs_shape s" using wf by (simp add: vs_wf_def)
  have rows: "row_at (vs_dimension s) j (put_row (vs_dimension s) i data (vs_matrix s)) =
      (if j = i then data else row_at (vs_dimension s) j (vs_matrix s))" if "j < length (vs_idx_to_id s)" for j
    using shape live that len by (intro row_put_row) (auto simp: vs_shape_def slot_live_def)
  have "vs_shape ?s" using shape live len by (auto simp: vs_shape_def slot_live_def length_put_row)
  moreover have "vs_norms_ok impl ?s"
    using wf rows live by (auto simp: vs_defs nth_list_update)
  ultimately have "vs_wf impl ?s" using wf by (simp add: vs_wf_def vs_maps_def vs_free_def vs_counts_def slot_live_def)
  moreover have "vs_abs ?s = (vs_abs s)(k \<mapsto> \<lparr>vec_data = data, vec_normalized = norml\<rparr>)"
  proof
    fix j
    show "vs_abs ?s j = ((vs_abs s)(k \<mapsto> \<lparr>vec_data = data, vec_normalized = norml\<rparr>)) j"
    proof (cases "um_find (vs_id_to_idx s) j")
      case None
      then show ?thesis using k by (auto simp: vs_abs_def)
    next
      case (Some l)
      then have l: "slot_live s l" "vs_idx_to_id s ! l = j" using wf vs_maps_find by (auto simp: vs_wf_def)
      show ?thesis
      proof (cases "l = i")
        case True
        then show ?thesis using k Some l live rows shape by (auto simp: vs_abs_def slot_live_def vs_shape_def)
      next
        case False
        then have "j \<noteq> k" using k Some by auto
        then show ?thesis using False Some l rows by (simp add: vs_abs_def slot_live_def)
      qed
    qed
  qed
  ultimately show thesis
    using store_row_Some [OF shape _ len, of i impl norml] live by (intro that [of ?s]) (simp_all add: slot_live_def)
qed


lemma free_last:
  assumes "vs_free s" "vs_free_slots s \<noteq> []"
  shows "last (vs_free_slots s) < length (vs_idx_to_id s)" "vs_deleted s ! last (vs_free_slots s)"
    "set (butlast (vs_free_slots s)) = set (vs_free_slots s) - {last (vs_free_slots s)}" "distinct (butlast (vs_free_slots s))"
proof -
  have "last (vs_free_slots s) \<in> set (vs_free_slots s)" using assms(2) by simp
  then show "last (vs_free_slots s) < length (vs_idx_to_id s)" "vs_deleted s ! last (vs_free_slots s)"
    using assms(1) by (auto simp: vs_free_def)
  have "distinct (butlast (vs_free_slots s) @ [last (vs_free_slots s)])" using assms by (simp add: vs_free_def)
  moreover have "set (vs_free_slots s) = set (butlast (vs_free_slots s) @ [last (vs_free_slots s)])" using assms(2) by simp
  ultimately show "set (butlast (vs_free_slots s)) = set (vs_free_slots s) - {last (vs_free_slots s)}"
    "distinct (butlast (vs_free_slots s))" by auto
qed

lemma reuse_ok:
  assumes wf: "vs_wf impl s" and k: "um_find (vs_id_to_idx s) k = None" and len: "length data = vs_dimension s"
    and free: "vs_free_slots s \<noteq> []"
  obtains s' where "reuse_slot impl k data norml s = Some s'" "vs_wf impl s'" "length (vs_idx_to_id s') = length (vs_idx_to_id s)"
    "vs_tombstone_count s' \<le> vs_tombstone_count s" "vs_dimension s' = vs_dimension s"
    "vs_abs s' = (vs_abs s)(k \<mapsto> \<lparr>vec_data = data, vec_normalized = norml\<rparr>)"
proof -
  define i where "i = last (vs_free_slots s)"
  have shape: "vs_shape s" and maps: "vs_maps s" and fr: "vs_free s" and cnt: "vs_counts s" and nrm: "vs_norms_ok impl s"
    using wf by (simp_all add: vs_wf_def)
  note f = free_last [OF fr free, folded i_def]
  have "0 < length (vs_free_slots s)" using free by simp
  define s1 where "s1 = s\<lparr>vs_free_slots := butlast (vs_free_slots s), vs_deleted := (vs_deleted s)[i := False],
     vs_tombstone_count := vs_tombstone_count s - 1\<rparr>"
  define s' where "s' = s1\<lparr>vs_matrix := put_row (vs_dimension s) i data (vs_matrix s),
     vs_norms := (vs_norms s)[i := l2_norm impl data], vs_normalized := (vs_normalized s)[i := norml],
     vs_idx_to_id := (vs_idx_to_id s)[i := k], vs_id_to_idx := um_set k i (vs_id_to_idx s),
     vs_active_count := vs_active_count s + 1\<rparr>"
  have shape1: "vs_shape s1" using shape by (simp add: s1_def vs_shape_def)
  have len1: "length data = vs_dimension s1" using len by (simp add: s1_def)
  have i1: "i < length (vs_idx_to_id s1)" using f(1) by (simp add: s1_def)
  have eq: "reuse_slot impl k data norml s = Some s'"
    using store_row_Some [OF shape1 i1 len1, of impl norml] f(1) shape
    by (simp add: reuse_slot_def Let_def set_at_def i_def [symmetric] s1_def [symmetric] vs_shape_def)
       (simp add: s'_def s1_def)
  have rows: "row_at (vs_dimension s) j (put_row (vs_dimension s) i data (vs_matrix s)) =
      (if j = i then data else row_at (vs_dimension s) j (vs_matrix s))" if "j < length (vs_idx_to_id s)" for j
    using shape f(1) that len by (intro row_put_row) (auto simp: vs_shape_def)
  have live: "slot_live s' j \<longleftrightarrow> j = i \<or> slot_live s j" for j
    using f(1) shape by (auto simp: slot_live_def s'_def s1_def vs_shape_def nth_list_update)
  have ids: "vs_idx_to_id s' ! j = (if j = i then k else vs_idx_to_id s ! j)" for j
    using f(1) by (simp add: s'_def s1_def nth_list_update)
  have nk: "vs_idx_to_id s ! j \<noteq> k" if "slot_live s j" for j
    using that k maps unfolding vs_maps_def by (metis option.distinct(1))
  have ni: "\<not> slot_live s i" using f(2) by (simp add: slot_live_def)
  have "vs_shape s'" using shape f(1) len by (auto simp: s'_def s1_def vs_shape_def length_put_row)
  moreover have "vs_maps s'"
    unfolding vs_maps_def live ids using maps nk ni by (auto simp: s'_def s1_def vs_maps_def)
  moreover have "vs_free s'"
    using fr f shape by (auto simp: vs_free_def s'_def s1_def nth_list_update vs_shape_def)
  moreover have "vs_counts s'"
    using cnt k maps \<open>0 < length (vs_free_slots s)\<close>
    by (auto simp: vs_counts_def s'_def s1_def um_size_set vs_maps_def um_find_None simp del: length_greater_0_conv)
  moreover have "vs_norms_ok impl s'"
    unfolding vs_norms_ok_def live using nrm rows f(1) shape ni
    by (auto simp: s'_def s1_def vs_norms_ok_def slot_live_def vs_shape_def nth_list_update)
  moreover have "vs_abs s' = (vs_abs s)(k \<mapsto> \<lparr>vec_data = data, vec_normalized = norml\<rparr>)"
  proof
    fix j
    have "l \<noteq> i \<and> l < length (vs_idx_to_id s)" if "um_find (vs_id_to_idx s) j = Some l" for l
      using that maps ni vs_maps_find by (auto simp: slot_live_def)
    then show "vs_abs s' j = ((vs_abs s)(k \<mapsto> \<lparr>vec_data = data, vec_normalized = norml\<rparr>)) j"
      using rows f(1) shape
      by (cases "um_find (vs_id_to_idx s) j") (auto simp: vs_abs_def s'_def s1_def vs_shape_def)
  qed
  ultimately show thesis using eq by (intro that [of s']) (simp_all add: vs_wf_def s'_def s1_def)
qed

lemma append_ok:
  assumes wf: "vs_wf impl s" and k: "um_find (vs_id_to_idx s) k = None" and len: "length data = vs_dimension s" "data \<noteq> []"
    and free: "vs_free_slots s = []"
  obtains s' where "append_slot impl k data norml s = Some s'" "vs_inv impl s'" "vs_dimension s' = vs_dimension s"
    "vs_abs s' = (vs_abs s)(k \<mapsto> \<lparr>vec_data = data, vec_normalized = norml\<rparr>)"
proof -
  define n where "n = length (vs_idx_to_id s)"
  have shape: "vs_shape s" and maps: "vs_maps s" and fr: "vs_free s" and cnt: "vs_counts s" and nrm: "vs_norms_ok impl s"
    using wf by (simp_all add: vs_wf_def)
  define s' where "s' = s\<lparr>vs_matrix := vs_matrix s @ data, vs_norms := vs_norms s @ [l2_norm impl data],
     vs_normalized := vs_normalized s @ [norml], vs_idx_to_id := vs_idx_to_id s @ [k], vs_deleted := vs_deleted s @ [False],
     vs_id_to_idx := um_set k n (vs_id_to_idx s), vs_active_count := vs_active_count s + 1\<rparr>"
  have eq: "append_slot impl k data norml s = Some s'"
    using shape len by (simp add: append_slot_def write_row_def vs_shape_def s'_def n_def)
  have rows: "row_at (vs_dimension s) j (vs_matrix s @ data) = (if j = n then data else row_at (vs_dimension s) j (vs_matrix s))"
    if "j \<le> n" for j
    using shape that len by (intro row_append) (auto simp: vs_shape_def n_def)
  have dead: "\<not> vs_deleted s ! j" if "j < n" for j
    using that fr free by (auto simp: vs_free_def n_def)
  have live: "slot_live s' j \<longleftrightarrow> j \<le> n" "slot_live s j \<longleftrightarrow> j < n" for j
    using dead shape by (auto simp: slot_live_def s'_def vs_shape_def n_def nth_append)
  have ids: "vs_idx_to_id s' ! j = (if j = n then k else vs_idx_to_id s ! j)" if "j \<le> n" for j
    using that by (simp add: s'_def nth_append n_def)
  have nk: "vs_idx_to_id s ! j \<noteq> k" if "j < n" for j
    using that k maps live(2) unfolding vs_maps_def by (metis option.distinct(1))
  have "vs_dimension s \<noteq> 0" using len by (metis length_0_conv)
  then have "vs_shape s'" using shape len by (simp add: s'_def vs_shape_def)
  moreover have "vs_maps s'"
    unfolding vs_maps_def live
  proof (intro conjI allI)
    show "um_wf (vs_id_to_idx s')" using maps by (simp add: s'_def vs_maps_def)
    fix j l
    have old: "um_find (vs_id_to_idx s) l = Some j \<longleftrightarrow> j < n \<and> vs_idx_to_id s ! j = l" using maps live(2) by (simp add: vs_maps_def)
    show "(um_find (vs_id_to_idx s') l = Some j) = (j \<le> n \<and> vs_idx_to_id s' ! j = l)"
    proof (cases "j = n")
      case True
      then show ?thesis using ids [of n] old by (auto simp: s'_def)
    next
      case False
      then show ?thesis using ids [of j] old nk [of j] by (auto simp: s'_def)
    qed
  qed
  moreover have "vs_free s'"
    using fr free shape by (auto simp: vs_free_def s'_def nth_append vs_shape_def)
  moreover have "vs_counts s'"
    using cnt k maps free by (auto simp: vs_counts_def s'_def um_size_set vs_maps_def um_find_None)
  moreover have "vs_norms_ok impl s'"
    using nrm rows shape unfolding vs_norms_ok_def live
    by (auto simp: s'_def vs_shape_def nth_append n_def)
  moreover have "vs_abs s' = (vs_abs s)(k \<mapsto> \<lparr>vec_data = data, vec_normalized = norml\<rparr>)"
  proof
    fix j
    have "l < n" if "um_find (vs_id_to_idx s) j = Some l" for l
      using that maps live(2) vs_maps_find by auto
    then show "vs_abs s' j = ((vs_abs s)(k \<mapsto> \<lparr>vec_data = data, vec_normalized = norml\<rparr>)) j"
      using rows shape
      by (cases "um_find (vs_id_to_idx s) j") (auto simp: vs_abs_def s'_def vs_shape_def nth_append n_def)
  qed
  moreover have "vs_tombstone_count s' = 0" using cnt free by (simp add: s'_def vs_counts_def)
  ultimately show thesis using eq by (intro that [of s']) (simp_all add: vs_inv_def vs_wf_def s'_def)
qed


subsection \<open>Deletion\<close>

lemma clear_ok [nv_inv]: "vs_inv impl (clear_slots s)" "vs_abs (clear_slots s) = Map.empty"
  by (simp_all add: vs_inv_def vs_defs clear_slots_def vs_abs_def fun_eq_iff)

lemma tombstone_ok:
  assumes wf: "vs_wf impl s" and k: "um_find (vs_id_to_idx s) k = Some i"
  defines "s' \<equiv> s\<lparr>vs_deleted := (vs_deleted s)[i := True], vs_free_slots := vs_free_slots s @ [i],
     vs_id_to_idx := um_erase k (vs_id_to_idx s), vs_active_count := vs_active_count s - 1,
     vs_tombstone_count := vs_tombstone_count s + 1\<rparr>"
  shows "vs_wf impl s'" "vs_abs s' = (vs_abs s)(k := None)" "i < length (vs_deleted s)"
proof -
  have shape: "vs_shape s" and maps: "vs_maps s" and fr: "vs_free s" and cnt: "vs_counts s" and nrm: "vs_norms_ok impl s"
    using wf by (simp_all add: vs_wf_def)
  have i: "slot_live s i" "vs_idx_to_id s ! i = k" using maps k vs_maps_find by auto
  then show il: "i < length (vs_deleted s)" using shape by (simp add: slot_live_def vs_shape_def)
  have uniq: "j = i" if "slot_live s j" "vs_idx_to_id s ! j = k" for j
    using that maps k unfolding vs_maps_def by (metis option.inject)
  have live: "slot_live s' j \<longleftrightarrow> j \<noteq> i \<and> slot_live s j" for j
    using il by (auto simp: slot_live_def s'_def nth_list_update)
  have "vs_shape s'" using shape by (simp add: s'_def vs_shape_def)
  moreover have "vs_maps s'" unfolding vs_maps_def live
  proof (intro conjI allI)
    show "um_wf (vs_id_to_idx s')" using maps by (simp add: s'_def vs_maps_def)
    fix j l
    show "(um_find (vs_id_to_idx s') l = Some j) = ((j \<noteq> i \<and> slot_live s j) \<and> vs_idx_to_id s' ! j = l)"
    proof (cases "l = k")
      case True
      then show ?thesis by (auto simp: s'_def dest: uniq)
    next
      case False
      have "um_find (vs_id_to_idx s) l = Some j \<longleftrightarrow> slot_live s j \<and> vs_idx_to_id s ! j = l"
        using maps by (simp add: vs_maps_def)
      then show ?thesis using False i(2) by (auto simp: s'_def)
    qed
  qed
  moreover have "vs_free s'"
    using fr i il shape by (auto simp: vs_free_def s'_def nth_list_update vs_shape_def slot_live_def)
  moreover have "vs_counts s'"
  proof -
    have "k \<in> fst ` set (vs_id_to_idx s)" using k by (rule um_find_Some_key)
    moreover from this have "0 < um_size (vs_id_to_idx s)" by (cases "vs_id_to_idx s") auto
    ultimately show ?thesis using cnt maps
      by (auto simp: vs_counts_def s'_def um_size_erase vs_maps_def simp del: length_greater_0_conv)
  qed
  moreover have "vs_norms_ok impl s'"
    using nrm unfolding vs_norms_ok_def live by (simp add: s'_def)
  ultimately show "vs_wf impl s'" by (simp add: vs_wf_def)
  show "vs_abs s' = (vs_abs s)(k := None)"
    by (auto simp: vs_abs_def s'_def fun_eq_iff)
qed

text \<open>The live slots among the first \<open>p\<close>, in order.\<close>

definition live_slots :: "VectorStore \<Rightarrow> nat \<Rightarrow> nat list" where
  "live_slots s p = filter (\<lambda>i. \<not> vs_deleted s ! i) [0..<p]"

lemma live_slots_Suc: "live_slots s (Suc p) = (if vs_deleted s ! p then live_slots s p else live_slots s p @ [p])"
  by (simp add: live_slots_def)

lemma set_live_slots: "p \<le> length (vs_idx_to_id s) \<Longrightarrow> i \<in> set (live_slots s p) \<longleftrightarrow> i < p \<and> slot_live s i"
  by (auto simp: live_slots_def slot_live_def)

lemma live_slots_nth: "\<lbrakk>p \<le> length (vs_idx_to_id s); i < length (live_slots s p)\<rbrakk> \<Longrightarrow> live_slots s p ! i < p \<and> slot_live s (live_slots s p ! i)"
  using set_live_slots [of p s "live_slots s p ! i"] by simp

lemma length_live_slots:
  assumes "vs_wf impl s"
  shows "length (live_slots s (length (vs_idx_to_id s))) = vs_active_count s"
proof -
  let ?n = "length (vs_idx_to_id s)"
  have "card {i. i < ?n \<and> vs_deleted s ! i} = length (vs_free_slots s)"
    using assms by (metis distinct_card vs_free_def vs_wf_def)
  moreover have "length (filter (\<lambda>i. vs_deleted s ! i) [0..<?n]) = card {i. i < ?n \<and> vs_deleted s ! i}"
    by (simp add: length_filter_conv_card) (metis (no_types, lifting) Collect_cong add_0 nth_upt)
  moreover have "length (live_slots s ?n) + length (filter (\<lambda>i. vs_deleted s ! i) [0..<?n]) = ?n"
    using sum_length_filter_compl [of "\<lambda>i. vs_deleted s ! i" "[0..<?n]"] by (simp add: live_slots_def add.commute)
  ultimately show ?thesis using assms by (simp add: vs_wf_def vs_counts_def)
qed

lemma live_slots_mono: "p \<le> q \<Longrightarrow> length (live_slots s p) \<le> length (live_slots s q)"
  by (induction q rule: dec_induct) (auto simp: live_slots_Suc)


text \<open>The copy loop after the first \<open>p\<close> slots: the live ones among them are copied, in order.\<close>

definition defrag_at :: "VectorStore \<Rightarrow> nat \<Rightarrow> defrag \<Rightarrow> bool" where
  "defrag_at s p = (\<lambda>(k, m, norms, nz, to_idx, to_id).
     let d = vs_dimension s; n = vs_active_count s; ls = live_slots s p
     in k = length ls \<and> length m = n * d \<and> length norms = n \<and> length nz = n \<and>
        to_id = map (\<lambda>i. vs_idx_to_id s ! i) ls \<and> um_wf to_idx \<and>
        (\<forall>j l. um_find to_idx j = Some l \<longleftrightarrow> l < k \<and> to_id ! l = j) \<and>
        (\<forall>l < k. row_at d l m = row_at d (ls ! l) (vs_matrix s) \<and> norms ! l = vs_norms s ! (ls ! l) \<and>
                 nz ! l = vs_normalized s ! (ls ! l)))"

lemma live_id_unique: "\<lbrakk>vs_maps s; slot_live s i; slot_live s j; vs_idx_to_id s ! i = vs_idx_to_id s ! j\<rbrakk> \<Longrightarrow> i = j"
  unfolding vs_maps_def by (metis option.inject)

lemma defrag_step_ok:
  assumes wf: "vs_wf impl s" and p: "p < length (vs_idx_to_id s)" and at: "defrag_at s p dd"
  shows "\<exists>d'. defrag_step s p dd = Some d' \<and> defrag_at s (Suc p) d'"
proof -
  obtain k m norms nz to_idx to_id where dd: "dd = (k, m, norms, nz, to_idx, to_id)" by (cases dd)
  have shape: "vs_shape s" and maps: "vs_maps s" using wf by (simp_all add: vs_wf_def)
  have del: "get_at p (vs_deleted s) = Some (vs_deleted s ! p)" using shape p by (simp add: get_at_def vs_shape_def)
  show ?thesis
  proof (cases "vs_deleted s ! p")
    case True
    then show ?thesis using at del by (simp add: dd defrag_step_def defrag_at_def live_slots_Suc)
  next
    case False
    let ?d = "vs_dimension s" and ?n = "vs_active_count s" and ?ls = "live_slots s p"
    have at': "k = length ?ls" "length m = ?n * ?d" "length norms = ?n" "length nz = ?n"
        "to_id = map (\<lambda>i. vs_idx_to_id s ! i) ?ls" "um_wf to_idx"
        "\<And>j l. um_find to_idx j = Some l \<longleftrightarrow> l < k \<and> to_id ! l = j"
        "\<And>l. l < k \<Longrightarrow> row_at ?d l m = row_at ?d (?ls ! l) (vs_matrix s) \<and> norms ! l = vs_norms s ! (?ls ! l) \<and>
           nz ! l = vs_normalized s ! (?ls ! l)"
      using at by (simp_all add: dd defrag_at_def Let_def)
    have ls: "live_slots s (Suc p) = ?ls @ [p]" using False by (simp add: live_slots_Suc)
    have "length (live_slots s (Suc p)) \<le> ?n"
      using length_live_slots [OF wf] live_slots_mono [of "Suc p" "length (vs_idx_to_id s)" s] p by simp
    then have k: "k < ?n" using ls at'(1) by simp
    have live: "slot_live s p" using p False by (simp add: slot_live_def)
    have rl: "length (row_at ?d p (vs_matrix s)) = ?d" using shape p by (intro length_row_at) (auto simp: vs_shape_def)
    let ?m = "put_row ?d k (row_at ?d p (vs_matrix s)) m" and ?id = "vs_idx_to_id s ! p"
    let ?D = "(k + 1, ?m, norms[k := vs_norms s ! p], nz[k := vs_normalized s ! p], um_set ?id k to_idx, to_id @ [?id])"
    have "read_row ?d p (vs_matrix s) = Some (row_at ?d p (vs_matrix s))"
      using shape p by (intro read_row_Some) (auto simp: vs_shape_def)
    moreover have "write_row ?d k (row_at ?d p (vs_matrix s)) m = Some ?m"
      using at'(2) k rl by (rule write_row_Some)
    ultimately have step: "defrag_step s p dd = Some ?D"
      using del False shape p k at'(3,4) by (simp add: dd defrag_step_def get_at_def set_at_def vs_shape_def)
    have fresh: "to_id ! l \<noteq> ?id" if "l < k" for l
    proof
      assume "to_id ! l = ?id"
      then have a: "vs_idx_to_id s ! (?ls ! l) = ?id" using that at'(1,5) by simp
      have b: "?ls ! l < p \<and> slot_live s (?ls ! l)" using live_slots_nth [of p s l] that at'(1) p by simp
      then have "?ls ! l = p" using live_id_unique [OF maps _ live a] by blast
      with b show False by (metis less_irrefl)
    qed
    have len: "length to_id = k" using at'(1,5) by simp
    have map: "um_find (um_set ?id k to_idx) j = Some l \<longleftrightarrow> l < k + 1 \<and> (to_id @ [?id]) ! l = j" for j l
    proof (cases "l < k")
      case True
      then show ?thesis using at'(7) [of j l] fresh len by (auto simp: nth_append)
    next
      case False
      then show ?thesis using at'(7) [of j l] len by (auto simp: nth_append)
    qed
    have "row_at ?d l ?m = (if l = k then row_at ?d p (vs_matrix s) else row_at ?d l m)" if "l < k + 1" for l
      using that k by (intro row_put_row [OF at'(2) k _ rl]) simp
    then have "row_at ?d l ?m = row_at ?d ((?ls @ [p]) ! l) (vs_matrix s) \<and>
        norms[k := vs_norms s ! p] ! l = vs_norms s ! ((?ls @ [p]) ! l) \<and>
        nz[k := vs_normalized s ! p] ! l = vs_normalized s ! ((?ls @ [p]) ! l)" if "l < k + 1" for l
      using that at'(1,3,4) at'(8) [of l] k by (cases "l = k") (auto simp: nth_append)
    moreover have "length ?m = ?n * ?d" using at'(2) k rl by (rule length_put_row)
    ultimately have "defrag_at s (Suc p) ?D"
      using at'(1,3-6) map by (simp add: defrag_at_def Let_def ls)
    with step show ?thesis by blast
  qed
qed

lemma defrag_loop_ok:
  assumes "vs_wf impl s"
  shows "\<lbrakk>p \<le> q; q \<le> length (vs_idx_to_id s); defrag_at s p dd\<rbrakk> \<Longrightarrow>
     \<exists>d'. defrag_loop s [p..<q] dd = Some d' \<and> defrag_at s q d'"
proof (induction "q - p" arbitrary: p dd)
  case (Suc x)
  then have "p < q" by simp
  then obtain d1 where "defrag_step s p dd = Some d1" "defrag_at s (Suc p) d1"
    using defrag_step_ok [OF assms] Suc.prems by (meson less_le_trans)
  with Suc \<open>p < q\<close> show ?case by (simp add: upt_conv_Cons)
qed simp

lemma DefragmentLocked_ok:
  assumes wf: "vs_wf impl s"
  obtains s' where "DefragmentLocked s = Some s'" "vs_inv impl s'" "vs_abs s' = vs_abs s" "vs_dimension s' = vs_dimension s"
    "vs_generation s' = vs_generation s"
proof (cases "vs_dimension s = 0 \<or> vs_active_count s = 0")
  case True
  have "vs_id_to_idx s = []" using True wf by (auto simp: vs_wf_def vs_counts_def vs_shape_def)
  then have "vs_abs s = Map.empty" by (simp add: vs_abs_def fun_eq_iff)
  with True show thesis by (intro that [of "clear_slots s"]) (auto simp: DefragmentLocked_def nv_inv clear_ok(2), simp_all add: clear_slots_def)
next
  case False
  let ?d = "vs_dimension s" and ?n = "vs_active_count s" and ?N = "length (vs_idx_to_id s)"
  have "defrag_at s 0 (0, replicate (?n * ?d) (Fin 0), replicate ?n (Fin 0), replicate ?n False, [], [])"
    by (simp add: defrag_at_def live_slots_def)
  from defrag_loop_ok [OF wf le0 order_refl this]
  obtain k m norms nz to_idx to_id where loop: "defrag_loop s [0..<?N]
       (0, replicate (?n * ?d) (Fin 0), replicate ?n (Fin 0), replicate ?n False, [], []) = Some (k, m, norms, nz, to_idx, to_id)"
    and at: "defrag_at s ?N (k, m, norms, nz, to_idx, to_id)" by (metis prod_cases6)
  define s' where "s' = s\<lparr>vs_matrix := m, vs_norms := norms, vs_normalized := nz, vs_id_to_idx := to_idx, vs_idx_to_id := to_id,
                vs_deleted := replicate ?n False, vs_free_slots := [], vs_tombstone_count := 0\<rparr>"
  let ?ls = "live_slots s ?N"
  have len: "length ?ls = ?n" using wf by (rule length_live_slots)
  have at': "length m = ?n * ?d" "length norms = ?n" "length nz = ?n" "to_id = map (\<lambda>i. vs_idx_to_id s ! i) ?ls" "um_wf to_idx"
      "\<And>j l. um_find to_idx j = Some l \<longleftrightarrow> l < ?n \<and> to_id ! l = j"
      "\<And>l. l < ?n \<Longrightarrow> row_at ?d l m = row_at ?d (?ls ! l) (vs_matrix s) \<and> norms ! l = vs_norms s ! (?ls ! l) \<and>
         nz ! l = vs_normalized s ! (?ls ! l)"
    using at by (simp_all add: defrag_at_def Let_def len)
  have lid: "length to_id = ?n" using at'(4) len by simp
  have live: "slot_live s' l \<longleftrightarrow> l < ?n" for l by (auto simp: slot_live_def s'_def lid)
  have old: "?ls ! l < ?N \<and> slot_live s (?ls ! l)" if "l < ?n" for l
    using live_slots_nth [of ?N s l] that len by simp
  have maps: "vs_maps s" and nrm: "vs_norms_ok impl s" using wf by (simp_all add: vs_wf_def)
  have "fst ` set to_idx = set to_id"
  proof (intro set_eqI iffI)
    fix j
    show "j \<in> fst ` set to_idx \<Longrightarrow> j \<in> set to_id" using at'(6) [of j] lid by (metis not_None_eq nth_mem um_find_None)
    show "j \<in> set to_id \<Longrightarrow> j \<in> fst ` set to_idx" using at'(6) lid by (metis in_set_conv_nth um_find_Some_key)
  qed
  moreover have "distinct to_id"
    unfolding distinct_conv_nth
  proof (intro allI impI)
    fix i j
    assume "i < length to_id" "j < length to_id" "i \<noteq> j"
    then show "to_id ! i \<noteq> to_id ! j" using at'(6) [of "to_id ! i" i] at'(6) [of "to_id ! j" j] lid by auto
  qed
  ultimately have size: "um_size to_idx = ?n" using at'(5) lid by (simp add: um_size_card distinct_card)
  have "vs_wf impl s'"
    unfolding vs_wf_def
  proof (intro conjI)
    show "vs_shape s'" using at'(1-3) lid False by (simp add: vs_shape_def s'_def)
    show "vs_maps s'" using at'(5,6) unfolding vs_maps_def live by (simp add: s'_def)
    show "vs_free s'" by (simp add: vs_free_def s'_def lid)
    show "vs_counts s'" using size lid by (simp add: vs_counts_def s'_def)
    show "vs_norms_ok impl s'" using at'(7) old nrm unfolding vs_norms_ok_def live by (simp add: s'_def)
  qed
  then have inv: "vs_inv impl s'" by (simp add: vs_inv_def s'_def)
  have "vs_abs s' j = vs_abs s j" for j
  proof (cases "um_find to_idx j")
    case None
    have "um_find (vs_id_to_idx s) j = None"
    proof (rule ccontr)
      assume "um_find (vs_id_to_idx s) j \<noteq> None"
      then obtain i where "slot_live s i" "vs_idx_to_id s ! i = j" using maps vs_maps_find by (metis not_None_eq)
      then have "j \<in> set to_id" unfolding at'(4) by (force simp: set_live_slots slot_live_def)
      then show False using at'(6) [of j] None lid by (metis in_set_conv_nth option.distinct(1))
    qed
    then show ?thesis using None by (simp add: vs_abs_def s'_def)
  next
    case (Some l)
    then have l: "l < ?n" "to_id ! l = j" using at'(6) by auto
    then have "um_find (vs_id_to_idx s) j = Some (?ls ! l)" using maps old [of l] len unfolding vs_maps_def at'(4) by simp
    then show ?thesis using Some at'(7) [OF l(1)] by (simp add: vs_abs_def s'_def)
  qed
  then have "vs_abs s' = vs_abs s" by blast
  moreover have "DefragmentLocked s = Some s'" using False loop by (simp add: DefragmentLocked_def Let_def s'_def)
  ultimately show thesis using inv by (intro that [of s']) (simp_all add: s'_def)
qed


subsection \<open>Operations\<close>

lemma vs_commit_ok:
  assumes inv: "vs_inv impl s" and data: "data \<noteq> []"
  obtains (stored) s' where "vs_commit impl k data norml s = Some (Inr (), s')" "vs_inv impl s'"
      "vs_dimension s = 0 \<or> length data = vs_dimension s" "vs_dimension s' = length data"
      "vs_abs s' = (vs_abs s)(k \<mapsto> \<lparr>vec_data = data, vec_normalized = norml\<rparr>)"
    | (mismatch) "vs_commit impl k data norml s = Some (Inl (dimension_mismatch (vs_dimension s) (length data)), s)"
      "vs_dimension s \<noteq> 0" "length data \<noteq> vs_dimension s"
proof (cases "vs_dimension s \<noteq> 0 \<and> length data \<noteq> vs_dimension s")
  case True
  then show thesis by (intro mismatch) (simp_all add: vs_commit_def)
next
  case False
  define t where "t = (if vs_dimension s = 0 then s\<lparr>vs_dimension := length data\<rparr> else s)"
  have len: "length data = vs_dimension t" using False by (auto simp: t_def)
  have t: "vs_wf impl t" "vs_tombstone_count t * 4 \<le> length (vs_idx_to_id t)"
    using inv by (auto simp: t_def vs_inv_def vs_defs)
  have abs: "vs_abs t = vs_abs s"
    using inv by (auto simp: t_def vs_inv_def vs_wf_def vs_shape_def vs_counts_def vs_abs_def fun_eq_iff)
  let ?new = "(vs_abs s)(k \<mapsto> \<lparr>vec_data = data, vec_normalized = norml\<rparr>)"
  have eq: "vs_commit impl k data norml s = map_option (\<lambda>s. (Inr (), bump_generation s))
      (case um_find (vs_id_to_idx t) k of
         Some idx \<Rightarrow> store_row impl idx data norml t
       | None \<Rightarrow> if vs_free_slots t \<noteq> [] then reuse_slot impl k data norml t else append_slot impl k data norml t)"
    using len by (simp add: vs_commit_def t_def [symmetric])
  have "\<exists>s'. (case um_find (vs_id_to_idx t) k of
         Some idx \<Rightarrow> store_row impl idx data norml t
       | None \<Rightarrow> if vs_free_slots t \<noteq> [] then reuse_slot impl k data norml t else append_slot impl k data norml t) = Some s' \<and>
     vs_inv impl s' \<and> vs_dimension s' = vs_dimension t \<and> vs_abs s' = ?new"
  proof (cases "um_find (vs_id_to_idx t) k")
    case (Some i)
    obtain s' where s': "store_row impl i data norml t = Some s'" "vs_wf impl s'" "vs_idx_to_id s' = vs_idx_to_id t"
        "vs_tombstone_count s' = vs_tombstone_count t" "vs_dimension s' = vs_dimension t"
        "vs_abs s' = (vs_abs t)(k \<mapsto> \<lparr>vec_data = data, vec_normalized = norml\<rparr>)"
      by (rule overwrite_ok [OF t(1) Some len, of norml])
    moreover have "vs_inv impl s'" using s'(2-4) t(2) by (simp add: vs_inv_def)
    ultimately show ?thesis using Some abs by simp
  next
    case None
    show ?thesis
    proof (cases "vs_free_slots t = []")
      case True
      obtain s' where "append_slot impl k data norml t = Some s'" "vs_inv impl s'" "vs_dimension s' = vs_dimension t"
          "vs_abs s' = (vs_abs t)(k \<mapsto> \<lparr>vec_data = data, vec_normalized = norml\<rparr>)"
        by (rule append_ok [OF t(1) None len data True, of norml])
      then show ?thesis using None True abs by simp
    next
      case False
      obtain s' where s': "reuse_slot impl k data norml t = Some s'" "vs_wf impl s'"
          "length (vs_idx_to_id s') = length (vs_idx_to_id t)" "vs_tombstone_count s' \<le> vs_tombstone_count t"
          "vs_dimension s' = vs_dimension t" "vs_abs s' = (vs_abs t)(k \<mapsto> \<lparr>vec_data = data, vec_normalized = norml\<rparr>)"
        by (rule reuse_ok [OF t(1) None len False, of norml])
      moreover have "vs_inv impl s'" using s'(2-4) t(2) by (simp add: vs_inv_def)
      ultimately show ?thesis using None False abs by simp
    qed
  qed
  then obtain s' where "vs_commit impl k data norml s = Some (Inr (), bump_generation s')" "vs_inv impl s'"
      "vs_dimension s' = vs_dimension t" "vs_abs s' = ?new"
    using eq by auto
  then show thesis using False len by (intro stored [of "bump_generation s'"]) auto
qed

lemma DeleteVector_ok:
  assumes inv: "vs_inv impl s"
  obtains s' where "DeleteVector k s = Some (vs_abs s k \<noteq> None, s')" "vs_inv impl s'" "vs_abs s' = (vs_abs s)(k := None)"
    "vs_dimension s' = vs_dimension s"
proof (cases "um_find (vs_id_to_idx s) k")
  case None
  then show thesis using inv by (intro that [of s]) (auto simp: DeleteVector_def vs_abs_def fun_eq_iff)
next
  case (Some i)
  define t where "t = s\<lparr>vs_deleted := (vs_deleted s)[i := True], vs_free_slots := vs_free_slots s @ [i],
     vs_id_to_idx := um_erase k (vs_id_to_idx s), vs_active_count := vs_active_count s - 1,
     vs_tombstone_count := vs_tombstone_count s + 1\<rparr>"
  have wf: "vs_wf impl s" using inv by (simp add: vs_inv_def)
  note t = tombstone_ok [OF wf Some, folded t_def]
  have dimn: "vs_dimension t = vs_dimension s" by (simp add: t_def)
  have del: "DeleteVector k s = map_option (\<lambda>s. (True, bump_generation s))
     (if 0 < length (vs_idx_to_id t) \<and> length (vs_idx_to_id t) < vs_tombstone_count t * 4 then DefragmentLocked t else Some t)"
    using Some t(3) by (simp add: DeleteVector_def set_at_def t_def Let_def map_conv_bind_option comp_def)
  have found: "vs_abs s k \<noteq> None" using Some by (simp add: vs_abs_def)
  show thesis
  proof (cases "0 < length (vs_idx_to_id t) \<and> length (vs_idx_to_id t) < vs_tombstone_count t * 4")
    case True
    obtain s' where "DefragmentLocked t = Some s'" "vs_inv impl s'" "vs_abs s' = vs_abs t" "vs_dimension s' = vs_dimension t"
      using DefragmentLocked_ok [OF t(1)] .
    then show thesis using True del found t(2) dimn by (intro that [of "bump_generation s'"]) auto
  next
    case False
    moreover have "length (vs_idx_to_id t) = 0 \<Longrightarrow> vs_tombstone_count t = 0"
      using t(1) unfolding vs_wf_def vs_counts_def by linarith
    ultimately have "vs_inv impl t" using t(1) by (auto simp: vs_inv_def not_less)
    then show thesis using False del found t(2) dimn by (intro that [of "bump_generation t"]) auto
  qed
qed

lemma vs_prepare_Inr:
  assumes "vs_prepare impl k vec norml s = Inr data"
  shows "data \<noteq> []" "length data \<le> kMaxVectorDimension" "k \<noteq> []"
  using assms by (auto simp: vs_prepare_def ValidateVector_def Normalize_def Let_def split: if_splits option.splits sum.splits)


text \<open>The store as a keyed store: what its writes leave behind is the keyed store's theorem.\<close>

definition vs_put :: "DistanceFunctions \<Rightarrow> string \<Rightarrow> Vector \<Rightarrow> VectorStore \<Rightarrow> VectorStore" where
  "vs_put impl k v s = snd (the (vs_commit impl k (vec_data v) (vec_normalized v) s))"

definition vs_del :: "string \<Rightarrow> VectorStore \<Rightarrow> VectorStore" where
  "vs_del k s = snd (the (DeleteVector k s))"

definition vs_fits :: "VectorStore \<Rightarrow> string \<Rightarrow> Vector \<Rightarrow> bool" where
  "vs_fits s k v \<longleftrightarrow> vec_data v \<noteq> [] \<and> (vs_dimension s = 0 \<or> length (vec_data v) = vs_dimension s)"

lemma vs_put_ok:
  assumes "vs_inv impl s" "vs_fits s k v"
  shows "vs_inv impl (vs_put impl k v s) \<and> vs_abs (vs_put impl k v s) = (vs_abs s)(k \<mapsto> v)"
proof -
  obtain a b where v: "v = \<lparr>vec_data = a, vec_normalized = b\<rparr>" by (cases v)
  have "a \<noteq> []" using assms(2) by (simp add: vs_fits_def v)
  from vs_commit_ok [OF assms(1) this, of k b] show ?thesis
    by cases (use assms(2) in \<open>simp_all add: vs_put_def vs_fits_def v\<close>)
qed

lemma vs_del_ok:
  assumes "vs_inv impl s"
  shows "vs_inv impl (vs_del k s) \<and> vs_abs (vs_del k s) = (vs_abs s)(k := None)"
proof -
  obtain s' where "DeleteVector k s = Some (vs_abs s k \<noteq> None, s')" "vs_inv impl s'" "vs_abs s' = (vs_abs s)(k := None)"
    using DeleteVector_ok [OF assms] by metis
  then show ?thesis by (simp add: vs_del_def)
qed

interpretation vector_kv: kv_store "vs_inv impl" vs_abs "vs_put impl" vs_del vs_fits for impl
  by unfold_locales (simp_all add: vs_put_ok vs_del_ok)

text \<open>
  Runs of the store: operations in any order, where a vector that is committed may have been
  prepared in any state, and state may be exchanged with another store; next to it the map the run
  should leave.
\<close>

inductive vs_run :: "DistanceFunctions \<Rightarrow> VectorStore \<Rightarrow> (string \<Rightarrow> Vector option) \<Rightarrow> bool" for impl where
  run_new: "vs_run impl (vs_new config) Map.empty"
| run_set: "\<lbrakk>vs_run impl s M; vs_prepare impl k vec norml s0 = Inr data; vs_commit impl k data norml s = Some (Inr (), s')\<rbrakk> \<Longrightarrow>
    vs_run impl s' (M(k \<mapsto> \<lparr>vec_data = data, vec_normalized = norml\<rparr>))"
| run_refused: "\<lbrakk>vs_run impl s M; vs_prepare impl k vec norml s0 = Inr data; vs_commit impl k data norml s = Some (Inl e, s')\<rbrakk> \<Longrightarrow>
    vs_run impl s' M"
| run_delete: "\<lbrakk>vs_run impl s M; DeleteVector k s = Some (found, s')\<rbrakk> \<Longrightarrow> vs_run impl s' (M(k := None))"
| run_defragment: "\<lbrakk>vs_run impl s M; Defragment s = Some s'\<rbrakk> \<Longrightarrow> vs_run impl s' M"
| run_clear: "vs_run impl s M \<Longrightarrow> vs_run impl (vs_Clear s) Map.empty"
| run_swap: "\<lbrakk>vs_run impl s M; vs_run impl t N\<rbrakk> \<Longrightarrow> vs_run impl (fst (vs_SwapState s t)) N"

lemma vs_inv_take_state: "vs_inv impl (take_state s t) = vs_inv impl t"
  by (simp add: take_state_def vs_inv_def vs_defs)

lemma vs_abs_take_state: "vs_abs (take_state s t) = vs_abs t"
  by (simp add: take_state_def vs_abs_def fun_eq_iff)

lemma vs_run_refines:
  "vs_run impl s M \<Longrightarrow> vs_inv impl s \<and> vs_abs s = M \<and> vs_dimension s \<le> kMaxVectorDimension"
proof (induction rule: vs_run.induct)
  case (run_new config)
  then show ?case by (simp add: nv_inv) (simp add: vs_abs_def vs_new_def fun_eq_iff)
next
  case (run_set s M k vec norml s0 data s')
  note prep = vs_prepare_Inr [OF run_set.hyps(2)]
  have inv: "vs_inv impl s" using run_set.IH by simp
  from vs_commit_ok [OF inv prep(1), of k norml] show ?case
    by cases (use run_set prep(2) in auto)
next
  case (run_refused s M k vec norml s0 data e s')
  note prep = vs_prepare_Inr [OF run_refused.hyps(2)]
  have inv: "vs_inv impl s" using run_refused.IH by simp
  from vs_commit_ok [OF inv prep(1), of k norml] show ?case
    by cases (use run_refused in auto)
next
  case (run_delete s M k found s')
  have inv: "vs_inv impl s" using run_delete.IH by simp
  show ?case by (rule DeleteVector_ok [OF inv, of k]) (use run_delete in auto)
next
  case (run_defragment s M s')
  have wf: "vs_wf impl s" using run_defragment.IH by (simp add: vs_inv_def)
  show ?case by (rule DefragmentLocked_ok [OF wf]) (use run_defragment in \<open>auto simp: Defragment_def\<close>)
next
  case (run_clear s M)
  have "vs_inv impl (vs_Clear s)" "vs_abs (vs_Clear s) = Map.empty"
    by (simp_all add: vs_Clear_def vs_inv_def vs_defs clear_slots_def vs_abs_def fun_eq_iff)
  then show ?case by (simp add: vs_Clear_def)
next
  case (run_swap s M t N)
  then show ?case
    by (simp add: vs_SwapState_def vs_inv_take_state vs_abs_take_state) (simp add: take_state_def)
qed

subsection \<open>Properties\<close>

text \<open>
  C1. The vector store implements a map from ids to vectors: after any run of writes (each prepared
  in whatever state it found), deletions, defragmentations, clears and exchanges, reading an id
  returns exactly what the last write of it left, whatever slots were reused or moved; the ids and
  the count are those of the map; all vectors have the store's dimension, and the norm kept for each
  is the norm of what is stored.  No operation accesses an array out of range.
\<close>

theorem vector_store_refines_map:
  assumes "vs_run impl s M"
  shows "(\<forall>k. GetVector s k = Some (M k) \<and> HasVector s k = (M k \<noteq> None)) \<and>
    set (GetAllIds s) = dom M \<and> distinct (GetAllIds s) \<and> GetVectorCount s = card (dom M) \<and>
    (\<forall>k v. M k = Some v \<longrightarrow> length (vec_data v) = vs_dimension s \<and>
       (\<exists>i. GetCompactIndex s k = Some i \<and> GetIdByIndex s i = Some k \<and> GetMatrixRow s i = Some (vec_data v) \<and>
            GetNorm s i = Some (l2_norm impl (vec_data v)))) \<and>
    (\<forall>k vec norml s0 data. vs_prepare impl k vec norml s0 = Inr data \<longrightarrow> vs_commit impl k data norml s \<noteq> None) \<and>
    (\<forall>k. DeleteVector k s \<noteq> None) \<and> Defragment s \<noteq> None"
proof -
  have inv: "vs_inv impl s" and M: "M = vs_abs s" using vs_run_refines [OF assms] by auto
  have wf: "vs_wf impl s" using inv by (simp add: vs_inv_def)
  have shape: "vs_shape s" and maps: "vs_maps s" and nrm: "vs_norms_ok impl s" and cnt: "vs_counts s"
    using wf by (simp_all add: vs_wf_def)
  have keys: "set (GetAllIds s) = dom M"
    by (auto simp: GetAllIds_def M vs_abs_def um_find_None dom_def)
  have wfm: "um_wf (vs_id_to_idx s)" using maps by (simp add: vs_maps_def)
  have dist: "distinct (GetAllIds s)" using wfm by (simp add: GetAllIds_def um_wf_def)
  have count: "GetVectorCount s = card (dom M)"
    using distinct_card [OF dist] cnt by (simp add: keys GetVectorCount_def vs_counts_def) (simp add: GetAllIds_def)
  have slot: "length (vec_data v) = vs_dimension s \<and>
       (\<exists>i. GetCompactIndex s k = Some i \<and> GetIdByIndex s i = Some k \<and> GetMatrixRow s i = Some (vec_data v) \<and>
            GetNorm s i = Some (l2_norm impl (vec_data v)))" if "M k = Some v" for k v
  proof -
    obtain i where i: "um_find (vs_id_to_idx s) k = Some i" "vec_data v = row_at (vs_dimension s) i (vs_matrix s)"
      using \<open>M k = Some v\<close> by (auto simp: M vs_abs_def)
    then have live: "slot_live s i" "vs_idx_to_id s ! i = k" using maps vs_maps_find by auto
    then have il: "i < length (vs_idx_to_id s)" by (simp add: slot_live_def)
    have m: "length (vs_matrix s) = length (vs_idx_to_id s) * vs_dimension s" using shape by (simp add: vs_shape_def)
    show ?thesis
      using i live il shape nrm read_row_Some [OF m il] length_row_at [OF m il]
      by (simp add: GetCompactIndex_def GetIdByIndex_def GetMatrixRow_def GetNorm_def get_at_def vs_norms_ok_def vs_shape_def)
  qed
  have commit: "vs_commit impl k data norml s \<noteq> None" if "vs_prepare impl k vec norml s0 = Inr data" for k vec norml s0 data
    by (rule vs_commit_ok [OF inv vs_prepare_Inr(1) [OF that], of k norml]) auto
  have del: "DeleteVector k s \<noteq> None" for k by (rule DeleteVector_ok [OF inv, of k]) auto
  have defrag: "Defragment s \<noteq> None" by (rule DefragmentLocked_ok [OF wf]) (auto simp: Defragment_def)
  have get: "GetVector s k = Some (M k) \<and> HasVector s k = (M k \<noteq> None)" for k
    using GetVector_abs [OF wf] by (simp add: M HasVector_def vs_abs_def)
  show ?thesis using get keys dist count slot commit del defrag by blast
qed


text \<open>The scalar kernels, and a store with one vector, for the witnesses.\<close>

definition scalar_impl :: DistanceFunctions where
  "scalar_impl = GetOptimalImpl \<lparr>target_arch = OtherArch, avx2_macro = False, neon_macro = False, gnu_compiler = True,
     contracts = False\<rparr> False"

lemma scalar_impl_simps:
  "dot_product scalar_impl = DotProductScalar False" "l2_norm scalar_impl = L2NormScalar False"
  "l2_distance scalar_impl = L2DistanceScalar False"
  by (simp_all add: scalar_impl_def GetOptimalImpl_def DetectCpuFeatures_def)

lemma norm_zero: "l2_norm scalar_impl [Fin 0] = Fin 0"
  by (simp add: scalar_impl_simps L2NormScalar_def dot_lane_def fl_mac_def)

definition one_vector_store :: VectorStore where
  "one_vector_store = snd (the (SetVector scalar_impl ''a'' [Fin 0] False (vs_new \<lparr>vc_default_dimension = 1, vc_distance_metric = ''cosine''\<rparr>)))"

lemma one_vector_run:
  "vs_run scalar_impl one_vector_store (Map.empty(''a'' \<mapsto> \<lparr>vec_data = [Fin 0], vec_normalized = False\<rparr>))"
proof -
  let ?s = "vs_new \<lparr>vc_default_dimension = 1, vc_distance_metric = ''cosine''\<rparr>"
  have prep: "vs_prepare scalar_impl ''a'' [Fin 0] False ?s = Inr [Fin 0]"
    by (simp add: vs_prepare_def ValidateVector_def norm_zero kMaxVectorDimension_def vs_new_def)
  have com: "vs_commit scalar_impl ''a'' [Fin 0] False ?s = Some (Inr (), one_vector_store)"
    by (simp add: one_vector_store_def SetVector_def prep) (simp add: vs_commit_def vs_new_def append_slot_def write_row_def)
  show ?thesis by (rule run_set [OF run_new prep com])
qed

theorem vector_store_refines_map_witness:
  "GetVector one_vector_store ''a'' = Some (Some \<lparr>vec_data = [Fin 0], vec_normalized = False\<rparr>) \<and> GetVectorCount one_vector_store = 1"
  using vector_store_refines_map [OF one_vector_run] by simp

text \<open>
  The space the store wastes is bounded: in every reachable state at most a quarter of the slots
  are tombstones, so that there are at most four thirds as many slots as vectors, and the dimension
  does not exceed its maximum.
\<close>

theorem vector_store_bounds:
  assumes "vs_run impl s M"
  shows "3 * GetCompactCount s \<le> 4 * GetVectorCount s \<and> length (vs_matrix s) = GetCompactCount s * vs_dimension s \<and>
    vs_dimension s \<le> 4096"
  using vs_run_refines [OF assms]
  by (auto simp: vs_inv_def vs_wf_def vs_shape_def vs_counts_def GetCompactCount_def GetVectorCount_def kMaxVectorDimension_def)

theorem vector_store_bounds_witness: "3 * GetCompactCount one_vector_store \<le> 4 * GetVectorCount one_vector_store"
  using vector_store_bounds [OF one_vector_run] by simp

definition vector_acceptable :: "DistanceFunctions \<Rightarrow> string \<Rightarrow> fl list \<Rightarrow> bool \<Rightarrow> VectorStore \<Rightarrow> bool" where
  "vector_acceptable impl k vec norml s \<longleftrightarrow>
     k \<noteq> [] \<and> vec \<noteq> [] \<and> length vec \<le> 4096 \<and> list_all isfinite vec \<and> isfinite (l2_norm impl vec) \<and>
     (vs_dimension s = 0 \<or> length vec = vs_dimension s) \<and> (norml \<longrightarrow> \<not> fl_less (l2_norm impl vec) kNormEpsilon)"

lemma vs_prepare_acceptable:
  "vs_prepare impl k vec norml s =
     (if vector_acceptable impl k vec norml s
      then Inr (if norml then map (\<lambda>v. fl_div F32 v (l2_norm impl vec)) vec else vec)
      else Inl (case vs_prepare impl k vec norml s of Inl e \<Rightarrow> e))"
  by (auto simp: vs_prepare_def ValidateVector_def vector_acceptable_def Normalize_def Let_def L2Norm_def
      kMaxVectorDimension_def)

text \<open>
  Writing a vector succeeds exactly when the id is not empty, the vector has between one and
  4096 finite components and a finite norm, its dimension is the store's (or the store has none
  yet) and, if it is to be normalised, its norm is not below the threshold; then only the id's
  vector changes.  Otherwise an error is returned and the store is unchanged.
\<close>

theorem set_vector_behaviour:
  assumes "vs_run impl s M"
  shows "if vector_acceptable impl k vec norml s
    then \<exists>s'. SetVector impl k vec norml s = Some (Inr (), s') \<and> vs_dimension s' = length vec \<and>
           (\<forall>j. GetVector s' j = Some ((M(k \<mapsto> \<lparr>vec_data = (if norml then map (\<lambda>v. fl_div F32 v (l2_norm impl vec)) vec else vec),
                  vec_normalized = norml\<rparr>)) j))
    else \<exists>e. SetVector impl k vec norml s = Some (Inl e, s)"
proof (cases "vector_acceptable impl k vec norml s")
  case True
  let ?data = "if norml then map (\<lambda>v. fl_div F32 v (l2_norm impl vec)) vec else vec"
  have prep: "vs_prepare impl k vec norml s = Inr ?data" using True by (subst vs_prepare_acceptable) simp
  have ne: "?data \<noteq> []" "length ?data = length vec" using True by (auto simp: vector_acceptable_def)
  note run = vs_run_refines [OF assms]
  then have inv: "vs_inv impl s" by simp
  show ?thesis
  proof (cases rule: vs_commit_ok [OF inv ne(1), where k = k and norml = norml, case_names stored mismatch])
    case (stored s')
    have "vs_wf impl s'" using stored(2) by (simp add: vs_inv_def)
    then have "GetVector s' j = Some ((M(k \<mapsto> \<lparr>vec_data = ?data, vec_normalized = norml\<rparr>)) j)" for j
      using GetVector_abs stored(5) run by simp
    then show ?thesis using True prep stored(1,4) ne(2) by (simp add: SetVector_def)
  next
    case mismatch
    then show ?thesis using True ne(2) by (auto simp: vector_acceptable_def split: if_splits)
  qed
next
  case False
  obtain e where "vs_prepare impl k vec norml s = Inl e" using False vs_prepare_acceptable [of impl k vec norml s] by simp
  then show ?thesis using False by (simp add: SetVector_def)
qed

theorem set_vector_behaviour_witness:
  "\<exists>e. SetVector scalar_impl ''b'' [Fin 1, Fin 1] False one_vector_store = Some (Inl e, one_vector_store)"
proof -
  have "vs_dimension one_vector_store = 1"
    by (simp add: one_vector_store_def SetVector_def vs_prepare_def ValidateVector_def norm_zero kMaxVectorDimension_def
        vs_new_def vs_commit_def append_slot_def write_row_def)
  then have "\<not> vector_acceptable scalar_impl ''b'' [Fin 1, Fin 1] False one_vector_store"
    by (simp add: vector_acceptable_def)
  with set_vector_behaviour [OF one_vector_run, of "''b''" "[Fin 1, Fin 1]" False] show ?thesis by simp
qed

end
