(* ===== verification/TopK.thy ===== *)
theory TopK
  imports Floats Prelude "HOL-Library.Multiset"
begin

text \<open>
  Selecting the best scores with a bounded heap, as the flat scans of the similarity engine and the
  approximate indices do with \<^verbatim>\<open>std::priority_queue\<close>.

  The standard does not fix the layout of a heap nor which of several equally low entries is on
  top, so the two operations on the layout are a parameter: \<open>pq_ok\<close> states what the standard
  promises for a comparator that is a strict weak order, which it is as long as no score is a NaN.
\<close>

subsection \<open>The heap\<close>

type_synonym score_idx = "fl \<times> nat"

record PQ =
  pq_push :: "score_idx \<Rightarrow> score_idx list \<Rightarrow> score_idx list"
  pq_pop :: "score_idx list \<Rightarrow> score_idx list"

definition pq_laws :: "PQ \<Rightarrow> (score_idx list \<Rightarrow> bool) \<Rightarrow> bool" where
  "pq_laws pq heap \<longleftrightarrow> heap [] \<and>
     (\<forall>x h. heap h \<and> fst x \<noteq> NaN \<longrightarrow> heap (pq_push pq x h) \<and> mset (pq_push pq x h) = add_mset x (mset h)) \<and>
     (\<forall>h. heap h \<and> h \<noteq> [] \<longrightarrow> heap (pq_pop pq h) \<and> mset (pq_pop pq h) = mset h - {#hd h#} \<and>
            (\<forall>x \<in> set h. \<not> fl_less (fst x) (fst (hd h))))"

definition pq_ok :: "PQ \<Rightarrow> bool" where
  "pq_ok pq \<longleftrightarrow> (\<exists>heap. pq_laws pq heap)"

text \<open>Keep the candidate while there is room or when it beats the lowest entry.\<close>

definition offer :: "PQ \<Rightarrow> nat \<Rightarrow> score_idx \<Rightarrow> score_idx list \<Rightarrow> score_idx list" where
  "offer pq k x h =
     (if length h < k then pq_push pq x h
      else if fl_less (fst (hd h)) (fst x) then pq_push pq x (pq_pop pq h)
      else h)"

text \<open>The loop that empties the heap; each turn removes one entry.\<close>

fun drain :: "PQ \<Rightarrow> nat \<Rightarrow> score_idx list \<Rightarrow> score_idx list" where
  "drain pq 0 h = []"
| "drain pq (Suc n) h = (if h = [] then [] else hd h # drain pq n (pq_pop pq h))"

definition top_scores :: "PQ \<Rightarrow> nat \<Rightarrow> score_idx list \<Rightarrow> score_idx list" where
  "top_scores pq k xs = (let h = fold (offer pq k) xs [] in drain pq (length h) h)"

subsection \<open>What is selected\<close>

text \<open>\<open>ys\<close> are \<open>k\<close> of the \<open>xs\<close>, or all, and nothing left out has a higher score.\<close>

definition top_k_of :: "nat \<Rightarrow> score_idx list \<Rightarrow> score_idx list \<Rightarrow> bool" where
  "top_k_of k xs ys \<longleftrightarrow> mset ys \<subseteq># mset xs \<and> length ys = min k (length xs) \<and>
     (\<forall>x \<in># mset xs - mset ys. \<forall>y \<in> set ys. \<not> fl_less (fst y) (fst x))"

lemma top_k_of_room:
  assumes "top_k_of k xs h" "length h < k" "mset h' = add_mset x (mset h)"
  shows "top_k_of k (xs @ [x]) h'"
proof -
  have "length h = length xs" using assms by (auto simp: top_k_of_def)
  then have "\<not> mset h \<subset># mset xs" using mset_subset_size [of "mset h" "mset xs"] by auto
  then have "mset h = mset xs" using assms(1) by (simp add: top_k_of_def subset_mset.less_le)
  moreover have "length h' = Suc (length h)" using assms(3) by (metis size_add_mset size_mset)
  ultimately show ?thesis using assms \<open>length h = length xs\<close> by (simp add: top_k_of_def)
qed

lemma top_k_of_better:
  assumes top: "top_k_of k xs h" and full: "\<not> length h < k" "0 < k" and less: "fl_less (fst (hd h)) (fst x)"
    and least: "\<And>y. y \<in> set h \<Longrightarrow> \<not> fl_less (fst y) (fst (hd h))"
    and h': "mset h' = add_mset x (mset h - {#hd h#})"
  shows "top_k_of k (xs @ [x]) h'"
proof -
  have sub: "mset h \<subseteq># mset xs" and len: "length h = min k (length xs)"
    and out: "\<And>d y. \<lbrakk>d \<in># mset xs - mset h; y \<in> set h\<rbrakk> \<Longrightarrow> \<not> fl_less (fst y) (fst d)"
    using top by (auto simp: top_k_of_def)
  have ne: "h \<noteq> []" using full by auto
  then have hd: "hd h \<in># mset h" by simp
  have "size (mset h') = Suc (size (mset h) - 1)" using h' hd by (simp add: size_Diff_singleton)
  then have len': "length h' = length h" using ne by simp
  have diff: "mset (xs @ [x]) - mset h' = add_mset (hd h) (mset xs - mset h)"
  proof -
    obtain R where R: "mset xs = mset h + R" using sub by (auto simp: mset_subset_eq_exists_conv)
    obtain H where H: "mset h = add_mset (hd h) H" using hd by (metis insert_DiffM)
    show ?thesis using h' by (simp add: R H)
  qed
  have set': "set h' = insert x (set_mset (mset h - {#hd h#}))" using h' by (metis set_mset_add_mset_insert set_mset_mset)
  have "\<not> fl_less (fst y) (fst d)" if d: "d \<in># add_mset (hd h) (mset xs - mset h)" and y: "y \<in> set h'" for d y
  proof -
    have yx: "y = x \<or> y \<in> set h" using y set' by (auto dest: in_diffD)
    show ?thesis
    proof (cases "d = hd h")
      case True
      then show ?thesis using yx least less fl_less_asym by blast
    next
      case False
      then have "d \<in># mset xs - mset h" using d by simp
      then show ?thesis using yx out ne less fl_less_trans by (metis list.set_sel(1))
    qed
  qed
  moreover have "mset h' \<subseteq># mset (xs @ [x])"
    using h' subset_mset.order_trans [OF diff_subset_eq_self sub] by simp
  ultimately show ?thesis using len len' full unfolding top_k_of_def diff by auto
qed

lemma top_k_of_worse:
  assumes top: "top_k_of k xs h" and full: "\<not> length h < k" "0 < k" and le: "\<not> fl_less (fst (hd h)) (fst x)"
    and least: "\<And>y. y \<in> set h \<Longrightarrow> \<not> fl_less (fst y) (fst (hd h))"
    and nan: "fst x \<noteq> NaN" "\<And>y. y \<in> set xs \<Longrightarrow> fst y \<noteq> NaN"
  shows "top_k_of k (xs @ [x]) h"
proof -
  have sub: "mset h \<subseteq># mset xs" using top by (simp add: top_k_of_def)
  have ne: "h \<noteq> []" using full by auto
  have "fst y \<noteq> NaN" if "y \<in> set h" for y
    using that nan(2) mset_subset_eqD [OF sub, of y] by auto
  then have "\<not> fl_less (fst y) (fst x)" if "y \<in> set h" for y
    using that least [OF that] le fl_less_linear [of "fst y" "fst (hd h)"] fl_less_trans ne by (metis list.set_sel(1))
  moreover have "mset (xs @ [x]) - mset h = add_mset x (mset xs - mset h)"
    using sub by (auto simp: mset_subset_eq_exists_conv)
  moreover have "mset h \<subseteq># mset (xs @ [x])" using subset_mset.order_trans [OF sub] by simp
  ultimately show ?thesis using top full by (auto simp: top_k_of_def)
qed

lemma offer_scan:
  assumes laws: "pq_laws pq heap" and k: "0 < k"
  shows "(\<And>x. x \<in> set xs \<Longrightarrow> fst x \<noteq> NaN) \<Longrightarrow>
    heap (fold (offer pq k) xs []) \<and> top_k_of k xs (fold (offer pq k) xs [])"
proof (induction xs rule: rev_induct)
  case Nil
  then show ?case using laws by (simp add: pq_laws_def top_k_of_def)
next
  case (snoc x xs)
  let ?h = "fold (offer pq k) xs []"
  have nan: "fst x \<noteq> NaN" "\<And>y. y \<in> set xs \<Longrightarrow> fst y \<noteq> NaN" using snoc.prems by auto
  then have IH: "heap ?h" "top_k_of k xs ?h" using snoc.IH by auto
  show ?case
  proof (cases "length ?h < k")
    case True
    have push: "heap (pq_push pq x ?h)" "mset (pq_push pq x ?h) = add_mset x (mset ?h)"
      using IH(1) laws nan(1) unfolding pq_laws_def by blast+
    then show ?thesis using True top_k_of_room [OF IH(2) True push(2)] by (simp add: offer_def [of pq k x])
  next
    case False
    then have ne: "?h \<noteq> []" using k by auto
    then have pop: "heap (pq_pop pq ?h)" "mset (pq_pop pq ?h) = mset ?h - {#hd ?h#}"
        "\<And>y. y \<in> set ?h \<Longrightarrow> \<not> fl_less (fst y) (fst (hd ?h))"
      using IH(1) laws by (auto simp: pq_laws_def)
    show ?thesis
    proof (cases "fl_less (fst (hd ?h)) (fst x)")
      case True
      have push: "heap (pq_push pq x (pq_pop pq ?h))" "mset (pq_push pq x (pq_pop pq ?h)) = add_mset x (mset ?h - {#hd ?h#})"
        using pop(1) laws nan(1) unfolding pq_laws_def pop(2) [symmetric] by blast+
      then show ?thesis using True False top_k_of_better [OF IH(2) False k True pop(3) push(2)] by (simp add: offer_def [of pq k x])
    next
      case le: False
      then show ?thesis using IH(1) False top_k_of_worse [OF IH(2) False k le pop(3) nan] by (simp add: offer_def [of pq k x])
    qed
  qed
qed

lemma mset_drain:
  assumes laws: "pq_laws pq heap"
  shows "heap h \<Longrightarrow> mset (drain pq (length h) h) = mset h"
proof (induction "length h" arbitrary: h)
  case (Suc n)
  then have ne: "h \<noteq> []" by auto
  then have pop: "heap (pq_pop pq h)" "mset (pq_pop pq h) = mset h - {#hd h#}" using Suc.prems laws by (auto simp: pq_laws_def)
  have hd: "hd h \<in># mset h" using ne by simp
  have "n = length (pq_pop pq h)"
    using Suc.hyps(2) pop(2) hd by (metis diff_Suc_1 size_Diff_singleton size_mset)
  then show ?case using Suc.hyps(1) [OF _ pop(1)] Suc.hyps(2) ne pop(2) hd by (simp flip: Suc.hyps(2))
qed simp

lemma top_scores_top_k:
  assumes "pq_ok pq" "0 < k" "\<And>x. x \<in> set xs \<Longrightarrow> fst x \<noteq> NaN"
  shows "top_k_of k xs (top_scores pq k xs)"
proof -
  obtain heap where laws: "pq_laws pq heap" using assms(1) by (auto simp: pq_ok_def)
  let ?h = "fold (offer pq k) xs []"
  have h: "heap ?h" "top_k_of k xs ?h" using offer_scan [OF laws assms(2,3)] by auto
  have m: "mset (top_scores pq k xs) = mset ?h" using mset_drain [OF laws h(1)] by (simp add: top_scores_def Let_def)
  then have "length (top_scores pq k xs) = length ?h" "set (top_scores pq k xs) = set ?h"
    by (metis size_mset, metis set_mset_mset)
  then show ?thesis using h(2) m by (simp add: top_k_of_def)
qed

subsection \<open>A heap that is a sorted list\<close>

definition sorted_pq :: PQ where
  "sorted_pq = \<lparr>pq_push = insert_by (\<lambda>a b. fl_less (fst a) (fst b)), pq_pop = tl\<rparr>"


lemma sorted_insert_scores:
  "\<lbrakk>fst x \<noteq> NaN; \<forall>y \<in> set h. fst y \<noteq> NaN; sorted_wrt (\<lambda>a b. \<not> fl_less (fst b) (fst a)) h\<rbrakk> \<Longrightarrow>
     sorted_wrt (\<lambda>a b. \<not> fl_less (fst b) (fst a)) (insert_by (\<lambda>a b. fl_less (fst a) (fst b)) x h)" for x :: score_idx
proof (rule sorted_insert_by [of _ "{y. fst y \<noteq> NaN}"])
  show "strict_weak_on (\<lambda>a b. fl_less (fst a) (fst b)) {y :: score_idx. fst y \<noteq> NaN}"
    unfolding strict_weak_on_def
  proof (intro conjI ballI impI)
    fix a b c :: score_idx
    assume "a \<in> {y. fst y \<noteq> NaN}" "b \<in> {y. fst y \<noteq> NaN}" "c \<in> {y. fst y \<noteq> NaN}"
      and "\<not> fl_less (fst b) (fst a)" "\<not> fl_less (fst c) (fst b)"
    then show "\<not> fl_less (fst c) (fst a)"
      using fl_less_linear [of "fst a" "fst b"] fl_less_linear [of "fst b" "fst c"] fl_less_trans [of "fst a" "fst b" "fst c"]
        fl_less_asym [of "fst a" "fst c"] by auto
  qed (auto dest: fl_less_asym)
qed auto

lemma pq_ok_sorted_pq: "pq_ok sorted_pq"
  unfolding pq_ok_def pq_laws_def
proof (intro exI [of _ "\<lambda>h. (\<forall>y \<in> set h. fst y \<noteq> NaN) \<and> sorted_wrt (\<lambda>a b. \<not> fl_less (fst b) (fst a)) h"] conjI allI impI)
  fix x :: score_idx and h :: "score_idx list"
  assume "((\<forall>y \<in> set h. fst y \<noteq> NaN) \<and> sorted_wrt (\<lambda>a b. \<not> fl_less (fst b) (fst a)) h) \<and> fst x \<noteq> NaN"
  moreover have "set (insert_by (\<lambda>a b. fl_less (fst a) (fst b)) x h) = insert x (set h)"
    by (metis mset_insert_by set_mset_add_mset_insert set_mset_mset)
  ultimately show "\<forall>y \<in> set (pq_push sorted_pq x h). fst y \<noteq> NaN"
    "sorted_wrt (\<lambda>a b. \<not> fl_less (fst b) (fst a)) (pq_push sorted_pq x h)"
    "mset (pq_push sorted_pq x h) = add_mset x (mset h)"
    using sorted_insert_scores [of x h] by (auto simp: sorted_pq_def mset_insert_by)
next
  fix h :: "score_idx list"
  assume "((\<forall>y \<in> set h. fst y \<noteq> NaN) \<and> sorted_wrt (\<lambda>a b. \<not> fl_less (fst b) (fst a)) h) \<and> h \<noteq> []"
  then obtain x t where "h = x # t" "\<forall>y \<in> set t. fst y \<noteq> NaN" "sorted_wrt (\<lambda>a b. \<not> fl_less (fst b) (fst a)) (x # t)"
    by (cases h) auto
  then show "\<forall>y \<in> set (pq_pop sorted_pq h). fst y \<noteq> NaN" "sorted_wrt (\<lambda>a b. \<not> fl_less (fst b) (fst a)) (pq_pop sorted_pq h)"
    "mset (pq_pop sorted_pq h) = mset h - {#hd h#}" "\<forall>x \<in> set h. \<not> fl_less (fst x) (fst (hd h))"
    by (auto simp: sorted_pq_def)
qed auto

end
