(* ===== verification/RingBuffer.thy ===== *)
theory RingBuffer
  imports Prelude
begin

text \<open>
  \<^verbatim>\<open>src/src/events/ring_buffer.h\<close>: the fixed-size circular buffer that overwrites its oldest
  element.  \<^verbatim>\<open>Push\<close> indexes \<^verbatim>\<open>buffer_[head_]\<close> and divides by \<^verbatim>\<open>capacity_\<close>; both are undefined for
  a buffer of capacity 0, which the model shows as \<open>None\<close>.  The interface the clients rely on is
  the locale \<open>bounded_log\<close>: the buffer is the list of its most recent elements.
\<close>

record 'a RingBuffer =
  rb_buffer :: "'a list"
  rb_head :: nat
  rb_size :: nat
  rb_capacity :: nat

text \<open>\<open>d\<close> is the value \<^verbatim>\<open>T{}\<close> that \<^verbatim>\<open>std::vector<T>(capacity)\<close> fills the storage with.\<close>

definition rb_new :: "'a \<Rightarrow> nat \<Rightarrow> 'a RingBuffer" where
  "rb_new d cap = \<lparr>rb_buffer = replicate cap d, rb_head = 0, rb_size = 0, rb_capacity = cap\<rparr>"

definition Push :: "'a \<Rightarrow> 'a RingBuffer \<Rightarrow> 'a RingBuffer option" where
  "Push item b =
     (if rb_head b < length (rb_buffer b) \<and> 0 < rb_capacity b
      then Some (b\<lparr>rb_buffer := (rb_buffer b)[rb_head b := item],
                   rb_head := (rb_head b + 1) mod rb_capacity b,
                   rb_size := (if rb_size b < rb_capacity b then rb_size b + 1 else rb_size b)\<rparr>)
      else None)"

definition GetAll :: "'a RingBuffer \<Rightarrow> 'a list" where
  "GetAll b =
     (if rb_size b = 0 then []
      else if rb_size b < rb_capacity b
      then map (\<lambda>i. rb_buffer b ! i) [0..<rb_size b]
      else map (\<lambda>i. rb_buffer b ! ((rb_head b + i) mod rb_capacity b)) [0..<rb_capacity b])"

definition rb_clear :: "'a RingBuffer \<Rightarrow> 'a RingBuffer" where
  "rb_clear b = b\<lparr>rb_head := 0, rb_size := 0\<rparr>"

text \<open>
  The invariant: the storage has the buffer's capacity, and until the buffer is full the head
  is the number of elements written.
\<close>

definition rb_inv :: "'a RingBuffer \<Rightarrow> bool" where
  "rb_inv b \<longleftrightarrow> length (rb_buffer b) = rb_capacity b \<and> 0 < rb_capacity b \<and>
     rb_head b < rb_capacity b \<and> rb_size b \<le> rb_capacity b \<and>
     (rb_size b < rb_capacity b \<longrightarrow> rb_head b = rb_size b)"

text \<open>The last \<open>n\<close> elements of a list, what a bounded log of capacity \<open>n\<close> keeps.\<close>

definition last_n :: "nat \<Rightarrow> 'a list \<Rightarrow> 'a list" where
  "last_n n xs = drop (length xs - n) xs"

fun push_all :: "('a \<Rightarrow> 'b \<Rightarrow> 'b option) \<Rightarrow> 'a list \<Rightarrow> 'b \<Rightarrow> 'b option" where
  "push_all f [] b = Some b"
| "push_all f (x # xs) b = (case f x b of None \<Rightarrow> None | Some b' \<Rightarrow> push_all f xs b')"

subsection \<open>The interface of a bounded log\<close>

lemma last_n_append: "last_n n (last_n n xs @ ys) = last_n n (xs @ ys)"
proof (cases "length xs \<le> n")
  case True
  then show ?thesis by (simp add: last_n_def)
next
  case False
  then have e: "last_n n xs @ ys = drop (length xs - n) (xs @ ys)" by (simp add: last_n_def)
  have "length xs - n + length ys = length xs + length ys - n" using False by simp
  then show ?thesis using False
    unfolding e unfolding last_n_def by (simp add: add.commute del: drop_append)
qed

lemma length_last_n [simp]: "length (last_n n xs) = min n (length xs)"
  by (simp add: last_n_def)

lemma last_n_id [simp]: "length xs \<le> n \<Longrightarrow> last_n n xs = xs"
  by (simp add: last_n_def)

locale bounded_log =
  fixes push :: "'a \<Rightarrow> 'b \<Rightarrow> 'b option"
    and contents :: "'b \<Rightarrow> 'a list"
    and capacity :: "'b \<Rightarrow> nat"
    and inv :: "'b \<Rightarrow> bool"
  assumes push_defined: "inv b \<Longrightarrow> \<exists>b'. push x b = Some b' \<and> inv b' \<and> capacity b' = capacity b \<and>
      contents b' = last_n (capacity b) (contents b @ [x])"
begin

lemma push_all_defined:
  "inv b \<Longrightarrow> \<exists>b'. push_all push xs b = Some b' \<and> inv b' \<and> capacity b' = capacity b \<and>
     (length (contents b) \<le> capacity b \<longrightarrow> contents b' = last_n (capacity b) (contents b @ xs))"
proof (induction xs arbitrary: b)
  case Nil
  then show ?case by simp
next
  case (Cons x xs)
  from push_defined [OF Cons.prems, of x] obtain b1 where b1: "push x b = Some b1" "inv b1"
    "capacity b1 = capacity b" "contents b1 = last_n (capacity b) (contents b @ [x])" by blast
  from Cons.IH [OF b1(2)] obtain b2 where "push_all push xs b1 = Some b2" "inv b2"
    "capacity b2 = capacity b1"
    "length (contents b1) \<le> capacity b1 \<longrightarrow> contents b2 = last_n (capacity b1) (contents b1 @ xs)"
    by blast
  with b1 show ?case by (simp add: last_n_append)
qed

end

subsection \<open>The ring buffer implements it\<close>

lemma rb_inv_new: "0 < cap \<Longrightarrow> rb_inv (rb_new d cap)"
  by (simp add: rb_inv_def rb_new_def)

lemma GetAll_new [simp]: "GetAll (rb_new d cap) = []"
  by (simp add: GetAll_def rb_new_def)

lemma rb_capacity_new [simp]: "rb_capacity (rb_new d cap) = cap"
  by (simp add: rb_new_def)

lemma length_GetAll [simp]: "rb_inv b \<Longrightarrow> length (GetAll b) = rb_size b"
  by (auto simp: GetAll_def rb_inv_def)

lemma Push_inv: "\<lbrakk>rb_inv b; Push x b = Some b'\<rbrakk> \<Longrightarrow> rb_inv b'"
  by (auto simp: rb_inv_def Push_def mod_Suc split: if_splits)

lemma GetAll_nth_full:
  "\<lbrakk>rb_inv b; rb_size b = rb_capacity b; i < rb_capacity b\<rbrakk> \<Longrightarrow>
     GetAll b ! i = rb_buffer b ! ((rb_head b + i) mod rb_capacity b)"
  by (simp add: GetAll_def rb_inv_def)

lemma GetAll_partial: "\<lbrakk>rb_inv b; rb_size b < rb_capacity b\<rbrakk> \<Longrightarrow> GetAll b = take (rb_size b) (rb_buffer b)"
  by (auto simp: GetAll_def rb_inv_def intro: nth_equalityI)

lemma mod_add_neq: "\<lbrakk>h < c; 0 < d; d < c\<rbrakk> \<Longrightarrow> (h + d) mod c \<noteq> h" for h d c :: nat
  by (cases "h + d < c") (auto simp: mod_if)

lemma GetAll_Push_full:
  assumes "rb_inv b" "rb_size b = rb_capacity b" "Push x b = Some b'"
  shows "GetAll b' = tl (GetAll b) @ [x]"
proof (rule nth_equalityI)
  have inv': "rb_inv b'" using assms(1,3) by (rule Push_inv)
  have size': "rb_size b' = rb_capacity b'" "rb_capacity b' = rb_capacity b"
    using assms by (auto simp: Push_def split: if_splits)
  note b' = inv' size'
  then show "length (GetAll b') = length (tl (GetAll b) @ [x])"
    using assms by (simp add: rb_inv_def)
  fix i assume "i < length (GetAll b')"
  with b' have i: "i < rb_capacity b" by simp
  have buf: "rb_buffer b' = (rb_buffer b)[rb_head b := x]"
    "rb_head b' = (rb_head b + 1) mod rb_capacity b"
    using assms(3) by (auto simp: Push_def split: if_splits)
  have at: "GetAll b' ! i = (rb_buffer b)[rb_head b := x] ! ((rb_head b + Suc i) mod rb_capacity b)"
    using GetAll_nth_full [OF b'(1,2)] i b'(3) buf by (simp add: mod_simps)
  show "GetAll b' ! i = (tl (GetAll b) @ [x]) ! i"
  proof (cases "Suc i = rb_capacity b")
    case True
    then have "\<not> i < rb_capacity b - 1" "i - (rb_capacity b - 1) = 0" by auto
    with True assms at show ?thesis by (simp add: rb_inv_def nth_append)
  next
    case False
    with i have si: "Suc i < rb_capacity b" "i < rb_capacity b - 1" by simp_all
    have "(rb_head b + Suc i) mod rb_capacity b \<noteq> rb_head b"
      using assms(1) si by (intro mod_add_neq) (auto simp: rb_inv_def)
    then show ?thesis
      using at assms si GetAll_nth_full [OF assms(1,2) si(1)] by (simp add: nth_append nth_tl)
  qed
qed

lemma GetAll_Push_partial:
  assumes "rb_inv b" "rb_size b < rb_capacity b" "Push x b = Some b'"
  shows "GetAll b' = GetAll b @ [x]"
proof -
  have b': "rb_buffer b' = (rb_buffer b)[rb_size b := x]" "rb_size b' = Suc (rb_size b)"
    "rb_capacity b' = rb_capacity b" "rb_head b' = Suc (rb_size b) mod rb_capacity b"
    using assms by (auto simp: Push_def rb_inv_def split: if_splits)
  have "GetAll b' = take (Suc (rb_size b)) (rb_buffer b')"
  proof (cases "Suc (rb_size b) < rb_capacity b")
    case True
    then show ?thesis using GetAll_partial [OF Push_inv [OF assms(1,3)]] b' by simp
  next
    case False
    with assms(2) have "Suc (rb_size b) = rb_capacity b" by simp
    then show ?thesis
      using assms(1) b' by (auto simp: GetAll_def rb_inv_def intro!: nth_equalityI)
  qed
  then show ?thesis
    using assms(1,2) b' by (simp add: GetAll_partial rb_inv_def take_Suc_conv_app_nth)
qed

lemma GetAll_Push:
  assumes "rb_inv b" "Push x b = Some b'"
  shows "GetAll b' = last_n (rb_capacity b) (GetAll b @ [x])"
proof (cases "rb_size b < rb_capacity b")
  case True
  with assms show ?thesis by (simp add: GetAll_Push_partial)
next
  case False
  with assms(1) have full: "rb_size b = rb_capacity b" by (simp add: rb_inv_def)
  have "length (GetAll b) = rb_capacity b" using assms(1) full by simp
  then obtain y ys where "GetAll b = y # ys" "rb_capacity b = Suc (length ys)"
    using assms(1) by (cases "GetAll b") (simp_all add: rb_inv_def)
  then show ?thesis
    unfolding GetAll_Push_full [OF assms(1) full assms(2)] by (simp add: last_n_def)
qed

interpretation ring: bounded_log Push GetAll rb_capacity rb_inv
proof (unfold_locales, goal_cases)
  case (1 b x)
  then obtain b' where b': "Push x b = Some b'" by (auto simp: Push_def rb_inv_def)
  moreover from this have "rb_capacity b' = rb_capacity b" by (auto simp: Push_def split: if_splits)
  ultimately show ?case using Push_inv [OF 1 b'] GetAll_Push [OF 1 b'] by simp
qed

lemma rb_inv_clear [nv_inv]: "rb_inv b \<Longrightarrow> rb_inv (rb_clear b)"
  by (simp add: rb_inv_def rb_clear_def)

lemma GetAll_clear [nv_simps]: "GetAll (rb_clear b) = []"
  by (simp add: GetAll_def rb_clear_def)

subsection \<open>Properties\<close>

text \<open>
  C26. Pushing any sequence of elements into a new ring buffer of positive capacity never touches
  memory out of bounds, and \<^verbatim>\<open>GetAll\<close> then returns exactly the most recent \<open>cap\<close> of them,
  oldest first.
\<close>

theorem ring_buffer_keeps_most_recent:
  assumes "0 < cap"
  shows "\<exists>b. push_all Push xs (rb_new d cap) = Some b \<and> GetAll b = last_n cap xs"
  using ring.push_all_defined [OF rb_inv_new [OF assms], of xs] by auto

theorem ring_buffer_keeps_most_recent_witness:
  "\<exists>b. push_all Push [1, 2, 3, 4, 5 :: nat] (rb_new 0 3) = Some b \<and> GetAll b = [3, 4, 5]"
  using ring_buffer_keeps_most_recent [of 3 "[1, 2, 3, 4, 5 :: nat]" 0]
  by (simp add: last_n_def)

end
