(* ===== verification/Lru.thy ===== *)
theory Lru
  imports Prelude
begin

text \<open>
  The contract that the least-recently-used caches of the program share, and the guarantee their
  clients rely on: a key that has been stored survives until as many other distinct keys have
  been stored as the cache has room for.  \<open>order\<close> is the recency list, most recent first.
\<close>

lemma takeWhile_remove1:
  "\<lbrakk>k \<noteq> j; k \<in> set xs\<rbrakk> \<Longrightarrow> takeWhile (\<lambda>x. x \<noteq> k) (remove1 j xs) = remove1 j (takeWhile (\<lambda>x. x \<noteq> k) xs)"
  by (induction xs) auto

lemma in_take_iff:
  "k \<in> set xs \<Longrightarrow> k \<in> set (take n xs) \<longleftrightarrow> length (takeWhile (\<lambda>x. x \<noteq> k) xs) < n"
proof (induction xs arbitrary: n)
  case (Cons x xs)
  then show ?case by (cases n) auto
qed simp

lemma takeWhile_take_in:
  "k \<in> set (take n xs) \<Longrightarrow> takeWhile (\<lambda>x. x \<noteq> k) (take n xs) = takeWhile (\<lambda>x. x \<noteq> k) xs"
proof (induction xs arbitrary: n)
  case (Cons x xs)
  then show ?case by (cases n) auto
qed simp

locale lru_cache =
  fixes order :: "'s \<Rightarrow> 'k list"
    and lookup :: "'s \<Rightarrow> 'k \<Rightarrow> 'v option"
    and bound :: "'s \<Rightarrow> nat"
    and inv :: "'s \<Rightarrow> bool"
    and put :: "'k \<Rightarrow> 'v \<Rightarrow> 's \<Rightarrow> 's"
  assumes order_wf: "inv s \<Longrightarrow> distinct (order s) \<and> set (order s) = dom (lookup s) \<and>
      length (order s) \<le> bound s"
    and bound_pos: "inv s \<Longrightarrow> 0 < bound s"
    and put_inv: "inv s \<Longrightarrow> inv (put k v s)"
    and put_bound: "inv s \<Longrightarrow> bound (put k v s) = bound s"
    and put_order: "inv s \<Longrightarrow> order (put k v s) = k # take (bound s - 1) (remove1 k (order s))"
    and put_lookup: "\<lbrakk>inv s; k' \<in> set (order (put k v s))\<rbrakk> \<Longrightarrow>
      lookup (put k v s) k' = (if k' = k then Some v else lookup s k')"
begin

text \<open>The keys used more recently than \<open>k\<close>.\<close>

definition newer :: "'k \<Rightarrow> 's \<Rightarrow> 'k set" where
  "newer k s = set (takeWhile (\<lambda>x. x \<noteq> k) (order s))"

definition put_all :: "('k \<times> 'v) list \<Rightarrow> 's \<Rightarrow> 's" where
  "put_all kvs s = fold (\<lambda>(k, v). put k v) kvs s"

lemma lookup_put_same: "inv s \<Longrightarrow> lookup (put k v s) k = Some v"
  by (simp add: put_lookup put_order)

lemma newer_put_same: "inv s \<Longrightarrow> newer k (put k v s) = {}"
  by (simp add: newer_def put_order)

lemma put_other_survives:
  assumes "inv s" "k \<in> set (order s)" "j \<noteq> k" "card (insert j (newer k s)) < bound s"
  shows "k \<in> set (order (put j v s)) \<and> newer k (put j v s) = insert j (newer k s)"
proof -
  let ?tw = "takeWhile (\<lambda>x. x \<noteq> k) (order s)"
  have d: "distinct ?tw" using order_wf [OF assms(1)] distinct_takeWhile by blast
  have k: "k \<in> set (remove1 j (order s))" using assms(2,3) by (simp add: in_set_remove1)
  have tw: "takeWhile (\<lambda>x. x \<noteq> k) (remove1 j (order s)) = remove1 j ?tw"
    using assms(2,3) by (intro takeWhile_remove1) auto
  have set_tw: "set (remove1 j ?tw) = newer k s - {j}"
    using d by (simp add: newer_def)
  have "length (remove1 j ?tw) = card (newer k s - {j})"
    using d set_tw by (metis distinct_card distinct_remove1)
  also have "Suc \<dots> = card (insert j (newer k s))"
    by (simp only: newer_def card.insert_remove finite_set)
  finally have "length (remove1 j ?tw) < bound s - 1" using assms(4) by linarith
  with k tw have "k \<in> set (take (bound s - 1) (remove1 j (order s)))"
    by (simp add: in_take_iff)
  then show ?thesis
    using assms(1,3) tw set_tw by (auto simp: newer_def put_order takeWhile_take_in)
qed

lemma put_all_survives:
  "\<lbrakk>inv s; lookup s k = Some v; k \<notin> fst ` set kvs; card (fst ` set kvs \<union> newer k s) < bound s\<rbrakk>
     \<Longrightarrow> lookup (put_all kvs s) k = Some v"
proof (induction kvs arbitrary: s)
  case Nil
  then show ?case by (simp add: put_all_def)
next
  case (Cons p kvs)
  obtain j w where p: "p = (j, w)" by (cases p)
  have mem: "k \<in> set (order s)" using order_wf [OF Cons.prems(1)] Cons.prems(2) by auto
  have "finite (newer k s)" by (simp add: newer_def)
  then have "card (insert j (newer k s)) \<le> card (fst ` set (p # kvs) \<union> newer k s)"
    using p by (intro card_mono) auto
  with Cons.prems mem p have surv: "k \<in> set (order (put j w s))"
    "newer k (put j w s) = insert j (newer k s)"
    using put_other_survives [of s k j w] by auto
  then have "lookup (put j w s) k = Some v"
    using Cons.prems p put_lookup [of s k j w] by auto
  moreover have "card (fst ` set kvs \<union> newer k (put j w s)) < bound (put j w s)"
    using Cons.prems p surv(2) put_bound by (simp add: Un_commute insert_commute)
  ultimately have "lookup (put_all kvs (put j w s)) k = Some v"
    using Cons.IH [of "put j w s"] Cons.prems put_inv by simp
  then show ?case by (simp add: put_all_def p)
qed

lemma stored_key_survives:
  assumes "inv s" "k \<notin> fst ` set kvs" "card (fst ` set kvs) < bound s"
  shows "lookup (put_all kvs (put k v s)) k = Some v"
  using put_all_survives [of "put k v s" k v kvs] assms
  by (simp add: put_inv lookup_put_same newer_put_same put_bound)

end

end
