(* ===== verification/DedupCache.thy ===== *)
theory DedupCache
  imports Lru
begin

text \<open>
  \<^verbatim>\<open>src/src/events/dedup_cache.{h,cpp}\<close>: the LRU cache that recognises an ADD event seen again
  within a time window.  Event timestamps are \<^verbatim>\<open>uint64_t\<close> and keep their width; the steady
  clock's time points and durations are nanoseconds, passed as \<open>now\<close> where the code reads the
  clock.  The two atomic counters are 64-bit words.
\<close>

record EventKey =
  ek_ctx :: string
  ek_id :: string
  ek_score :: int

record CacheEntry =
  ce_timestamp :: u64
  ce_last_seen_at :: int

record DedupCache =
  dc_max_size :: nat
  dc_window_sec :: u32
  dc_lru :: "EventKey list"
  dc_cache :: "(EventKey, CacheEntry) umap"
  dc_hits :: u64
  dc_misses :: u64

record DedupStatistics =
  ds_size :: nat
  ds_max_size :: nat
  ds_total_hits :: u64
  ds_total_misses :: u64

definition dc_new :: "nat \<Rightarrow> u32 \<Rightarrow> DedupCache" where
  "dc_new max_size window_sec =
     \<lparr>dc_max_size = max_size, dc_window_sec = window_sec, dc_lru = [], dc_cache = [],
      dc_hits = 0, dc_misses = 0\<rparr>"

definition seconds :: "u32 \<Rightarrow> int" where
  "seconds w = uint w * 1000000000"

definition event_time_distance :: "u64 \<Rightarrow> u64 \<Rightarrow> u64" where
  "event_time_distance timestamp stored =
     (if stored \<le> timestamp then timestamp - stored else stored - timestamp)"

definition dc_IsWithinWindow :: "DedupCache \<Rightarrow> CacheEntry \<Rightarrow> u64 \<Rightarrow> int \<Rightarrow> bool" where
  "dc_IsWithinWindow c entry timestamp now =
     (if event_time_distance timestamp (ce_timestamp entry) \<le> ucast (dc_window_sec c) then True
      else timestamp < ce_timestamp entry \<and>
           now - ce_last_seen_at entry \<le> seconds (dc_window_sec c))"

definition dc_hit :: "DedupCache \<Rightarrow> DedupCache" where
  "dc_hit c = c\<lparr>dc_hits := dc_hits c + 1\<rparr>"

definition dc_miss :: "DedupCache \<Rightarrow> DedupCache" where
  "dc_miss c = c\<lparr>dc_misses := dc_misses c + 1\<rparr>"

definition dc_IsDuplicate :: "EventKey \<Rightarrow> u64 \<Rightarrow> int \<Rightarrow> DedupCache \<Rightarrow> bool \<times> DedupCache" where
  "dc_IsDuplicate key ts now c =
     (if dc_window_sec c = 0 then (False, dc_miss c)
      else case um_find (dc_cache c) key of
        None \<Rightarrow> (False, dc_miss c)
      | Some entry \<Rightarrow>
          if dc_IsWithinWindow c entry ts now then (True, dc_hit c) else (False, dc_miss c))"

definition dc_WouldDeduplicate :: "EventKey \<Rightarrow> u64 \<Rightarrow> int \<Rightarrow> DedupCache \<Rightarrow> bool" where
  "dc_WouldDeduplicate key ts now c =
     (if dc_window_sec c = 0 then False
      else case um_find (dc_cache c) key of
        None \<Rightarrow> False
      | Some entry \<Rightarrow> dc_IsWithinWindow c entry ts now)"

definition dc_EvictLRU :: "DedupCache \<Rightarrow> DedupCache" where
  "dc_EvictLRU c =
     (if dc_lru c = [] then c
      else c\<lparr>dc_cache := um_erase (last (dc_lru c)) (dc_cache c),
             dc_lru := butlast (dc_lru c)\<rparr>)"

text \<open>The code both insertions end with: make room, push the key, store the entry.\<close>

definition dc_add :: "EventKey \<Rightarrow> CacheEntry \<Rightarrow> DedupCache \<Rightarrow> DedupCache" where
  "dc_add key entry c =
     (let c1 = (if dc_max_size c \<le> um_size (dc_cache c) then dc_EvictLRU c else c)
      in c1\<lparr>dc_lru := key # dc_lru c1, dc_cache := um_set key entry (dc_cache c1)\<rparr>)"

definition dc_refresh :: "EventKey \<Rightarrow> CacheEntry \<Rightarrow> DedupCache \<Rightarrow> DedupCache" where
  "dc_refresh key entry c =
     c\<lparr>dc_cache := um_set key entry (dc_cache c), dc_lru := splice_front key (dc_lru c)\<rparr>"

definition dc_CheckAndInsert :: "EventKey \<Rightarrow> u64 \<Rightarrow> int \<Rightarrow> DedupCache \<Rightarrow> bool \<times> DedupCache" where
  "dc_CheckAndInsert key ts now c =
     (if dc_window_sec c = 0 then (False, dc_miss c)
      else case um_find (dc_cache c) key of
        Some entry \<Rightarrow>
          if dc_IsWithinWindow c entry ts now
          then (True, dc_refresh key (entry\<lparr>ce_last_seen_at := now\<rparr>) (dc_hit c))
          else (False, dc_refresh key (entry\<lparr>ce_timestamp := ts, ce_last_seen_at := now\<rparr>) (dc_miss c))
      | None \<Rightarrow> (False, dc_add key \<lparr>ce_timestamp = ts, ce_last_seen_at = now\<rparr> (dc_miss c)))"

definition dc_Insert :: "EventKey \<Rightarrow> u64 \<Rightarrow> int \<Rightarrow> DedupCache \<Rightarrow> DedupCache" where
  "dc_Insert key ts now c =
     (case um_find (dc_cache c) key of
        Some entry \<Rightarrow> dc_refresh key (entry\<lparr>ce_timestamp := ts, ce_last_seen_at := now\<rparr>) c
      | None \<Rightarrow> dc_add key \<lparr>ce_timestamp = ts, ce_last_seen_at = now\<rparr> c)"

definition dc_Clear :: "DedupCache \<Rightarrow> DedupCache" where
  "dc_Clear c = c\<lparr>dc_cache := [], dc_lru := [], dc_hits := 0, dc_misses := 0\<rparr>"

definition dc_Size :: "DedupCache \<Rightarrow> nat" where
  "dc_Size c = um_size (dc_cache c)"

definition dc_GetStatistics :: "DedupCache \<Rightarrow> DedupStatistics" where
  "dc_GetStatistics c =
     \<lparr>ds_size = um_size (dc_cache c), ds_max_size = dc_max_size c,
      ds_total_hits = dc_hits c, ds_total_misses = dc_misses c\<rparr>"

text \<open>
  The invariant: the recency list orders the keys of the map, and the map holds at most
  \<^verbatim>\<open>max_size_\<close> entries (one when \<^verbatim>\<open>max_size_\<close> is 0, since eviction makes room before every
  insertion but never refuses one).
\<close>

definition dc_bound :: "DedupCache \<Rightarrow> nat" where
  "dc_bound c = max 1 (dc_max_size c)"

definition dc_inv :: "DedupCache \<Rightarrow> bool" where
  "dc_inv c \<longleftrightarrow> lru_wf (dc_lru c) (dc_cache c) \<and> length (dc_lru c) \<le> dc_bound c"

lemmas dc_defs = dc_hit_def dc_miss_def dc_refresh_def

subsection \<open>Invariant\<close>

lemma dc_inv_new [nv_inv]: "dc_inv (dc_new n w)"
  by (simp add: dc_inv_def dc_new_def)

lemma dc_inv_counters [simp]: "dc_inv (dc_hit c) = dc_inv c" "dc_inv (dc_miss c) = dc_inv c"
  by (simp_all add: dc_inv_def dc_defs dc_bound_def)

lemma dc_counters_simps [simp]:
  "dc_cache (dc_hit c) = dc_cache c" "dc_cache (dc_miss c) = dc_cache c"
  "dc_lru (dc_hit c) = dc_lru c" "dc_lru (dc_miss c) = dc_lru c"
  "dc_window_sec (dc_hit c) = dc_window_sec c" "dc_window_sec (dc_miss c) = dc_window_sec c"
  "dc_max_size (dc_hit c) = dc_max_size c" "dc_max_size (dc_miss c) = dc_max_size c"
  by (simp_all add: dc_defs)

lemma dc_inv_refresh [nv_inv]:
  assumes "dc_inv c" "um_find (dc_cache c) key = Some e"
  shows "dc_inv (dc_refresh key e' c)"
  using assms by (auto simp: dc_inv_def dc_refresh_def dc_bound_def lru_wf_splice_length)

lemma dc_add_lru:
  "dc_inv c \<Longrightarrow> dc_lru (dc_add key e c) = key # take (dc_bound c - 1) (dc_lru c)"
  by (auto simp: dc_inv_def dc_add_def dc_EvictLRU_def Let_def dc_bound_def butlast_conv_take
      lru_wf_length max_def)

lemma dc_add_wf:
  assumes "dc_inv c" "um_find (dc_cache c) key = None"
  shows "lru_wf (dc_lru (dc_add key e c)) (dc_cache (dc_add key e c))"
  using assms
  by (auto simp: dc_inv_def dc_add_def dc_EvictLRU_def Let_def)

lemma dc_bound_add [simp]: "dc_bound (dc_add key e c) = dc_bound c"
  by (simp add: dc_add_def dc_bound_def dc_EvictLRU_def Let_def)

lemma dc_bound_pos: "0 < dc_bound c"
  by (simp add: dc_bound_def)

lemma dc_bound_Insert [simp]: "dc_bound (dc_Insert key ts now c) = dc_bound c"
  by (simp add: dc_Insert_def dc_refresh_def split: option.split) (simp add: dc_bound_def)

lemma dc_inv_add [nv_inv]:
  "\<lbrakk>dc_inv c; um_find (dc_cache c) key = None\<rbrakk> \<Longrightarrow> dc_inv (dc_add key e c)"
  using dc_add_wf [of c key e] dc_add_lru [of c key e]
  by (simp add: dc_inv_def) (simp add: dc_bound_def)

lemma dc_inv_Insert [nv_inv]: "dc_inv c \<Longrightarrow> dc_inv (dc_Insert key ts now c)"
  by (simp add: dc_Insert_def nv_inv split: option.split)

lemma dc_inv_CheckAndInsert [nv_inv]: "dc_inv c \<Longrightarrow> dc_inv (snd (dc_CheckAndInsert key ts now c))"
  by (simp add: dc_CheckAndInsert_def nv_inv split: option.split)

lemma dc_inv_IsDuplicate [nv_inv]: "dc_inv c \<Longrightarrow> dc_inv (snd (dc_IsDuplicate key ts now c))"
  by (simp add: dc_IsDuplicate_def split: option.split)

lemma dc_inv_Clear [nv_inv]: "dc_inv (dc_Clear c)"
  by (simp add: dc_inv_def dc_Clear_def)

subsection \<open>The cache is an LRU cache\<close>

lemma dc_Insert_lru:
  assumes "dc_inv c"
  shows "dc_lru (dc_Insert key ts now c) = key # take (dc_bound c - 1) (remove1 key (dc_lru c))"
proof (cases "um_find (dc_cache c) key")
  case None
  then have "key \<notin> set (dc_lru c)" using assms lru_wf_dom by (auto simp: dc_inv_def)
  with None assms show ?thesis by (simp add: dc_Insert_def dc_add_lru remove1_idem)
next
  case (Some e)
  then have "key \<in> set (dc_lru c)" using assms by (auto simp: dc_inv_def dest: lru_wf_mem)
  then have "length (remove1 key (dc_lru c)) \<le> dc_bound c - 1"
    using assms by (simp add: dc_inv_def length_remove1 diff_le_mono)
  with Some show ?thesis by (simp add: dc_Insert_def dc_refresh_def splice_front_def)
qed

lemma dc_add_find:
  "\<lbrakk>dc_inv c; k \<in> set (dc_lru (dc_add key e c))\<rbrakk> \<Longrightarrow>
     um_find (dc_cache (dc_add key e c)) k = (if k = key then Some e else um_find (dc_cache c) k)"
  by (auto simp: dc_inv_def dc_add_def dc_EvictLRU_def Let_def lru_wf_def set_butlast_distinct)

definition dc_put :: "EventKey \<Rightarrow> u64 \<times> int \<Rightarrow> DedupCache \<Rightarrow> DedupCache" where
  "dc_put key v c = dc_Insert key (fst v) (snd v) c"

definition dc_lookup :: "DedupCache \<Rightarrow> EventKey \<Rightarrow> (u64 \<times> int) option" where
  "dc_lookup c key = map_option (\<lambda>e. (ce_timestamp e, ce_last_seen_at e)) (um_find (dc_cache c) key)"

interpretation dedup_lru: lru_cache dc_lru dc_lookup dc_bound dc_inv dc_put
proof (unfold_locales, goal_cases)
  case (1 s)
  then have "set (dc_lru s) = dom (dc_lookup s)"
    using lru_wf_dom [of "dc_lru s" "dc_cache s"] by (simp add: dc_inv_def dc_lookup_def dom_def)
  with 1 show ?case by (simp add: dc_inv_def lru_wf_def)
next
  case (6 s k' k v)
  then show ?case
    by (auto simp: dc_put_def dc_Insert_def dc_lookup_def dc_refresh_def dc_add_find split: option.splits)
qed (simp_all add: dc_put_def dc_Insert_lru nv_inv dc_bound_pos)

subsection \<open>Properties\<close>

lemma event_time_distance_uint:
  "uint (event_time_distance t e) = \<bar>uint t - uint e\<bar>"
  by (auto simp: event_time_distance_def word_le_def uint_sub_lem [THEN iffD1])

lemma dc_within_iff:
  "dc_IsWithinWindow c e t now \<longleftrightarrow>
     \<bar>uint t - uint (ce_timestamp e)\<bar> \<le> uint (dc_window_sec c) \<or>
     uint t < uint (ce_timestamp e) \<and> now - ce_last_seen_at e \<le> uint (dc_window_sec c) * 10 ^ 9"
  by (simp add: dc_IsWithinWindow_def word_le_def word_less_def event_time_distance_uint seconds_def
      uint_up_ucast is_up)

lemma dc_CheckAndInsert_verdict:
  "fst (dc_CheckAndInsert key ts now c) = dc_WouldDeduplicate key ts now c"
  by (simp add: dc_CheckAndInsert_def dc_WouldDeduplicate_def split: option.split)

lemma dc_window_Insert [simp]: "dc_window_sec (dc_Insert key ts now c) = dc_window_sec c"
  by (simp add: dc_Insert_def dc_refresh_def dc_add_def dc_EvictLRU_def Let_def split: option.split)

lemma dc_window_put_all [simp]: "dc_window_sec (dedup_lru.put_all kvs c) = dc_window_sec c"
  by (induction kvs arbitrary: c) (auto simp: dedup_lru.put_all_def dc_put_def)

text \<open>The events recorded one after the other, each with its timestamp and arrival time.\<close>

definition dc_insert_all :: "(EventKey \<times> u64 \<times> int) list \<Rightarrow> DedupCache \<Rightarrow> DedupCache" where
  "dc_insert_all = fold (\<lambda>(key, ts, now). dc_Insert key ts now)"

lemma dc_insert_all_put_all: "dc_insert_all kvs c = dedup_lru.put_all kvs c"
  by (induction kvs arbitrary: c)
    (auto simp: dc_insert_all_def dedup_lru.put_all_def dc_put_def)

text \<open>
  A recorded event is recognised again: after the event has been recorded, and as long as
  fewer distinct other events than the cache holds have been recorded since, the same event with
  a timestamp at most the window away is a duplicate.
\<close>

theorem dedup_recognises_recorded:
  assumes "dc_inv c" "dc_window_sec c \<noteq> 0" "key \<notin> fst ` set kvs"
    and "card (fst ` set kvs) < dc_bound c"
    and "\<bar>uint ts' - uint ts\<bar> \<le> uint (dc_window_sec c)"
  shows "fst (dc_CheckAndInsert key ts' now' (dc_insert_all kvs (dc_Insert key ts now c)))"
proof -
  let ?c = "dc_insert_all kvs (dc_Insert key ts now c)"
  have "dc_lookup ?c key = Some (ts, now)"
    using dedup_lru.stored_key_survives [OF assms(1,3,4), of "(ts, now)"]
    by (simp add: dc_insert_all_put_all dc_put_def)
  then obtain e where "um_find (dc_cache ?c) key = Some e" "ce_timestamp e = ts"
    by (auto simp: dc_lookup_def)
  then show ?thesis
    using assms(2,5) by (simp add: dc_CheckAndInsert_def dc_within_iff dc_insert_all_put_all)
qed

text \<open>
  The read-only preview and the atomic check agree, so an event that
  \<^verbatim>\<open>PrepareEvent\<close> previews as new is stored by the ingestion that follows it at the same
  instant, and the legacy \<^verbatim>\<open>IsDuplicate\<close> gives the same verdict.
\<close>

theorem dedup_preview_agrees:
  "dc_WouldDeduplicate key ts now c = fst (dc_CheckAndInsert key ts now c) \<and>
   dc_WouldDeduplicate key ts now c = fst (dc_IsDuplicate key ts now c)"
  by (simp add: dc_CheckAndInsert_verdict)
    (simp add: dc_IsDuplicate_def dc_WouldDeduplicate_def split: option.split)

text \<open>A run of the cache: any sequence of its state-changing operations.\<close>

datatype dc_op =
    DcCheckAndInsert EventKey u64 int
  | DcInsert EventKey u64 int
  | DcIsDuplicate EventKey u64 int
  | DcClear

fun dc_step :: "dc_op \<Rightarrow> DedupCache \<Rightarrow> DedupCache" where
  "dc_step (DcCheckAndInsert k t now) c = snd (dc_CheckAndInsert k t now c)"
| "dc_step (DcInsert k t now) c = dc_Insert k t now c"
| "dc_step (DcIsDuplicate k t now) c = snd (dc_IsDuplicate k t now c)"
| "dc_step DcClear c = dc_Clear c"

lemma dc_step_inv: "dc_inv c \<Longrightarrow> dc_inv (dc_step op c)"
  by (cases op) (simp_all add: nv_inv)

lemma dc_step_max_size: "dc_max_size (dc_step op c) = dc_max_size c"
  by (cases op) (simp_all add: dc_CheckAndInsert_def dc_Insert_def dc_IsDuplicate_def dc_Clear_def
      dc_refresh_def dc_add_def dc_EvictLRU_def Let_def split: option.split)

lemma dc_run_inv: "dc_inv c \<Longrightarrow> dc_inv (fold dc_step ops c)"
  by (induction ops arbitrary: c) (simp_all add: dc_step_inv)

lemma dc_run_max_size: "dc_max_size (fold dc_step ops c) = dc_max_size c"
  by (induction ops arbitrary: c) (simp_all add: dc_step_max_size)

text \<open>
  Whatever sequence of operations runs on a new cache, the recency list orders exactly the
  keys of the map, without repetition, and the cache never holds more than \<^verbatim>\<open>max_size_\<close>
  entries (one if \<^verbatim>\<open>max_size_\<close> is 0).
\<close>

theorem dedup_cache_bounded:
  "dc_inv (fold dc_step ops (dc_new n w)) \<and> dc_Size (fold dc_step ops (dc_new n w)) \<le> max 1 n"
proof -
  let ?c = "fold dc_step ops (dc_new n w)"
  have inv: "dc_inv ?c" by (rule dc_run_inv [OF dc_inv_new])
  have "dc_max_size ?c = n" by (simp add: dc_run_max_size dc_new_def)
  with inv have "dc_Size ?c \<le> max 1 n"
    using lru_wf_length [of "dc_lru ?c" "dc_cache ?c"]
    by (simp add: dc_inv_def dc_Size_def dc_bound_def)
  with inv show ?thesis by simp
qed

text \<open>Every hypothesis of C2 holds for a small cache, with another event in between.\<close>

theorem dedup_recognises_recorded_witness:
  "fst (dc_CheckAndInsert \<lparr>ek_ctx = ''u1'', ek_id = ''i1'', ek_score = 5\<rparr> 130 9
     (dc_insert_all [(\<lparr>ek_ctx = ''u1'', ek_id = ''i2'', ek_score = 5\<rparr>, 101, 1)]
       (dc_Insert \<lparr>ek_ctx = ''u1'', ek_id = ''i1'', ek_score = 5\<rparr> 100 0 (dc_new 2 60))))"
  by (rule dedup_recognises_recorded [OF dc_inv_new]) (simp_all add: dc_new_def dc_bound_def)

end
