(* ===== verification/StateCache.thy ===== *)
theory StateCache
  imports Lru
begin

text \<open>
  \<^verbatim>\<open>src/src/events/state_cache.{h,cpp}\<close>: the LRU cache of the last score of each (context, id)
  pair, which makes SET and DEL events idempotent.  A deleted pair is remembered with the score
  \<^verbatim>\<open>kDeletedScore = -1\<close>.
\<close>

record StateKey =
  sk_ctx :: string
  sk_id :: string

record StateCache =
  st_max_size :: nat
  st_lru :: "StateKey list"
  st_states :: "(StateKey, int) umap"
  st_hits :: u64
  st_misses :: u64

record StateStatistics =
  ss_size :: nat
  ss_max_size :: nat
  ss_total_hits :: u64
  ss_total_misses :: u64

definition kDeletedScore :: int where
  "kDeletedScore = - 1"

definition st_new :: "nat \<Rightarrow> StateCache" where
  "st_new max_size = \<lparr>st_max_size = max_size, st_lru = [], st_states = [], st_hits = 0, st_misses = 0\<rparr>"

definition st_hit :: "StateCache \<Rightarrow> StateCache" where
  "st_hit c = c\<lparr>st_hits := st_hits c + 1\<rparr>"

definition st_miss :: "StateCache \<Rightarrow> StateCache" where
  "st_miss c = c\<lparr>st_misses := st_misses c + 1\<rparr>"

definition st_EvictIfFull :: "StateCache \<Rightarrow> StateCache" where
  "st_EvictIfFull c =
     (if st_max_size c \<le> um_size (st_states c) \<and> st_lru c \<noteq> []
      then c\<lparr>st_states := um_erase (last (st_lru c)) (st_states c), st_lru := butlast (st_lru c)\<rparr>
      else c)"

definition st_TouchLocked :: "StateKey \<Rightarrow> StateCache \<Rightarrow> StateCache" where
  "st_TouchLocked key c =
     (case um_find (st_states c) key of
        None \<Rightarrow> c
      | Some _ \<Rightarrow> c\<lparr>st_lru := splice_front key (st_lru c)\<rparr>)"

text \<open>The code that records a score: overwrite and touch, or make room and insert.\<close>

definition st_record :: "StateKey \<Rightarrow> int \<Rightarrow> StateCache \<Rightarrow> StateCache" where
  "st_record key score c =
     (case um_find (st_states c) key of
        Some _ \<Rightarrow> st_TouchLocked key (c\<lparr>st_states := um_set key score (st_states c)\<rparr>)
      | None \<Rightarrow>
          (let c1 = st_EvictIfFull c
           in c1\<lparr>st_lru := key # st_lru c1, st_states := um_set key score (st_states c1)\<rparr>))"

definition st_IsDuplicateSet :: "StateKey \<Rightarrow> int \<Rightarrow> StateCache \<Rightarrow> bool \<times> StateCache" where
  "st_IsDuplicateSet key score c =
     (case um_find (st_states c) key of
        None \<Rightarrow> (False, st_miss c)
      | Some s \<Rightarrow> if s = score then (True, st_hit c) else (False, st_miss c))"

definition st_WouldDeduplicateSet :: "StateKey \<Rightarrow> int \<Rightarrow> StateCache \<Rightarrow> bool" where
  "st_WouldDeduplicateSet key score c = (um_find (st_states c) key = Some score)"

definition st_CheckAndUpdateSet :: "StateKey \<Rightarrow> int \<Rightarrow> StateCache \<Rightarrow> bool \<times> StateCache" where
  "st_CheckAndUpdateSet key score c =
     (if um_find (st_states c) key = Some score
      then (True, st_TouchLocked key (st_hit c))
      else (False, st_record key score (st_miss c)))"

definition st_IsDuplicateDel :: "StateKey \<Rightarrow> StateCache \<Rightarrow> bool \<times> StateCache" where
  "st_IsDuplicateDel key c =
     (case um_find (st_states c) key of
        None \<Rightarrow> (False, st_miss c)
      | Some s \<Rightarrow> if s = kDeletedScore then (True, st_hit c) else (False, st_miss c))"

definition st_WouldDeduplicateDel :: "StateKey \<Rightarrow> StateCache \<Rightarrow> bool" where
  "st_WouldDeduplicateDel key c = (um_find (st_states c) key = Some kDeletedScore)"

definition st_CheckAndMarkDeleted :: "StateKey \<Rightarrow> StateCache \<Rightarrow> bool \<times> StateCache" where
  "st_CheckAndMarkDeleted key c =
     (if um_find (st_states c) key = Some kDeletedScore
      then (True, st_TouchLocked key (st_hit c))
      else (False, st_record key kDeletedScore (st_miss c)))"

definition st_UpdateScore :: "StateKey \<Rightarrow> int \<Rightarrow> StateCache \<Rightarrow> StateCache" where
  "st_UpdateScore key score c = st_record key score c"

definition st_MarkDeleted :: "StateKey \<Rightarrow> StateCache \<Rightarrow> StateCache" where
  "st_MarkDeleted key c = st_record key kDeletedScore c"

definition st_Clear :: "StateCache \<Rightarrow> StateCache" where
  "st_Clear c = c\<lparr>st_lru := [], st_states := [], st_hits := 0, st_misses := 0\<rparr>"

definition st_Size :: "StateCache \<Rightarrow> nat" where
  "st_Size c = um_size (st_states c)"

definition st_GetStatistics :: "StateCache \<Rightarrow> StateStatistics" where
  "st_GetStatistics c =
     \<lparr>ss_size = um_size (st_states c), ss_max_size = st_max_size c,
      ss_total_hits = st_hits c, ss_total_misses = st_misses c\<rparr>"

definition st_bound :: "StateCache \<Rightarrow> nat" where
  "st_bound c = max 1 (st_max_size c)"

definition st_inv :: "StateCache \<Rightarrow> bool" where
  "st_inv c \<longleftrightarrow> lru_wf (st_lru c) (st_states c) \<and> length (st_lru c) \<le> st_bound c"

definition st_lookup :: "StateCache \<Rightarrow> StateKey \<Rightarrow> int option" where
  "st_lookup c = um_find (st_states c)"

subsection \<open>Invariant\<close>

lemma st_counters_simps [simp]:
  "st_states (st_hit c) = st_states c" "st_states (st_miss c) = st_states c"
  "st_lru (st_hit c) = st_lru c" "st_lru (st_miss c) = st_lru c"
  "st_max_size (st_hit c) = st_max_size c" "st_max_size (st_miss c) = st_max_size c"
  "st_inv (st_hit c) = st_inv c" "st_inv (st_miss c) = st_inv c"
  by (simp_all add: st_hit_def st_miss_def st_inv_def st_bound_def)

lemma st_inv_new [nv_inv]: "st_inv (st_new n)"
  by (simp add: st_inv_def st_new_def)

lemma st_max_size_record [simp]: "st_max_size (st_record key score c) = st_max_size c"
  by (simp add: st_record_def st_TouchLocked_def st_EvictIfFull_def Let_def split: option.split)

lemma st_max_size_Touch [simp]: "st_max_size (st_TouchLocked key c) = st_max_size c"
  by (simp add: st_TouchLocked_def split: option.split)

lemma st_bound_record [simp]: "st_bound (st_record key score c) = st_bound c"
  by (simp add: st_bound_def)

lemma st_bound_pos: "0 < st_bound c"
  by (simp add: st_bound_def)

lemma st_record_lru:
  assumes "st_inv c"
  shows "st_lru (st_record key score c) = key # take (st_bound c - 1) (remove1 key (st_lru c))"
proof (cases "um_find (st_states c) key")
  case None
  then have "key \<notin> set (st_lru c)" using assms lru_wf_dom by (auto simp: st_inv_def)
  with None assms show ?thesis
    by (auto simp: st_record_def st_EvictIfFull_def Let_def st_inv_def st_bound_def remove1_idem
        butlast_conv_take lru_wf_length max_def)
next
  case (Some e)
  then have "key \<in> set (st_lru c)" using assms by (auto simp: st_inv_def dest: lru_wf_mem)
  then have "length (remove1 key (st_lru c)) \<le> st_bound c - 1"
    using assms by (simp add: st_inv_def length_remove1 diff_le_mono)
  with Some show ?thesis by (simp add: st_record_def st_TouchLocked_def splice_front_def)
qed

lemma st_record_wf:
  "st_inv c \<Longrightarrow> lru_wf (st_lru (st_record key score c)) (st_states (st_record key score c))"
  by (auto simp: st_inv_def st_record_def st_TouchLocked_def st_EvictIfFull_def Let_def
      split: option.split)

lemma st_inv_record [nv_inv]: "st_inv c \<Longrightarrow> st_inv (st_record key score c)"
  using st_record_wf [of c key score] st_record_lru [of c key score] st_bound_pos [of c]
  by (simp add: st_inv_def)

lemma st_inv_Touch [nv_inv]: "st_inv c \<Longrightarrow> st_inv (st_TouchLocked key c)"
  using lru_wf_mem [of "st_lru c" "st_states c" key]
  by (auto simp: st_inv_def st_TouchLocked_def st_bound_def lru_wf_def split: option.split)

lemma st_record_find:
  "\<lbrakk>st_inv c; k \<in> set (st_lru (st_record key score c))\<rbrakk> \<Longrightarrow>
     um_find (st_states (st_record key score c)) k =
       (if k = key then Some score else um_find (st_states c) k)"
  by (auto simp: st_inv_def st_record_def st_TouchLocked_def st_EvictIfFull_def Let_def lru_wf_def
      set_butlast_distinct split: option.splits)

interpretation state_lru: lru_cache st_lru st_lookup st_bound st_inv st_UpdateScore
proof (unfold_locales, goal_cases)
  case (1 s)
  then show ?case using lru_wf_dom [of "st_lru s" "st_states s"]
    by (simp add: st_inv_def st_lookup_def lru_wf_def)
qed (simp_all add: st_UpdateScore_def st_record_lru nv_inv st_bound_pos st_lookup_def st_record_find)

subsection \<open>Operations as steps\<close>

datatype st_op =
    StSet StateKey int
  | StDel StateKey

fun st_op_key :: "st_op \<Rightarrow> StateKey" where
  "st_op_key (StSet k s) = k"
| "st_op_key (StDel k) = k"

text \<open>The two ingestion steps, with the verdict \<^verbatim>\<open>EventStore\<close> acts on.\<close>

fun st_step :: "st_op \<Rightarrow> StateCache \<Rightarrow> bool \<times> StateCache" where
  "st_step (StSet k s) c = st_CheckAndUpdateSet k s c"
| "st_step (StDel k) c = st_CheckAndMarkDeleted k c"

fun st_verdicts :: "st_op list \<Rightarrow> StateCache \<Rightarrow> bool list" where
  "st_verdicts [] c = []"
| "st_verdicts (x # xs) c = fst (st_step x c) # st_verdicts xs (snd (st_step x c))"

text \<open>
  The specification: an unbounded map from the pair to its last state, a score or deleted; an
  event is a duplicate when the state is already the one it asks for.
\<close>

datatype item_state = Scored int | Deleted

fun spec_target :: "st_op \<Rightarrow> item_state" where
  "spec_target (StSet k s) = Scored s"
| "spec_target (StDel k) = Deleted"

fun spec_verdicts :: "st_op list \<Rightarrow> (StateKey \<rightharpoonup> item_state) \<Rightarrow> bool list" where
  "spec_verdicts [] m = []"
| "spec_verdicts (x # xs) m =
     (m (st_op_key x) = Some (spec_target x))
       # spec_verdicts xs (m(st_op_key x \<mapsto> spec_target x))"

fun valid_op :: "st_op \<Rightarrow> bool" where
  "valid_op (StSet k s) = (0 \<le> s)"
| "valid_op (StDel k) = True"

fun state_code :: "item_state \<Rightarrow> int" where
  "state_code (Scored s) = s"
| "state_code Deleted = kDeletedScore"

definition st_agrees :: "StateCache \<Rightarrow> (StateKey \<rightharpoonup> item_state) \<Rightarrow> bool" where
  "st_agrees c m \<longleftrightarrow> st_lookup c = map_option state_code \<circ> m \<and>
     (\<forall>k s. m k = Some (Scored s) \<longrightarrow> 0 \<le> s)"

lemma state_code_inj:
  "\<lbrakk>valid_op x; \<forall>s. t = Scored s \<longrightarrow> 0 \<le> s\<rbrakk> \<Longrightarrow> state_code t = state_code (spec_target x) \<longleftrightarrow> t = spec_target x"
  by (cases t; cases x) (auto simp: kDeletedScore_def)

lemma st_step_eq:
  "st_step x c = (let s = state_code (spec_target x); k = st_op_key x in
     if um_find (st_states c) k = Some s then (True, st_TouchLocked k (st_hit c))
     else (False, st_record k s (st_miss c)))"
  by (cases x) (simp_all add: st_CheckAndUpdateSet_def st_CheckAndMarkDeleted_def)

lemma st_inv_step [nv_inv]: "st_inv c \<Longrightarrow> st_inv (snd (st_step x c))"
  by (simp add: st_step_eq Let_def nv_inv)

lemma st_max_size_step [simp]: "st_max_size (snd (st_step x c)) = st_max_size c"
  by (simp add: st_step_eq Let_def)

lemma st_lookup_Touch [simp]: "st_lookup (st_TouchLocked k c) = st_lookup c"
  by (simp add: st_lookup_def st_TouchLocked_def split: option.split)

lemma st_lookup_record_room:
  assumes "st_inv c" "k \<in> set (st_lru c) \<or> length (st_lru c) < st_bound c"
  shows "st_lookup (st_record k s c) = (st_lookup c)(k \<mapsto> s)"
proof
  fix j
  have "length (remove1 k (st_lru c)) \<le> st_bound c - 1"
    using assms by (auto simp: st_inv_def length_remove1)
  then have lru: "st_lru (st_record k s c) = k # remove1 k (st_lru c)"
    by (simp add: st_record_lru [OF assms(1)])
  have wf: "st_inv (st_record k s c)" using assms(1) by (rule nv_inv)
  show "st_lookup (st_record k s c) j = ((st_lookup c)(k \<mapsto> s)) j"
  proof (cases "j \<in> set (st_lru (st_record k s c))")
    case True
    then show ?thesis using st_record_find [OF assms(1)] by (simp add: st_lookup_def)
  next
    case False
    then have "j \<noteq> k" "j \<notin> set (st_lru c)" using lru by (auto simp: in_set_remove1)
    moreover from this have "st_lookup c j = None"
      using state_lru.order_wf [OF assms(1)] by auto
    moreover have "st_lookup (st_record k s c) j = None"
      using False state_lru.order_wf [OF wf] by auto
    ultimately show ?thesis by simp
  qed
qed

lemma st_step_agrees:
  assumes "st_inv c" "st_agrees c m" "valid_op x"
    and "card (insert (st_op_key x) (dom m)) \<le> st_bound c"
  shows "fst (st_step x c) = (m (st_op_key x) = Some (spec_target x)) \<and>
    st_agrees (snd (st_step x c)) (m(st_op_key x \<mapsto> spec_target x))"
proof -
  let ?k = "st_op_key x" and ?s = "state_code (spec_target x)"
  have fin: "set (st_lru c) = dom m" "distinct (st_lru c)"
    using assms(1,2) lru_wf_dom [of "st_lru c" "st_states c"]
    by (auto simp: st_inv_def st_agrees_def st_lookup_def lru_wf_def)
  have verdict: "um_find (st_states c) ?k = Some ?s \<longleftrightarrow> m ?k = Some (spec_target x)"
    using assms(2) state_code_inj [OF assms(3), of "the (m ?k)"]
    by (cases "m ?k") (auto simp: st_agrees_def st_lookup_def)
  have "?k \<in> set (st_lru c) \<or> length (st_lru c) < st_bound c"
  proof (cases "?k \<in> dom m")
    case False
    have "card (dom m) = length (st_lru c)" using fin by (metis distinct_card)
    then have "length (st_lru c) < card (insert ?k (dom m))"
      using False fin by (metis List.finite_set card_insert_disjoint lessI)
    with assms(4) show ?thesis by simp
  qed (simp add: fin)
  then have "st_lookup (st_record ?k ?s (st_miss c)) = (st_lookup c)(?k \<mapsto> ?s)"
    using st_lookup_record_room [of "st_miss c" ?k ?s] assms(1)
    by (simp add: st_lookup_def st_bound_def)
  moreover have "st_lookup (st_hit c) = st_lookup c" by (simp add: st_lookup_def)
  ultimately show ?thesis
    using verdict assms(2,3)
    by (cases x) (auto simp: st_step_eq Let_def st_agrees_def fun_eq_iff)
qed

lemma st_verdicts_agree:
  "\<lbrakk>st_inv c; st_agrees c m; \<forall>x \<in> set xs. valid_op x; finite (dom m);
    card (dom m \<union> st_op_key ` set xs) \<le> st_bound c\<rbrakk> \<Longrightarrow> st_verdicts xs c = spec_verdicts xs m"
proof (induction xs arbitrary: c m)
  case (Cons x xs)
  have "card (insert (st_op_key x) (dom m)) \<le> card (dom m \<union> st_op_key ` set (x # xs))"
    using Cons.prems(4) by (intro card_mono) auto
  then have step: "fst (st_step x c) = (m (st_op_key x) = Some (spec_target x))"
    "st_agrees (snd (st_step x c)) (m(st_op_key x \<mapsto> spec_target x))"
    using st_step_agrees [of c m x] Cons.prems by auto
  let ?m = "m(st_op_key x \<mapsto> spec_target x)"
  have d: "dom ?m = insert (st_op_key x) (dom m)" by simp
  have "card (dom ?m \<union> st_op_key ` set xs) \<le> st_bound (snd (st_step x c))"
    using Cons.prems(5) unfolding d by (simp add: st_bound_def)
  moreover have "finite (dom ?m)" using Cons.prems(4) unfolding d by simp
  ultimately have "st_verdicts xs (snd (st_step x c)) = spec_verdicts xs ?m"
    using Cons.prems(1,3) Cons.IH [OF st_inv_step step(2)] by (metis list.set_intros(2))
  with step show ?case by simp
qed simp

subsection \<open>Properties\<close>

text \<open>
  As long as at most \<^verbatim>\<open>max_size_\<close> distinct pairs occur, the bounded cache decides every
  SET (with a score that is not negative) and every DEL exactly as the unbounded last-state map
  does: an event is a duplicate precisely when the pair is already in the state it asks for.  In
  particular a SET after a DEL, or with another score, is never dropped.
\<close>

theorem state_cache_refines_last_state:
  assumes "\<forall>x \<in> set xs. valid_op x" and "card (st_op_key ` set xs) \<le> max 1 n"
  shows "st_verdicts xs (st_new n) = spec_verdicts xs Map.empty"
  using assms st_inv_new [of n]
  by (intro st_verdicts_agree) (simp_all add: st_agrees_def st_lookup_def st_new_def st_bound_def fun_eq_iff)

theorem state_cache_refines_last_state_witness:
  "st_verdicts
     [StSet \<lparr>sk_ctx = ''u'', sk_id = ''a''\<rparr> 7, StSet \<lparr>sk_ctx = ''u'', sk_id = ''a''\<rparr> 7,
      StDel \<lparr>sk_ctx = ''u'', sk_id = ''a''\<rparr>, StDel \<lparr>sk_ctx = ''u'', sk_id = ''a''\<rparr>,
      StSet \<lparr>sk_ctx = ''u'', sk_id = ''a''\<rparr> 7] (st_new 1) = [False, True, False, True, False]"
  by (subst state_cache_refines_last_state) simp_all

text \<open>
  Every sequence of ingestion steps keeps the recency list and the map of states in agreement
  and within \<^verbatim>\<open>max_size_\<close> entries (one if \<^verbatim>\<open>max_size_\<close> is 0).
\<close>

theorem state_cache_bounded:
  "st_inv (fold (\<lambda>x c. snd (st_step x c)) xs (st_new n)) \<and>
   st_Size (fold (\<lambda>x c. snd (st_step x c)) xs (st_new n)) \<le> max 1 n"
proof -
  let ?run = "\<lambda>c. fold (\<lambda>x c. snd (st_step x c)) xs c"
  have inv: "st_inv c \<Longrightarrow> st_inv (?run c)" for c
    by (induction xs arbitrary: c) (simp_all add: nv_inv)
  have "st_max_size (?run c) = st_max_size c" for c
    by (induction xs arbitrary: c) simp_all
  then have "st_max_size (?run (st_new n)) = n" by (simp add: st_new_def)
  with inv [OF st_inv_new [of n]] show ?thesis
    using lru_wf_length [of "st_lru (?run (st_new n))" "st_states (?run (st_new n))"]
    by (simp add: st_inv_def st_Size_def st_bound_def)
qed

end
