(* ===== verification/EventStore.thy ===== *)
theory EventStore
  imports Config RingBuffer DedupCache StateCache
begin

text \<open>
  \<^verbatim>\<open>src/src/events/event_store.{h,cpp}\<close>: the event store.  It validates an event, asks the
  deduplication caches, and appends it to the ring buffer of its context, evicting the context
  used least recently when the store is full.  The code reads two clocks: the wall clock, for an
  event without a timestamp, and the steady clock, inside the deduplication cache; both readings
  are arguments.  An operation returns \<open>None\<close> where the code would index a ring buffer of
  capacity 0; the invariant excludes it for every validated configuration.  The estimate of the
  memory in use is not modelled (it adds up sizes of C++ objects).
\<close>

datatype EventType = ADD | SET | DEL

record Event =
  ev_item_id :: string
  ev_score :: int
  ev_timestamp :: u64
  ev_type :: EventType

definition event_default :: Event where
  "event_default = \<lparr>ev_item_id = [], ev_score = 0, ev_timestamp = 0, ev_type = ADD\<rparr>"

record IngestResult =
  ir_deduped :: bool
  ir_stored_event :: Event
  ir_prior_events :: "Event list"

record PreparedEvent =
  pe_deduped :: bool
  pe_event :: Event

record EventStoreStatistics =
  est_active_contexts :: nat
  est_total_events :: u64
  est_deduped_events :: u64
  est_stored_events :: nat

record EventStore =
  es_config :: EventsConfig
  es_ctx_events :: "(string, Event RingBuffer) umap"
  es_ctx_last_access :: "(string, u64) umap"
  es_access_sequence :: u64
  es_total_events :: u64
  es_deduped_events :: u64
  es_dedup_cache :: "DedupCache option"
  es_state_cache :: "StateCache option"

definition es_new :: "EventsConfig \<Rightarrow> EventStore" where
  "es_new cfg =
     \<lparr>es_config = cfg, es_ctx_events = [], es_ctx_last_access = [], es_access_sequence = 0,
      es_total_events = 0, es_deduped_events = 0,
      es_dedup_cache =
        (if 0 < ec_dedup_window_sec cfg \<and> 0 < ec_dedup_cache_size cfg
         then Some (dc_new (unat (ec_dedup_cache_size cfg)) (ec_dedup_window_sec cfg)) else None),
      es_state_cache =
        (if 0 < ec_dedup_cache_size cfg then Some (st_new (unat (ec_dedup_cache_size cfg))) else None)\<rparr>"

definition kMinEventScore :: int where
  "kMinEventScore = 0"

definition kMaxEventScore :: int where
  "kMaxEventScore = 100"

text \<open>The readings of the two clocks: wall-clock seconds and steady-clock nanoseconds.\<close>

record clock =
  wall :: u64
  steady :: int

definition ResolveTimestamp :: "clock \<Rightarrow> u64 \<Rightarrow> u64" where
  "ResolveTimestamp clk timestamp = (if timestamp \<noteq> 0 then timestamp else wall clk)"

text \<open>The input validation that \<^verbatim>\<open>PrepareEvent\<close> and \<^verbatim>\<open>AddEventAndGetPrior\<close> both start with.\<close>

definition es_validate :: "string \<Rightarrow> string \<Rightarrow> int \<Rightarrow> EventType \<Rightarrow> unit expected" where
  "es_validate ctx item score type =
     (if ctx = [] then Inl (MakeError kEventStoreError ''Context cannot be empty'')
      else if item = [] then Inl (MakeError kEventStoreError ''ID cannot be empty'')
      else if type \<noteq> DEL \<and> (score < kMinEventScore \<or> kMaxEventScore < score)
      then Inl (MakeError kEventInvalidScore
                  (''Score must be in range [0, 100], got '' @ show_int score))
      else Inr ())"

definition ekey :: "string \<Rightarrow> string \<Rightarrow> int \<Rightarrow> EventKey" where
  "ekey ctx item score = \<lparr>ek_ctx = ctx, ek_id = item, ek_score = score\<rparr>"

definition skey :: "string \<Rightarrow> string \<Rightarrow> StateKey" where
  "skey ctx item = \<lparr>sk_ctx = ctx, sk_id = item\<rparr>"

definition PrepareEvent ::
    "string \<Rightarrow> string \<Rightarrow> int \<Rightarrow> EventType \<Rightarrow> u64 \<Rightarrow> clock \<Rightarrow> EventStore \<Rightarrow> PreparedEvent expected" where
  "PrepareEvent ctx item score type timestamp clk s =
     (case es_validate ctx item score type of
        Inl e \<Rightarrow> Inl e
      | Inr _ \<Rightarrow>
          let ts = ResolveTimestamp clk timestamp;
              dup = (case type of
                  ADD \<Rightarrow> (case es_dedup_cache s of
                      None \<Rightarrow> False
                    | Some c \<Rightarrow> dc_WouldDeduplicate (ekey ctx item score) ts (steady clk) c)
                | SET \<Rightarrow> (case es_state_cache s of
                      None \<Rightarrow> False | Some c \<Rightarrow> st_WouldDeduplicateSet (skey ctx item) score c)
                | DEL \<Rightarrow> (case es_state_cache s of
                      None \<Rightarrow> False | Some c \<Rightarrow> st_WouldDeduplicateDel (skey ctx item) c));
              stored_score = (if type = DEL then 0 else score)
          in Inr \<lparr>pe_deduped = dup,
                  pe_event = \<lparr>ev_item_id = item, ev_score = stored_score, ev_timestamp = ts,
                              ev_type = type\<rparr>\<rparr>)"

text \<open>\<^verbatim>\<open>std::min_element\<close>: the first entry with the smallest value.\<close>

fun min_from :: "'k \<times> u64 \<Rightarrow> ('k \<times> u64) list \<Rightarrow> 'k \<times> u64" where
  "min_from b [] = b"
| "min_from b (y # ys) = min_from (if snd y < snd b then y else b) ys"

fun min_element :: "('k \<times> u64) list \<Rightarrow> ('k \<times> u64) option" where
  "min_element [] = None"
| "min_element (x # xs) = Some (min_from x xs)"

definition es_EvictLeastRecentlyUsedContextLocked :: "EventStore \<Rightarrow> EventStore" where
  "es_EvictLeastRecentlyUsedContextLocked s =
     (if ec_max_contexts (es_config s) = 0 \<or>
         um_size (es_ctx_events s) < unat (ec_max_contexts (es_config s)) then s
      else case min_element (es_ctx_last_access s) of
        None \<Rightarrow> s
      | Some (victim, _) \<Rightarrow>
          s\<lparr>es_ctx_events := um_erase victim (es_ctx_events s),
            es_ctx_last_access := um_erase victim (es_ctx_last_access s)\<rparr>)"

definition es_TouchContextLocked :: "string \<Rightarrow> EventStore \<Rightarrow> EventStore" where
  "es_TouchContextLocked ctx s =
     (let seq = es_access_sequence s + 1
      in s\<lparr>es_access_sequence := seq,
           es_ctx_last_access := um_set ctx seq (es_ctx_last_access s)\<rparr>)"

text \<open>Find the context's ring buffer, or make room and create it.\<close>

definition es_open_context :: "string \<Rightarrow> EventStore \<Rightarrow> Event RingBuffer \<times> EventStore" where
  "es_open_context ctx s =
     (case um_find (es_ctx_events s) ctx of
        Some rb \<Rightarrow> (rb, s)
      | None \<Rightarrow>
          (let s1 = es_EvictLeastRecentlyUsedContextLocked s;
               rb = rb_new event_default (unat (ec_ctx_buffer_size (es_config s)))
           in (rb, s1\<lparr>es_ctx_events := um_set ctx rb (es_ctx_events s1)\<rparr>)))"

text \<open>The critical section of an ingestion: the prior contents, and the store after the push.\<close>

definition es_append :: "string \<Rightarrow> Event \<Rightarrow> EventStore \<Rightarrow> (Event list \<times> EventStore) option" where
  "es_append ctx event s =
     (let (rb, s1) = es_open_context ctx s;
          s2 = es_TouchContextLocked ctx s1
      in case Push event rb of
           None \<Rightarrow> None
         | Some rb' \<Rightarrow> Some (GetAll rb, s2\<lparr>es_ctx_events := um_set ctx rb' (es_ctx_events s2)\<rparr>))"

text \<open>The deduplication switch: the verdict, the score to store, and the caches afterwards.\<close>

definition es_dedup ::
    "string \<Rightarrow> string \<Rightarrow> int \<Rightarrow> EventType \<Rightarrow> u64 \<Rightarrow> int \<Rightarrow> EventStore \<Rightarrow> bool \<times> EventStore" where
  "es_dedup ctx item score type ts now s =
     (case type of
        ADD \<Rightarrow> (case es_dedup_cache s of
            None \<Rightarrow> (False, s)
          | Some c \<Rightarrow> (let (dup, c') = dc_CheckAndInsert (ekey ctx item score) ts now c
                      in (dup, s\<lparr>es_dedup_cache := Some c'\<rparr>)))
      | SET \<Rightarrow> (case es_state_cache s of
            None \<Rightarrow> (False, s)
          | Some c \<Rightarrow> (let (dup, c') = st_CheckAndUpdateSet (skey ctx item) score c
                      in (dup, s\<lparr>es_state_cache := Some c'\<rparr>)))
      | DEL \<Rightarrow> (case es_state_cache s of
            None \<Rightarrow> (False, s)
          | Some c \<Rightarrow> (let (dup, c') = st_CheckAndMarkDeleted (skey ctx item) c
                      in (dup, s\<lparr>es_state_cache := Some c'\<rparr>))))"

definition AddEventAndGetPrior ::
    "string \<Rightarrow> string \<Rightarrow> int \<Rightarrow> EventType \<Rightarrow> u64 \<Rightarrow> clock \<Rightarrow> EventStore \<Rightarrow>
       (IngestResult expected \<times> EventStore) option" where
  "AddEventAndGetPrior ctx item score type timestamp clk s =
     (case es_validate ctx item score type of
        Inl e \<Rightarrow> Some (Inl e, s)
      | Inr _ \<Rightarrow>
          let ts = ResolveTimestamp clk timestamp;
              s1 = s\<lparr>es_total_events := es_total_events s + 1\<rparr>;
              (dup, s2) = es_dedup ctx item score type ts (steady clk) s1
          in if dup
             then Some (Inr \<lparr>ir_deduped = True, ir_stored_event = event_default, ir_prior_events = []\<rparr>,
                        s2\<lparr>es_deduped_events := es_deduped_events s2 + 1\<rparr>)
             else let event = \<lparr>ev_item_id = item, ev_score = (if type = DEL then 0 else score),
                               ev_timestamp = ts, ev_type = type\<rparr>
                  in case es_append ctx event s2 of
                       None \<Rightarrow> None
                     | Some (prior, s3) \<Rightarrow>
                         Some (Inr \<lparr>ir_deduped = False, ir_stored_event = event,
                                    ir_prior_events = prior\<rparr>, s3))"

definition AddEvent ::
    "string \<Rightarrow> string \<Rightarrow> int \<Rightarrow> EventType \<Rightarrow> u64 \<Rightarrow> clock \<Rightarrow> EventStore \<Rightarrow>
       (unit expected \<times> EventStore) option" where
  "AddEvent ctx item score type timestamp clk s =
     (case AddEventAndGetPrior ctx item score type timestamp clk s of
        None \<Rightarrow> None
      | Some (Inl e, s') \<Rightarrow> Some (Inl e, s')
      | Some (Inr _, s') \<Rightarrow> Some (Inr (), s'))"

definition es_reseed_state :: "string \<Rightarrow> Event \<Rightarrow> StateCache \<Rightarrow> StateCache" where
  "es_reseed_state ctx event c =
     (let key = skey ctx (ev_item_id event)
      in case ev_type event of
           SET \<Rightarrow> st_UpdateScore key (ev_score event) c
         | DEL \<Rightarrow> st_MarkDeleted key c
         | ADD \<Rightarrow> c)"

definition RestoreEvent :: "string \<Rightarrow> Event \<Rightarrow> EventStore \<Rightarrow> (unit expected \<times> EventStore) option" where
  "RestoreEvent ctx event s =
     (if ctx = [] then Some (Inl (MakeError kInvalidArgument ''Context cannot be empty''), s)
      else if ev_item_id event = []
      then Some (Inl (MakeError kInvalidArgument ''ID cannot be empty''), s)
      else case es_append ctx event (s\<lparr>es_total_events := es_total_events s + 1\<rparr>) of
        None \<Rightarrow> None
      | Some (_, s1) \<Rightarrow>
          Some (Inr (), s1\<lparr>es_state_cache := map_option (es_reseed_state ctx event) (es_state_cache s1)\<rparr>))"

definition GetEvents :: "string \<Rightarrow> EventStore \<Rightarrow> Event list" where
  "GetEvents ctx s = (case um_find (es_ctx_events s) ctx of None \<Rightarrow> [] | Some rb \<Rightarrow> GetAll rb)"

definition GetContextCount :: "EventStore \<Rightarrow> nat" where
  "GetContextCount s = um_size (es_ctx_events s)"

definition GetAllContexts :: "EventStore \<Rightarrow> string list" where
  "GetAllContexts s = um_keys (es_ctx_events s)"

definition es_Clear :: "EventStore \<Rightarrow> EventStore" where
  "es_Clear s =
     s\<lparr>es_ctx_events := [], es_ctx_last_access := [], es_access_sequence := 0,
       es_total_events := 0, es_deduped_events := 0,
       es_dedup_cache := map_option dc_Clear (es_dedup_cache s),
       es_state_cache := map_option st_Clear (es_state_cache s)\<rparr>"

text \<open>\<^verbatim>\<open>SwapState\<close> of two distinct stores: everything but the configuration changes places.\<close>

definition es_SwapState :: "EventStore \<Rightarrow> EventStore \<Rightarrow> EventStore \<times> EventStore" where
  "es_SwapState s t =
     (t\<lparr>es_config := es_config s\<rparr>, s\<lparr>es_config := es_config t\<rparr>)"

definition es_GetStatistics :: "EventStore \<Rightarrow> EventStoreStatistics" where
  "es_GetStatistics s =
     \<lparr>est_active_contexts = um_size (es_ctx_events s), est_total_events = es_total_events s,
      est_deduped_events = es_deduped_events s,
      est_stored_events = sum_list (map (\<lambda>(_, rb). rb_size rb) (es_ctx_events s))\<rparr>"

subsection \<open>Invariant\<close>

definition es_capacity :: "EventStore \<Rightarrow> nat" where
  "es_capacity s = unat (ec_ctx_buffer_size (es_config s))"

definition es_inv :: "EventStore \<Rightarrow> bool" where
  "es_inv s \<longleftrightarrow> 0 < es_capacity s \<and> um_wf (es_ctx_events s) \<and> um_wf (es_ctx_last_access s) \<and>
     fst ` set (es_ctx_last_access s) = fst ` set (es_ctx_events s) \<and>
     (\<forall>ctx rb. um_find (es_ctx_events s) ctx = Some rb \<longrightarrow> rb_inv rb \<and> rb_capacity rb = es_capacity s) \<and>
     (ec_max_contexts (es_config s) \<noteq> 0 \<longrightarrow>
        um_size (es_ctx_events s) \<le> unat (ec_max_contexts (es_config s))) \<and>
     pred_option dc_inv (es_dedup_cache s) \<and> pred_option st_inv (es_state_cache s)"

lemma es_inv_new [nv_inv]: "0 < unat (ec_ctx_buffer_size cfg) \<Longrightarrow> es_inv (es_new cfg)"
  by (simp add: es_inv_def es_new_def es_capacity_def nv_inv)

lemma min_from_least:
  "min_from b ys \<in> insert b (set ys) \<and> snd (min_from b ys) \<le> snd b \<and>
   (\<forall>q \<in> set ys. snd (min_from b ys) \<le> snd q)"
proof (induction ys arbitrary: b)
  case (Cons y ys)
  show ?case
    using Cons.IH [of y] Cons.IH [of b] by (cases "snd y < snd b") (auto intro: order.trans less_imp_le)
qed simp

lemma min_element_Some:
  "min_element xs = Some p \<Longrightarrow> p \<in> set xs \<and> (\<forall>q \<in> set xs. snd p \<le> snd q)"
  using min_from_least [of "hd xs" "tl xs"] by (cases xs) auto

lemma min_element_None [simp]: "min_element xs = None \<longleftrightarrow> xs = []"
  by (cases xs) auto

lemma es_evict_frame [simp]:
  "es_config (es_EvictLeastRecentlyUsedContextLocked s) = es_config s"
  "es_dedup_cache (es_EvictLeastRecentlyUsedContextLocked s) = es_dedup_cache s"
  "es_state_cache (es_EvictLeastRecentlyUsedContextLocked s) = es_state_cache s"
  "es_total_events (es_EvictLeastRecentlyUsedContextLocked s) = es_total_events s"
  "es_deduped_events (es_EvictLeastRecentlyUsedContextLocked s) = es_deduped_events s"
  "es_access_sequence (es_EvictLeastRecentlyUsedContextLocked s) = es_access_sequence s"
  by (simp_all add: es_EvictLeastRecentlyUsedContextLocked_def split: option.split prod.split)

lemma es_evict_capacity [simp]: "es_capacity (es_EvictLeastRecentlyUsedContextLocked s) = es_capacity s"
  by (simp add: es_capacity_def)

text \<open>Eviction either does nothing, or removes the context with the oldest access.\<close>

lemma es_evict_cases:
  assumes "es_inv s"
  obtains (room) "es_EvictLeastRecentlyUsedContextLocked s = s"
      "ec_max_contexts (es_config s) = 0 \<or> um_size (es_ctx_events s) < unat (ec_max_contexts (es_config s))"
  | (victim) v t where "ec_max_contexts (es_config s) \<noteq> 0"
      "(v, t) \<in> set (es_ctx_last_access s)" "\<forall>q \<in> set (es_ctx_last_access s). t \<le> snd q"
      "v \<in> fst ` set (es_ctx_events s)"
      "es_EvictLeastRecentlyUsedContextLocked s =
        s\<lparr>es_ctx_events := um_erase v (es_ctx_events s),
          es_ctx_last_access := um_erase v (es_ctx_last_access s)\<rparr>"
proof (cases "ec_max_contexts (es_config s) = 0 \<or>
    um_size (es_ctx_events s) < unat (ec_max_contexts (es_config s))")
  case True
  then show ?thesis by (intro room) (simp_all add: es_EvictLeastRecentlyUsedContextLocked_def)
next
  case False
  have "es_ctx_events s \<noteq> []" using False by (auto simp: unat_eq_0)
  then have "es_ctx_last_access s \<noteq> []" using assms by (auto simp: es_inv_def)
  then obtain v t where vt: "min_element (es_ctx_last_access s) = Some (v, t)"
    by (metis min_element_None not_None_eq surj_pair)
  note m = min_element_Some [OF vt]
  have "v \<in> fst ` set (es_ctx_last_access s)" using m by force
  then have "v \<in> fst ` set (es_ctx_events s)" using assms by (simp add: es_inv_def)
  with m vt False show ?thesis
    by (intro victim [of v t]) (simp_all add: es_EvictLeastRecentlyUsedContextLocked_def)
qed

lemma es_evict_inv [nv_inv]:
  assumes "es_inv s"
  shows "es_inv (es_EvictLeastRecentlyUsedContextLocked s)"
  using assms
proof (cases rule: es_evict_cases)
  case (victim v t)
  have "length (um_erase v (es_ctx_events s)) \<le> um_size (es_ctx_events s)"
    by (rule length_delete_le)
  with victim assms show ?thesis by (simp add: es_inv_def es_capacity_def)
qed (use assms in simp)

lemma es_evict_room:
  assumes "es_inv s" "ec_max_contexts (es_config s) \<noteq> 0"
  shows "um_size (es_ctx_events (es_EvictLeastRecentlyUsedContextLocked s))
    < unat (ec_max_contexts (es_config s))"
  using assms(1)
proof (cases rule: es_evict_cases)
  case (victim v t)
  have "um_size (es_ctx_events s) > 0" using victim(4) by (cases "es_ctx_events s") auto
  moreover have "um_size (es_ctx_events s) \<le> unat (ec_max_contexts (es_config s))"
    using assms by (simp add: es_inv_def)
  moreover have "um_size (um_erase v (es_ctx_events s)) = um_size (es_ctx_events s) - 1"
    using victim(4) assms(1) by (simp add: es_inv_def um_size_erase)
  ultimately have "um_size (um_erase v (es_ctx_events s)) < unat (ec_max_contexts (es_config s))"
    by linarith
  then show ?thesis unfolding victim(5) by simp
qed (use assms in simp)

subsection \<open>Appending an event\<close>

text \<open>The store in which the context has room: the store itself, or the store after eviction.\<close>

definition es_with_room :: "string \<Rightarrow> EventStore \<Rightarrow> EventStore" where
  "es_with_room ctx s = (if um_find (es_ctx_events s) ctx = None
     then es_EvictLeastRecentlyUsedContextLocked s else s)"

lemma es_with_room_frame [simp]:
  "es_config (es_with_room ctx s) = es_config s"
  "es_dedup_cache (es_with_room ctx s) = es_dedup_cache s"
  "es_state_cache (es_with_room ctx s) = es_state_cache s"
  "es_total_events (es_with_room ctx s) = es_total_events s"
  "es_deduped_events (es_with_room ctx s) = es_deduped_events s"
  "es_access_sequence (es_with_room ctx s) = es_access_sequence s"
  by (simp_all add: es_with_room_def)

lemma es_inv_with_room [nv_inv]: "es_inv s \<Longrightarrow> es_inv (es_with_room ctx s)"
  by (simp add: es_with_room_def nv_inv)

definition es_appended :: "string \<Rightarrow> Event RingBuffer \<Rightarrow> EventStore \<Rightarrow> EventStore" where
  "es_appended ctx rb s =
     (let s0 = es_with_room ctx s; seq = es_access_sequence s + 1
      in s0\<lparr>es_access_sequence := seq,
            es_ctx_last_access := um_set ctx seq (es_ctx_last_access s0),
            es_ctx_events := um_set ctx rb (es_ctx_events s0)\<rparr>)"

definition es_buffer :: "string \<Rightarrow> EventStore \<Rightarrow> Event RingBuffer" where
  "es_buffer ctx s = (case um_find (es_ctx_events s) ctx of
     Some rb \<Rightarrow> rb | None \<Rightarrow> rb_new event_default (es_capacity s))"

lemma es_append_eq:
  "es_append ctx ev s = map_option (\<lambda>rb. (GetAll (es_buffer ctx s), es_appended ctx rb s))
     (Push ev (es_buffer ctx s))"
  by (simp add: es_append_def es_open_context_def es_buffer_def es_appended_def es_with_room_def
      es_TouchContextLocked_def es_capacity_def Let_def split: option.split)

lemma es_buffer_inv: "es_inv s \<Longrightarrow> rb_inv (es_buffer ctx s) \<and> rb_capacity (es_buffer ctx s) = es_capacity s"
  by (auto simp: es_inv_def es_buffer_def rb_inv_new split: option.split)

lemma es_buffer_contents [simp]: "GetAll (es_buffer ctx s) = GetEvents ctx s"
  by (simp add: es_buffer_def GetEvents_def split: option.split)

lemma es_with_room_find:
  "um_find (es_ctx_events s) ctx = Some rb \<Longrightarrow> es_with_room ctx s = s"
  by (simp add: es_with_room_def)

lemma es_with_room_absent:
  assumes "es_inv s" "um_find (es_ctx_events s) ctx = None"
  shows "um_find (es_ctx_events (es_with_room ctx s)) ctx = None"
  using assms(1) by (cases rule: es_evict_cases) (use assms(2) in \<open>simp_all add: es_with_room_def\<close>)

lemma es_inv_appended [nv_inv]:
  assumes "es_inv s" "rb_inv rb" "rb_capacity rb = es_capacity s"
  shows "es_inv (es_appended ctx rb s)"
proof -
  let ?s0 = "es_with_room ctx s"
  have s0: "es_inv ?s0" using assms(1) by (rule nv_inv)
  have cap: "es_capacity ?s0 = es_capacity s" by (simp add: es_capacity_def)
  have size: "um_size (um_set ctx rb (es_ctx_events ?s0)) \<le> unat (ec_max_contexts (es_config s))"
    if max: "ec_max_contexts (es_config s) \<noteq> 0"
  proof (cases "um_find (es_ctx_events s) ctx")
    case None
    with es_evict_room [OF assms(1) max] have "um_size (es_ctx_events ?s0) < unat (ec_max_contexts (es_config s))"
      by (simp add: es_with_room_def)
    with s0 show ?thesis by (simp add: es_inv_def um_size_set)
  next
    case (Some rb0)
    then have "ctx \<in> fst ` set (es_ctx_events s)" by (rule um_find_Some_key)
    with Some assms(1) max show ?thesis by (simp add: es_inv_def es_with_room_def um_size_set)
  qed
  show ?thesis
    using s0 size assms cap by (simp add: es_inv_def es_appended_def Let_def es_capacity_def)
qed

lemma es_append_defined:
  assumes "es_inv s"
  obtains rb where "Push ev (es_buffer ctx s) = Some rb"
    "es_append ctx ev s = Some (GetEvents ctx s, es_appended ctx rb s)"
    "es_inv (es_appended ctx rb s)"
    "GetAll rb = last_n (es_capacity s) (GetEvents ctx s @ [ev])"
proof -
  from ring.push_defined [of "es_buffer ctx s" ev] es_buffer_inv [OF assms, of ctx]
  obtain rb where rb: "Push ev (es_buffer ctx s) = Some rb" "rb_inv rb"
    "rb_capacity rb = es_capacity s" "GetAll rb = last_n (es_capacity s) (GetEvents ctx s @ [ev])"
    by auto
  with assms that show ?thesis by (simp add: es_append_eq nv_inv)
qed

lemma es_appended_GetEvents [simp]: "GetEvents ctx (es_appended ctx rb s) = GetAll rb"
  by (simp add: GetEvents_def es_appended_def Let_def)

lemma es_appended_other: "c \<noteq> ctx \<Longrightarrow> GetEvents c (es_appended ctx rb s) = GetEvents c (es_with_room ctx s)"
  by (simp add: GetEvents_def es_appended_def Let_def)

lemma es_appended_frame [simp]:
  "es_config (es_appended ctx rb s) = es_config s"
  "es_dedup_cache (es_appended ctx rb s) = es_dedup_cache s"
  "es_state_cache (es_appended ctx rb s) = es_state_cache s"
  "es_total_events (es_appended ctx rb s) = es_total_events s"
  "es_deduped_events (es_appended ctx rb s) = es_deduped_events s"
  by (simp_all add: es_appended_def Let_def)

subsection \<open>Operations\<close>

lemma es_dedup_frame:
  assumes "es_dedup ctx item score type ts now s = (dup, s')"
  shows "es_ctx_events s' = es_ctx_events s \<and> es_ctx_last_access s' = es_ctx_last_access s \<and>
    es_access_sequence s' = es_access_sequence s \<and> es_config s' = es_config s \<and>
    es_total_events s' = es_total_events s \<and> es_deduped_events s' = es_deduped_events s"
  using assms by (cases type) (auto simp: es_dedup_def split: option.splits prod.splits)

lemma es_inv_dedup:
  assumes "es_inv s" "es_dedup ctx item score type ts now s = (dup, s')"
  shows "es_inv s'"
proof -
  have "pred_option dc_inv (es_dedup_cache s') \<and> pred_option st_inv (es_state_cache s')"
    using assms
      dc_inv_CheckAndInsert [of "the (es_dedup_cache s)" "ekey ctx item score" ts now]
      st_inv_step [of "the (es_state_cache s)" "StSet (skey ctx item) score"]
      st_inv_step [of "the (es_state_cache s)" "StDel (skey ctx item)"]
    by (cases type) (auto simp: es_inv_def es_dedup_def split: option.splits prod.splits)
  then show ?thesis
    using assms(1) es_dedup_frame [OF assms(2)] by (simp add: es_inv_def es_capacity_def)
qed

lemma es_inv_counters [simp]:
  "es_inv (s\<lparr>es_total_events := n\<rparr>) = es_inv s"
  "es_inv (s\<lparr>es_deduped_events := n\<rparr>) = es_inv s"
  by (simp_all add: es_inv_def es_capacity_def)

lemma GetEvents_counters [simp]:
  "GetEvents c (s\<lparr>es_total_events := n\<rparr>) = GetEvents c s"
  "GetEvents c (s\<lparr>es_deduped_events := n\<rparr>) = GetEvents c s"
  "GetEvents c (s\<lparr>es_state_cache := sc\<rparr>) = GetEvents c s"
  by (simp_all add: GetEvents_def)

lemma es_with_room_counter:
  "es_ctx_events (es_with_room ctx (s\<lparr>es_total_events := n\<rparr>)) = es_ctx_events (es_with_room ctx s)"
  by (simp add: es_with_room_def es_EvictLeastRecentlyUsedContextLocked_def split: option.split prod.split)

text \<open>The event an ingestion stores.\<close>

definition stored_event :: "string \<Rightarrow> int \<Rightarrow> EventType \<Rightarrow> u64 \<Rightarrow> clock \<Rightarrow> Event" where
  "stored_event item score type timestamp clk =
     \<lparr>ev_item_id = item, ev_score = (if type = DEL then 0 else score),
      ev_timestamp = ResolveTimestamp clk timestamp, ev_type = type\<rparr>"

lemma AddEventAndGetPrior_cases:
  assumes "es_inv s"
  obtains
    (invalid) e where "es_validate ctx item score type = Inl e"
      "AddEventAndGetPrior ctx item score type timestamp clk s = Some (Inl e, s)"
  | (duplicate) s2 where "es_validate ctx item score type = Inr ()"
      "es_dedup ctx item score type (ResolveTimestamp clk timestamp) (steady clk)
         (s\<lparr>es_total_events := es_total_events s + 1\<rparr>) = (True, s2)"
      "AddEventAndGetPrior ctx item score type timestamp clk s =
         Some (Inr \<lparr>ir_deduped = True, ir_stored_event = event_default, ir_prior_events = []\<rparr>,
               s2\<lparr>es_deduped_events := es_deduped_events s2 + 1\<rparr>)"
  | (stored) s2 rb where "es_validate ctx item score type = Inr ()"
      "es_dedup ctx item score type (ResolveTimestamp clk timestamp) (steady clk)
         (s\<lparr>es_total_events := es_total_events s + 1\<rparr>) = (False, s2)"
      "es_inv s2" "GetEvents ctx s2 = GetEvents ctx s" "es_inv (es_appended ctx rb s2)"
      "AddEventAndGetPrior ctx item score type timestamp clk s =
         Some (Inr \<lparr>ir_deduped = False, ir_stored_event = stored_event item score type timestamp clk,
                    ir_prior_events = GetEvents ctx s\<rparr>, es_appended ctx rb s2)"
      "GetAll rb = last_n (es_capacity s)
         (GetEvents ctx s @ [stored_event item score type timestamp clk])"
proof (cases "es_validate ctx item score type")
  case (Inl e)
  then show ?thesis by (intro invalid) (simp_all add: AddEventAndGetPrior_def)
next
  case (Inr u)
  let ?s1 = "s\<lparr>es_total_events := es_total_events s + 1\<rparr>"
  obtain dup s2 where d: "es_dedup ctx item score type (ResolveTimestamp clk timestamp) (steady clk) ?s1
      = (dup, s2)" by (meson surj_pair)
  show ?thesis
  proof (cases dup)
    case True
    with Inr d show ?thesis by (intro duplicate) (simp_all add: AddEventAndGetPrior_def)
  next
    case False
    have s2: "es_inv s2" using assms es_inv_dedup [OF _ d] by simp
    note fr = es_dedup_frame [OF d]
    have ge: "GetEvents ctx s2 = GetEvents ctx s" "es_capacity s2 = es_capacity s"
      using fr by (simp_all add: GetEvents_def es_capacity_def)
    from es_append_defined [OF s2, of "stored_event item score type timestamp clk" ctx]
    obtain rb where rb: "es_append ctx (stored_event item score type timestamp clk) s2
        = Some (GetEvents ctx s2, es_appended ctx rb s2)" "es_inv (es_appended ctx rb s2)"
      "GetAll rb = last_n (es_capacity s2) (GetEvents ctx s2 @ [stored_event item score type timestamp clk])"
      by blast
    with False Inr d s2 ge show ?thesis
      by (intro stored [of s2 rb]) (simp_all add: AddEventAndGetPrior_def stored_event_def)
  qed
qed

lemma es_inv_AddEventAndGetPrior [nv_inv]:
  assumes "es_inv s" "AddEventAndGetPrior ctx item score type timestamp clk s = Some (r, s')"
  shows "es_inv s'"
  using assms(1)
proof (cases rule: AddEventAndGetPrior_cases [where ctx = ctx and item = item and score = score
      and type = type and timestamp = timestamp and clk = clk])
  case (duplicate s2)
  then show ?thesis using assms es_inv_dedup [OF _ duplicate(2)] by simp
qed (use assms in simp_all)

lemma st_inv_reseed [nv_inv]: "st_inv c \<Longrightarrow> st_inv (es_reseed_state ctx ev c)"
  by (cases "ev_type ev") (simp_all add: es_reseed_state_def st_UpdateScore_def st_MarkDeleted_def
      Let_def nv_inv)

lemma RestoreEvent_ok:
  assumes "es_inv s" "ctx \<noteq> []" "ev_item_id ev \<noteq> []"
  obtains s' where "RestoreEvent ctx ev s = Some (Inr (), s')" "es_inv s'"
    "es_config s' = es_config s"
    "GetEvents ctx s' = last_n (es_capacity s) (GetEvents ctx s @ [ev])"
    "\<And>c. c \<noteq> ctx \<Longrightarrow> GetEvents c s' = GetEvents c (es_with_room ctx s)"
proof -
  let ?s1 = "s\<lparr>es_total_events := es_total_events s + 1\<rparr>"
  have s1: "es_inv ?s1" using assms(1) by simp
  from es_append_defined [OF s1, of ev ctx] obtain rb where rb:
    "es_append ctx ev ?s1 = Some (GetEvents ctx ?s1, es_appended ctx rb ?s1)"
    "es_inv (es_appended ctx rb ?s1)"
    "GetAll rb = last_n (es_capacity ?s1) (GetEvents ctx ?s1 @ [ev])" by blast
  define sc where "sc = map_option (es_reseed_state ctx ev) (es_state_cache s)"
  have r: "RestoreEvent ctx ev s = Some (Inr (), (es_appended ctx rb ?s1)\<lparr>es_state_cache := sc\<rparr>)"
    using rb(1) assms(2,3) by (simp add: RestoreEvent_def sc_def)
  have sc: "pred_option st_inv sc"
    using assms(1) by (cases "es_state_cache s") (simp_all add: sc_def es_inv_def nv_inv)
  have "es_inv ((es_appended ctx rb ?s1)\<lparr>es_state_cache := sc\<rparr>)"
    using rb(2) sc by (simp add: es_inv_def es_capacity_def)
  then show ?thesis
  proof (rule that [OF r])
    show "GetEvents ctx ((es_appended ctx rb ?s1)\<lparr>es_state_cache := sc\<rparr>)
        = last_n (es_capacity s) (GetEvents ctx s @ [ev])"
      using rb(3) by (simp add: es_capacity_def)
    show "GetEvents c ((es_appended ctx rb ?s1)\<lparr>es_state_cache := sc\<rparr>)
        = GetEvents c (es_with_room ctx s)" if "c \<noteq> ctx" for c
      using that by (simp add: es_appended_other) (simp add: GetEvents_def es_with_room_counter)
  qed simp
qed

subsection \<open>Runs\<close>

datatype es_op =
    EsAdd string string int EventType u64 clock
  | EsRestore string Event
  | EsClear

fun es_step :: "es_op \<Rightarrow> EventStore \<Rightarrow> EventStore option" where
  "es_step (EsAdd ctx item score type ts clk) s =
     map_option snd (AddEventAndGetPrior ctx item score type ts clk s)"
| "es_step (EsRestore ctx ev) s = map_option snd (RestoreEvent ctx ev s)"
| "es_step EsClear s = Some (es_Clear s)"

fun es_run :: "es_op list \<Rightarrow> EventStore \<Rightarrow> EventStore option" where
  "es_run [] s = Some s"
| "es_run (x # xs) s = (case es_step x s of None \<Rightarrow> None | Some s' \<Rightarrow> es_run xs s')"

text \<open>No context or item with an empty name is ever stored.\<close>

definition es_named :: "EventStore \<Rightarrow> bool" where
  "es_named s \<longleftrightarrow> (\<forall>c. GetEvents c s \<noteq> [] \<longrightarrow> c \<noteq> [] \<and> (\<forall>e \<in> set (GetEvents c s). ev_item_id e \<noteq> []))"

lemma set_last_n: "set (last_n n xs) \<subseteq> set xs"
  by (simp add: last_n_def set_drop_subset)

lemma es_with_room_GetEvents:
  assumes "es_inv s"
  shows "GetEvents c (es_with_room ctx s) = GetEvents c s \<or> GetEvents c (es_with_room ctx s) = []"
  using assms by (cases rule: es_evict_cases) (auto simp: es_with_room_def GetEvents_def)

lemma es_named_append:
  assumes "es_named s" "es_inv s" "ctx \<noteq> []" "ev_item_id ev \<noteq> []"
    and "GetEvents ctx s' = last_n n (GetEvents ctx s @ [ev])"
    and "\<And>c. c \<noteq> ctx \<Longrightarrow> GetEvents c s' = GetEvents c (es_with_room ctx s)"
  shows "es_named s'"
  unfolding es_named_def
proof (intro allI impI)
  fix c assume ne: "GetEvents c s' \<noteq> []"
  show "c \<noteq> [] \<and> (\<forall>e \<in> set (GetEvents c s'). ev_item_id e \<noteq> [])"
  proof (cases "c = ctx")
    case True
    have "set (GetEvents ctx s') \<subseteq> insert ev (set (GetEvents ctx s))"
      using set_last_n [of n "GetEvents ctx s @ [ev]"] by (simp add: assms(5))
    moreover have "\<forall>e \<in> set (GetEvents ctx s). ev_item_id e \<noteq> []"
      using assms(1) by (metis es_named_def list.set_cases list.discI)
    ultimately show ?thesis using True assms(3,4) by blast
  next
    case False
    with ne assms(1,6) es_with_room_GetEvents [OF assms(2), of c ctx] show ?thesis
      by (auto simp: es_named_def)
  qed
qed

lemma es_validate_ok: "es_validate ctx item score type = Inr () \<Longrightarrow> ctx \<noteq> [] \<and> item \<noteq> []"
  by (auto simp: es_validate_def split: if_splits)

lemma es_inv_Clear [nv_inv]: "es_inv s \<Longrightarrow> es_inv (es_Clear s)"
  by (cases "es_dedup_cache s"; cases "es_state_cache s")
    (simp_all add: es_inv_def es_Clear_def es_capacity_def nv_inv st_Clear_def st_inv_def)

lemma es_step_defined:
  assumes "es_inv s" "es_named s"
  shows "\<exists>s'. es_step x s = Some s' \<and> es_inv s' \<and> es_named s' \<and> es_config s' = es_config s"
proof (cases x)
  case (EsAdd ctx item score type ts clk)
  from assms(1) show ?thesis
  proof (cases rule: AddEventAndGetPrior_cases [where ctx = ctx and item = item and score = score
        and type = type and timestamp = ts and clk = clk])
    case (invalid e)
    with EsAdd assms show ?thesis by simp
  next
    case (duplicate s2)
    have "es_inv s2" using assms(1) es_inv_dedup [OF _ duplicate(2)] by simp
    with EsAdd duplicate assms es_dedup_frame [OF duplicate(2)] show ?thesis
      by (simp add: es_named_def GetEvents_def)
  next
    case (stored s2 rb)
    note fr = es_dedup_frame [OF stored(2)]
    have "es_named s2" using fr assms(2) by (simp add: es_named_def GetEvents_def)
    then have "es_named (es_appended ctx rb s2)"
      using stored es_validate_ok [OF stored(1)] es_named_append [of s2 ctx
          "stored_event item score type ts clk" "es_appended ctx rb s2" "es_capacity s"]
      by (simp add: es_appended_other stored_event_def)
    with EsAdd stored fr show ?thesis by simp
  qed
next
  case (EsRestore ctx ev)
  show ?thesis
  proof (cases "ctx = [] \<or> ev_item_id ev = []")
    case True
    with EsRestore assms show ?thesis by (auto simp: RestoreEvent_def)
  next
    case False
    with RestoreEvent_ok [OF assms(1), of ctx ev] obtain s' where s':
      "RestoreEvent ctx ev s = Some (Inr (), s')" "es_inv s'" "es_config s' = es_config s"
      "GetEvents ctx s' = last_n (es_capacity s) (GetEvents ctx s @ [ev])"
      "\<And>c. c \<noteq> ctx \<Longrightarrow> GetEvents c s' = GetEvents c (es_with_room ctx s)" by metis
    then show ?thesis using False EsRestore assms es_named_append [OF assms(2,1) _ _ s'(4,5)] by simp
  qed
next
  case EsClear
  then show ?thesis using assms nv_inv
    by (simp add: es_inv_Clear es_named_def) (simp add: es_Clear_def GetEvents_def)
qed

lemma es_run_defined:
  "\<lbrakk>es_inv s; es_named s\<rbrakk> \<Longrightarrow>
     \<exists>s'. es_run xs s = Some s' \<and> es_inv s' \<and> es_named s' \<and> es_config s' = es_config s"
proof (induction xs arbitrary: s)
  case (Cons x xs)
  from es_step_defined [OF Cons.prems, of x] obtain s1 where
    s1: "es_step x s = Some s1" "es_inv s1" "es_named s1" "es_config s1 = es_config s" by blast
  from Cons.IH [OF s1(2,3)] s1 show ?case by auto
qed simp

lemma es_named_new [simp]: "es_named (es_new cfg)"
  by (simp add: es_named_def es_new_def GetEvents_def)

subsection \<open>Restoring a dump\<close>

fun restore_events :: "string \<Rightarrow> Event list \<Rightarrow> EventStore \<Rightarrow> EventStore option" where
  "restore_events ctx [] s = Some s"
| "restore_events ctx (e # es) s =
     (case RestoreEvent ctx e s of
        Some (Inr _, s') \<Rightarrow> restore_events ctx es s'
      | _ \<Rightarrow> None)"

fun restore_dump :: "(string \<times> Event list) list \<Rightarrow> EventStore \<Rightarrow> EventStore option" where
  "restore_dump [] s = Some s"
| "restore_dump ((ctx, es) # ds) s =
     (case restore_events ctx es s of None \<Rightarrow> None | Some s' \<Rightarrow> restore_dump ds s')"

definition dump_events :: "EventStore \<Rightarrow> (string \<times> Event list) list" where
  "dump_events s = map (\<lambda>c. (c, GetEvents c s)) (GetAllContexts s)"

lemma length_GetEvents: "es_inv s \<Longrightarrow> length (GetEvents c s) \<le> es_capacity s"
proof (cases "um_find (es_ctx_events s) c")
  case (Some rb)
  assume "es_inv s"
  with Some have rb: "rb_inv rb" "rb_capacity rb = es_capacity s" by (auto simp: es_inv_def)
  then have "rb_size rb \<le> es_capacity s" by (simp add: rb_inv_def)
  with Some rb(1) show ?thesis by (simp add: GetEvents_def)
qed (simp add: GetEvents_def)

lemma es_with_room_unlimited:
  "ec_max_contexts (es_config s) = 0 \<Longrightarrow> es_with_room ctx s = s"
  by (simp add: es_with_room_def es_EvictLeastRecentlyUsedContextLocked_def)

lemma restore_events_ok:
  "\<lbrakk>es_inv s; ec_max_contexts (es_config s) = 0; es \<noteq> [] \<longrightarrow> ctx \<noteq> []; \<forall>e \<in> set es. ev_item_id e \<noteq> [];
    length (GetEvents ctx s @ es) \<le> es_capacity s\<rbrakk> \<Longrightarrow>
   \<exists>s'. restore_events ctx es s = Some s' \<and> es_inv s' \<and> es_config s' = es_config s \<and>
     GetEvents ctx s' = GetEvents ctx s @ es \<and> (\<forall>c. c \<noteq> ctx \<longrightarrow> GetEvents c s' = GetEvents c s)"
proof (induction es arbitrary: s)
  case (Cons e es)
  from RestoreEvent_ok [OF Cons.prems(1), of ctx e] Cons.prems(3,4) obtain s1 where s1:
    "RestoreEvent ctx e s = Some (Inr (), s1)" "es_inv s1" "es_config s1 = es_config s"
    "GetEvents ctx s1 = last_n (es_capacity s) (GetEvents ctx s @ [e])"
    "\<And>c. c \<noteq> ctx \<Longrightarrow> GetEvents c s1 = GetEvents c (es_with_room ctx s)" by auto
  have ctx1: "GetEvents ctx s1 = GetEvents ctx s @ [e]" using s1(4) Cons.prems(5) by simp
  have "es_capacity s1 = es_capacity s" using s1(3) by (simp add: es_capacity_def)
  with ctx1 s1 Cons.prems Cons.IH [of s1] show ?case
    by (simp add: es_with_room_unlimited)
qed simp

lemma restore_dump_ok:
  "\<lbrakk>es_inv s; ec_max_contexts (es_config s) = 0; distinct (map fst ds);
    \<forall>(c, es) \<in> set ds. (es \<noteq> [] \<longrightarrow> c \<noteq> []) \<and> GetEvents c s = [] \<and> length es \<le> es_capacity s \<and>
      (\<forall>e \<in> set es. ev_item_id e \<noteq> [])\<rbrakk> \<Longrightarrow>
   \<exists>s'. restore_dump ds s = Some s' \<and> es_inv s' \<and>
     (\<forall>c. GetEvents c s' = (case map_of ds c of Some es \<Rightarrow> es | None \<Rightarrow> GetEvents c s))"
proof (induction ds arbitrary: s)
  case (Cons d ds)
  obtain ctx es where d: "d = (ctx, es)" by (cases d)
  from restore_events_ok [of s es ctx] Cons.prems d obtain s1 where s1:
    "restore_events ctx es s = Some s1" "es_inv s1" "es_config s1 = es_config s"
    "GetEvents ctx s1 = es" "\<forall>c. c \<noteq> ctx \<longrightarrow> GetEvents c s1 = GetEvents c s" by auto
  have ctx: "map_of ds ctx = None" using Cons.prems(3) d by (simp add: map_of_eq_None_iff)
  have "es_capacity s1 = es_capacity s" using s1(3) by (simp add: es_capacity_def)
  moreover have "\<forall>(c, es') \<in> set ds. c \<noteq> ctx" using Cons.prems(3) d by force
  ultimately have "\<forall>(c, es) \<in> set ds. (es \<noteq> [] \<longrightarrow> c \<noteq> []) \<and> GetEvents c s1 = [] \<and> length es \<le> es_capacity s1 \<and>
      (\<forall>e \<in> set es. ev_item_id e \<noteq> [])"
    using Cons.prems(4) s1(5) by fastforce
  with Cons.IH [of s1] s1 Cons.prems obtain s2 where "restore_dump ds s1 = Some s2" "es_inv s2"
    "\<forall>c. GetEvents c s2 = (case map_of ds c of Some es \<Rightarrow> es | None \<Rightarrow> GetEvents c s1)" by auto
  with d s1 ctx show ?case by (auto split: option.split)
qed simp

subsection \<open>Properties\<close>

text \<open>
  C23. With a configuration that \<^verbatim>\<open>ValidateConfig\<close> accepts, no sequence of ingestions, restores
  and clears ever indexes a ring buffer out of bounds, and every reachable store satisfies the
  store's invariant: at most \<^verbatim>\<open>max_contexts\<close> contexts, the access table and the buffers in
  agreement, every buffer of the configured capacity, and both deduplication caches consistent
  and within their size.
\<close>

theorem event_store_run_safe:
  assumes "ValidateConfig c = Inr ()"
  shows "\<exists>s. es_run ops (es_new (cfg_events c)) = Some s \<and> es_inv s"
proof -
  have "0 < unat (ec_ctx_buffer_size (cfg_events c))"
    using assms by (simp add: ValidateConfig_ok_iff events_ok_def)
  then show ?thesis using es_run_defined [OF es_inv_new es_named_new] by blast
qed

theorem event_store_run_safe_witness:
  "\<exists>s. es_run [EsAdd ''u'' ''a'' 5 ADD 0 \<lparr>wall = 1, steady = 0\<rparr>, EsClear] (es_new default_events)
     = Some s \<and> es_inv s"
proof -
  have "ValidateConfig default_config = Inr ()"
    using default_events_ok default_similarity_ok default_runtime_ok
    by (simp add: ValidateConfig_ok_iff) (simp add: default_config_def)
  then show ?thesis
    using event_store_run_safe [of default_config
        "[EsAdd ''u'' ''a'' 5 ADD 0 \<lparr>wall = 1, steady = 0\<rparr>, EsClear]"]
    by (simp only: default_config_def Config.select_convs)
qed

text \<open>
  C24. What an ingestion does.  Invalid input is rejected and changes nothing.  A duplicate is
  counted but stores nothing.  Any other event is appended: the result carries the context's
  events as they were before, and afterwards the context holds the most recent
  \<^verbatim>\<open>ctx_buffer_size\<close> of them followed by the new event, whose score is 0 for a deletion.
\<close>

theorem add_event_behaviour:
  assumes "es_inv s"
  shows "case es_validate ctx item score type of
      Inl e \<Rightarrow> AddEventAndGetPrior ctx item score type ts clk s = Some (Inl e, s)
    | Inr _ \<Rightarrow> \<exists>r s'. AddEventAndGetPrior ctx item score type ts clk s = Some (Inr r, s') \<and>
        es_total_events s' = es_total_events s + 1 \<and>
        (if ir_deduped r
         then es_deduped_events s' = es_deduped_events s + 1 \<and> (\<forall>c. GetEvents c s' = GetEvents c s)
         else ir_stored_event r = stored_event item score type ts clk \<and>
              ir_prior_events r = GetEvents ctx s \<and> es_deduped_events s' = es_deduped_events s \<and>
              GetEvents ctx s' = last_n (es_capacity s)
                (GetEvents ctx s @ [stored_event item score type ts clk]))"
  using assms
proof (cases rule: AddEventAndGetPrior_cases [where ctx = ctx and item = item and score = score
      and type = type and timestamp = ts and clk = clk])
  case (duplicate s2)
  with es_dedup_frame [OF duplicate(2)] show ?thesis by (simp add: GetEvents_def)
next
  case (stored s2 rb)
  with es_dedup_frame [OF stored(2)] show ?thesis by simp
qed simp

theorem add_event_behaviour_witness:
  "\<exists>r s'. AddEventAndGetPrior ''u'' ''a'' 5 ADD 7 \<lparr>wall = 1, steady = 0\<rparr> (es_new default_events)
     = Some (Inr r, s') \<and> es_total_events s' = 1"
proof -
  have "es_inv (es_new default_events)"
    by (rule nv_inv) (simp add: default_events_def)
  from add_event_behaviour [OF this, of "''u''" "''a''" 5 ADD 7 "\<lparr>wall = 1, steady = 0\<rparr>"]
  show ?thesis
    by (auto simp: es_validate_def kMinEventScore_def kMaxEventScore_def es_new_def)
qed

lemma PrepareEvent_agrees:
  assumes "es_inv s"
  shows "\<exists>r s'. AddEventAndGetPrior ctx item score type ts clk s = Some (r, s') \<and>
    (case PrepareEvent ctx item score type ts clk s of
       Inl e \<Rightarrow> r = Inl e \<and> s' = s
     | Inr p \<Rightarrow> \<exists>i. r = Inr i \<and> ir_deduped i = pe_deduped p \<and>
         (\<not> pe_deduped p \<longrightarrow> ir_stored_event i = pe_event p))"
proof -
  let ?ts = "ResolveTimestamp clk ts"
  have verdict: "PrepareEvent ctx item score type ts clk s = Inr \<lparr>pe_deduped = dup,
      pe_event = stored_event item score type ts clk\<rparr>"
    if "es_validate ctx item score type = Inr ()"
      "es_dedup ctx item score type ?ts (steady clk) (s\<lparr>es_total_events := n\<rparr>) = (dup, s2)" for dup n s2
    using that
    by (cases type) (auto simp: PrepareEvent_def es_dedup_def stored_event_def Let_def
        dc_CheckAndInsert_verdict [symmetric] st_WouldDeduplicateSet_def st_WouldDeduplicateDel_def
        st_CheckAndUpdateSet_def st_CheckAndMarkDeleted_def split: option.splits prod.splits if_splits)
  from assms show ?thesis
  proof (cases rule: AddEventAndGetPrior_cases [where ctx = ctx and item = item and score = score
        and type = type and timestamp = ts and clk = clk])
    case (invalid e)
    then show ?thesis by (simp add: PrepareEvent_def)
  next
    case (duplicate s2)
    with verdict [OF duplicate(1,2)] show ?thesis by simp
  next
    case (stored s2 rb)
    with verdict [OF stored(1,2)] show ?thesis by simp
  qed
qed

text \<open>
  \<^verbatim>\<open>PrepareEvent\<close> previews the ingestion exactly: at the same clock readings it reports the
  same error, or the same verdict and the same event as \<^verbatim>\<open>AddEventAndGetPrior\<close>, which is what the
  write-ahead log relies on when it records the event before it is applied.
\<close>

theorem prepare_event_previews:
  assumes "es_inv s"
  shows "\<exists>r s'. AddEventAndGetPrior ctx item score type ts clk s = Some (r, s') \<and>
    (case PrepareEvent ctx item score type ts clk s of
       Inl e \<Rightarrow> r = Inl e \<and> s' = s
     | Inr p \<Rightarrow> \<exists>i. r = Inr i \<and> ir_deduped i = pe_deduped p \<and>
         (\<not> pe_deduped p \<longrightarrow> ir_stored_event i = pe_event p))"
  using assms by (rule PrepareEvent_agrees)

theorem prepare_event_previews_witness:
  "\<exists>r s'. AddEventAndGetPrior ''u'' ''a'' 500 SET 7 \<lparr>wall = 1, steady = 0\<rparr> (es_new default_events)
     = Some (r, s') \<and> s' = es_new default_events"
proof -
  have "es_inv (es_new default_events)"
    by (rule nv_inv) (simp add: default_events_def)
  from prepare_event_previews [OF this, of "''u''" "''a''" 500 SET 7 "\<lparr>wall = 1, steady = 0\<rparr>"]
  show ?thesis
    by (auto simp: PrepareEvent_def es_validate_def kMinEventScore_def kMaxEventScore_def)
qed

text \<open>
  The context cap is enforced by evicting the context used least recently: ingesting into a
  new context of a full store removes one context, one with the oldest access number, and leaves
  the events of every other context as they were.
\<close>

theorem context_eviction_is_lru:
  assumes "es_inv s" "um_find (es_ctx_events s) ctx = None"
    and "ec_max_contexts (es_config s) \<noteq> 0"
    and "um_size (es_ctx_events s) = unat (ec_max_contexts (es_config s))"
  shows "\<exists>v t s'. es_append ctx ev s = Some ([], s') \<and>
    um_find (es_ctx_last_access s) v = Some t \<and>
    (\<forall>c t'. um_find (es_ctx_last_access s) c = Some t' \<longrightarrow> t \<le> t') \<and>
    GetEvents v s' = [] \<and> GetEvents ctx s' = [ev] \<and>
    (\<forall>c. c \<noteq> v \<longrightarrow> c \<noteq> ctx \<longrightarrow> GetEvents c s' = GetEvents c s)"
  using assms(1)
proof (cases rule: es_evict_cases)
  case room
  with assms show ?thesis by simp
next
  case (victim v t)
  obtain rb where rb: "es_append ctx ev s = Some (GetEvents ctx s, es_appended ctx rb s)"
    "GetAll rb = last_n (es_capacity s) (GetEvents ctx s @ [ev])"
    using es_append_defined [OF assms(1), of ev ctx] by blast
  have none: "GetEvents ctx s = []" using assms(2) by (simp add: GetEvents_def)
  have cap: "0 < es_capacity s" using assms(1) by (simp add: es_inv_def)
  have room: "es_with_room ctx s = es_EvictLeastRecentlyUsedContextLocked s"
    using assms(2) by (simp add: es_with_room_def)
  have "v \<noteq> ctx" using victim(4) assms(2) by (auto simp: um_find_None)
  moreover have "um_find (es_ctx_last_access s) v = Some t"
    using victim(2) assms(1) by (simp add: es_inv_def um_find_in_set)
  moreover have "\<forall>c t'. um_find (es_ctx_last_access s) c = Some t' \<longrightarrow> t \<le> t'"
    using victim(3) by (metis map_of_SomeD snd_conv)
  moreover have "GetEvents c (es_appended ctx rb s) = (if c = v then [] else GetEvents c s)"
    if "c \<noteq> ctx" for c
    using that by (simp add: es_appended_other room victim(5)) (simp add: GetEvents_def)
  ultimately show ?thesis
    using rb none cap
    by (intro exI [of _ v] exI [of _ t] exI [of _ "es_appended ctx rb s"]) (simp add: last_n_def)
qed

theorem context_eviction_is_lru_witness:
  "\<exists>s v s'. es_inv s \<and> GetAllContexts s = [''a''] \<and> es_append ''b'' event_default s = Some ([], s') \<and>
     GetEvents v s' = [] \<and> GetEvents ''b'' s' = [event_default]"
proof -
  let ?cfg = "default_events\<lparr>ec_max_contexts := 1\<rparr>"
  have new: "es_inv (es_new ?cfg)" by (rule nv_inv) (simp add: default_events_def)
  obtain rb where inv: "es_inv (es_appended ''a'' rb (es_new ?cfg))"
    using es_append_defined [OF new, of event_default "''a''"] by blast
  let ?s = "es_appended ''a'' rb (es_new ?cfg)"
  have s: "es_ctx_events ?s = [(''a'', rb)]" "ec_max_contexts (es_config ?s) = 1"
    by (simp_all add: es_appended_def es_with_room_def es_new_def Let_def
        es_EvictLeastRecentlyUsedContextLocked_def)
  then obtain v s' where "es_append ''b'' event_default ?s = Some ([], s')"
    "GetEvents v s' = []" "GetEvents ''b'' s' = [event_default]"
    using context_eviction_is_lru [OF inv, of "''b''" event_default] by auto
  moreover have "GetAllContexts ?s = [''a'']" using s by (simp add: GetAllContexts_def)
  ultimately show ?thesis using inv by blast
qed



end
