(* ===== verification/CoOccurrence.thy ===== *)
theory CoOccurrence
  imports EventStore
begin

text \<open>
  The co-occurrence index (\<^verbatim>\<open>src/events/co_occurrence_index.cpp\<close>): a symmetric matrix of
  \<^verbatim>\<open>float\<close> scores between item ids, updated incrementally on every ingested event, in bulk from a
  context, damped by deletions, decayed by the scheduler and pruned to a minimum support and a
  maximal number of neighbours.  The theory shows that every operation keeps the matrix
  symmetric, free of self pairs, of empty rows and of values that are not finite, that ingestion
  keeps the neighbour limits, what pruning keeps, that queries rank the positive scores, and that
  streaming ingestion of a context equals the bulk update.

  \<^verbatim>\<open>std::exp2\<close> is a parameter: the standard fixes no rounding for it.  An operation whose
  behaviour the language leaves undefined (an erased iterator used again, a comparator that is
  no strict weak order) has the result \<open>None\<close>.
\<close>

subsection \<open>State\<close>

type_synonym comatrix = "(string, (string, fl) umap) umap"

record CoConfig =
  cc_max_neighbors_per_item :: u32
  cc_min_support :: fl
  cc_negative_max_propagation :: u32

record CoOccurrenceIndex =
  co_scores :: comatrix
  co_generation :: u64
  co_config :: CoConfig

record IngestOptions =
  io_temporal_enabled :: bool
  io_half_life_sec :: fl
  io_negative_signals :: bool
  io_negative_weight :: fl

record CoOccurrenceIndexStatistics =
  cs_tracked_ids :: nat
  cs_co_pairs :: nat

definition co_new :: "CoConfig \<Rightarrow> CoOccurrenceIndex" where
  "co_new cfg = \<lparr>co_scores = [], co_generation = 0, co_config = cfg\<rparr>"

subsection \<open>The matrix\<close>

definition co_row :: "string \<Rightarrow> comatrix \<Rightarrow> (string, fl) umap" where
  "co_row a m = (case um_find m a of None \<Rightarrow> [] | Some row \<Rightarrow> row)"

definition co_entry :: "comatrix \<Rightarrow> string \<Rightarrow> string \<Rightarrow> fl option" where
  "co_entry m a b = um_find (co_row a m) b"

text \<open>\<^verbatim>\<open>co_scores_[a][b]\<close> creates the row and a zero entry when there is none.\<close>

definition co_at :: "comatrix \<Rightarrow> string \<Rightarrow> string \<Rightarrow> fl" where
  "co_at m a b = (case co_entry m a b of None \<Rightarrow> Fin 0 | Some v \<Rightarrow> v)"

definition co_put :: "string \<Rightarrow> string \<Rightarrow> fl \<Rightarrow> comatrix \<Rightarrow> comatrix" where
  "co_put a b v m = um_set a (um_set b v (co_row a m)) m"

definition co_add_pair :: "string \<Rightarrow> string \<Rightarrow> fl \<Rightarrow> comatrix \<Rightarrow> comatrix" where
  "co_add_pair a b score m =
     (let m1 = co_put a b (fl_add F32 (co_at m a b) score) m
      in co_put b a (fl_add F32 (co_at m1 b a) score) m1)"

definition co_sub_pair :: "string \<Rightarrow> string \<Rightarrow> fl \<Rightarrow> comatrix \<Rightarrow> comatrix" where
  "co_sub_pair a b reduction m =
     (let m1 = co_put a b (fl_sub F32 (co_at m a b) reduction) m
      in co_put b a (fl_sub F32 (co_at m1 b a) reduction) m1)"

definition co_bump :: "CoOccurrenceIndex \<Rightarrow> CoOccurrenceIndex" where
  "co_bump s = s\<lparr>co_generation := co_generation s + 1\<rparr>"

subsection \<open>Contribution of a pair of events\<close>

definition kMinDecay :: fl where
  "kMinDecay = fl_round F32 (1 / 10 ^ 6)"

definition decay_for :: "(fl \<Rightarrow> fl) \<Rightarrow> u64 \<Rightarrow> fl \<Rightarrow> u64 \<Rightarrow> fl" where
  "decay_for exp2 pair_max_ts inv_half_life ts =
     (let age = fl_of_int F64 (uint (pair_max_ts - ts))
      in fl_max (fl_cast F32 (exp2 (fl_mul F64 (fl_neg age) inv_half_life))) kMinDecay)"

definition co_contribution :: "(fl \<Rightarrow> fl) \<Rightarrow> bool \<Rightarrow> fl \<Rightarrow> Event \<Rightarrow> Event \<Rightarrow> fl" where
  "co_contribution exp2 temporal half_life e1 e2 =
     (let score = fl_of_int F32 (ev_score e1 * ev_score e2)
      in if temporal \<and> fl_less (Fin 0) half_life
         then let pair_max_ts = max (ev_timestamp e1) (ev_timestamp e2);
                  inv_half_life = fl_div F64 (Fin 1) half_life
              in fl_mul F32 score
                   (fl_mul F32 (decay_for exp2 pair_max_ts inv_half_life (ev_timestamp e1))
                      (decay_for exp2 pair_max_ts inv_half_life (ev_timestamp e2)))
         else score)"

definition co_score_pair :: "(fl \<Rightarrow> fl) \<Rightarrow> bool \<Rightarrow> fl \<Rightarrow> Event \<Rightarrow> Event \<Rightarrow> comatrix \<Rightarrow> comatrix" where
  "co_score_pair exp2 temporal half_life e1 e2 m =
     (if ev_item_id e1 = ev_item_id e2 then m
      else let score = co_contribution exp2 temporal half_life e1 e2
           in if fl_eq score (Fin 0) then m
              else co_add_pair (ev_item_id e1) (ev_item_id e2) score m)"

subsection \<open>Pruning\<close>

definition co_drop_reverse :: "string \<Rightarrow> string \<Rightarrow> comatrix \<Rightarrow> comatrix" where
  "co_drop_reverse item n m =
     (case um_find m n of
        None \<Rightarrow> m
      | Some row \<Rightarrow>
          let row' = um_erase item row
          in if row' = [] then um_erase n m else um_set n row' m)"

definition co_drop_edge :: "string \<Rightarrow> string \<Rightarrow> comatrix \<Rightarrow> comatrix" where
  "co_drop_edge item n m = co_drop_reverse item n (um_set item (um_erase n (co_row item m)) m)"

definition co_weak :: "CoConfig \<Rightarrow> (string, fl) umap \<Rightarrow> string list" where
  "co_weak cfg row =
     (if fl_less (Fin 0) (cc_min_support cfg)
      then map fst (filter (\<lambda>(n, v). fl_less (fl_abs v) (cc_min_support cfg)) row)
      else [])"

definition by_abs_desc :: "string \<times> fl \<Rightarrow> string \<times> fl \<Rightarrow> bool" where
  "by_abs_desc a b \<longleftrightarrow> fl_less (fl_abs (snd b)) (fl_abs (snd a))"

definition co_surplus :: "CoConfig \<Rightarrow> (string, fl) umap \<Rightarrow> string list option" where
  "co_surplus cfg row =
     (let cap = unat (cc_max_neighbors_per_item cfg)
      in if 0 < cap \<and> cap < um_size row
         then if list_ex (\<lambda>(n, v). v = NaN) row then None
              else Some (map fst (drop cap (std_sort by_abs_desc row)))
         else Some [])"

text \<open>
  The first loop erases through the iterator it has just invalidated when the item is its own
  neighbour; the second sorts by a comparator that is no strict weak order when a score is not a
  number.
\<close>

definition PruneItemMatrix :: "CoConfig \<Rightarrow> string \<Rightarrow> comatrix \<Rightarrow> comatrix option" where
  "PruneItemMatrix cfg item m =
     (case um_find m item of
        None \<Rightarrow> Some m
      | Some neighbors \<Rightarrow>
          let weak = co_weak cfg neighbors
          in if item \<in> set weak then None
             else let m1 = fold (co_drop_edge item) weak m
                  in case co_surplus cfg (co_row item m1) of
                       None \<Rightarrow> None
                     | Some surplus \<Rightarrow>
                         let m2 = fold (co_drop_edge item) surplus m1
                         in Some (if co_row item m2 = [] then um_erase item m2 else m2))"

definition PruneItemLocked :: "string \<Rightarrow> CoOccurrenceIndex \<Rightarrow> CoOccurrenceIndex option" where
  "PruneItemLocked item s =
     map_option (\<lambda>m. s\<lparr>co_scores := m\<rparr>) (PruneItemMatrix (co_config s) item (co_scores s))"

fun co_prune_items :: "string list \<Rightarrow> CoOccurrenceIndex \<Rightarrow> CoOccurrenceIndex option" where
  "co_prune_items [] s = Some s"
| "co_prune_items (x # xs) s = Option.bind (PruneItemLocked x s) (co_prune_items xs)"

definition Prune :: "CoOccurrenceIndex \<Rightarrow> CoOccurrenceIndex option" where
  "Prune s = map_option co_bump (co_prune_items (um_keys (co_scores s)) s)"

definition co_prunes :: "CoConfig \<Rightarrow> bool" where
  "co_prunes cfg \<longleftrightarrow> 0 < cc_max_neighbors_per_item cfg \<or> fl_less (Fin 0) (cc_min_support cfg)"

subsection \<open>Updates\<close>

fun string_less :: "string \<Rightarrow> string \<Rightarrow> bool" where
  "string_less xs [] = False"
| "string_less [] (y # ys) = True"
| "string_less (x # xs) (y # ys) =
     (of_char x < (of_char y :: nat) \<or> x = y \<and> string_less xs ys)"

text \<open>Sorted and made unique by \<^verbatim>\<open>std::sort\<close>, \<^verbatim>\<open>std::unique\<close>.\<close>

definition affected_ids :: "Event list \<Rightarrow> Event \<Rightarrow> string list" where
  "affected_ids prior ev =
     remdups_adj (std_sort string_less
       (ev_item_id ev # filter (\<lambda>x. x \<noteq> ev_item_id ev) (map ev_item_id prior)))"

definition AddEventIncrementalInternal ::
    "(fl \<Rightarrow> fl) \<Rightarrow> Event list \<Rightarrow> Event \<Rightarrow> bool \<Rightarrow> fl \<Rightarrow> CoOccurrenceIndex \<Rightarrow> CoOccurrenceIndex option" where
  "AddEventIncrementalInternal exp2 prior ev temporal half_life s =
     (if prior = [] then Some s
      else let s1 = co_bump (s\<lparr>co_scores :=
                 fold (co_score_pair exp2 temporal half_life ev) prior (co_scores s)\<rparr>)
           in if co_prunes (co_config s1) then co_prune_items (affected_ids prior ev) s1 else Some s1)"

fun co_score_all :: "(fl \<Rightarrow> fl) \<Rightarrow> bool \<Rightarrow> fl \<Rightarrow> Event list \<Rightarrow> comatrix \<Rightarrow> comatrix" where
  "co_score_all exp2 temporal half_life [] m = m"
| "co_score_all exp2 temporal half_life (e # es) m =
     co_score_all exp2 temporal half_life es (fold (co_score_pair exp2 temporal half_life e) es m)"

fun co_prune_oversized :: "Event list \<Rightarrow> CoOccurrenceIndex \<Rightarrow> CoOccurrenceIndex option" where
  "co_prune_oversized [] s = Some s"
| "co_prune_oversized (e # es) s =
     (case um_find (co_scores s) (ev_item_id e) of
        None \<Rightarrow> co_prune_oversized es s
      | Some row \<Rightarrow>
          if unat (cc_max_neighbors_per_item (co_config s)) < um_size row
          then Option.bind (PruneItemLocked (ev_item_id e) s) (co_prune_oversized es)
          else co_prune_oversized es s)"

definition UpdateFromEventsInternal ::
    "(fl \<Rightarrow> fl) \<Rightarrow> Event list \<Rightarrow> bool \<Rightarrow> fl \<Rightarrow> CoOccurrenceIndex \<Rightarrow> CoOccurrenceIndex option" where
  "UpdateFromEventsInternal exp2 events temporal half_life s =
     (let s1 = co_bump (s\<lparr>co_scores := co_score_all exp2 temporal half_life events (co_scores s)\<rparr>)
      in if co_prunes (co_config s1) then co_prune_oversized events s1 else Some s1)"

definition UpdateFromEvents ::
    "(fl \<Rightarrow> fl) \<Rightarrow> Event list \<Rightarrow> bool \<Rightarrow> fl \<Rightarrow> CoOccurrenceIndex \<Rightarrow> CoOccurrenceIndex option" where
  "UpdateFromEvents exp2 events temporal half_life s =
     (if events = [] then Some s else UpdateFromEventsInternal exp2 events temporal half_life s)"

definition negative_reduction :: "fl \<Rightarrow> Event \<Rightarrow> fl" where
  "negative_reduction weight e = fl_cast F32 (fl_mul F64 (fl_of_int F64 (ev_score e)) weight)"

definition co_damp_pair :: "string \<Rightarrow> fl \<Rightarrow> Event \<Rightarrow> comatrix \<Rightarrow> comatrix" where
  "co_damp_pair removed weight e m =
     (if ev_item_id e = removed then m
      else co_sub_pair removed (ev_item_id e) (negative_reduction weight e) m)"

definition ApplyNegativeSignalLocked ::
    "string \<Rightarrow> Event list \<Rightarrow> fl \<Rightarrow> CoOccurrenceIndex \<Rightarrow> CoOccurrenceIndex" where
  "ApplyNegativeSignalLocked removed events weight s =
     (if cc_negative_max_propagation (co_config s) = 0 then s
      else co_bump (s\<lparr>co_scores := fold (co_damp_pair removed weight) events (co_scores s)\<rparr>))"

definition ApplyIngestedEvent ::
    "(fl \<Rightarrow> fl) \<Rightarrow> Event list \<Rightarrow> Event \<Rightarrow> IngestOptions \<Rightarrow> CoOccurrenceIndex \<Rightarrow> CoOccurrenceIndex option" where
  "ApplyIngestedEvent exp2 prior ev opts s =
     map_option
       (\<lambda>s1. if io_negative_signals opts \<and> ev_type ev = DEL
             then ApplyNegativeSignalLocked (ev_item_id ev) prior (io_negative_weight opts) s1
             else s1)
       (AddEventIncrementalInternal exp2 prior ev (io_temporal_enabled opts) (io_half_life_sec opts) s)"

definition SetScore :: "string \<Rightarrow> string \<Rightarrow> fl \<Rightarrow> CoOccurrenceIndex \<Rightarrow> CoOccurrenceIndex" where
  "SetScore item1 item2 score s =
     co_bump (s\<lparr>co_scores := co_put item2 item1 score (co_put item1 item2 score (co_scores s))\<rparr>)"

definition kDecayThreshold :: fl where
  "kDecayThreshold = fl_round F32 (1 / 10 ^ 6)"

definition co_decay_row :: "fl \<Rightarrow> fl \<Rightarrow> (string, fl) umap \<Rightarrow> (string, fl) umap" where
  "co_decay_row alpha threshold row =
     filter (\<lambda>(n, v). \<not> fl_less (fl_abs v) threshold)
       (map (\<lambda>(n, v). (n, fl_mul F32 v (fl_cast F32 alpha))) row)"

definition co_decay_matrix :: "fl \<Rightarrow> fl \<Rightarrow> comatrix \<Rightarrow> comatrix" where
  "co_decay_matrix alpha threshold m =
     filter (\<lambda>(a, row). row \<noteq> []) (map (\<lambda>(a, row). (a, co_decay_row alpha threshold row)) m)"

definition ApplyDecay :: "fl \<Rightarrow> CoOccurrenceIndex \<Rightarrow> CoOccurrenceIndex" where
  "ApplyDecay alpha s =
     (if fl_less alpha (Fin 0) \<or> fl_less (Fin 1) alpha then s
      else if fl_eq alpha (Fin 0)
      then if co_scores s \<noteq> [] then co_bump (s\<lparr>co_scores := []\<rparr>) else s
      else let threshold = (if fl_less (Fin 0) (cc_min_support (co_config s))
                            then cc_min_support (co_config s) else kDecayThreshold)
           in co_bump (s\<lparr>co_scores := co_decay_matrix alpha threshold (co_scores s)\<rparr>))"

definition co_Clear :: "CoOccurrenceIndex \<Rightarrow> CoOccurrenceIndex" where
  "co_Clear s = co_bump (s\<lparr>co_scores := []\<rparr>)"

text \<open>\<^verbatim>\<open>SwapState\<close> exchanges the matrices and the generations and leaves the configurations.\<close>

definition co_SwapState ::
    "CoOccurrenceIndex \<Rightarrow> CoOccurrenceIndex \<Rightarrow> CoOccurrenceIndex \<times> CoOccurrenceIndex" where
  "co_SwapState s t =
     (s\<lparr>co_scores := co_scores t, co_generation := co_generation t\<rparr>,
      t\<lparr>co_scores := co_scores s, co_generation := co_generation s\<rparr>)"

subsection \<open>Queries\<close>

definition GetNeighborCount :: "string \<Rightarrow> CoOccurrenceIndex \<Rightarrow> nat" where
  "GetNeighborCount item s = (case um_find (co_scores s) item of None \<Rightarrow> 0 | Some row \<Rightarrow> um_size row)"

definition by_score_desc :: "string \<times> fl \<Rightarrow> string \<times> fl \<Rightarrow> bool" where
  "by_score_desc a b \<longleftrightarrow> fl_less (snd b) (snd a)"

definition GetSimilar :: "string \<Rightarrow> int \<Rightarrow> CoOccurrenceIndex \<Rightarrow> (string \<times> fl) list" where
  "GetSimilar item top_k s =
     (if top_k \<le> 0 then []
      else case um_find (co_scores s) item of
             None \<Rightarrow> []
           | Some row \<Rightarrow>
               take (nat top_k) (std_sort by_score_desc (filter (\<lambda>(n, v). fl_less (Fin 0) v) row)))"

definition GetScore :: "string \<Rightarrow> string \<Rightarrow> CoOccurrenceIndex \<Rightarrow> fl" where
  "GetScore item1 item2 s =
     (case um_find (co_scores s) item1 of
        None \<Rightarrow> Fin 0
      | Some row \<Rightarrow> (case um_find row item2 of None \<Rightarrow> Fin 0 | Some v \<Rightarrow> v))"

definition GetItemCount :: "CoOccurrenceIndex \<Rightarrow> nat" where
  "GetItemCount s = um_size (co_scores s)"

definition GetAllItems :: "CoOccurrenceIndex \<Rightarrow> string list" where
  "GetAllItems s = um_keys (co_scores s)"

definition GetAllNeighbors :: "string \<Rightarrow> CoOccurrenceIndex \<Rightarrow> (string \<times> fl) list" where
  "GetAllNeighbors item s = (case um_find (co_scores s) item of None \<Rightarrow> [] | Some row \<Rightarrow> row)"

definition co_GetStatistics :: "CoOccurrenceIndex \<Rightarrow> CoOccurrenceIndexStatistics" where
  "co_GetStatistics s =
     \<lparr>cs_tracked_ids = um_size (co_scores s),
      cs_co_pairs = sum_list (map (\<lambda>(a, row). um_size row) (co_scores s)) div 2\<rparr>"

subsection \<open>Invariant\<close>

text \<open>
  The matrix is symmetric with no diagonal and no empty row, and every score is a finite
  \<^verbatim>\<open>float\<close>.  \<open>co_pre item\<close> is what holds of it while the row of \<open>item\<close> is being pruned: that
  row alone may be empty.
\<close>

definition co_pre :: "string set \<Rightarrow> comatrix \<Rightarrow> bool" where
  "co_pre E m \<longleftrightarrow> um_wf m \<and> (\<forall>a row. um_find m a = Some row \<longrightarrow> um_wf row \<and> (row \<noteq> [] \<or> a \<in> E)) \<and>
     (\<forall>a b. co_entry m a b = co_entry m b a) \<and> (\<forall>a. co_entry m a a = None) \<and>
     (\<forall>a b v. co_entry m a b = Some v \<longrightarrow> fl_within f32_max v)"

definition co_inv :: "CoOccurrenceIndex \<Rightarrow> bool" where
  "co_inv s \<longleftrightarrow> co_pre {} (co_scores s)"

subsection \<open>Entries through the operations on the matrix\<close>

lemma co_row_set [simp]: "co_row a (um_set b row m) = (if a = b then row else co_row a m)"
  by (simp add: co_row_def)

lemma co_row_erase [simp]: "co_row a (um_erase b m) = (if a = b then [] else co_row a m)"
  by (simp add: co_row_def)

lemma co_row_Nil [simp]: "co_row a [] = []"
  by (simp add: co_row_def)

lemma co_entry_Nil [simp]: "co_entry [] a b = None"
  by (simp add: co_entry_def)

lemma co_entry_put [simp]:
  "co_entry (co_put a b v m) c d = (if c = a \<and> d = b then Some v else co_entry m c d)"
  by (simp add: co_put_def co_entry_def)

lemma co_entry_set_pair:
  "co_entry (co_put b a v (co_put a b v m)) c d =
     (if c = a \<and> d = b \<or> c = b \<and> d = a then Some v else co_entry m c d)"
  unfolding co_entry_put by presburger

lemma co_at_put [simp]: "co_at (co_put a b v m) c d = (if c = a \<and> d = b then v else co_at m c d)"
  by (simp add: co_at_def)

lemma co_row_drop_reverse:
  "co_row c (co_drop_reverse item n m) = (if c = n then um_erase item (co_row n m) else co_row c m)"
  by (auto simp: co_drop_reverse_def Let_def co_row_def split: option.split)

lemma co_row_drop_edge:
  "co_row c (co_drop_edge item n m) =
     (if c = n then um_erase item (co_row c m) else if c = item then um_erase n (co_row c m)
      else co_row c m)"
  by (auto simp: co_drop_edge_def co_row_drop_reverse)

lemma co_entry_drop_edge [simp]:
  "co_entry (co_drop_edge item n m) c d =
     (if c = item \<and> d = n \<or> c = n \<and> d = item then None else co_entry m c d)"
  by (auto simp: co_entry_def co_row_drop_edge)

lemma co_entry_drop_edges:
  "co_entry (fold (co_drop_edge item) ns m) c d =
     (if c = item \<and> d \<in> set ns \<or> c \<in> set ns \<and> d = item then None else co_entry m c d)"
  by (induction ns arbitrary: m) auto

lemma co_pre_wf:
  "\<lbrakk>um_wf m; \<And>a. um_wf (co_row a m); \<And>a row. \<lbrakk>um_find m a = Some row; row = []\<rbrakk> \<Longrightarrow> a \<in> E;
    \<And>a b. co_entry m a b = co_entry m b a; \<And>a. co_entry m a a = None;
    \<And>a b v. co_entry m a b = Some v \<Longrightarrow> fl_within f32_max v\<rbrakk> \<Longrightarrow> co_pre E m"
  unfolding co_pre_def co_row_def by (metis option.simps(5))

lemma co_preD:
  assumes "co_pre E m"
  shows "um_wf m" "um_wf (co_row a m)" "\<lbrakk>um_find m a = Some []\<rbrakk> \<Longrightarrow> a \<in> E"
    "co_entry m a b = co_entry m b a" "co_entry m a a = None"
    "co_entry m a b = Some v \<Longrightarrow> fl_within f32_max v"
  using assms unfolding co_pre_def by (auto simp: co_row_def split: option.split)

lemma co_pre_Nil [simp]: "co_pre E []"
  by (simp add: co_pre_def)

lemma co_pre_mono: "\<lbrakk>co_pre E m; E \<subseteq> F\<rbrakk> \<Longrightarrow> co_pre F m"
  unfolding co_pre_def by blast

lemma co_put_nonempty: "um_find (co_put a b v m) c = Some [] \<Longrightarrow> um_find m c = Some []"
  by (cases "c = a") (simp_all add: co_put_def)

lemma co_pre_set_pair:
  assumes "co_pre E m" "a \<noteq> b" "fl_within f32_max v"
  shows "co_pre E (co_put b a v (co_put a b v m))"
proof (rule co_pre_wf)
  let ?m = "co_put b a v (co_put a b v m)"
  show "um_wf ?m" using co_preD(1) [OF assms(1)] by (simp add: co_put_def)
  show "um_wf (co_row c ?m)" for c using co_preD(2) [OF assms(1)] by (simp add: co_put_def)
  show "c \<in> E" if "um_find ?m c = Some row" "row = []" for c row
    using that co_put_nonempty co_preD(3) [OF assms(1)] by metis
  show "co_entry ?m c d = co_entry ?m d c" for c d
    unfolding co_entry_set_pair
    by (rule if_cong) (blast, rule refl, rule co_preD(4) [OF assms(1)])
  show "co_entry ?m c c = None" for c using co_preD(5) [OF assms(1)] assms(2) by auto
  show "fl_within f32_max w" if "co_entry ?m c d = Some w" for c d w
    using co_preD(6) [OF assms(1), of c d w] assms(3) that by (auto split: if_splits)
qed

lemma co_at_sym: "co_pre E m \<Longrightarrow> co_at m a b = co_at m b a"
  by (simp add: co_at_def co_preD(4) [of E m a b])

lemma co_at_within: "co_pre E m \<Longrightarrow> fl_within f32_max (co_at m a b)"
  using co_preD(6) [of E m a b] by (auto simp: co_at_def f32_max_def split: option.split)

lemma co_add_pair_eq:
  "\<lbrakk>co_pre E m; a \<noteq> b\<rbrakk> \<Longrightarrow> co_add_pair a b x m =
     (let v = fl_add F32 (co_at m a b) x in co_put b a v (co_put a b v m))"
  by (simp add: co_add_pair_def Let_def co_at_sym [of E m b a])

lemma co_sub_pair_eq:
  "\<lbrakk>co_pre E m; a \<noteq> b\<rbrakk> \<Longrightarrow> co_sub_pair a b x m =
     (let v = fl_sub F32 (co_at m a b) x in co_put b a v (co_put a b v m))"
  by (simp add: co_sub_pair_def Let_def co_at_sym [of E m b a])

lemma co_pre_add_pair:
  "\<lbrakk>co_pre E m; a \<noteq> b; fl_within (pow2 102) x\<rbrakk> \<Longrightarrow> co_pre E (co_add_pair a b x m)"
  by (simp add: co_add_pair_eq Let_def co_pre_set_pair f32_max_add co_at_within)

lemma co_pre_sub_pair:
  "\<lbrakk>co_pre E m; a \<noteq> b; fl_within (pow2 102) x\<rbrakk> \<Longrightarrow> co_pre E (co_sub_pair a b x m)"
  by (simp add: co_sub_pair_eq Let_def co_pre_set_pair f32_max_add fl_sub_def co_at_within)

lemma um_wf_drop_edge: "um_wf m \<Longrightarrow> um_wf (co_drop_edge item n m)"
  by (auto simp: co_drop_edge_def co_drop_reverse_def Let_def split: option.split)

lemma co_drop_edge_nonempty:
  "\<lbrakk>um_find (co_drop_edge item n m) c = Some []; c \<noteq> item\<rbrakk> \<Longrightarrow> um_find m c = Some []"
  by (auto simp: co_drop_edge_def co_drop_reverse_def Let_def split: option.splits if_splits)

lemma co_pre_drop_edge:
  assumes "co_pre {item} m"
  shows "co_pre {item} (co_drop_edge item n m)"
proof (rule co_pre_wf)
  let ?m = "co_drop_edge item n m"
  show "um_wf ?m" using co_preD(1) [OF assms] by (rule um_wf_drop_edge)
  show "um_wf (co_row c ?m)" for c using co_preD(2) [OF assms] by (simp add: co_row_drop_edge)
  show "c \<in> {item}" if "um_find ?m c = Some row" "row = []" for c row
    using co_drop_edge_nonempty [of item n m c] co_preD(3) [OF assms, of c] that by auto
  show "co_entry ?m c d = co_entry ?m d c" for c d
    unfolding co_entry_drop_edge
    by (rule if_cong) (blast, rule refl, rule co_preD(4) [OF assms])
  show "co_entry ?m c c = None" for c using co_preD(5) [OF assms] by simp
  show "fl_within f32_max w" if "co_entry ?m c d = Some w" for c d w
    using co_preD(6) [OF assms, of c d w] that by (simp split: if_splits)
qed

lemma co_pre_drop_edges: "co_pre {item} m \<Longrightarrow> co_pre {item} (fold (co_drop_edge item) ns m)"
  by (induction ns arbitrary: m) (simp_all add: co_pre_drop_edge)

lemma co_pre_finish:
  assumes "co_pre {item} m"
  shows "co_pre {} (if co_row item m = [] then um_erase item m else m)"
    and "co_entry (if co_row item m = [] then um_erase item m else m) = co_entry m"
proof -
  show e: "co_entry (if co_row item m = [] then um_erase item m else m) = co_entry m"
    by (auto simp: co_entry_def fun_eq_iff)
  show "co_pre {} (if co_row item m = [] then um_erase item m else m)" (is "co_pre _ ?m")
  proof (rule co_pre_wf)
    show "um_wf ?m" using co_preD(1) [OF assms] by simp
    show "um_wf (co_row c ?m)" for c using co_preD(2) [OF assms, of c] by auto
    show "c \<in> {}" if "um_find ?m c = Some row" "row = []" for c row
      using co_preD(3) [OF assms, of c] that by (auto simp: co_row_def split: if_splits)
    show "co_entry ?m c d = co_entry ?m d c" for c d unfolding e by (rule co_preD(4) [OF assms])
    show "co_entry ?m c c = None" for c unfolding e by (rule co_preD(5) [OF assms])
    show "fl_within f32_max w" if "co_entry ?m c d = Some w" for c d w
      using that unfolding e by (rule co_preD(6) [OF assms])
  qed
qed

subsection \<open>Pruning one item\<close>

definition co_neighbors :: "comatrix \<Rightarrow> string \<Rightarrow> string set" where
  "co_neighbors m a = {b. co_entry m a b \<noteq> None}"

lemma co_neighbors_keys: "co_neighbors m a = fst ` set (co_row a m)"
  by (auto simp: co_neighbors_def co_entry_def um_find_None dest: um_find_Some_key)

lemma finite_co_neighbors [simp]: "finite (co_neighbors m a)"
  by (simp add: co_neighbors_keys)

lemma um_size_row: "co_pre E m \<Longrightarrow> um_size (co_row a m) = card (co_neighbors m a)"
  by (simp add: co_neighbors_keys um_size_card co_preD(2))

lemma fl_abs_NaN [simp]: "fl_abs v = NaN \<longleftrightarrow> v = NaN"
  by (cases v) auto

lemma strict_weak_fl:
  "(\<And>a. a \<in> S \<Longrightarrow> f a \<noteq> NaN) \<Longrightarrow> strict_weak_on (\<lambda>a b. fl_less (f b) (f a)) S"
  unfolding strict_weak_on_def using fl_less_asym fl_less_linear fl_less_trans by metis

lemma co_surplus_spec:
  assumes wf: "um_wf row" and nan: "\<forall>p \<in> set row. snd p \<noteq> NaN"
  obtains ns where "co_surplus cfg row = Some ns" "set ns \<subseteq> fst ` set row"
    "0 < cc_max_neighbors_per_item cfg \<Longrightarrow> card (fst ` set row - set ns) \<le> unat (cc_max_neighbors_per_item cfg)"
    "\<And>n n' v v'. \<lbrakk>n \<in> set ns; (n, v) \<in> set row; n' \<notin> set ns; (n', v') \<in> set row\<rbrakk> \<Longrightarrow>
       \<not> fl_less (fl_abs v') (fl_abs v)"
    "ns \<noteq> [] \<Longrightarrow> 0 < cc_max_neighbors_per_item cfg \<and>
       card (fst ` set row - set ns) = unat (cc_max_neighbors_per_item cfg)"
proof (cases "0 < unat (cc_max_neighbors_per_item cfg) \<and> unat (cc_max_neighbors_per_item cfg) < um_size row")
  case False
  then have "co_surplus cfg row = Some []" by (auto simp: co_surplus_def Let_def)
  moreover have "card (fst ` set row) \<le> unat (cc_max_neighbors_per_item cfg)"
    if "0 < cc_max_neighbors_per_item cfg"
    using False that wf by (auto simp: um_size_card word_less_nat_alt)
  ultimately show ?thesis using that [of "[]"] by simp
next
  case True
  define cap where "cap = unat (cc_max_neighbors_per_item cfg)"
  define xs where "xs = std_sort by_abs_desc row"
  let ?ns = "map fst (drop cap xs)"
  have eq: "co_surplus cfg row = Some ?ns"
    using True nan by (auto simp: co_surplus_def Let_def cap_def xs_def list_ex_iff)
  have set_xs: "set xs = set row" by (simp add: xs_def)
  have "mset (map fst xs) = mset (map fst row)" by (simp add: xs_def)
  then have dist: "distinct (map fst xs)" using wf by (metis mset_eq_imp_distinct_iff um_wf_def)
  have parts: "fst ` set row = set (map fst (take cap xs)) \<union> set ?ns"
    by (metis append_take_drop_id image_set map_append set_append set_xs)
  have disj: "set (map fst (take cap xs)) \<inter> set ?ns = {}"
    using dist by (metis append_take_drop_id distinct_append map_append)
  have kept: "fst ` set row - set ?ns = set (map fst (take cap xs))" using parts disj by blast
  have "distinct (map fst (take cap xs))" using dist by (metis distinct_take take_map)
  then have "card (fst ` set row - set ?ns) = length (take cap xs)"
    using kept by (metis distinct_card length_map)
  also have "\<dots> = cap" using True by (simp add: cap_def xs_def)
  finally have card: "card (fst ` set row - set ?ns) = cap" .
  have "sorted_wrt (\<lambda>a b. \<not> by_abs_desc b a) (take cap xs @ drop cap xs)"
    unfolding xs_def append_take_drop_id
    by (rule sorted_std_sort [of _ "set row"])
      (use strict_weak_fl [of "set row" "\<lambda>p. fl_abs (snd p)"] nan in \<open>auto simp: by_abs_desc_def [abs_def]\<close>)
  then have order: "\<forall>x \<in> set (take cap xs). \<forall>y \<in> set (drop cap xs). \<not> by_abs_desc y x"
    unfolding sorted_wrt_append by blast
  have "\<not> fl_less (fl_abs v') (fl_abs v)"
    if "n \<in> set ?ns" "(n, v) \<in> set row" "n' \<notin> set ?ns" "(n', v') \<in> set row" for n n' v v'
  proof -
    have "set row = set (take cap xs) \<union> set (drop cap xs)"
      by (metis append_take_drop_id set_append set_xs)
    moreover have "n \<notin> set (map fst (take cap xs))" using that(1) disj by blast
    then have "(n, v) \<notin> set (take cap xs)" by force
    moreover have "(n', v') \<notin> set (drop cap xs)" using that(3) by force
    ultimately have "(n, v) \<in> set (drop cap xs)" "(n', v') \<in> set (take cap xs)"
      using that(2,4) by blast+
    then show ?thesis using order unfolding by_abs_desc_def by fastforce
  qed
  with that [of ?ns] eq parts card True show ?thesis by (simp add: cap_def word_less_nat_alt unat_gt_0)
qed


lemma co_neighbors_drop_edges:
  "item \<notin> set ns \<Longrightarrow> co_neighbors (fold (co_drop_edge item) ns m) item = co_neighbors m item - set ns"
  by (auto simp: co_neighbors_def co_entry_drop_edges split: if_splits)

lemma fl_within_not_NaN: "fl_within B v \<Longrightarrow> v \<noteq> NaN"
  by auto

text \<open>\<open>co_pruned cfg m m' item\<close>: what pruning the row of \<open>item\<close> leaves of \<open>m\<close>.\<close>

definition co_pruned :: "CoConfig \<Rightarrow> comatrix \<Rightarrow> comatrix \<Rightarrow> string \<Rightarrow> bool" where
  "co_pruned cfg m m' item \<longleftrightarrow>
     (\<forall>a b. co_entry m' a b = co_entry m a b \<or> co_entry m' a b = None \<and> (a = item \<or> b = item)) \<and>
     (0 < cc_max_neighbors_per_item cfg \<longrightarrow>
        card (co_neighbors m' item) \<le> unat (cc_max_neighbors_per_item cfg)) \<and>
     (\<forall>b v. co_entry m' item b = Some v \<longrightarrow> fl_less (Fin 0) (cc_min_support cfg) \<longrightarrow>
        \<not> fl_less (fl_abs v) (cc_min_support cfg)) \<and>
     (\<forall>b v. co_entry m item b = Some v \<and> co_entry m' item b = None \<longrightarrow>
        fl_less (Fin 0) (cc_min_support cfg) \<and> fl_less (fl_abs v) (cc_min_support cfg) \<or>
        0 < cc_max_neighbors_per_item cfg \<and>
        card (co_neighbors m' item) = unat (cc_max_neighbors_per_item cfg) \<and>
        (\<forall>c w. co_entry m' item c = Some w \<longrightarrow> \<not> fl_less (fl_abs w) (fl_abs v)))"

lemma set_co_weak:
  "um_wf row \<Longrightarrow> n \<in> set (co_weak cfg row) \<longleftrightarrow> fl_less (Fin 0) (cc_min_support cfg) \<and>
     (\<exists>v. um_find row n = Some v \<and> fl_less (fl_abs v) (cc_min_support cfg))"
  by (force simp: co_weak_def um_find_in_set)

lemma PruneItemMatrix_spec:
  assumes pre: "co_pre {} m"
  obtains m' where "PruneItemMatrix cfg item m = Some m'" "co_pre {} m'" "co_pruned cfg m m' item"
proof (cases "um_find m item")
  case None
  then have "co_entry m item b = None" for b by (simp add: co_entry_def co_row_def)
  then have "co_pruned cfg m m item" by (simp add: co_pruned_def co_neighbors_def)
  with None pre that show ?thesis by (simp add: PruneItemMatrix_def)
next
  case (Some row)
  then have row: "co_row item m = row" by (simp add: co_row_def)
  define weak where "weak = co_weak cfg row"
  define m1 where "m1 = fold (co_drop_edge item) weak m"
  have wf: "um_wf row" using co_preD(2) [OF pre, of item] row by simp
  have mem_weak: "n \<in> set weak \<longleftrightarrow> fl_less (Fin 0) (cc_min_support cfg) \<and>
      (\<exists>v. co_entry m item n = Some v \<and> fl_less (fl_abs v) (cc_min_support cfg))" for n
    unfolding weak_def set_co_weak [OF wf] by (simp add: co_entry_def row)
  have self: "item \<notin> set weak" using mem_weak co_preD(5) [OF pre] by simp
  have pre1: "co_pre {item} m1" unfolding m1_def
    by (rule co_pre_drop_edges, rule co_pre_mono [OF pre]) simp
  have find1: "(n, v) \<in> set (co_row item m1) \<longleftrightarrow> co_entry m1 item n = Some v" for n v
    by (simp add: co_entry_def um_find_in_set co_preD(2) [OF pre1])
  have nan: "\<forall>p \<in> set (co_row item m1). snd p \<noteq> NaN"
    using co_preD(6) [OF pre1, of item] find1 fl_within_not_NaN by (metis prod.collapse)
  obtain ns where ns: "co_surplus cfg (co_row item m1) = Some ns" "set ns \<subseteq> fst ` set (co_row item m1)"
    "0 < cc_max_neighbors_per_item cfg \<Longrightarrow>
       card (fst ` set (co_row item m1) - set ns) \<le> unat (cc_max_neighbors_per_item cfg)"
    "\<And>n n' v v'. \<lbrakk>n \<in> set ns; (n, v) \<in> set (co_row item m1); n' \<notin> set ns;
       (n', v') \<in> set (co_row item m1)\<rbrakk> \<Longrightarrow> \<not> fl_less (fl_abs v') (fl_abs v)"
    "ns \<noteq> [] \<Longrightarrow> 0 < cc_max_neighbors_per_item cfg \<and>
       card (fst ` set (co_row item m1) - set ns) = unat (cc_max_neighbors_per_item cfg)"
    using co_surplus_spec [of "co_row item m1" cfg, OF co_preD(2) [OF pre1, of item] nan] by blast
  define m2 where "m2 = fold (co_drop_edge item) ns m1"
  define m' where "m' = (if co_row item m2 = [] then um_erase item m2 else m2)"
  have pre2: "co_pre {item} m2" unfolding m2_def by (rule co_pre_drop_edges [OF pre1])
  have entry': "co_entry m' = co_entry m2" unfolding m'_def by (rule co_pre_finish(2) [OF pre2])
  have pre': "co_pre {} m'" unfolding m'_def by (rule co_pre_finish(1) [OF pre2])
  have res: "PruneItemMatrix cfg item m = Some m'"
    using self ns(1) by (simp add: PruneItemMatrix_def Some Let_def m'_def m2_def m1_def weak_def)
  have self2: "item \<notin> set ns"
    using ns(2) co_preD(5) [OF pre1, of item] by (auto simp: co_entry_def um_find_None)
  have nb1: "fst ` set (co_row item m1) = co_neighbors m1 item" by (simp add: co_neighbors_keys)
  have nb': "co_neighbors m' item = co_neighbors m1 item - set ns"
    using co_neighbors_drop_edges [OF self2, of m1] by (simp add: co_neighbors_def entry' m2_def)
  have e1: "co_entry m1 a b = (if a = item \<and> b \<in> set weak \<or> a \<in> set weak \<and> b = item then None
      else co_entry m a b)" for a b by (simp add: m1_def co_entry_drop_edges)
  have e2: "co_entry m' a b = (if a = item \<and> b \<in> set ns \<or> a \<in> set ns \<and> b = item then None
      else co_entry m1 a b)" for a b by (simp add: m2_def entry' co_entry_drop_edges)
  show ?thesis
  proof (rule that [OF res pre'], unfold co_pruned_def, intro conjI allI impI)
    fix a b
    show "co_entry m' a b = co_entry m a b \<or> co_entry m' a b = None \<and> (a = item \<or> b = item)"
      using e1 [of a b] e2 [of a b] by presburger
  next
    assume "0 < cc_max_neighbors_per_item cfg"
    then show "card (co_neighbors m' item) \<le> unat (cc_max_neighbors_per_item cfg)"
      using ns(3) nb1 nb' by simp
  next
    fix b v
    assume "co_entry m' item b = Some v" "fl_less (Fin 0) (cc_min_support cfg)"
    then show "\<not> fl_less (fl_abs v) (cc_min_support cfg)"
      using e1 [of item b] e2 [of item b] mem_weak [of b] by (auto split: if_splits)
  next
    fix b v
    assume gone: "co_entry m item b = Some v \<and> co_entry m' item b = None"
    show "fl_less (Fin 0) (cc_min_support cfg) \<and> fl_less (fl_abs v) (cc_min_support cfg) \<or>
        0 < cc_max_neighbors_per_item cfg \<and>
        card (co_neighbors m' item) = unat (cc_max_neighbors_per_item cfg) \<and>
        (\<forall>c w. co_entry m' item c = Some w \<longrightarrow> \<not> fl_less (fl_abs w) (fl_abs v))"
    proof (cases "b \<in> set weak")
      case True
      then show ?thesis using gone mem_weak [of b] by auto
    next
      case False
      then have b: "b \<in> set ns" "co_entry m1 item b = Some v"
        using gone e1 [of item b] e2 [of item b] self by (auto split: if_splits)
      have "\<not> fl_less (fl_abs w) (fl_abs v)" if "co_entry m' item c = Some w" for c w
        using that e2 [of item c] self2 ns(4) [of b v c w] b find1 by (auto split: if_splits)
      moreover have "ns \<noteq> []" using b(1) by auto
      ultimately show ?thesis using ns(5) nb1 nb' by auto
    qed
  qed
qed

subsection \<open>Pruning several items\<close>

definition co_shrinks :: "comatrix \<Rightarrow> comatrix \<Rightarrow> bool" where
  "co_shrinks m m' \<longleftrightarrow> (\<forall>a b. co_entry m' a b = co_entry m a b \<or> co_entry m' a b = None)"

text \<open>The limits that the configuration sets for the row of one item.\<close>

definition co_row_ok :: "CoConfig \<Rightarrow> comatrix \<Rightarrow> string \<Rightarrow> bool" where
  "co_row_ok cfg m a \<longleftrightarrow>
     (0 < cc_max_neighbors_per_item cfg \<longrightarrow>
        card (co_neighbors m a) \<le> unat (cc_max_neighbors_per_item cfg)) \<and>
     (\<forall>b v. co_entry m a b = Some v \<longrightarrow> fl_less (Fin 0) (cc_min_support cfg) \<longrightarrow>
        \<not> fl_less (fl_abs v) (cc_min_support cfg))"

lemma co_pruned_row_ok: "co_pruned cfg m m' item \<Longrightarrow> co_row_ok cfg m' item"
  unfolding co_pruned_def co_row_ok_def by (elim conjE, intro conjI) assumption+

lemma co_pruned_shrinks: "co_pruned cfg m m' item \<Longrightarrow> co_shrinks m m'"
proof -
  assume "co_pruned cfg m m' item"
  then have "\<forall>a b. co_entry m' a b = co_entry m a b \<or> co_entry m' a b = None \<and> (a = item \<or> b = item)"
    unfolding co_pruned_def by (elim conjE)
  then show ?thesis unfolding co_shrinks_def by metis
qed

lemma co_shrinks_refl [simp]: "co_shrinks m m"
  by (simp add: co_shrinks_def)

lemma co_shrinks_trans: "\<lbrakk>co_shrinks m m'; co_shrinks m' m''\<rbrakk> \<Longrightarrow> co_shrinks m m''"
  unfolding co_shrinks_def by metis

lemma co_shrinks_neighbors: "co_shrinks m m' \<Longrightarrow> co_neighbors m' a \<subseteq> co_neighbors m a"
  unfolding co_shrinks_def co_neighbors_def by (metis (mono_tags, lifting) Collect_mono)

lemma co_shrinks_row_ok: "\<lbrakk>co_shrinks m m'; co_row_ok cfg m a\<rbrakk> \<Longrightarrow> co_row_ok cfg m' a"
  using card_mono [OF finite_co_neighbors co_shrinks_neighbors, of m m' a]
  unfolding co_row_ok_def co_shrinks_def by (metis option.distinct(1) order_trans)

definition co_frame :: "CoOccurrenceIndex \<Rightarrow> CoOccurrenceIndex \<Rightarrow> bool" where
  "co_frame s s' \<longleftrightarrow> co_config s' = co_config s \<and> co_generation s' = co_generation s"

lemma PruneItemLocked_spec:
  assumes "co_inv s"
  obtains s' where "PruneItemLocked item s = Some s'" "co_inv s'" "co_frame s s'"
    "co_pruned (co_config s) (co_scores s) (co_scores s') item"
proof -
  obtain m' where "PruneItemMatrix (co_config s) item (co_scores s) = Some m'" "co_pre {} m'"
    "co_pruned (co_config s) (co_scores s) m' item"
    using PruneItemMatrix_spec assms unfolding co_inv_def by blast
  then show ?thesis using that [of "s\<lparr>co_scores := m'\<rparr>"]
    by (simp add: PruneItemLocked_def co_inv_def co_frame_def)
qed

lemma co_prune_items_spec:
  assumes "co_inv s"
  shows "\<exists>s'. co_prune_items xs s = Some s' \<and> co_inv s' \<and> co_frame s s' \<and>
     co_shrinks (co_scores s) (co_scores s') \<and>
     (\<forall>x \<in> set xs. co_row_ok (co_config s) (co_scores s') x)"
  using assms
proof (induction xs arbitrary: s)
  case Nil
  then show ?case by (simp add: co_frame_def)
next
  case (Cons x xs)
  obtain s1 where s1: "PruneItemLocked x s = Some s1" "co_inv s1" "co_frame s s1"
    "co_pruned (co_config s) (co_scores s) (co_scores s1) x"
    using PruneItemLocked_spec [OF Cons.prems] by blast
  obtain s' where s': "co_prune_items xs s1 = Some s'" "co_inv s'" "co_frame s1 s'"
    "co_shrinks (co_scores s1) (co_scores s')"
    "\<forall>x \<in> set xs. co_row_ok (co_config s1) (co_scores s') x"
    using Cons.IH [OF s1(2)] by blast
  have "co_row_ok (co_config s) (co_scores s') x"
    using co_shrinks_row_ok [OF s'(4) co_pruned_row_ok [OF s1(4)]] .
  then show ?case
    using s1 s' co_shrinks_trans [OF co_pruned_shrinks [OF s1(4)] s'(4)]
    by (auto simp: co_frame_def)
qed

lemma co_prune_oversized_spec:
  assumes "co_inv s"
  shows "\<exists>s'. co_prune_oversized es s = Some s' \<and> co_inv s' \<and> co_frame s s' \<and>
     co_shrinks (co_scores s) (co_scores s') \<and>
     (0 < cc_max_neighbors_per_item (co_config s) \<longrightarrow>
        (\<forall>e \<in> set es. card (co_neighbors (co_scores s') (ev_item_id e))
           \<le> unat (cc_max_neighbors_per_item (co_config s))))"
  using assms
proof (induction es arbitrary: s)
  case Nil
  then show ?case by (simp add: co_frame_def)
next
  case (Cons e es)
  let ?a = "ev_item_id e"
  have size: "um_size (co_row ?a (co_scores s)) = card (co_neighbors (co_scores s) ?a)"
    using Cons.prems um_size_row unfolding co_inv_def by blast
  define prune where "prune \<longleftrightarrow>
    (case um_find (co_scores s) ?a of None \<Rightarrow> False
     | Some row \<Rightarrow> unat (cc_max_neighbors_per_item (co_config s)) < um_size row)"
  obtain s1 where s1: "(if prune then PruneItemLocked ?a s else Some s) = Some s1" "co_inv s1" "co_frame s s1"
    "co_shrinks (co_scores s) (co_scores s1)"
    "0 < cc_max_neighbors_per_item (co_config s) \<longrightarrow>
       card (co_neighbors (co_scores s1) ?a) \<le> unat (cc_max_neighbors_per_item (co_config s))"
  proof (cases prune)
    case True
    with that PruneItemLocked_spec [OF Cons.prems, of ?a] co_pruned_shrinks co_pruned_row_ok show ?thesis
      unfolding co_row_ok_def by (metis (full_types))
  next
    case False
    then have "card (co_neighbors (co_scores s) ?a) \<le> unat (cc_max_neighbors_per_item (co_config s))"
      using size by (auto simp: prune_def co_row_def split: option.splits)
    with that [of s] False Cons.prems show ?thesis by (simp add: co_frame_def)
  qed
  have step: "co_prune_oversized (e # es) s =
      Option.bind (if prune then PruneItemLocked ?a s else Some s) (co_prune_oversized es)"
    by (simp add: prune_def split: option.split)
  obtain s' where s': "co_prune_oversized es s1 = Some s'" "co_inv s'" "co_frame s1 s'"
    "co_shrinks (co_scores s1) (co_scores s')"
    "0 < cc_max_neighbors_per_item (co_config s1) \<longrightarrow>
        (\<forall>e \<in> set es. card (co_neighbors (co_scores s') (ev_item_id e))
           \<le> unat (cc_max_neighbors_per_item (co_config s1)))"
    using Cons.IH [OF s1(2)] by blast
  have "card (co_neighbors (co_scores s') ?a) \<le> card (co_neighbors (co_scores s1) ?a)"
    by (intro card_mono co_shrinks_neighbors [OF s'(4)]) simp
  then show ?case
    unfolding step using s1 s' co_shrinks_trans [OF s1(4) s'(4)]
    by (auto simp: co_frame_def intro: order_trans)
qed

subsection \<open>Contributions are finite\<close>

text \<open>
  What is documented of \<^verbatim>\<open>std::exp2\<close>: a power of two with an exponent that is not positive lies
  between zero and one.
\<close>

definition exp2_ok :: "(fl \<Rightarrow> fl) \<Rightarrow> bool" where
  "exp2_ok exp2 \<longleftrightarrow> (\<forall>x. fl_le x (Fin 0) \<longrightarrow> fl_within 1 (exp2 x))"

text \<open>An \<^verbatim>\<open>int\<close> score, and a half-life that is a normal \<^verbatim>\<open>double\<close>.\<close>

definition score_ok :: "Event \<Rightarrow> bool" where
  "score_ok e \<longleftrightarrow> \<bar>ev_score e\<bar> \<le> 2 ^ 31"

fun half_life_ok :: "fl \<Rightarrow> bool" where
  "half_life_ok (Fin h) = (pow2 (- 1022) \<le> h)"
| "half_life_ok v = False"

lemma kMinDecay_within: "fl_within 1 kMinDecay"
  using fl_round_le_pow2 [of "1 / 10 ^ 6" 0 F32] by (auto simp: kMinDecay_def fl_within_iff)

lemma decay_for_within:
  assumes "exp2_ok exp2" "half_life_ok h"
  shows "fl_within 1 (decay_for exp2 t (fl_div F64 (Fin 1) h) ts)"
proof -
  obtain x where x: "h = Fin x" "pow2 (- 1022) \<le> x" using assms(2) by (cases h) auto
  then have pos: "0 < x" using pow2_pos [of "- 1022"] by linarith
  have "pow2 1022 * pow2 (- 1022) = 1" by (simp add: pow2_def)
  then have "1 / x \<le> pow2 1022"
    using pos mult_left_mono [OF x(2), of "pow2 1022"] by (simp add: divide_le_eq)
  then obtain i where i: "fl_div F64 (Fin 1) h = Fin i" "0 \<le> i"
    using fl_round_le_pow2 [of "1 / x" 1022 F64] fl_round_sign(2) [of "1 / x" F64] pos x(1) by (auto simp: fl_le_def)
  have "(of_int (uint (t - ts)) :: rat) \<le> of_int (2 ^ 64)"
    using uint_lt2p [of "t - ts"] by (simp only: of_int_le_iff) simp
  moreover have "(0 :: rat) \<le> of_int (uint (t - ts))" by (simp only: of_int_0_le_iff) simp
  ultimately have "\<bar>of_int (uint (t - ts)) :: rat\<bar> \<le> pow2 64" "(0 :: rat) \<le> of_int (uint (t - ts))"
    by (simp_all add: pow2_def abs_of_nonneg)
  then obtain a where a: "fl_of_int F64 (uint (t - ts)) = Fin a" "0 \<le> a"
    using fl_round_le_pow2 [of "of_int (uint (t - ts))" 64 F64]
      fl_round_sign(2) [of "of_int (uint (t - ts))" F64] by (auto simp: fl_of_int_def fl_le_def)
  have "fl_le (fl_mul F64 (fl_neg (Fin a)) (Fin i)) (Fin 0)"
    using fl_round_sign(1) [of "- a * i" F64] a i by simp
  then have "fl_within (pow2 0) (fl_cast F32 (exp2 (fl_mul F64 (fl_neg (Fin a)) (Fin i))))"
    using assms(1) unfolding exp2_ok_def by (intro fl_within_cast) simp_all
  then show ?thesis
    using kMinDecay_within by (simp add: decay_for_def Let_def a i fl_max_def)
qed

lemma score_product_within:
  assumes "score_ok e1" "score_ok e2"
  shows "fl_within (pow2 62) (fl_of_int F32 (ev_score e1 * ev_score e2))"
proof -
  have "\<bar>ev_score e1 * ev_score e2\<bar> \<le> 2 ^ 31 * 2 ^ 31"
    using assms unfolding score_ok_def abs_mult by (intro mult_mono) auto
  then have "of_int \<bar>ev_score e1 * ev_score e2\<bar> \<le> (of_int (2 ^ 31 * 2 ^ 31) :: rat)"
    by (simp only: of_int_le_iff)
  then have "\<bar>of_int (ev_score e1 * ev_score e2) :: rat\<bar> \<le> pow2 62" by (simp add: pow2_def)
  then show ?thesis
    using fl_round_le_pow2 [of "of_int (ev_score e1 * ev_score e2)" 62 F32]
    by (auto simp: fl_of_int_def fl_within_iff)
qed

lemma pow2_le_102: "k \<le> 102 \<Longrightarrow> fl_within (pow2 k) v \<Longrightarrow> fl_within (pow2 102) v"
  using fl_within_mono pow2_mono by blast

lemma co_contribution_within:
  assumes "exp2_ok exp2" "temporal \<longrightarrow> half_life_ok h" "score_ok e1" "score_ok e2"
  shows "fl_within (pow2 102) (co_contribution exp2 temporal h e1 e2)"
proof (cases "temporal \<and> fl_less (Fin 0) h")
  case True
  let ?i = "fl_div F64 (Fin 1) h" and ?t = "max (ev_timestamp e1) (ev_timestamp e2)"
  have d: "fl_within (pow2 0) (decay_for exp2 ?t ?i ts)" for ts
    using decay_for_within assms(1,2) True by simp
  have "fl_within (pow2 (0 + 0)) (fl_mul F32 (decay_for exp2 ?t ?i (ev_timestamp e1))
      (decay_for exp2 ?t ?i (ev_timestamp e2)))"
    by (rule fl_within_mul [OF d d]) simp_all
  then have "fl_within (pow2 (62 + 0)) (co_contribution exp2 temporal h e1 e2)"
    using True score_product_within [OF assms(3,4)]
    by (auto simp: co_contribution_def Let_def intro!: fl_within_mul [of 62 _ 0, simplified])
  then show ?thesis by (intro pow2_le_102 [of 62]) simp_all
next
  case False
  then show ?thesis
    using score_product_within [OF assms(3,4)] pow2_le_102 [of 62]
    by (auto simp: co_contribution_def Let_def)
qed

lemma negative_reduction_within:
  assumes "fl_within 1 weight" "score_ok e"
  shows "fl_within (pow2 102) (negative_reduction weight e)"
proof -
  have "of_int \<bar>ev_score e\<bar> \<le> (of_int (2 ^ 31) :: rat)"
    using assms(2) unfolding score_ok_def by (simp only: of_int_le_iff)
  then have "\<bar>of_int (ev_score e) :: rat\<bar> \<le> pow2 31" by (simp add: pow2_def)
  then have "fl_within (pow2 31) (fl_of_int F64 (ev_score e))"
    using fl_round_le_pow2 [of "of_int (ev_score e)" 31 F64] by (auto simp: fl_of_int_def fl_within_iff)
  then have "fl_within (pow2 (31 + 0)) (fl_mul F64 (fl_of_int F64 (ev_score e)) weight)"
    using assms(1) by (intro fl_within_mul) simp_all
  then have "fl_within (pow2 31) (negative_reduction weight e)"
    unfolding negative_reduction_def by (intro fl_within_cast) simp_all
  then show ?thesis by (intro pow2_le_102 [of 31]) simp_all
qed

subsection \<open>Every operation keeps the invariant\<close>

lemma co_pre_score_pair:
  assumes "exp2_ok exp2" "temporal \<longrightarrow> half_life_ok h" "score_ok e1" "score_ok e2" "co_pre E m"
  shows "co_pre E (co_score_pair exp2 temporal h e1 e2 m)"
  using co_contribution_within [OF assms(1-4)] assms(5)
  by (simp add: co_score_pair_def Let_def co_pre_add_pair)

lemma co_pre_score_pairs:
  assumes "exp2_ok exp2" "temporal \<longrightarrow> half_life_ok h" "score_ok e" "list_all score_ok es" "co_pre E m"
  shows "co_pre E (fold (co_score_pair exp2 temporal h e) es m)"
  using assms(4,5) by (induction es arbitrary: m) (simp_all add: co_pre_score_pair assms)

lemma co_pre_score_all:
  assumes "exp2_ok exp2" "temporal \<longrightarrow> half_life_ok h"
  shows "\<lbrakk>list_all score_ok es; co_pre E m\<rbrakk> \<Longrightarrow> co_pre E (co_score_all exp2 temporal h es m)"
  by (induction es arbitrary: m) (simp_all add: co_pre_score_pairs assms)

lemma co_bump_simps [simp]:
  "co_scores (co_bump s) = co_scores s" "co_config (co_bump s) = co_config s"
  "co_generation (co_bump s) = co_generation s + 1" "co_inv (co_bump s) = co_inv s"
  by (simp_all add: co_bump_def co_inv_def)

lemma AddEventIncrementalInternal_spec:
  assumes "exp2_ok exp2" "temporal \<longrightarrow> half_life_ok h" "score_ok ev" "list_all score_ok prior" "co_inv s"
  shows "\<exists>s'. AddEventIncrementalInternal exp2 prior ev temporal h s = Some s' \<and> co_inv s' \<and>
    co_config s' = co_config s \<and>
    co_generation s' = (if prior = [] then co_generation s else co_generation s + 1) \<and>
    co_shrinks (fold (co_score_pair exp2 temporal h ev) prior (co_scores s)) (co_scores s') \<and>
    (co_prunes (co_config s) \<and> prior \<noteq> [] \<longrightarrow>
       (\<forall>x \<in> set (affected_ids prior ev). co_row_ok (co_config s) (co_scores s') x))"
proof (cases "prior = []")
  case True
  then show ?thesis using assms(5) by (simp add: AddEventIncrementalInternal_def)
next
  case False
  let ?m = "fold (co_score_pair exp2 temporal h ev) prior (co_scores s)"
  have inv: "co_inv (co_bump (s\<lparr>co_scores := ?m\<rparr>))"
    using co_pre_score_pairs [OF assms(1-4)] assms(5) by (simp add: co_inv_def)
  show ?thesis
  proof (cases "co_prunes (co_config s)")
    case True
    then show ?thesis
      using co_prune_items_spec [OF inv, of "affected_ids prior ev"] False
      by (auto simp: AddEventIncrementalInternal_def Let_def co_frame_def)
  next
    case nopr: False
    then show ?thesis using inv False by (simp add: AddEventIncrementalInternal_def Let_def)
  qed
qed

lemma co_pre_damp:
  assumes "fl_within 1 weight"
  shows "\<lbrakk>list_all score_ok es; co_pre E m\<rbrakk> \<Longrightarrow> co_pre E (fold (co_damp_pair removed weight) es m)"
proof (induction es arbitrary: m)
  case (Cons e es)
  then have "co_pre E (co_damp_pair removed weight e m)"
    using negative_reduction_within [OF assms, of e] by (auto simp: co_damp_pair_def intro: co_pre_sub_pair)
  with Cons show ?case by simp
qed simp

lemma co_inv_ApplyNegativeSignalLocked [nv_inv]:
  "\<lbrakk>fl_within 1 weight; list_all score_ok es; co_inv s\<rbrakk> \<Longrightarrow>
     co_inv (ApplyNegativeSignalLocked removed es weight s)"
  by (simp add: ApplyNegativeSignalLocked_def co_inv_def co_pre_damp)

definition options_ok :: "IngestOptions \<Rightarrow> bool" where
  "options_ok opts \<longleftrightarrow> (io_temporal_enabled opts \<longrightarrow> half_life_ok (io_half_life_sec opts)) \<and>
     (io_negative_signals opts \<longrightarrow> fl_within 1 (io_negative_weight opts))"

lemma co_inv_ApplyIngestedEvent [nv_inv]:
  assumes "exp2_ok exp2" "options_ok opts" "score_ok ev" "list_all score_ok prior" "co_inv s"
  shows "\<exists>s'. ApplyIngestedEvent exp2 prior ev opts s = Some s' \<and> co_inv s' \<and> co_config s' = co_config s"
proof -
  obtain s1 where s1: "AddEventIncrementalInternal exp2 prior ev (io_temporal_enabled opts)
      (io_half_life_sec opts) s = Some s1" "co_inv s1" "co_config s1 = co_config s"
    using AddEventIncrementalInternal_spec [of exp2 "io_temporal_enabled opts" "io_half_life_sec opts" ev prior s]
      assms unfolding options_ok_def by blast
  moreover have "co_config (ApplyNegativeSignalLocked r es w t) = co_config t" for r es w t
    by (simp add: ApplyNegativeSignalLocked_def)
  ultimately show ?thesis
    using assms by (auto simp: ApplyIngestedEvent_def options_ok_def co_inv_ApplyNegativeSignalLocked)
qed

lemma co_inv_UpdateFromEvents [nv_inv]:
  assumes "exp2_ok exp2" "temporal \<longrightarrow> half_life_ok h" "list_all score_ok es" "co_inv s"
  shows "\<exists>s'. UpdateFromEvents exp2 es temporal h s = Some s' \<and> co_inv s' \<and> co_config s' = co_config s"
proof (cases "es = []")
  case True
  then show ?thesis using assms(4) by (simp add: UpdateFromEvents_def)
next
  case False
  let ?s = "co_bump (s\<lparr>co_scores := co_score_all exp2 temporal h es (co_scores s)\<rparr>)"
  have "co_inv ?s" using co_pre_score_all [OF assms(1,2,3)] assms(4) by (simp add: co_inv_def)
  then show ?thesis using co_prune_oversized_spec [of ?s es] False
    by (auto simp: UpdateFromEvents_def UpdateFromEventsInternal_def Let_def co_frame_def)
qed

lemma co_inv_Prune [nv_inv]:
  assumes "co_inv s"
  shows "\<exists>s'. Prune s = Some s' \<and> co_inv s' \<and> co_config s' = co_config s"
  using co_prune_items_spec [OF assms, of "um_keys (co_scores s)"]
  by (auto simp: Prune_def co_frame_def)

lemma co_inv_SetScore [nv_inv]:
  "\<lbrakk>co_inv s; a \<noteq> b; fl_within f32_max v\<rbrakk> \<Longrightarrow> co_inv (SetScore a b v s)"
  by (simp add: SetScore_def co_inv_def co_pre_set_pair)

lemma co_inv_Clear [nv_inv]: "co_inv (co_Clear s)"
  by (simp add: co_Clear_def co_inv_def)

lemma co_row_decay:
  "um_wf m \<Longrightarrow> co_row a (co_decay_matrix alpha t m) = co_decay_row alpha t (co_row a m)"
  by (auto simp: co_row_def co_decay_matrix_def um_find_filter um_find_map co_decay_row_def split: option.split)

lemma co_entry_decay:
  "\<lbrakk>um_wf m; um_wf (co_row a m)\<rbrakk> \<Longrightarrow> co_entry (co_decay_matrix alpha t m) a b =
     (case co_entry m a b of
        None \<Rightarrow> None
      | Some v \<Rightarrow> let w = fl_mul F32 v (fl_cast F32 alpha) in if fl_less (fl_abs w) t then None else Some w)"
  by (simp add: co_entry_def co_row_decay co_decay_row_def um_find_filter um_find_map Let_def split: option.split)

lemma co_pre_decay:
  assumes pre: "co_pre {} m" and alpha: "fl_within 1 alpha"
  shows "co_pre {} (co_decay_matrix alpha t m)"
proof (rule co_pre_wf)
  let ?m = "co_decay_matrix alpha t m"
  have e: "co_entry ?m a b = (case co_entry m a b of None \<Rightarrow> None
      | Some v \<Rightarrow> let w = fl_mul F32 v (fl_cast F32 alpha) in if fl_less (fl_abs w) t then None else Some w)" for a b
    by (rule co_entry_decay [OF co_preD(1,2) [OF pre]])
  show "um_wf ?m" using co_preD(1) [OF pre] by (simp add: co_decay_matrix_def um_keys_filter_wf)
  show "um_wf (co_row a ?m)" for a
    using co_preD(1,2) [OF pre] by (simp add: co_row_decay co_decay_row_def um_keys_filter_wf)
  show "a \<in> {}" if "um_find ?m a = Some row" "row = []" for a row
    using that co_preD(1) [OF pre]
    by (auto simp: co_decay_matrix_def um_find_filter um_find_map split: option.splits if_splits)
  show "co_entry ?m a b = co_entry ?m b a" for a b unfolding e by (simp only: co_preD(4) [OF pre, of a b])
  show "co_entry ?m a a = None" for a unfolding e by (simp add: co_preD(5) [OF pre])
  have "fl_within (pow2 0) (fl_cast F32 alpha)" using alpha by (intro fl_within_cast) simp_all
  then show "fl_within f32_max w" if "co_entry ?m a b = Some w" for a b w
    using that f32_max_shrink co_preD(6) [OF pre, of a b] unfolding e
    by (auto simp: Let_def split: option.splits if_splits)
qed

lemma co_inv_ApplyDecay [nv_inv]: "\<lbrakk>alpha \<noteq> NaN; co_inv s\<rbrakk> \<Longrightarrow> co_inv (ApplyDecay alpha s)"
proof -
  assume a: "alpha \<noteq> NaN" "co_inv s"
  have "fl_within 1 alpha" if "\<not> (fl_less alpha (Fin 0) \<or> fl_less (Fin 1) alpha)"
    using a(1) that by (cases alpha) auto
  then show ?thesis using a(2) co_pre_decay by (auto simp: ApplyDecay_def Let_def co_inv_def)
qed

subsection \<open>Runs\<close>

datatype co_op =
    OpIngest "Event list" Event IngestOptions
  | OpUpdate "Event list" bool fl
  | OpDecay fl
  | OpPrune
  | OpSetScore string string fl
  | OpCoClear

fun co_step :: "(fl \<Rightarrow> fl) \<Rightarrow> co_op \<Rightarrow> CoOccurrenceIndex \<Rightarrow> CoOccurrenceIndex option" where
  "co_step exp2 (OpIngest prior ev opts) s = ApplyIngestedEvent exp2 prior ev opts s"
| "co_step exp2 (OpUpdate events temporal h) s = UpdateFromEvents exp2 events temporal h s"
| "co_step exp2 (OpDecay alpha) s = Some (ApplyDecay alpha s)"
| "co_step exp2 OpPrune s = Prune s"
| "co_step exp2 (OpSetScore a b v) s = Some (SetScore a b v s)"
| "co_step exp2 OpCoClear s = Some (co_Clear s)"

fun co_op_ok :: "co_op \<Rightarrow> bool" where
  "co_op_ok (OpIngest prior ev opts) = (list_all score_ok prior \<and> score_ok ev \<and> options_ok opts)"
| "co_op_ok (OpUpdate events temporal h) = (list_all score_ok events \<and> (temporal \<longrightarrow> half_life_ok h))"
| "co_op_ok (OpDecay alpha) = (alpha \<noteq> NaN)"
| "co_op_ok OpPrune = True"
| "co_op_ok (OpSetScore a b v) = (a \<noteq> b \<and> fl_within f32_max v)"
| "co_op_ok OpCoClear = True"

fun co_run :: "(fl \<Rightarrow> fl) \<Rightarrow> co_op list \<Rightarrow> CoOccurrenceIndex \<Rightarrow> CoOccurrenceIndex option" where
  "co_run exp2 [] s = Some s"
| "co_run exp2 (op # ops) s = Option.bind (co_step exp2 op s) (co_run exp2 ops)"

lemma co_step_inv:
  assumes "exp2_ok exp2" "co_op_ok op" "co_inv s"
  shows "\<exists>s'. co_step exp2 op s = Some s' \<and> co_inv s'"
proof (cases op)
  case (OpIngest prior ev opts)
  then show ?thesis using co_inv_ApplyIngestedEvent [of exp2 opts ev prior s] assms by auto
next
  case (OpUpdate events temporal h)
  then show ?thesis using co_inv_UpdateFromEvents [of exp2 temporal h events s] assms by auto
next
  case OpPrune
  then show ?thesis using co_inv_Prune [OF assms(3)] by auto
qed (use assms in \<open>auto simp: nv_inv\<close>)

lemma co_run_inv:
  "\<lbrakk>exp2_ok exp2; list_all co_op_ok ops; co_inv s\<rbrakk> \<Longrightarrow> \<exists>s'. co_run exp2 ops s = Some s' \<and> co_inv s'"
proof (induction ops arbitrary: s)
  case (Cons op ops)
  then obtain s1 where "co_step exp2 op s = Some s1" "co_inv s1" using co_step_inv by fastforce
  with Cons show ?case by auto
qed simp

lemma co_inv_new [simp]: "co_inv (co_new cfg)"
  by (simp add: co_new_def co_inv_def)

lemma GetScore_at: "GetScore a b s = co_at (co_scores s) a b"
  by (auto simp: GetScore_def co_at_def co_entry_def co_row_def split: option.split)

lemma GetNeighborCount_card:
  "co_inv s \<Longrightarrow> GetNeighborCount a s = card (co_neighbors (co_scores s) a)"
  using um_size_row [of "{}" "co_scores s" a]
  by (auto simp: GetNeighborCount_def co_inv_def co_row_def split: option.splits)

lemma GetAllItems_neighbor:
  assumes "co_inv s" "a \<in> set (GetAllItems s)"
  shows "co_neighbors (co_scores s) a \<noteq> {}"
proof -
  obtain row where "um_find (co_scores s) a = Some row"
    using assms(2) unfolding GetAllItems_def by (metis image_set option.exhaust um_find_None)
  moreover from this have "row \<noteq> []" using assms(1) co_preD(3) unfolding co_inv_def by blast
  ultimately show ?thesis by (simp add: co_neighbors_keys co_row_def)
qed


definition ev_ex :: "string \<Rightarrow> int \<Rightarrow> EventType \<Rightarrow> Event" where
  "ev_ex item score type = \<lparr>ev_item_id = item, ev_score = score, ev_timestamp = 100, ev_type = type\<rparr>"

definition exp2_ex :: "fl \<Rightarrow> fl" where
  "exp2_ex x = (if x = Fin 0 then Fin 1 else Fin 0)"

definition opts_ex :: IngestOptions where
  "opts_ex = \<lparr>io_temporal_enabled = True, io_half_life_sec = Fin 3600, io_negative_signals = True,
     io_negative_weight = Fin (1 / 2)\<rparr>"

lemma exp2_ex_ok: "exp2_ok exp2_ex"
  by (simp add: exp2_ok_def exp2_ex_def)


definition within_limits :: "CoOccurrenceIndex \<Rightarrow> string \<Rightarrow> bool" where
  "within_limits s a \<longleftrightarrow>
     (0 < cc_max_neighbors_per_item (co_config s) \<longrightarrow>
        GetNeighborCount a s \<le> unat (cc_max_neighbors_per_item (co_config s))) \<and>
     (fl_less (Fin 0) (cc_min_support (co_config s)) \<longrightarrow>
        list_all (\<lambda>(b, v). \<not> fl_less (fl_abs v) (cc_min_support (co_config s))) (GetAllNeighbors a s))"

lemma set_affected_ids: "set (affected_ids prior ev) = insert (ev_item_id ev) (ev_item_id ` set prior)"
  by (auto simp: affected_ids_def)

lemma within_limits_row_ok:
  assumes "co_inv s"
  shows "within_limits s a \<longleftrightarrow> co_row_ok (co_config s) (co_scores s) a"
proof -
  have pre: "co_pre {} (co_scores s)" using assms by (simp add: co_inv_def)
  have mem: "(b, v) \<in> set (co_row a (co_scores s)) \<longleftrightarrow> co_entry (co_scores s) a b = Some v" for b v
    by (simp add: co_entry_def um_find_in_set co_preD(2) [OF pre])
  have "list_all (\<lambda>(b, v). P v) (GetAllNeighbors a s) \<longleftrightarrow>
      (\<forall>b v. co_entry (co_scores s) a b = Some v \<longrightarrow> P v)" for P
    unfolding mem [symmetric] by (auto simp: list_all_iff GetAllNeighbors_def co_row_def)
  then show ?thesis
    unfolding within_limits_def co_row_ok_def GetNeighborCount_card [OF assms] by auto
qed

lemma co_entry_score_pair_other:
  "\<lbrakk>x \<noteq> ev_item_id e1; x \<noteq> ev_item_id e2\<rbrakk> \<Longrightarrow>
     co_entry (co_score_pair exp2 temporal h e1 e2 m) x b = co_entry m x b"
  by (simp add: co_score_pair_def co_add_pair_def Let_def)

lemma co_entry_score_pairs_other:
  "\<lbrakk>x \<noteq> ev_item_id ev; x \<notin> ev_item_id ` set prior\<rbrakk> \<Longrightarrow>
     co_entry (fold (co_score_pair exp2 temporal h ev) prior m) x b = co_entry m x b"
  by (induction prior arbitrary: m) (simp_all add: co_entry_score_pair_other)

lemma co_row_ok_unlimited: "\<not> co_prunes cfg \<Longrightarrow> co_row_ok cfg m a"
  by (simp add: co_prunes_def co_row_ok_def)

lemma co_row_ok_cong: "(\<And>b. co_entry m' a b = co_entry m a b) \<Longrightarrow> co_row_ok cfg m' a = co_row_ok cfg m a"
  by (simp add: co_row_ok_def co_neighbors_def)



subsection \<open>Streaming and bulk updates\<close>

text \<open>The update of one pair, on the entries of the matrix.\<close>

definition pair_upd :: "string \<Rightarrow> string \<Rightarrow> fl \<Rightarrow> (string \<Rightarrow> string \<Rightarrow> fl option) \<Rightarrow> string \<Rightarrow> string \<Rightarrow> fl option" where
  "pair_upd a b x f =
     (\<lambda>c d. if c = a \<and> d = b \<or> c = b \<and> d = a
            then Some (fl_add F32 (case f c d of None \<Rightarrow> Fin 0 | Some v \<Rightarrow> v) x) else f c d)"

definition event_upd ::
    "(fl \<Rightarrow> fl) \<Rightarrow> bool \<Rightarrow> fl \<Rightarrow> Event \<times> Event \<Rightarrow> (string \<Rightarrow> string \<Rightarrow> fl option) \<Rightarrow> string \<Rightarrow> string \<Rightarrow> fl option" where
  "event_upd exp2 temporal h p =
     (if ev_item_id (fst p) = ev_item_id (snd p) \<or>
         fl_eq (co_contribution exp2 temporal h (fst p) (snd p)) (Fin 0) then (\<lambda>f. f)
      else pair_upd (ev_item_id (fst p)) (ev_item_id (snd p)) (co_contribution exp2 temporal h (fst p) (snd p)))"

lemma pair_upd_sym: "pair_upd a b x = pair_upd b a x"
proof (intro ext)
  fix f c d
  show "pair_upd a b x f c d = pair_upd b a x f c d" unfolding pair_upd_def by presburger
qed

lemma co_contribution_sym: "co_contribution exp2 temporal h e1 e2 = co_contribution exp2 temporal h e2 e1"
  by (simp add: co_contribution_def Let_def max.commute mult.commute
      fl_mul_commute [of F32 "decay_for exp2 t i (ev_timestamp e1)" "decay_for exp2 t i (ev_timestamp e2)" for t i])

lemma event_upd_swap: "event_upd exp2 temporal h (e1, e2) = event_upd exp2 temporal h (e2, e1)"
  by (simp add: event_upd_def co_contribution_sym [of exp2 temporal h e1 e2] pair_upd_sym [of "ev_item_id e1"] eq_commute)

lemma co_entry_add_pair:
  assumes pre: "co_pre E m" and ab: "a \<noteq> b"
  shows "co_entry (co_add_pair a b x m) = pair_upd a b x (co_entry m)"
proof (intro ext)
  fix c d
  have e: "co_entry (co_add_pair a b x m) c d =
      (if c = a \<and> d = b \<or> c = b \<and> d = a then Some (fl_add F32 (co_at m a b) x) else co_entry m c d)"
    unfolding co_add_pair_eq [OF pre ab] Let_def by (rule co_entry_set_pair)
  consider "c = a \<and> d = b" | "c = b \<and> d = a" | "\<not> (c = a \<and> d = b \<or> c = b \<and> d = a)" by blast
  then show "co_entry (co_add_pair a b x m) c d = pair_upd a b x (co_entry m) c d"
  proof cases
    case 1
    then show ?thesis unfolding e pair_upd_def co_at_def by simp
  next
    case 2
    then show ?thesis unfolding e pair_upd_def co_at_def using co_preD(4) [OF pre, of a b] by simp
  next
    case 3
    then show ?thesis unfolding e pair_upd_def by presburger
  qed
qed

lemma co_entry_score_pair:
  assumes "co_pre E m"
  shows "co_entry (co_score_pair exp2 temporal h e1 e2 m) = event_upd exp2 temporal h (e1, e2) (co_entry m)"
  using co_entry_add_pair [OF assms, of "ev_item_id e1" "ev_item_id e2"]
  by (simp add: co_score_pair_def event_upd_def Let_def)

fun batch_pairs :: "'a list \<Rightarrow> ('a \<times> 'a) list" where
  "batch_pairs [] = []"
| "batch_pairs (e # es) = map (Pair e) es @ batch_pairs es"

fun stream_pairs :: "'a list \<Rightarrow> 'a list \<Rightarrow> ('a \<times> 'a) list" where
  "stream_pairs prior [] = []"
| "stream_pairs prior (e # es) = map (\<lambda>p. (p, e)) prior @ stream_pairs (prior @ [e]) es"

lemma mset_product_Cons: "mset (List.product ps (e # es)) = mset (map (\<lambda>p. (p, e)) ps) + mset (List.product ps es)"
  by (induction ps) auto

lemma product_append: "List.product (ps @ qs) es = List.product ps es @ List.product qs es"
  by (induction ps) auto

lemma mset_stream_pairs: "mset (stream_pairs prior es) = mset (batch_pairs es) + mset (List.product prior es)"
proof (induction es arbitrary: prior)
  case Nil
  then show ?case by (induction prior) auto
next
  case (Cons e es)
  have "mset (stream_pairs prior (e # es)) =
      mset (map (\<lambda>p. (p, e)) prior) + (mset (batch_pairs es) + mset (List.product (prior @ [e]) es))"
    by (simp add: Cons.IH)
  also have "\<dots> = mset (batch_pairs (e # es)) + mset (List.product prior (e # es))"
    by (simp add: mset_product_Cons product_append)
  finally show ?case .
qed

lemma batch_pairs_in: "(x, y) \<in> set (batch_pairs es) \<Longrightarrow> x \<in> set es \<and> y \<in> set es"
  by (induction es) auto

lemma batch_pairs_unique:
  "\<lbrakk>distinct (map f es); (x, y) \<in> set (batch_pairs es); (x', y') \<in> set (batch_pairs es);
    f x = f x' \<and> f y = f y' \<or> f x = f y' \<and> f y = f x'\<rbrakk> \<Longrightarrow> x = x' \<and> y = y'"
proof (induction es)
  case (Cons e es)
  have inj: "u = v" if "f u = f v" "u \<in> set es" "v \<in> set es" for u v
    using that Cons.prems(1) by (auto simp: distinct_map dest: inj_onD)
  have ne: "f u \<noteq> f e" if "u \<in> set es" for u using that Cons.prems(1) by (metis distinct.simps(2) imageI list.set_map list.simps(9))
  show ?case
  proof (cases "x = e \<and> y \<in> set es"; cases "x' = e \<and> y' \<in> set es")
    assume "x = e \<and> y \<in> set es" "x' = e \<and> y' \<in> set es"
    then show ?thesis using Cons.prems(4) inj ne by metis
  next
    assume a: "x = e \<and> y \<in> set es" "\<not> (x' = e \<and> y' \<in> set es)"
    then have "x' \<in> set es" "y' \<in> set es" using Cons.prems(3) batch_pairs_in by fastforce+
    then show ?thesis using a Cons.prems(4) ne by metis
  next
    assume a: "\<not> (x = e \<and> y \<in> set es)" "x' = e \<and> y' \<in> set es"
    then have "x \<in> set es" "y \<in> set es" using Cons.prems(2) batch_pairs_in by fastforce+
    then show ?thesis using a Cons.prems(4) ne by metis
  next
    assume "\<not> (x = e \<and> y \<in> set es)" "\<not> (x' = e \<and> y' \<in> set es)"
    then show ?thesis using Cons by auto
  qed
qed simp

lemma pair_upd_commute:
  assumes "\<not> (a = c \<and> b = d \<or> a = d \<and> b = c)"
  shows "pair_upd a b x \<circ> pair_upd c d y = pair_upd c d y \<circ> pair_upd a b x"
proof (intro ext)
  fix f u v
  define P Q where "P \<longleftrightarrow> u = a \<and> v = b \<or> u = b \<and> v = a" and "Q \<longleftrightarrow> u = c \<and> v = d \<or> u = d \<and> v = c"
  have "\<not> (P \<and> Q)" unfolding P_def Q_def using assms by metis
  then show "(pair_upd a b x \<circ> pair_upd c d y) f u v = (pair_upd c d y \<circ> pair_upd a b x) f u v"
    unfolding comp_def pair_upd_def P_def [symmetric] Q_def [symmetric] by (cases P; cases Q) simp_all
qed

lemma event_upd_commute:
  assumes "distinct (map ev_item_id es)" "p \<in> set (batch_pairs es)" "q \<in> set (batch_pairs es)"
  shows "event_upd exp2 temporal h p \<circ> event_upd exp2 temporal h q =
    event_upd exp2 temporal h q \<circ> event_upd exp2 temporal h p"
proof (cases "p = q")
  case False
  obtain x y x' y' where pq: "p = (x, y)" "q = (x', y')" by (cases p, cases q)
  have "\<not> (ev_item_id x = ev_item_id x' \<and> ev_item_id y = ev_item_id y' \<or>
      ev_item_id x = ev_item_id y' \<and> ev_item_id y = ev_item_id x')"
    using batch_pairs_unique [OF assms(1), of x y x' y'] assms(2,3) False pq by blast
  then show ?thesis using pair_upd_commute unfolding event_upd_def pq by (auto simp: comp_def)
qed simp


lemma co_entry_score_pairs:
  assumes "exp2_ok exp2" "temporal \<longrightarrow> half_life_ok h" "score_ok e"
  shows "\<lbrakk>list_all score_ok es; co_pre E m\<rbrakk> \<Longrightarrow>
    co_entry (fold (co_score_pair exp2 temporal h e) es m) =
      fold (event_upd exp2 temporal h) (map (Pair e) es) (co_entry m)"
  by (induction es arbitrary: m) (simp_all add: co_pre_score_pair assms co_entry_score_pair)

lemma co_entry_score_all:
  assumes "exp2_ok exp2" "temporal \<longrightarrow> half_life_ok h"
  shows "\<lbrakk>list_all score_ok es; co_pre E m\<rbrakk> \<Longrightarrow>
    co_entry (co_score_all exp2 temporal h es m) = fold (event_upd exp2 temporal h) (batch_pairs es) (co_entry m)"
  by (induction es arbitrary: m) (simp_all add: co_entry_score_pairs co_pre_score_pairs assms)

text \<open>Ingesting the events of a context one by one, each against the events before it.\<close>

fun co_stream ::
    "(fl \<Rightarrow> fl) \<Rightarrow> bool \<Rightarrow> fl \<Rightarrow> Event list \<Rightarrow> Event list \<Rightarrow> CoOccurrenceIndex \<Rightarrow> CoOccurrenceIndex option" where
  "co_stream exp2 temporal h prior [] s = Some s"
| "co_stream exp2 temporal h prior (e # es) s =
     Option.bind (AddEventIncrementalInternal exp2 prior e temporal h s)
       (co_stream exp2 temporal h (prior @ [e]) es)"

lemma co_stream_entries:
  assumes "exp2_ok exp2" "temporal \<longrightarrow> half_life_ok h"
  shows "\<lbrakk>list_all score_ok prior; list_all score_ok es; co_inv s; \<not> co_prunes (co_config s)\<rbrakk> \<Longrightarrow>
    \<exists>s'. co_stream exp2 temporal h prior es s = Some s' \<and>
      co_entry (co_scores s') = fold (event_upd exp2 temporal h) (stream_pairs prior es) (co_entry (co_scores s))"
proof (induction es arbitrary: prior s)
  case (Cons e es)
  let ?m = "fold (co_score_pair exp2 temporal h e) prior (co_scores s)"
  have pre: "co_pre {} ?m"
    using co_pre_score_pairs [OF assms] Cons.prems by (simp add: co_inv_def)
  have ev: "co_entry ?m = fold (event_upd exp2 temporal h) (map (\<lambda>p. (p, e)) prior) (co_entry (co_scores s))"
    using co_entry_score_pairs [OF assms, of e prior "{}" "co_scores s"] Cons.prems
    by (simp add: co_inv_def fold_map comp_def event_upd_swap [of exp2 temporal h e])
  obtain s1 where s1: "AddEventIncrementalInternal exp2 prior e temporal h s = Some s1"
    "co_scores s1 = ?m" "co_config s1 = co_config s"
    using Cons.prems by (cases "prior = []") (auto simp: AddEventIncrementalInternal_def Let_def)
  then have "co_inv s1" using pre by (simp add: co_inv_def)
  then show ?case using Cons.IH [of "prior @ [e]" s1] Cons.prems s1 ev by auto
qed simp



subsection \<open>Pruning, ranking, restoring\<close>

lemma neighbor_iff_entry: "b \<in> set (map fst (GetAllNeighbors a s)) \<longleftrightarrow> co_entry (co_scores s) a b \<noteq> None"
proof -
  have "GetAllNeighbors a s = co_row a (co_scores s)" by (simp add: GetAllNeighbors_def co_row_def)
  then show ?thesis by (simp add: co_entry_def um_find_None del: not_None_eq)
qed

text \<open>
  Pruning an item never runs into undefined behaviour on a well-formed index; afterwards the
  item is within the limits, the scores between other items are as before, and a neighbour that
  is gone either had a score below the minimum support or was dropped while the item keeps as
  many neighbours as allowed, none with a smaller absolute score.
\<close>

theorem prune_item_keeps_strongest:
  assumes "co_inv s"
  shows "\<exists>s'. PruneItemLocked item s = Some s' \<and> within_limits s' item \<and>
    (\<forall>a b. a \<noteq> item \<and> b \<noteq> item \<longrightarrow> GetScore a b s' = GetScore a b s) \<and>
    (\<forall>b. b \<in> set (map fst (GetAllNeighbors item s')) \<longrightarrow> GetScore item b s' = GetScore item b s) \<and>
    (\<forall>b. b \<in> set (map fst (GetAllNeighbors item s)) - set (map fst (GetAllNeighbors item s')) \<longrightarrow>
       fl_less (fl_abs (GetScore item b s)) (cc_min_support (co_config s)) \<or>
       GetNeighborCount item s' = unat (cc_max_neighbors_per_item (co_config s)) \<and>
       (\<forall>c. c \<in> set (map fst (GetAllNeighbors item s')) \<longrightarrow>
          \<not> fl_less (fl_abs (GetScore item c s')) (fl_abs (GetScore item b s))))"
proof -
  obtain s' where s': "PruneItemLocked item s = Some s'" "co_inv s'" "co_frame s s'"
    and p: "co_pruned (co_config s) (co_scores s) (co_scores s') item"
    using PruneItemLocked_spec [OF assms] by blast
  have old: "co_entry (co_scores s') a b = co_entry (co_scores s) a b \<or>
      co_entry (co_scores s') a b = None \<and> (a = item \<or> b = item)" for a b
    using p unfolding co_pruned_def by (elim conjE allE)
  have gone: "fl_less (Fin 0) (cc_min_support (co_config s)) \<and> fl_less (fl_abs v) (cc_min_support (co_config s)) \<or>
        card (co_neighbors (co_scores s') item) = unat (cc_max_neighbors_per_item (co_config s)) \<and>
        (\<forall>c w. co_entry (co_scores s') item c = Some w \<longrightarrow> \<not> fl_less (fl_abs w) (fl_abs v))"
    if "co_entry (co_scores s) item b = Some v" "co_entry (co_scores s') item b = None" for b v
    using p that unfolding co_pruned_def by blast
  have "within_limits s' item"
    using within_limits_row_ok [OF s'(2)] co_pruned_row_ok [OF p] s'(3) by (simp add: co_frame_def)
  moreover have "GetScore a b s' = GetScore a b s" if "a \<noteq> item \<and> b \<noteq> item" for a b
    using old [of a b] that unfolding GetScore_at co_at_def by auto
  moreover have "GetScore item b s' = GetScore item b s" if "b \<in> set (map fst (GetAllNeighbors item s'))" for b
    using old [of item b] that unfolding GetScore_at co_at_def neighbor_iff_entry by auto
  moreover have "fl_less (fl_abs (GetScore item b s)) (cc_min_support (co_config s)) \<or>
       GetNeighborCount item s' = unat (cc_max_neighbors_per_item (co_config s)) \<and>
       (\<forall>c. c \<in> set (map fst (GetAllNeighbors item s')) \<longrightarrow>
          \<not> fl_less (fl_abs (GetScore item c s')) (fl_abs (GetScore item b s)))"
    if "b \<in> set (map fst (GetAllNeighbors item s)) - set (map fst (GetAllNeighbors item s'))" for b
  proof -
    have "co_entry (co_scores s) item b \<noteq> None" and none: "co_entry (co_scores s') item b = None"
      using that unfolding Diff_iff neighbor_iff_entry by blast+
    then obtain v where "co_entry (co_scores s) item b = Some v" by blast
    note v = this none
    have "\<not> fl_less (fl_abs (GetScore item c s')) (fl_abs v)"
      if "\<forall>c w. co_entry (co_scores s') item c = Some w \<longrightarrow> \<not> fl_less (fl_abs w) (fl_abs v)"
        "c \<in> set (map fst (GetAllNeighbors item s'))" for c
      using that unfolding neighbor_iff_entry GetScore_at co_at_def by (auto split: option.split)
    moreover have "GetScore item b s = v" by (simp add: GetScore_at co_at_def v(1))
    ultimately show ?thesis
      using gone [OF v] unfolding GetNeighborCount_card [OF s'(2)] by blast
  qed
  ultimately show ?thesis using s'(1) by blast
qed

definition pruned_ex :: CoOccurrenceIndex where
  "pruned_ex = \<lparr>co_scores = [(''a'', [(''b'', Fin 5), (''c'', Fin 9)]), (''b'', [(''a'', Fin 5)]), (''c'', [(''a'', Fin 9)])],
     co_generation = 4, co_config = \<lparr>cc_max_neighbors_per_item = 1, cc_min_support = Fin 2, cc_negative_max_propagation = 1\<rparr>\<rparr>"

lemma co_inv_by_scores:
  "co_inv (fold (\<lambda>(a, b, v). SetScore a b v) xs (co_new cfg))"
  if "list_all (\<lambda>(a, b, v). a \<noteq> b \<and> fl_within f32_max v) xs"
proof -
  have "co_inv s \<Longrightarrow> co_inv (fold (\<lambda>(a, b, v). SetScore a b v) xs s)" for s
    using that by (induction xs arbitrary: s) (auto simp: co_inv_SetScore)
  then show ?thesis by simp
qed

lemma pruned_ex_inv: "co_inv pruned_ex"
proof -
  have "co_scores pruned_ex = co_scores (fold (\<lambda>(a, b, v). SetScore a b v)
      [(''a'', ''b'', Fin 5), (''a'', ''c'', Fin 9)] (co_new (co_config pruned_ex)))"
    by (simp add: pruned_ex_def SetScore_def co_put_def co_row_def co_new_def co_bump_def)
  then show ?thesis
    using co_inv_by_scores [of "[(''a'', ''b'', Fin 5), (''a'', ''c'', Fin 9)]" "co_config pruned_ex"]
    by (simp add: co_inv_def f32_max_def)
qed

theorem prune_item_keeps_strongest_witness:
  "\<exists>s'. PruneItemLocked ''a'' pruned_ex = Some s' \<and> within_limits s' ''a'' \<and>
     map fst (GetAllNeighbors ''a'' s') = [''c'']"
proof -
  have "PruneItemLocked ''a'' pruned_ex = Some (pruned_ex\<lparr>co_scores :=
      [(''a'', [(''c'', Fin 9)]), (''c'', [(''a'', Fin 9)])]\<rparr>)"
    by (simp add: PruneItemLocked_def PruneItemMatrix_def pruned_ex_def co_weak_def co_surplus_def co_row_def
        co_drop_edge_def co_drop_reverse_def std_sort_def by_abs_desc_def Let_def)
  then show ?thesis
    using prune_item_keeps_strongest [OF pruned_ex_inv, of "''a''"] by (auto simp: GetAllNeighbors_def)
qed

lemma row_entry_iff:
  "co_inv s \<Longrightarrow> (b, v) \<in> set (GetAllNeighbors a s) \<longleftrightarrow> co_entry (co_scores s) a b = Some v"
  using co_preD(2) [of "{}" "co_scores s" a]
  by (auto simp: co_inv_def GetAllNeighbors_def co_entry_def co_row_def um_find_in_set split: option.splits)

lemma GetSimilar_row:
  "0 < k \<Longrightarrow> GetSimilar a k s =
     take (nat k) (std_sort by_score_desc (filter (\<lambda>(n, v). fl_less (Fin 0) v) (GetAllNeighbors a s)))"
  by (auto simp: GetSimilar_def GetAllNeighbors_def std_sort_def split: option.split)

lemma fl_less_not_NaN: "fl_less a b \<Longrightarrow> a \<noteq> NaN \<and> b \<noteq> NaN"
  by (cases a; cases b) auto

lemma sorted_GetSimilar_candidates:
  "sorted_wrt (\<lambda>p q. \<not> fl_less (snd p) (snd q))
     (std_sort by_score_desc (filter (\<lambda>(n, v). fl_less (Fin 0) v) row))"
proof -
  have "strict_weak_on (\<lambda>a b. fl_less (snd b) (snd a)) (set (filter (\<lambda>(n, v). fl_less (Fin 0) v) row))"
    by (rule strict_weak_fl) (auto dest: fl_less_not_NaN)
  from sorted_std_sort [OF this order_refl] show ?thesis by (simp add: by_score_desc_def [abs_def])
qed

lemma GetSimilar_positive:
  fixes a :: string
  assumes "co_inv s" "0 < k"
  defines "c \<equiv> std_sort by_score_desc (filter (\<lambda>(n, v). fl_less (Fin 0) v) (GetAllNeighbors a s))"
  shows "GetSimilar a k s = take (nat k) c" "distinct (map fst c)"
    and "(b, v) \<in> set c \<longleftrightarrow> v = GetScore a b s \<and> fl_less (Fin 0) v"
    and "sorted_wrt (\<lambda>p q. \<not> fl_less (snd p) (snd q)) c"
proof -
  let ?row = "GetAllNeighbors a s"
  show "GetSimilar a k s = take (nat k) c" using GetSimilar_row [OF assms(2)] by (simp add: c_def)
  have "um_wf ?row"
    using co_preD(2) [of "{}" "co_scores s" a] assms(1)
    by (simp add: co_inv_def GetAllNeighbors_def co_row_def split: option.splits)
  then have "distinct (map fst (filter (\<lambda>(n, v). fl_less (Fin 0) v) ?row))"
    by (simp add: um_wf_def distinct_map_filter)
  moreover have "mset (map fst c) = mset (map fst (filter (\<lambda>(n, v). fl_less (Fin 0) v) ?row))"
    by (simp add: c_def)
  ultimately show "distinct (map fst c)" by (metis mset_eq_imp_distinct_iff)
  show "(b, v) \<in> set c \<longleftrightarrow> v = GetScore a b s \<and> fl_less (Fin 0) v"
    using row_entry_iff [OF assms(1), of b v a]
    by (auto simp: c_def GetScore_at co_at_def split: option.splits)
  show "sorted_wrt (\<lambda>p q. \<not> fl_less (snd p) (snd q)) c"
    unfolding c_def by (rule sorted_GetSimilar_candidates)
qed

text \<open>
  A query returns neighbours of the item with their positive scores, no item twice, in
  descending order of score, \<^verbatim>\<open>top_k\<close> of them or all there are, and every positively scored
  neighbour it leaves out scores no higher than any it returns; a \<^verbatim>\<open>top_k\<close> that is not positive
  returns nothing.
\<close>

theorem get_similar_ranks:
  assumes "co_inv s"
  shows "(k \<le> 0 \<longrightarrow> GetSimilar a k s = []) \<and>
    list_all (\<lambda>(b, v). v = GetScore a b s \<and> fl_less (Fin 0) v) (GetSimilar a k s) \<and>
    distinct (map fst (GetSimilar a k s)) \<and>
    sorted_wrt (\<lambda>p q. \<not> fl_less (snd p) (snd q)) (GetSimilar a k s) \<and>
    length (GetSimilar a k s) = min (nat k) (card {b. fl_less (Fin 0) (GetScore a b s)}) \<and>
    (\<forall>b. 0 < k \<and> fl_less (Fin 0) (GetScore a b s) \<and> b \<notin> set (map fst (GetSimilar a k s)) \<longrightarrow>
       list_all (\<lambda>(c, v). \<not> fl_less v (GetScore a b s)) (GetSimilar a k s))"
proof (cases "0 < k")
  case False
  then show ?thesis by (simp add: GetSimilar_def)
next
  case True
  define c where "c = std_sort by_score_desc (filter (\<lambda>(n, v). fl_less (Fin 0) v) (GetAllNeighbors a s))"
  note c = GetSimilar_positive [where a = a, OF assms True, folded c_def]
  have keys: "set (map fst c) = {b. fl_less (Fin 0) (GetScore a b s)}"
    using c(3) by force
  have len: "length c = card {b. fl_less (Fin 0) (GetScore a b s)}"
    using distinct_card [OF c(2)] keys by simp
  have top: "\<not> fl_less v (GetScore a b s)"
    if "fl_less (Fin 0) (GetScore a b s)" "b \<notin> set (map fst (take (nat k) c))" "(d, v) \<in> set (take (nat k) c)" for b d v
  proof -
    have "(b, GetScore a b s) \<in> set (take (nat k) c @ drop (nat k) c)" using that(1) c(3) by simp
    moreover have "(b, GetScore a b s) \<notin> set (take (nat k) c)" using that(2) by force
    ultimately have "(b, GetScore a b s) \<in> set (drop (nat k) c)" unfolding set_append by blast
    moreover have "sorted_wrt (\<lambda>p q. \<not> fl_less (snd p) (snd q)) (take (nat k) c @ drop (nat k) c)"
      using c(4) by simp
    ultimately show ?thesis using that(3) unfolding sorted_wrt_append by fastforce
  qed
  have mem: "v = GetScore a b s \<and> fl_less (Fin 0) v" if "(b, v) \<in> set (take (nat k) c)" for b v
    using c(3) that by (meson in_set_takeD)
  show ?thesis
    unfolding c(1)
  proof (intro conjI)
    show "list_all (\<lambda>(b, v). v = GetScore a b s \<and> fl_less (Fin 0) v) (take (nat k) c)"
      using mem by (auto simp: list_all_iff)
    show "distinct (map fst (take (nat k) c))" using c(2) by (metis distinct_take take_map)
    show "sorted_wrt (\<lambda>p q. \<not> fl_less (snd p) (snd q)) (take (nat k) c)" using c(4) by (rule sorted_wrt_take)
    show "length (take (nat k) c) = min (nat k) (card {b. fl_less (Fin 0) (GetScore a b s)})"
      using len by (simp add: min.commute)
    show "\<forall>b. 0 < k \<and> fl_less (Fin 0) (GetScore a b s) \<and> b \<notin> set (map fst (take (nat k) c)) \<longrightarrow>
       list_all (\<lambda>(c, v). \<not> fl_less v (GetScore a b s)) (take (nat k) c)"
      using top by (auto simp: list_all_iff)
  qed (use True in simp)
qed

theorem get_similar_ranks_witness:
  "GetSimilar ''a'' 1 pruned_ex = [(''c'', Fin 9)] \<and>
   sorted_wrt (\<lambda>p q. \<not> fl_less (snd p) (snd q)) (GetSimilar ''a'' 2 pruned_ex)"
  using get_similar_ranks [OF pruned_ex_inv, of 2 "''a''"]
  by (simp add: GetSimilar_def pruned_ex_def std_sort_def by_score_desc_def)

subsection \<open>Dump and restore\<close>

text \<open>
  The order in which the snapshot writes the index (\<^verbatim>\<open>GetAllItems\<close>, then \<^verbatim>\<open>GetAllNeighbors\<close> of
  each) and reads it back (\<^verbatim>\<open>Clear\<close>, then \<^verbatim>\<open>SetScore\<close> for each).
\<close>

definition co_dump :: "CoOccurrenceIndex \<Rightarrow> (string \<times> string \<times> fl) list" where
  "co_dump s = concat (map (\<lambda>a. map (Pair a) (GetAllNeighbors a s)) (GetAllItems s))"

definition co_restore :: "(string \<times> string \<times> fl) list \<Rightarrow> CoOccurrenceIndex \<Rightarrow> CoOccurrenceIndex" where
  "co_restore entries t = fold (\<lambda>(a, b, v). SetScore a b v) entries (co_Clear t)"

lemma co_entry_SetScore:
  "co_entry (co_scores (SetScore a b v s)) c d =
     (if c = a \<and> d = b \<or> c = b \<and> d = a then Some v else co_entry (co_scores s) c d)"
  using co_entry_set_pair [of b a v "co_scores s" c d] unfolding SetScore_def co_bump_simps by simp

lemma co_entry_SetScores:
  assumes "\<And>a b. f a b = f b a"
  shows "(\<And>a b v. (a, b, v) \<in> set xs \<Longrightarrow> f a b = Some v) \<Longrightarrow>
    co_entry (co_scores (fold (\<lambda>(a, b, v). SetScore a b v) xs s)) c d =
      (if \<exists>v. (c, d, v) \<in> set xs \<or> (d, c, v) \<in> set xs then f c d else co_entry (co_scores s) c d)"
proof (induction xs rule: rev_induct)
  case (snoc x xs)
  obtain a b v where x: "x = (a, b, v)" by (cases x)
  have v: "f a b = Some v" "f b a = Some v" using snoc.prems [of a b v] assms [of a b] x by simp_all
  have IH: "co_entry (co_scores (fold (\<lambda>(a, b, v). SetScore a b v) xs s)) c d =
      (if \<exists>v. (c, d, v) \<in> set xs \<or> (d, c, v) \<in> set xs then f c d else co_entry (co_scores s) c d)"
    using snoc by simp
  have step: "co_entry (co_scores (fold (\<lambda>(a, b, v). SetScore a b v) (xs @ [x]) s)) c d =
      (if c = a \<and> d = b \<or> c = b \<and> d = a then Some v
       else co_entry (co_scores (fold (\<lambda>(a, b, v). SetScore a b v) xs s)) c d)"
    by (simp add: x co_entry_SetScore)
  show ?case
  proof (cases "c = a \<and> d = b \<or> c = b \<and> d = a")
    case True
    then have "f c d = Some v" "\<exists>v. (c, d, v) \<in> set (xs @ [x]) \<or> (d, c, v) \<in> set (xs @ [x])"
      using v x by auto
    then show ?thesis using True unfolding step by presburger
  next
    case False
    then have "(\<exists>v. (c, d, v) \<in> set (xs @ [x]) \<or> (d, c, v) \<in> set (xs @ [x])) \<longleftrightarrow>
        (\<exists>v. (c, d, v) \<in> set xs \<or> (d, c, v) \<in> set xs)" using x by auto
    then show ?thesis using False unfolding step IH by presburger
  qed
qed simp

text \<open>
  Restoring the dump of a well-formed index into any index gives back every score, the
  negative and zero ones included, whatever the order of the entries.
\<close>

theorem co_dump_restore:
  assumes "co_inv s"
  shows "\<forall>a b. GetScore a b (co_restore (co_dump s) t) = GetScore a b s"
proof -
  have pre: "co_pre {} (co_scores s)" using assms by (simp add: co_inv_def)
  have mem: "(a, b, v) \<in> set (co_dump s) \<longleftrightarrow> co_entry (co_scores s) a b = Some v" for a b v
  proof -
    have "a \<in> set (GetAllItems s)" if "co_entry (co_scores s) a b = Some v"
      using that by (auto simp: GetAllItems_def co_entry_def co_row_def dest: um_find_Some_key split: option.splits)
    then show ?thesis using row_entry_iff [OF assms, of b v a] by (auto simp: co_dump_def)
  qed
  have "co_entry (co_scores (co_restore (co_dump s) t)) a b = co_entry (co_scores s) a b" for a b
  proof -
    have "co_entry (co_scores (co_restore (co_dump s) t)) a b =
        (if \<exists>v. (a, b, v) \<in> set (co_dump s) \<or> (b, a, v) \<in> set (co_dump s)
         then co_entry (co_scores s) a b else co_entry (co_scores (co_Clear t)) a b)"
      unfolding co_restore_def by (rule co_entry_SetScores [OF co_preD(4) [OF pre]]) (simp add: mem)
    moreover have "co_entry (co_scores (co_Clear t)) a b = None" by (simp add: co_Clear_def)
    ultimately show ?thesis unfolding mem by (metis not_None_eq)
  qed
  then show ?thesis by (simp add: GetScore_at co_at_def)
qed

theorem co_dump_restore_witness:
  "co_dump pruned_ex = [(''a'', ''b'', Fin 5), (''a'', ''c'', Fin 9), (''b'', ''a'', Fin 5), (''c'', ''a'', Fin 9)] \<and>
   GetScore ''c'' ''a'' (co_restore (co_dump pruned_ex) pruned_ex) = Fin 9"
  using co_dump_restore [OF pruned_ex_inv, of pruned_ex]
  by (simp add: co_dump_def GetAllItems_def GetAllNeighbors_def GetScore_def pruned_ex_def)


subsection \<open>Where the limits are not enforced\<close>

definition limit_cfg_ex :: CoConfig where
  "limit_cfg_ex = \<lparr>cc_max_neighbors_per_item = 1, cc_min_support = Fin 5, cc_negative_max_propagation = 1\<rparr>"


text \<open>
  A self pair, which the snapshot reader writes through \<^verbatim>\<open>SetScore\<close> without a check, makes a
  later prune of that item undefined: it erases through an iterator it has just invalidated.
\<close>

theorem self_pair_prune_undefined:
  "PruneItemLocked ''a'' (SetScore ''a'' ''a'' (Fin 1) (co_new limit_cfg_ex)) = None"
  by (simp add: PruneItemLocked_def PruneItemMatrix_def SetScore_def co_new_def limit_cfg_ex_def co_bump_def
      co_put_def co_row_def co_weak_def Let_def)

subsection \<open>Counting pairs\<close>

lemma card_symmetric:
  assumes "finite R" "sym R" "irrefl R"
  shows "card R = 2 * card ((\<lambda>(a, b). {a, b}) ` R)"
proof -
  let ?f = "\<lambda>(a, b). {a, b}"
  let ?fiber = "\<lambda>u. {p \<in> R. ?f p = u}"
  have two: "card (?fiber u) = 2" if u: "u \<in> ?f ` R" for u
  proof -
    obtain a b where ab: "(a, b) \<in> R" "u = {a, b}" using u by auto
    then have "a \<noteq> b" "(b, a) \<in> R" using assms(2,3) by (auto simp: irrefl_def dest: symD)
    then have "?fiber u = {(a, b), (b, a)}" using ab by (auto simp: doubleton_eq_iff)
    then show ?thesis using \<open>a \<noteq> b\<close> by simp
  qed
  have "card R = card (\<Union>u \<in> ?f ` R. ?fiber u)" by (rule arg_cong [where f = card]) auto
  also have "\<dots> = (\<Sum>u \<in> ?f ` R. card (?fiber u))"
    using assms(1) by (intro card_UN_disjoint) auto
  also have "\<dots> = 2 * card (?f ` R)" using two by simp
  finally show ?thesis .
qed

definition co_edges :: "comatrix \<Rightarrow> (string \<times> string) set" where
  "co_edges m = {(a, b). co_entry m a b \<noteq> None}"

lemma co_edges_card:
  assumes "co_pre {} m"
  shows "card (co_edges m) = sum_list (map (\<lambda>(a, row). um_size row) m)" "finite (co_edges m)"
proof -
  have wf: "um_wf m" using co_preD(1) [OF assms] .
  have edges: "co_edges m = (SIGMA a : fst ` set m. co_neighbors m a)"
    by (auto simp: co_edges_def co_neighbors_def co_entry_def co_row_def dest: um_find_Some_key split: option.splits)
  then show "finite (co_edges m)" by simp
  have rows: "um_size row = card (co_neighbors m a)" if "(a, row) \<in> set m" for a row
    using um_size_row [OF assms, of a] um_find_in_set [OF wf, of a row] that by (simp add: co_row_def)
  have "sum_list (map (\<lambda>(a, row). um_size row) m) = sum_list (map (\<lambda>a. card (co_neighbors m a)) (map fst m))"
    using rows by (auto simp: comp_def intro!: arg_cong [where f = sum_list])
  also have "\<dots> = (\<Sum>a \<in> fst ` set m. card (co_neighbors m a))"
    using sum_list_distinct_conv_sum_set [of "map fst m" "\<lambda>a. card (co_neighbors m a)"] wf
    by (simp only: um_wf_def set_map)
  finally show "card (co_edges m) = sum_list (map (\<lambda>(a, row). um_size row) m)"
    unfolding edges by (simp add: card_SigmaI)
qed

text \<open>
  The statistics count every unordered pair of co-occurring items exactly once.
\<close>

theorem statistics_count_pairs:
  assumes "co_inv s"
  shows "cs_co_pairs (co_GetStatistics s) =
    card {{a, b} | a b. b \<in> set (map fst (GetAllNeighbors a s))}"
proof -
  have pre: "co_pre {} (co_scores s)" using assms by (simp add: co_inv_def)
  have "sym (co_edges (co_scores s))"
    unfolding sym_def co_edges_def using co_preD(4) [OF pre] by force
  moreover have "irrefl (co_edges (co_scores s))"
    unfolding irrefl_def co_edges_def using co_preD(5) [OF pre] by simp
  ultimately have "card (co_edges (co_scores s)) = 2 * card ((\<lambda>(a, b). {a, b}) ` co_edges (co_scores s))"
    by (rule card_symmetric [OF co_edges_card(2) [OF pre]])
  moreover have "(\<lambda>(a, b). {a, b}) ` co_edges (co_scores s) =
      {{a, b} | a b. b \<in> set (map fst (GetAllNeighbors a s))}"
    unfolding neighbor_iff_entry co_edges_def by force
  ultimately show ?thesis using co_edges_card(1) [OF pre] by (simp add: co_GetStatistics_def)
qed

theorem statistics_count_pairs_witness:
  "cs_co_pairs (co_GetStatistics pruned_ex) = 2 \<and>
   card {{a, b} | a b. b \<in> set (map fst (GetAllNeighbors a pruned_ex))} = 2"
  using statistics_count_pairs [OF pruned_ex_inv] by (simp add: co_GetStatistics_def pruned_ex_def)

end
