(* ===== verification/Metadata.thy ===== *)
theory Metadata
  imports KeyValue Floats
begin

text \<open>
  Item metadata (\<^verbatim>\<open>src/vectors/metadata.h\<close>, \<^verbatim>\<open>metadata_filter.cpp\<close>, \<^verbatim>\<open>metadata_store.cpp\<close>): typed
  values, the comparison of two values, filter conditions and the store.  The theory shows what each
  operator of a condition decides, that \<^verbatim>\<open>Filter\<close> and \<^verbatim>\<open>Matches\<close> agree, and what a read after a write
  returns.  The type of the doubles is a parameter: the log stores their bits, the filter compares
  their values.
\<close>

subsection \<open>Values and filters\<close>

datatype 'd MetadataValue = VString string | VInt64 u64 | VDouble 'd | VBool bool

type_synonym 'd Metadata = "(string, 'd MetadataValue) umap"

text \<open>\<^verbatim>\<open>operator<\<close> on strings compares the characters as unsigned bytes.\<close>

fun str_less :: "string \<Rightarrow> string \<Rightarrow> bool" where
  "str_less xs [] = False"
| "str_less [] (y # ys) = True"
| "str_less (x # xs) (y # ys) =
     ((of_char x :: nat) < of_char y \<or> x = y \<and> str_less xs ys)"

definition three_way :: "('a \<Rightarrow> 'a \<Rightarrow> bool) \<Rightarrow> 'a \<Rightarrow> 'a \<Rightarrow> int" where
  "three_way lt l r = (if lt l r then - 1 else if lt r l then 1 else 0)"

definition double_of_int64 :: "u64 \<Rightarrow> fl" where
  "double_of_int64 i = fl_of_int F64 (sint i)"

text \<open>\<open>-2\<close> stands for values that cannot be compared.\<close>

fun CompareValues :: "fl MetadataValue \<Rightarrow> fl MetadataValue \<Rightarrow> int" where
  "CompareValues (VInt64 l) (VDouble r) = three_way fl_less (double_of_int64 l) r"
| "CompareValues (VDouble l) (VInt64 r) = three_way fl_less l (double_of_int64 r)"
| "CompareValues (VString l) (VString r) = three_way str_less l r"
| "CompareValues (VInt64 l) (VInt64 r) = three_way (\<lambda>a b. sint a < sint b) l r"
| "CompareValues (VDouble l) (VDouble r) = three_way fl_less l r"
| "CompareValues (VBool l) (VBool r) = three_way (\<lambda>a b. \<not> a \<and> b) l r"
| "CompareValues l r = - 2"

datatype FilterOp = kEq | kNe | kGt | kGe | kLt | kLe | kIn

record FilterCondition =
  fc_field :: string
  fc_op :: FilterOp
  fc_value :: "fl MetadataValue"
  fc_values :: "fl MetadataValue list"

definition condition_Match :: "FilterCondition \<Rightarrow> fl MetadataValue \<Rightarrow> bool" where
  "condition_Match c meta_value =
     (let cmp = CompareValues meta_value (fc_value c)
      in case fc_op c of
           kEq \<Rightarrow> cmp = 0
         | kNe \<Rightarrow> cmp \<noteq> 0 \<and> cmp \<noteq> - 2
         | kGt \<Rightarrow> cmp = 1
         | kGe \<Rightarrow> 0 \<le> cmp
         | kLt \<Rightarrow> cmp = - 1
         | kLe \<Rightarrow> cmp = 0 \<or> cmp = - 1
         | kIn \<Rightarrow> list_ex (\<lambda>v. CompareValues meta_value v = 0) (fc_values c))"

fun filter_Match :: "FilterCondition list \<Rightarrow> fl Metadata \<Rightarrow> bool" where
  "filter_Match [] meta = True"
| "filter_Match (c # cs) meta =
     (case um_find meta (fc_field c) of
        None \<Rightarrow> if fc_op c = kNe then filter_Match cs meta else False
      | Some v \<Rightarrow> if \<not> condition_Match c v then False else filter_Match cs meta)"

subsection \<open>The store\<close>

type_synonym MetadataStore = "(string, fl Metadata) umap"

definition ms_Set :: "string \<Rightarrow> fl Metadata \<Rightarrow> MetadataStore \<Rightarrow> MetadataStore" where
  "ms_Set i meta s = um_set i meta s"

definition ms_Get :: "MetadataStore \<Rightarrow> string \<Rightarrow> fl Metadata option" where
  "ms_Get s i = um_find s i"

definition ms_Delete :: "string \<Rightarrow> MetadataStore \<Rightarrow> MetadataStore" where
  "ms_Delete i s = um_erase i s"

definition ms_Filter :: "MetadataStore \<Rightarrow> FilterCondition list \<Rightarrow> string list \<Rightarrow> string list" where
  "ms_Filter s flt candidates =
     (if flt = []
      then if candidates \<noteq> [] then candidates else um_keys s
      else if candidates \<noteq> []
      then filter (\<lambda>i. case um_find s i of None \<Rightarrow> False | Some meta \<Rightarrow> filter_Match flt meta) candidates
      else map fst (filter (\<lambda>(i, meta). filter_Match flt meta) s))"

definition ms_Matches :: "MetadataStore \<Rightarrow> string \<Rightarrow> FilterCondition list \<Rightarrow> bool" where
  "ms_Matches s i flt =
     (if flt = [] then True
      else case um_find s i of None \<Rightarrow> False | Some meta \<Rightarrow> filter_Match flt meta)"

definition ms_Size :: "MetadataStore \<Rightarrow> u32" where
  "ms_Size s = of_nat (um_size s)"

definition ms_Clear :: "MetadataStore \<Rightarrow> MetadataStore" where
  "ms_Clear s = []"

definition ms_SwapState :: "MetadataStore \<Rightarrow> MetadataStore \<Rightarrow> MetadataStore \<times> MetadataStore" where
  "ms_SwapState s other = (other, s)"

subsection \<open>What the comparison decides\<close>

fun mv_comparable :: "fl MetadataValue \<Rightarrow> fl MetadataValue \<Rightarrow> bool" where
  "mv_comparable (VString a) (VString b) = True"
| "mv_comparable (VBool a) (VBool b) = True"
| "mv_comparable (VInt64 a) (VInt64 b) = True"
| "mv_comparable (VInt64 a) (VDouble b) = (b \<noteq> NaN)"
| "mv_comparable (VDouble a) (VInt64 b) = (a \<noteq> NaN)"
| "mv_comparable (VDouble a) (VDouble b) = (a \<noteq> NaN \<and> b \<noteq> NaN)"
| "mv_comparable a b = False"

text \<open>A value as the order of its kind sees it: an integer next to a double is that double.\<close>

fun mv_same :: "fl MetadataValue \<Rightarrow> fl MetadataValue \<Rightarrow> bool" where
  "mv_same (VInt64 a) (VDouble b) = (double_of_int64 a = b)"
| "mv_same (VDouble a) (VInt64 b) = (a = double_of_int64 b)"
| "mv_same a b = (a = b)"

lemma str_less_irrefl [simp]: "\<not> str_less xs xs"
  by (induction xs) auto

lemma str_less_asym: "str_less xs ys \<Longrightarrow> \<not> str_less ys xs"
  by (induction xs ys rule: str_less.induct) auto

lemma str_less_linear: "str_less xs ys \<or> xs = ys \<or> str_less ys xs"
proof (induction xs ys rule: str_less.induct)
  case (3 x xs y ys)
  have "x = y" if "(of_char x :: nat) = of_char y" using that by (metis char_of_char)
  then show ?case using 3 by (cases "(of_char x :: nat)" "of_char y :: nat" rule: linorder_cases) auto
next
  case (1 xs)
  then show ?case by (cases xs) auto
qed simp

lemma double_of_int64_finite: "double_of_int64 i \<noteq> NaN"
  by (auto simp: double_of_int64_def fl_of_int_def fl_round_def Let_def)

lemma three_way_zero:
  "three_way str_less a b = 0 \<longleftrightarrow> a = b"
  "\<lbrakk>x \<noteq> NaN; y \<noteq> NaN\<rbrakk> \<Longrightarrow> three_way fl_less x y = 0 \<longleftrightarrow> x = y"
  "three_way (\<lambda>u v. sint u < sint v) i j = 0 \<longleftrightarrow> i = j"
  "three_way (\<lambda>p q. \<not> p \<and> q) b1 b2 = 0 \<longleftrightarrow> b1 = b2"
proof -
  show "three_way str_less a b = 0 \<longleftrightarrow> a = b"
    using str_less_linear [of a b] by (auto simp: three_way_def)
  show "\<lbrakk>x \<noteq> NaN; y \<noteq> NaN\<rbrakk> \<Longrightarrow> three_way fl_less x y = 0 \<longleftrightarrow> x = y"
    using fl_less_linear [of x y] by (auto simp: three_way_def)
  have "sint i = sint j \<longleftrightarrow> i = j" by (metis signed_word_eqI)
  then show "three_way (\<lambda>u v. sint u < sint v) i j = 0 \<longleftrightarrow> i = j"
    by (auto simp: three_way_def not_less)
qed (simp_all add: three_way_def)

lemma CompareValues_cases:
  assumes "mv_comparable a b"
  shows "CompareValues a b \<in> {- 1, 0, 1}" "CompareValues a b = 0 \<longleftrightarrow> mv_same a b"
    "CompareValues b a = - CompareValues a b"
proof -
  show "CompareValues a b \<in> {- 1, 0, 1}"
    using assms by (cases a; cases b) (simp_all add: three_way_def)
  show "CompareValues a b = 0 \<longleftrightarrow> mv_same a b"
    using assms by (cases a; cases b) (simp_all add: three_way_zero double_of_int64_finite)
  show "CompareValues b a = - CompareValues a b"
    using assms by (cases a; cases b) (auto simp: three_way_def dest: fl_less_asym str_less_asym)
qed


definition condition :: "string \<Rightarrow> FilterOp \<Rightarrow> fl MetadataValue \<Rightarrow> FilterCondition" where
  "condition f opr v = \<lparr>fc_field = f, fc_op = opr, fc_value = v, fc_values = []\<rparr>"

lemma condition_eq: "condition_Match (condition f kEq v) a \<longleftrightarrow> CompareValues a v = 0"
  by (simp add: condition_Match_def condition_def)

lemma condition_trichotomy:
  assumes "mv_comparable a v"
  shows "(condition_Match (condition f kEq v) a \<longleftrightarrow> mv_same a v) \<and>
    (condition_Match (condition f kNe v) a \<longleftrightarrow> \<not> condition_Match (condition f kEq v) a) \<and>
    (condition_Match (condition f kGe v) a \<longleftrightarrow> \<not> condition_Match (condition f kLt v) a) \<and>
    (condition_Match (condition f kLe v) a \<longleftrightarrow> \<not> condition_Match (condition f kGt v) a) \<and>
    (condition_Match (condition f kLt v) a \<longleftrightarrow> condition_Match (condition f kGt a) v) \<and>
    (condition_Match (condition f kLt v) a \<or> condition_Match (condition f kEq v) a \<or> condition_Match (condition f kGt v) a) \<and>
    \<not> (condition_Match (condition f kLt v) a \<and> condition_Match (condition f kEq v) a) \<and>
    \<not> (condition_Match (condition f kLt v) a \<and> condition_Match (condition f kGt v) a)"
  using CompareValues_cases [OF assms]
  by (auto simp: condition_Match_def condition_def Let_def)

lemma nan_equals: "three_way fl_less NaN x = 0" "three_way fl_less x NaN = 0"
  by (cases x; simp add: three_way_def)+



subsection \<open>The store\<close>

interpretation metadata: kv_store um_wf ms_Get ms_Set ms_Delete "\<lambda>s i meta. True"
  by unfold_locales (simp_all add: ms_Get_def ms_Set_def ms_Delete_def)

lemma ms_Filter_Matches:
  assumes "um_wf s"
  shows "ms_Filter s flt candidates = filter (\<lambda>i. ms_Matches s i flt) (if candidates = [] then um_keys s else candidates)"
proof -
  have "map fst (filter (\<lambda>(i, meta). filter_Match flt meta) s) =
      filter (\<lambda>i. case um_find s i of None \<Rightarrow> False | Some meta \<Rightarrow> filter_Match flt meta) (um_keys s)"
    unfolding filter_map using assms
    by (auto simp: um_wf_def comp_def intro!: arg_cong [of _ _ "map fst"] filter_cong)
  then show ?thesis by (simp add: ms_Filter_def ms_Matches_def)
qed

lemma filter_Match_all:
  "filter_Match flt meta \<longleftrightarrow> (\<forall>c \<in> set flt. case um_find meta (fc_field c) of
     None \<Rightarrow> fc_op c = kNe | Some v \<Rightarrow> condition_Match c v)"
  by (induction flt) (auto split: option.splits)

fun ms_step :: "(string, fl Metadata) kv_op \<Rightarrow> MetadataStore \<Rightarrow> MetadataStore" where
  "ms_step (Put i meta) s = ms_Set i meta s"
| "ms_step (Del i) s = ms_Delete i s"

lemma ms_run:
  "um_wf (fold ms_step ops []) \<and> ms_Get (fold ms_step ops []) i = kv_last i ops None"
proof -
  have "metadata.apply_op = ms_step" by (intro ext, rename_tac x s, case_tac x) simp_all
  moreover have "metadata.legal_run ops s" for s by (induction ops s rule: metadata.legal_run.induct) auto
  ultimately show ?thesis
    using metadata.run_keeps [of "[]" ops] metadata.run_get [of "[]" ops i] by (simp add: ms_Get_def)
qed

text \<open>
  After any run of \<^verbatim>\<open>Set\<close> and \<^verbatim>\<open>Delete\<close> from the empty store, every item has the metadata of the last
  write to it; \<^verbatim>\<open>Filter\<close> returns, in their order, exactly the candidates (all items when no candidate is
  given) that \<^verbatim>\<open>Matches\<close> accepts; and an item matches a filter exactly when the filter is empty or the
  item has metadata in which each condition holds, where a missing field satisfies only an inequality.
\<close>

theorem metadata_store_correct:
  "let s = fold ms_step ops [] in
     ms_Get s i = kv_last i ops None \<and>
     ms_Filter s flt candidates = filter (\<lambda>i. ms_Matches s i flt) (if candidates = [] then um_keys s else candidates) \<and>
     (ms_Matches s i flt \<longleftrightarrow> flt = [] \<or> (\<exists>meta. ms_Get s i = Some meta \<and>
        list_all (\<lambda>c. case um_find meta (fc_field c) of None \<Rightarrow> fc_op c = kNe | Some v \<Rightarrow> condition_Match c v) flt))"
proof -
  have "ms_Matches s i flt \<longleftrightarrow> flt = [] \<or> (\<exists>meta. ms_Get s i = Some meta \<and>
        list_all (\<lambda>c. case um_find meta (fc_field c) of None \<Rightarrow> fc_op c = kNe | Some v \<Rightarrow> condition_Match c v) flt)" for s
    by (auto simp: ms_Matches_def ms_Get_def filter_Match_all list_all_iff split: option.splits)
  then show ?thesis
    unfolding Let_def using ms_run [of ops i] ms_Filter_Matches [of "fold ms_step ops []" flt candidates] by simp
qed

end
