(* ===== verification/Bytes.thy ===== *)
theory Bytes
  imports Prelude
begin

text \<open>
  Bytes: little-endian integers as the program writes them with \<^verbatim>\<open>memcpy\<close> on its supported hosts,
  characters as bytes, and the interface of a codec, whose clients rely only on decoding what was
  encoded.
\<close>

unbundle bit_operations_syntax

definition le32 :: "u32 \<Rightarrow> bytes" where
  "le32 w = [ucast w, ucast (drop_bit 8 w), ucast (drop_bit 16 w), ucast (drop_bit 24 w)]"

definition le32_decode :: "bytes \<Rightarrow> u32" where
  "le32_decode bs =
     ucast (bs ! 0) OR push_bit 8 (ucast (bs ! 1)) OR push_bit 16 (ucast (bs ! 2)) OR push_bit 24 (ucast (bs ! 3))"

definition le64 :: "u64 \<Rightarrow> bytes" where
  "le64 w = le32 (ucast w) @ le32 (ucast (drop_bit 32 w))"

definition le64_decode :: "bytes \<Rightarrow> u64" where
  "le64_decode bs = ucast (le32_decode bs) OR push_bit 32 (ucast (le32_decode (drop 4 bs)))"

definition byte_of_char :: "char \<Rightarrow> byte" where
  "byte_of_char c = of_nat (of_char c)"

definition char_of_byte :: "byte \<Rightarrow> char" where
  "char_of_byte b = char_of (unat b)"

definition bytes_of_string :: "string \<Rightarrow> bytes" where
  "bytes_of_string = map byte_of_char"

definition string_of_bytes :: "bytes \<Rightarrow> string" where
  "string_of_bytes = map char_of_byte"

lemma length_le32 [simp]: "length (le32 w) = 4"
  by (simp add: le32_def)

lemma length_le64 [simp]: "length (le64 w) = 8"
  by (simp add: le64_def)

lemma le32_roundtrip_exact: "le32_decode (le32 w) = w"
proof (rule bit_word_eqI)
  fix n
  assume "n < LENGTH(32)"
  then have "n < 32" by simp
  then consider "n < 8" | "8 \<le> n" "n < 16" | "16 \<le> n" "n < 24" | "24 \<le> n" "n < 32" by linarith
  then show "bit (le32_decode (le32 w)) n = bit w n"
    by cases (auto simp: le32_def le32_decode_def bit_simps)
qed

lemma le32_roundtrip [simp]: "le32_decode (le32 w @ bs) = w"
  using le32_roundtrip_exact [of w] by (simp add: le32_def le32_decode_def)

lemma le64_roundtrip_exact: "le64_decode (le64 w) = w"
proof (rule bit_word_eqI)
  fix n
  assume "n < LENGTH(64)"
  then have "n < 64" by simp
  then consider "n < 32" | "32 \<le> n" "n < 64" by linarith
  then show "bit (le64_decode (le64 w)) n = bit w n"
    by cases (auto simp: le64_def le64_decode_def le32_roundtrip_exact bit_simps)
qed

lemma le64_roundtrip [simp]: "le64_decode (le64 w @ bs) = w"
proof -
  have "le64_decode (le64 w @ bs) = le64_decode (le64 w)"
    by (simp add: le64_decode_def le64_def le32_roundtrip_exact)
  then show ?thesis by (simp add: le64_roundtrip_exact)
qed

lemma char_of_byte_of_char [simp]: "char_of_byte (byte_of_char c) = c"
  by (simp add: char_of_byte_def byte_of_char_def unat_of_nat take_bit_eq_mod)

lemma byte_of_char_of_byte [simp]: "byte_of_char (char_of_byte b) = b"
proof -
  have "unat b < 256" using unsigned_less [of b, where 'a = nat] by simp
  then show ?thesis by (simp add: char_of_byte_def byte_of_char_def)
qed

lemma byte_of_char_eq_iff [simp]: "byte_of_char c = byte_of_char d \<longleftrightarrow> c = d"
  by (metis char_of_byte_of_char)

lemma string_of_bytes_of_string [simp]: "string_of_bytes (bytes_of_string s) = s"
  by (simp add: string_of_bytes_def bytes_of_string_def comp_def)

lemma bytes_of_string_of_bytes [simp]: "bytes_of_string (string_of_bytes b) = b"
  by (simp add: string_of_bytes_def bytes_of_string_def comp_def)

lemma length_bytes_of_string [simp]: "length (bytes_of_string s) = length s"
  by (simp add: bytes_of_string_def)

text \<open>
  A codec: an encoder that may refuse a value, and a decoder that recovers every value the encoder
  accepted.  Its clients use that different values have different encodings and that a stored
  encoding can be read back.
\<close>

locale codec =
  fixes enc :: "'a \<Rightarrow> 'b option"
    and dec :: "'b \<Rightarrow> 'a option"
  assumes dec_enc: "enc x = Some w \<Longrightarrow> dec w = Some x"
begin

lemma enc_inj: "\<lbrakk>enc x = Some w; enc y = Some w\<rbrakk> \<Longrightarrow> x = y"
  by (metis dec_enc option.inject)

text \<open>A list of values stored as the list of their encodings.\<close>

definition enc_all :: "'a list \<Rightarrow> 'b list option" where
  "enc_all xs = those (map enc xs)"

definition dec_all :: "'b list \<Rightarrow> 'a list option" where
  "dec_all ws = those (map dec ws)"

lemma dec_enc_all: "enc_all xs = Some ws \<Longrightarrow> dec_all ws = Some xs"
proof (induction xs arbitrary: ws)
  case (Cons x xs)
  then show ?case
    by (auto simp: enc_all_def dec_all_def dec_enc split: option.splits)
qed (simp add: enc_all_def dec_all_def)

end

end
