(* ===== verification/ResultCompressor.thy ===== *)
theory ResultCompressor
  imports Bytes Errors
begin

text \<open>
  The wire form of cached search results (\<^verbatim>\<open>src/cache/result_compressor.cpp\<close>): a record of 260 bytes
  per result, a zero-terminated id in 256 bytes and the bit pattern of the score, optionally
  compressed with LZ4.  The theory shows that decoding returns exactly the results that were
  encoded and that an id the record cannot hold is refused.

  LZ4 is not part of the program: it is a parameter, and \<open>lz4_ok\<close> states what its documentation
  promises.
\<close>

text \<open>A score is the bit pattern of the \<^verbatim>\<open>float\<close>: it is only copied here.\<close>

record 's SimilarityResult =
  sr_item_id :: string
  sr_score :: 's

type_synonym result = "u32 SimilarityResult"

abbreviation INT_MAX :: nat where
  "INT_MAX \<equiv> 2147483647"

definition kIdSize :: nat where
  "kIdSize = 256"

definition kSerializedResultSize :: nat where
  "kSerializedResultSize = kIdSize + 4"

definition serialize_result :: "result \<Rightarrow> bytes" where
  "serialize_result r =
     bytes_of_string (sr_item_id r) @ replicate (kIdSize - length (sr_item_id r)) 0 @ le32 (sr_score r)"

fun serialize_loop :: "result list \<Rightarrow> bytes expected" where
  "serialize_loop [] = Inr []"
| "serialize_loop (r # rs) =
     (if kIdSize \<le> length (sr_item_id r) \<or> CHR 0x00 \<in> set (sr_item_id r)
      then Inl (MakeError kCacheCompressionFailed ''item_id is too long or contains an embedded NUL byte'')
      else case serialize_loop rs of Inl e \<Rightarrow> Inl e | Inr bs \<Rightarrow> Inr (serialize_result r @ bs))"

definition SerializeSimilarityResults :: "result list \<Rightarrow> bytes expected" where
  "SerializeSimilarityResults results =
     (if results = [] then Inr []
      else if INT_MAX div kSerializedResultSize < length results
      then Inl (MakeError kCacheCompressionFailed ''Serialized cache result size exceeds limit'')
      else serialize_loop results)"

fun deserialize_loop :: "nat \<Rightarrow> bytes \<Rightarrow> result list expected" where
  "deserialize_loop 0 bs = Inr []"
| "deserialize_loop (Suc n) bs =
     (let idb = take kIdSize bs
      in if 0 \<notin> set idb
         then Inl (MakeError kCacheDecompressionFailed ''Cached result ID is not terminated'')
         else let r = \<lparr>sr_item_id = string_of_bytes (takeWhile (\<lambda>b. b \<noteq> 0) idb),
                        sr_score = le32_decode (drop kIdSize bs)\<rparr>
              in case deserialize_loop n (drop kSerializedResultSize bs) of
                   Inl e \<Rightarrow> Inl e
                 | Inr rs \<Rightarrow> Inr (r # rs))"

definition DeserializeSimilarityResults :: "bytes \<Rightarrow> result list expected" where
  "DeserializeSimilarityResults serialized =
     (if serialized = [] then Inr []
      else if length serialized mod kSerializedResultSize \<noteq> 0 \<or> INT_MAX < length serialized
      then Inl (MakeError kCacheDecompressionFailed ''Invalid serialized cache result size'')
      else deserialize_loop (length serialized div kSerializedResultSize) serialized)"

text \<open>
  The functions of LZ4: the bound on the compressed size, and compression and decompression with
  their return value and the contents they leave in the destination buffer.
\<close>

record Lz4 =
  lz_compressBound :: "nat \<Rightarrow> int"
  lz_compress_default :: "bytes \<Rightarrow> int \<Rightarrow> int \<times> bytes"
  lz_decompress_safe :: "bytes \<Rightarrow> nat \<Rightarrow> int \<times> bytes"

definition lz4_ok :: "Lz4 \<Rightarrow> bool" where
  "lz4_ok lz \<longleftrightarrow>
     (\<forall>src bound n out. lz_compress_default lz src bound = (n, out) \<longrightarrow> 0 < n \<longrightarrow>
        nat n \<le> length out \<and> nat n \<le> INT_MAX \<and>
        lz_decompress_safe lz (take (nat n) out) (length src) = (int (length src), src))"

definition CompressSimilarityResults :: "Lz4 \<Rightarrow> result list \<Rightarrow> bytes expected" where
  "CompressSimilarityResults lz results =
     (case SerializeSimilarityResults results of
        Inl e \<Rightarrow> Inl e
      | Inr serialized \<Rightarrow>
          if serialized = [] then Inr []
          else let bound = lz_compressBound lz (length serialized)
               in if bound \<le> 0
                  then Inl (MakeError kCacheCompressionFailed ''LZ4_compressBound failed'')
                  else let (n, out) = lz_compress_default lz serialized bound
                       in if n \<le> 0
                          then Inl (MakeError kCacheCompressionFailed ''LZ4 compression failed'')
                          else Inr (take (nat n) out))"

definition DecompressSimilarityResults :: "Lz4 \<Rightarrow> bytes \<Rightarrow> nat \<Rightarrow> result list expected" where
  "DecompressSimilarityResults lz compressed original_size =
     (if compressed = [] \<or> original_size = 0 then Inr []
      else if original_size mod kSerializedResultSize \<noteq> 0 \<or> INT_MAX < original_size \<or>
              INT_MAX < length compressed
      then Inl (MakeError kCacheDecompressionFailed ''Invalid compressed cache result size'')
      else let (n, out) = lz_decompress_safe lz compressed original_size
           in if n < 0
              then Inl (MakeError kCacheDecompressionFailed ''LZ4 decompression failed'')
              else if nat n \<noteq> original_size
              then Inl (MakeError kCacheDecompressionFailed
                     (''LZ4 decompression size mismatch: expected '' @ show_nat original_size @
                      '' bytes, got '' @ show_int n @ '' bytes''))
              else DeserializeSimilarityResults out)"

subsection \<open>Round trips\<close>

lemma record_size [simp]: "0 < kSerializedResultSize"
  by (simp add: kSerializedResultSize_def)

lemma length_serialize_result:
  "length (sr_item_id r) < kIdSize \<Longrightarrow> length (serialize_result r) = kSerializedResultSize"
  by (simp add: serialize_result_def kSerializedResultSize_def)

lemma byte_of_char_zero [simp]: "byte_of_char c = 0 \<longleftrightarrow> c = CHR 0x00"
proof -
  have "byte_of_char (CHR 0x00) = 0" by (simp add: byte_of_char_def)
  then show ?thesis by (metis byte_of_char_eq_iff)
qed

lemma deserialize_serialize_result:
  assumes "length (sr_item_id r) < kIdSize" "CHR 0x00 \<notin> set (sr_item_id r)"
  shows "0 \<in> set (take kIdSize (serialize_result r @ bs))"
    and "string_of_bytes (takeWhile (\<lambda>b. b \<noteq> 0) (take kIdSize (serialize_result r @ bs))) = sr_item_id r"
    and "le32_decode (drop kIdSize (serialize_result r @ bs)) = sr_score r"
    and "drop kSerializedResultSize (serialize_result r @ bs) = bs"
proof -
  define k where "k = kIdSize - length (sr_item_id r)"
  have k: "0 < k" using assms(1) by (simp add: k_def)
  have id: "take kIdSize (serialize_result r @ bs) = bytes_of_string (sr_item_id r) @ replicate k 0"
    using assms(1) by (simp add: serialize_result_def k_def)
  have nz: "b \<noteq> 0" if "b \<in> set (bytes_of_string (sr_item_id r))" for b
    using that assms(2) by (auto simp: bytes_of_string_def)
  show "0 \<in> set (take kIdSize (serialize_result r @ bs))" unfolding id using k by simp
  have "takeWhile (\<lambda>b. b \<noteq> 0) (bytes_of_string (sr_item_id r) @ replicate k 0) = bytes_of_string (sr_item_id r)"
    using nz k by (subst takeWhile_append2) (auto simp: takeWhile_eq_Nil_iff)
  then show "string_of_bytes (takeWhile (\<lambda>b. b \<noteq> 0) (take kIdSize (serialize_result r @ bs))) = sr_item_id r"
    unfolding id by simp
  show "le32_decode (drop kIdSize (serialize_result r @ bs)) = sr_score r"
    using assms(1) by (simp add: serialize_result_def)
  show "drop kSerializedResultSize (serialize_result r @ bs) = bs"
    using length_serialize_result [OF assms(1)] by simp
qed

lemma serialize_loop_ok:
  "serialize_loop rs = Inr bs \<Longrightarrow>
     length bs = length rs * kSerializedResultSize \<and> deserialize_loop (length rs) bs = Inr rs"
proof (induction rs arbitrary: bs)
  case (Cons r rs)
  then obtain bs' where bs': "serialize_loop rs = Inr bs'" "bs = serialize_result r @ bs'"
    and id: "length (sr_item_id r) < kIdSize" "CHR 0x00 \<notin> set (sr_item_id r)"
    by (auto split: if_splits sum.splits)
  then show ?case
    using Cons.IH [OF bs'(1)] deserialize_serialize_result [OF id, of bs']
    by (simp add: Let_def length_serialize_result)
qed simp

lemma serialize_ok:
  assumes "SerializeSimilarityResults rs = Inr bs"
  shows "length bs = length rs * kSerializedResultSize" "length bs \<le> INT_MAX"
    "DeserializeSimilarityResults bs = Inr rs"
proof -
  have len: "length bs = length rs * kSerializedResultSize \<and> (rs \<noteq> [] \<longrightarrow> deserialize_loop (length rs) bs = Inr rs)"
    using assms serialize_loop_ok [of rs bs] by (auto simp: SerializeSimilarityResults_def split: if_splits)
  then show "length bs = length rs * kSerializedResultSize" by simp
  have "length rs \<le> INT_MAX div kSerializedResultSize"
    using assms by (auto simp: SerializeSimilarityResults_def split: if_splits)
  then show max: "length bs \<le> INT_MAX"
    using len by (simp add: less_eq_div_iff_mult_less_eq)
  show "DeserializeSimilarityResults bs = Inr rs"
  proof (cases "rs = []")
    case False
    with len have "bs \<noteq> []" using record_size by (metis length_0_conv mult_is_0 neq0_conv)
    with len max False show ?thesis by (simp add: DeserializeSimilarityResults_def)
  qed (use assms in \<open>simp add: DeserializeSimilarityResults_def SerializeSimilarityResults_def\<close>)
qed

lemma compress_ok:
  assumes "lz4_ok lz" "CompressSimilarityResults lz rs = Inr bs"
  shows "DecompressSimilarityResults lz bs (length rs * kSerializedResultSize) = Inr rs"
proof -
  obtain ser where ser: "SerializeSimilarityResults rs = Inr ser"
    using assms(2) by (auto simp: CompressSimilarityResults_def split: sum.splits)
  note s = serialize_ok [OF ser]
  show ?thesis
  proof (cases "ser = []")
    case True
    then have "rs = []" using s(3) by (auto simp: DeserializeSimilarityResults_def)
    then show ?thesis by (simp add: DecompressSimilarityResults_def)
  next
    case False
    obtain n out where c: "lz_compress_default lz ser (lz_compressBound lz (length ser)) = (n, out)" by fastforce
    with assms(2) ser False have n: "0 < n" "bs = take (nat n) out"
      by (auto simp: CompressSimilarityResults_def Let_def split: if_splits)
    with assms(1) c have d: "nat n \<le> length out" "nat n \<le> INT_MAX"
      "lz_decompress_safe lz bs (length ser) = (int (length ser), ser)"
      unfolding lz4_ok_def by blast+
    have "bs \<noteq> []" "length bs \<le> INT_MAX" using n d by auto
    moreover have "length ser mod kSerializedResultSize = 0" using s(1) by simp
    ultimately show ?thesis
      unfolding s(1) [symmetric] DecompressSimilarityResults_def using d(3) s(2,3) False by simp
  qed
qed

definition accepted :: "'a expected \<Rightarrow> 'a option" where
  "accepted r = (case r of Inl e \<Rightarrow> None | Inr x \<Rightarrow> Some x)"

lemma accepted_Some [simp]: "accepted r = Some x \<longleftrightarrow> r = Inr x"
  by (cases r) (auto simp: accepted_def)

interpretation plain_results: codec "\<lambda>rs. accepted (SerializeSimilarityResults rs)"
  "\<lambda>bs. accepted (DeserializeSimilarityResults bs)"
  by unfold_locales (simp add: serialize_ok(3))

text \<open>
  C28. Encoding and decoding of cached results: whatever the encoder accepts, plain or compressed,
  decodes to exactly the results that went in; the encoder refuses an id of 256 bytes or more and
  an id with a zero byte, so no two different result lists share an encoding.
\<close>

theorem result_codec_roundtrip:
  assumes "lz4_ok lz"
  shows "(\<forall>rs bs. SerializeSimilarityResults rs = Inr bs \<longrightarrow> DeserializeSimilarityResults bs = Inr rs) \<and>
    (\<forall>rs bs. CompressSimilarityResults lz rs = Inr bs \<longrightarrow>
       DecompressSimilarityResults lz bs (length rs * kSerializedResultSize) = Inr rs) \<and>
    (\<forall>rs rs' bs. SerializeSimilarityResults rs = Inr bs \<and> SerializeSimilarityResults rs' = Inr bs \<longrightarrow> rs = rs') \<and>
    (\<forall>rs. list_ex (\<lambda>r. 256 \<le> length (sr_item_id r) \<or> CHR 0x00 \<in> set (sr_item_id r)) rs \<longrightarrow>
       (\<exists>e. SerializeSimilarityResults rs = Inl e \<and> err_code e = kCacheCompressionFailed))"
proof -
  have bad: "\<exists>e. serialize_loop rs = Inl e \<and> err_code e = kCacheCompressionFailed"
    if "list_ex (\<lambda>r. 256 \<le> length (sr_item_id r) \<or> CHR 0x00 \<in> set (sr_item_id r)) rs" for rs
    using that by (induction rs) (auto simp: kIdSize_def MakeError_def split: sum.splits)
  have "\<exists>e. SerializeSimilarityResults rs = Inl e \<and> err_code e = kCacheCompressionFailed"
    if "list_ex (\<lambda>r. 256 \<le> length (sr_item_id r) \<or> CHR 0x00 \<in> set (sr_item_id r)) rs" for rs
    using bad [OF that] that by (auto simp: SerializeSimilarityResults_def MakeError_def)
  moreover have "rs = rs'" if "SerializeSimilarityResults rs = Inr bs" "SerializeSimilarityResults rs' = Inr bs" for rs rs' bs
    using plain_results.enc_inj [of rs bs rs'] that by simp
  ultimately show ?thesis using serialize_ok(3) compress_ok [OF assms] by blast
qed

definition lz4_store :: Lz4 where
  "lz4_store = \<lparr>lz_compressBound = (\<lambda>n. int n + 16), lz_compress_default =
      (\<lambda>src bound. (if length src \<le> INT_MAX then int (length src) else 0, src)),
     lz_decompress_safe = (\<lambda>bs n. (int n, bs))\<rparr>"

theorem result_codec_roundtrip_witness:
  "lz4_ok lz4_store \<and>
   (\<exists>bs. CompressSimilarityResults lz4_store [\<lparr>sr_item_id = ''ab'', sr_score = 1065353216\<rparr>] = Inr bs \<and>
      DecompressSimilarityResults lz4_store bs 260 = Inr [\<lparr>sr_item_id = ''ab'', sr_score = 1065353216\<rparr>])"
proof -
  have ok: "lz4_ok lz4_store" by (auto simp: lz4_ok_def lz4_store_def split: if_splits)
  let ?rs = "[\<lparr>sr_item_id = ''ab'', sr_score = 1065353216\<rparr>] :: result list"
  have "length (serialize_result (hd ?rs)) = kSerializedResultSize"
    by (rule length_serialize_result) (simp add: kIdSize_def)
  then have len: "length (serialize_result (hd ?rs)) = 260" by (simp add: kSerializedResultSize_def kIdSize_def)
  then have "serialize_result (hd ?rs) \<noteq> []" by (metis list.size(3) zero_neq_numeral)
  moreover have "SerializeSimilarityResults ?rs = Inr (serialize_result (hd ?rs))"
    by (simp add: SerializeSimilarityResults_def kSerializedResultSize_def kIdSize_def)
  ultimately obtain bs where "CompressSimilarityResults lz4_store ?rs = Inr bs"
    using len by (simp add: CompressSimilarityResults_def lz4_store_def)
  moreover from this have "DecompressSimilarityResults lz4_store bs (length ?rs * kSerializedResultSize) = Inr ?rs"
    using result_codec_roundtrip [OF ok] by blast
  ultimately show ?thesis using ok by (simp add: kSerializedResultSize_def kIdSize_def)
qed

end
