(* ===== verification/SimilarityEngine.thy ===== *)
theory SimilarityEngine
  imports VectorStore TopK CoOccurrence Metadata ResultCompressor
begin

text \<open>
  The similarity engine (\<^verbatim>\<open>src/similarity/similarity_engine.h\<close>, \<^verbatim>\<open>src/similarity/similarity_engine.cpp\<close>,
  \<^verbatim>\<open>src/similarity/similarity_result.h\<close>): search by co-occurrence, by vector, by their fusion and by
  a query vector, and the publication of the approximate index.

  The approximate index is used through the virtual methods of \<^verbatim>\<open>src/vectors/ann_index.h\<close>, which are
  an argument \<open>cls\<close> here, as are the heap \<open>pq\<close> (see \<open>TopK\<close>) and the random numbers \<open>rnd\<close> of the
  sampling.  A search takes several snapshots of the vector store and releases the lock between
  them; each is an argument of its own, so that the store may change in between.  A search returns
  \<open>None\<close> when an array is accessed out of range or its loop does not end.
\<close>

subsection \<open>Results\<close>

type_synonym sim_result = "fl SimilarityResult"

definition sr_less :: "sim_result \<Rightarrow> sim_result \<Rightarrow> bool" where
  "sr_less a b \<longleftrightarrow>
     (if \<not> fl_eq (sr_score a) (sr_score b) then fl_less (sr_score b) (sr_score a)
      else string_less (sr_item_id a) (sr_item_id b))"

definition clamp01 :: "fl \<Rightarrow> fl" where
  "clamp01 v = fl_max (Fin 0) (fl_min (Fin 1) v)"

definition kMinRange :: fl where
  "kMinRange = fl_round F32 (1 / 10 ^ 4)"

definition map_scores :: "(fl \<Rightarrow> fl) \<Rightarrow> sim_result list \<Rightarrow> sim_result list" where
  "map_scores f rs = map (\<lambda>r. r\<lparr>sr_score := f (sr_score r)\<rparr>) rs"

definition NormalizeScores :: "sim_result list \<Rightarrow> sim_result list" where
  "NormalizeScores rs =
     (if length rs \<le> 1 then map_scores clamp01 rs
      else let min_score = fold (\<lambda>r m. fl_min m (sr_score r)) rs (sr_score (hd rs));
               max_score = fold (\<lambda>r m. fl_max m (sr_score r)) rs (sr_score (hd rs));
               range = fl_sub F32 max_score min_score
           in if fl_less range kMinRange then map_scores clamp01 rs
              else map_scores (\<lambda>s. fl_div F32 (fl_sub F32 s min_score) range) rs)"

definition MergeAndSelectTopK :: "sim_result list \<Rightarrow> nat \<Rightarrow> sim_result list" where
  "MergeAndSelectTopK rs top_k =
     (if length rs \<le> top_k then std_sort sr_less rs else take top_k (std_sort sr_less rs))"

subsection \<open>Engine\<close>

record 'a AnnClass =
  ann_Add :: "u32 \<Rightarrow> fl list \<Rightarrow> 'a \<Rightarrow> 'a"
  ann_MarkDeleted :: "u32 \<Rightarrow> 'a \<Rightarrow> 'a"
  ann_Search :: "'a \<Rightarrow> fl list \<Rightarrow> u32 \<Rightarrow> (u32 \<times> fl) list"
  ann_Rebuild :: "fl list \<Rightarrow> u32 \<Rightarrow> u32 \<Rightarrow> 'a \<Rightarrow> 'a"
  ann_Size :: "'a \<Rightarrow> u32"
  ivf_IsTrained :: "'a \<Rightarrow> bool"
  ivf_NeedsSeal :: "'a \<Rightarrow> bool"
  ivf_AppendToBuffer :: "nat \<Rightarrow> fl list \<Rightarrow> 'a \<Rightarrow> 'a"

record 'a SimilarityEngine =
  se_config :: SimilarityConfig
  se_metric :: string
  se_ann_index :: "'a option"
  se_ann_generation :: u64
  se_ann_dimension :: u32
  se_ann_bound :: bool

definition use_prenorm :: "'a SimilarityEngine \<Rightarrow> bool" where
  "use_prenorm e \<longleftrightarrow> se_metric e = [] \<or> se_metric e = ''cosine''"

text \<open>\<open>mk\<close> builds the index of the effective type.\<close>

definition se_new :: "(string \<Rightarrow> 'a) \<Rightarrow> SimilarityConfig \<Rightarrow> VectorsConfig \<Rightarrow> 'a SimilarityEngine" where
  "se_new mk config vectors_config =
     (let effective_type = (if sc_index_type config = ''flat'' \<and> sc_ivf_enabled config then ''ivf'' else sc_index_type config);
          ann = (if effective_type = ''hnsw'' \<or> effective_type = ''ivf'' then Some (mk effective_type) else None)
      in \<lparr>se_config = config\<lparr>sc_index_type := effective_type\<rparr>, se_metric = vc_distance_metric vectors_config, se_ann_index = ann,
          se_ann_generation = 0, se_ann_dimension = (if ann = None then 0 else vc_default_dimension vectors_config),
          se_ann_bound = False\<rparr>)"

definition SelectDistanceFunction :: "DistanceFunctions \<Rightarrow> string \<Rightarrow> fl list \<Rightarrow> fl list \<Rightarrow> fl" where
  "SelectDistanceFunction impl metric =
     (if metric = ''dot'' then DotProduct impl
      else if metric = ''l2'' then \<lambda>lhs rhs. fl_div F32 (Fin 1) (fl_add F32 (Fin 1) (L2Distance impl lhs rhs))
      else CosineSimilarity impl)"

text \<open>\<^verbatim>\<open>static_cast<int>\<close>\<close>

definition to_int :: "int \<Rightarrow> int" where
  "to_int i = signed_take_bit 31 i"

definition ValidateTopK :: "'a SimilarityEngine \<Rightarrow> int \<Rightarrow> nat expected" where
  "ValidateTopK e top_k =
     (if top_k \<le> 0 then Inl (MakeError kCommandInvalidTopK ''top_k must be positive'')
      else if to_int (uint (sc_max_top_k (se_config e))) < top_k
      then Inl (MakeError kCommandInvalidTopK (''top_k exceeds maximum allowed: '' @ show_nat (unat (sc_max_top_k (se_config e)))))
      else Inr (nat top_k))"

definition has_filter :: "FilterCondition list \<Rightarrow> MetadataStore option \<Rightarrow> bool" where
  "has_filter flt ms \<longleftrightarrow> flt \<noteq> [] \<and> ms \<noteq> None"

definition passes :: "FilterCondition list \<Rightarrow> MetadataStore option \<Rightarrow> string \<Rightarrow> bool" where
  "passes flt ms i \<longleftrightarrow> \<not> has_filter flt ms \<or> ms_Matches (the ms) i flt"

subsection \<open>Search by co-occurrence\<close>

text \<open>The loop over the candidates stops at the \<open>k\<close>-th that passes.\<close>

fun take_passing :: "('b \<Rightarrow> bool) \<Rightarrow> nat \<Rightarrow> 'b list \<Rightarrow> 'b list \<Rightarrow> 'b list" where
  "take_passing P k [] acc = acc"
| "take_passing P k (x # xs) acc =
     (if P x then if k \<le> length (acc @ [x]) then acc @ [x] else take_passing P k xs (acc @ [x])
      else take_passing P k xs acc)"

partial_function (option) events_loop ::
    "CoOccurrenceIndex \<Rightarrow> string \<Rightarrow> FilterCondition list \<Rightarrow> MetadataStore option \<Rightarrow> nat \<Rightarrow> nat \<Rightarrow> sim_result list option" where
  "events_loop co item flt ms k fetch_k =
     (let co_results = GetSimilar item (int fetch_k) co;
          results = map (\<lambda>(i, s). \<lparr>sr_item_id = i, sr_score = s\<rparr>) (take_passing (\<lambda>(i, s). passes flt ms i) k co_results [])
      in if \<not> has_filter flt ms \<or> k \<le> length results \<or> length co_results < fetch_k \<or> GetNeighborCount item co \<le> fetch_k
         then Some results
         else events_loop co item flt ms k (min (GetNeighborCount item co) (min (fetch_k * 2) INT_MAX)))"

definition SearchByIdEvents ::
    "'a SimilarityEngine \<Rightarrow> CoOccurrenceIndex \<Rightarrow> MetadataStore option \<Rightarrow> FilterCondition list \<Rightarrow> string \<Rightarrow> int \<Rightarrow>
       sim_result list expected option" where
  "SearchByIdEvents e co ms flt item top_k =
     (case ValidateTopK e top_k of
        Inl err \<Rightarrow> Some (Inl err)
      | Inr k \<Rightarrow> map_option Inr (events_loop co item flt ms k k))"

subsection \<open>The flat scan\<close>

fun reservoir :: "(nat \<Rightarrow> u32) \<Rightarrow> nat list \<Rightarrow> nat \<Rightarrow> nat list \<Rightarrow> nat list" where
  "reservoir rnd [] n res = res"
| "reservoir rnd (i # xs) n res =
     (let j = unat (rnd n) mod (i + 1) in reservoir rnd xs (n + 1) (if j < length res then res[j := i] else res))"

definition SampleIndices :: "(nat \<Rightarrow> u32) \<Rightarrow> nat \<Rightarrow> nat \<Rightarrow> nat list" where
  "SampleIndices rnd total_n sample_size =
     (if total_n \<le> sample_size then [0..<total_n]
      else reservoir rnd [sample_size..<total_n] 0 [0..<sample_size])"

definition scan_indices :: "(nat \<Rightarrow> u32) \<Rightarrow> 'a SimilarityEngine \<Rightarrow> CompactSnapshot \<Rightarrow> nat list" where
  "scan_indices rnd e snap =
     (let sample_size = sc_sample_size (se_config e)
      in if 0 < sample_size \<and> unat (sample_size * 2) < snap_count snap
         then SampleIndices rnd (snap_count snap) (unat sample_size) else [0..<snap_count snap])"

definition candidate_score ::
    "DistanceFunctions \<Rightarrow> 'a SimilarityEngine \<Rightarrow> CompactSnapshot \<Rightarrow> fl list \<Rightarrow> fl \<Rightarrow> nat \<Rightarrow> fl option" where
  "candidate_score impl e snap query query_norm idx = do {
     row \<leftarrow> read_row (snap_dim snap) idx (snap_matrix snap);
     if use_prenorm e
     then do {
       norm \<leftarrow> get_at idx (snap_norms snap);
       Some (CosineSimilarityPreNorm impl query row query_norm norm)
     }
     else Some (SelectDistanceFunction impl (se_metric e) query row)
   }"

text \<open>\<open>self\<close> is the slot of the query, if it is a stored item.\<close>

definition push_candidate ::
    "DistanceFunctions \<Rightarrow> PQ \<Rightarrow> 'a SimilarityEngine \<Rightarrow> MetadataStore option \<Rightarrow> FilterCondition list \<Rightarrow> nat option \<Rightarrow> fl list \<Rightarrow> fl \<Rightarrow>
       nat \<Rightarrow> CompactSnapshot \<Rightarrow> nat \<Rightarrow> score_idx list \<Rightarrow> score_idx list option" where
  "push_candidate impl pq e ms flt self query query_norm k snap idx heap =
     (if self = Some idx \<or> snap_IsDeleted snap idx then Some heap
      else do {
        i \<leftarrow> get_at idx (snap_idx_to_id snap);
        if \<not> passes flt ms i then Some heap
        else do {
          score \<leftarrow> candidate_score impl e snap query query_norm idx;
          Some (offer pq k (score, idx) heap)
        }
      })"

fun scan :: "(nat \<Rightarrow> 'h \<Rightarrow> 'h option) \<Rightarrow> nat list \<Rightarrow> 'h \<Rightarrow> 'h option" where
  "scan f [] h = Some h"
| "scan f (i # xs) h = Option.bind (f i h) (scan f xs)"

fun heap_results :: "CompactSnapshot \<Rightarrow> score_idx list \<Rightarrow> sim_result list option" where
  "heap_results snap [] = Some []"
| "heap_results snap ((s, i) # xs) = do {
     name \<leftarrow> get_at i (snap_idx_to_id snap);
     rs \<leftarrow> heap_results snap xs;
     Some (\<lparr>sr_item_id = name, sr_score = s\<rparr> # rs)
   }"

definition flat_search ::
    "DistanceFunctions \<Rightarrow> PQ \<Rightarrow> (nat \<Rightarrow> u32) \<Rightarrow> 'a SimilarityEngine \<Rightarrow> MetadataStore option \<Rightarrow> FilterCondition list \<Rightarrow> nat option \<Rightarrow>
       fl list \<Rightarrow> fl \<Rightarrow> nat \<Rightarrow> CompactSnapshot \<Rightarrow> sim_result list option" where
  "flat_search impl pq rnd e ms flt self query query_norm k snap = do {
     h \<leftarrow> scan (push_candidate impl pq e ms flt self query query_norm k snap) (scan_indices rnd e snap) [];
     rs \<leftarrow> heap_results snap (drain pq (length h) h);
     Some (std_sort sr_less rs)
   }"

subsection \<open>The approximate index\<close>

definition IsIvfTrained :: "'a AnnClass \<Rightarrow> 'a SimilarityEngine \<Rightarrow> bool" where
  "IsIvfTrained cls e \<longleftrightarrow>
     (case se_ann_index e of None \<Rightarrow> False | Some a \<Rightarrow> sc_index_type (se_config e) = ''ivf'' \<and> ivf_IsTrained cls a)"

definition IsAnnIndexReady :: "'a AnnClass \<Rightarrow> 'a SimilarityEngine \<Rightarrow> bool" where
  "IsAnnIndexReady cls e \<longleftrightarrow>
     (case se_ann_index e of
        None \<Rightarrow> False
      | Some a \<Rightarrow>
          if sc_index_type (se_config e) = ''hnsw'' then 0 < ann_Size cls a
          else if sc_index_type (se_config e) = ''ivf'' then ivf_IsTrained cls a
          else False)"

definition oversample :: "'a SimilarityEngine \<Rightarrow> bool \<Rightarrow> nat \<Rightarrow> int" where
  "oversample e filtering k = to_int (min (if filtering then int k * 3 else int k) (uint (sc_max_top_k (se_config e))))"

text \<open>One pass over what the index found: labels of no live slot and items that do not pass are skipped.\<close>

fun ann_collect :: "CompactSnapshot \<Rightarrow> (string \<Rightarrow> bool) \<Rightarrow> nat \<Rightarrow> (u32 \<times> fl) list \<Rightarrow> sim_result list \<Rightarrow> sim_result list" where
  "ann_collect snap keep k [] acc = acc"
| "ann_collect snap keep k ((idx, score) # xs) acc =
     (if snap_count snap \<le> unat idx \<or> snap_IsDeleted snap (unat idx) then ann_collect snap keep k xs acc
      else let i = snap_idx_to_id snap ! unat idx
           in if \<not> keep i then ann_collect snap keep k xs acc
              else let acc = acc @ [\<lparr>sr_item_id = i, sr_score = score\<rparr>]
                   in if k \<le> length acc then acc else ann_collect snap keep k xs acc)"

datatype ann_outcome = AnnStale | AnnAnswer "sim_result list"

text \<open>
  The search that fetches more until enough results pass: \<open>snaps n\<close> is the snapshot the \<open>n\<close>-th
  turn maps labels with and \<open>total_n\<close> the number of vectors it compares with.
\<close>

partial_function (option) ann_loop ::
    "(fl list \<Rightarrow> u32 \<Rightarrow> (u32 \<times> fl) list) \<Rightarrow> u64 \<Rightarrow> (string \<Rightarrow> bool) \<Rightarrow> bool \<Rightarrow> (CompactSnapshot \<Rightarrow> u32) \<Rightarrow> nat \<Rightarrow> fl list \<Rightarrow>
       (nat \<Rightarrow> CompactSnapshot) \<Rightarrow> nat \<Rightarrow> u32 \<Rightarrow> ann_outcome option" where
  "ann_loop search generation keep filtering total_n k query snaps n fetch =
     (let ann_results = search query fetch; snap = snaps n
      in if snap_Empty snap then Some (AnnAnswer [])
         else if snap_generation snap \<noteq> generation then Some AnnStale
         else let results = ann_collect snap keep k ann_results []
              in if filtering \<and> length results < k \<and> fetch < total_n snap \<and> unat fetch \<le> length ann_results
                 then ann_loop search generation keep filtering total_n k query snaps (n + 1) (fetch * 2)
                 else Some (AnnAnswer (std_sort sr_less results)))"

subsection \<open>Search by vector\<close>

definition not_found :: "string \<Rightarrow> Error" where
  "not_found item = MakeError kVectorNotFound (''Query vector not found: '' @ item)"

text \<open>The query is read from \<open>vs\<close>, labels are mapped with \<open>snaps\<close>, and the flat scan reads \<open>vs'\<close>.\<close>

definition flat_search_by_id ::
    "DistanceFunctions \<Rightarrow> PQ \<Rightarrow> (nat \<Rightarrow> u32) \<Rightarrow> 'a SimilarityEngine \<Rightarrow> MetadataStore option \<Rightarrow> FilterCondition list \<Rightarrow> string \<Rightarrow> nat \<Rightarrow>
       CompactSnapshot \<Rightarrow> sim_result list expected option" where
  "flat_search_by_id impl pq rnd e ms flt item k snap =
     (if snap_Empty snap then Some (Inl (not_found item))
      else case um_find (snap_id_to_idx snap) item of
             None \<Rightarrow> Some (Inl (not_found item))
           | Some query_idx \<Rightarrow> do {
               query \<leftarrow> read_row (snap_dim snap) query_idx (snap_matrix snap);
               query_norm \<leftarrow> get_at query_idx (snap_norms snap);
               rs \<leftarrow> flat_search impl pq rnd e ms flt (Some query_idx) query query_norm k snap;
               Some (Inr rs)
             })"

definition SearchByIdVectors ::
    "DistanceFunctions \<Rightarrow> PQ \<Rightarrow> (nat \<Rightarrow> u32) \<Rightarrow> 'a AnnClass \<Rightarrow> 'a SimilarityEngine \<Rightarrow> MetadataStore option \<Rightarrow>
       FilterCondition list \<Rightarrow> string \<Rightarrow> int \<Rightarrow> VectorStore \<Rightarrow> (nat \<Rightarrow> CompactSnapshot) \<Rightarrow> VectorStore \<Rightarrow> sim_result list expected option" where
  "SearchByIdVectors impl pq rnd cls e ms flt item top_k vs snaps vs' =
     (case ValidateTopK e top_k of
        Inl err \<Rightarrow> Some (Inl err)
      | Inr k \<Rightarrow>
          let snap = GetCompactSnapshot vs
          in if snap_Empty snap then Some (Inl (not_found item))
             else case um_find (snap_id_to_idx snap) item of
                    None \<Rightarrow> Some (Inl (not_found item))
                  | Some query_idx \<Rightarrow> do {
                      query \<leftarrow> read_row (snap_dim snap) query_idx (snap_matrix snap);
                      let flat = flat_search_by_id impl pq rnd e ms flt item k (GetCompactSnapshot vs');
                      if \<not> IsAnnIndexReady cls e then flat
                      else do {
                        outcome \<leftarrow> ann_loop (ann_Search cls (the (se_ann_index e))) (se_ann_generation e)
                          (\<lambda>i. i \<noteq> item \<and> passes flt ms i) (has_filter flt ms) (\<lambda>_. of_nat (snap_count snap)) k query snaps 0
                          (word_of_int (oversample e (has_filter flt ms) k) + 1);
                        (case outcome of AnnAnswer rs \<Rightarrow> Some (Inr rs) | AnnStale \<Rightarrow> flat)
                      }
                    })"

definition SearchByVector ::
    "DistanceFunctions \<Rightarrow> PQ \<Rightarrow> (nat \<Rightarrow> u32) \<Rightarrow> 'a AnnClass \<Rightarrow> 'a SimilarityEngine \<Rightarrow> MetadataStore option \<Rightarrow>
       FilterCondition list \<Rightarrow> fl list \<Rightarrow> int \<Rightarrow> VectorStore \<Rightarrow> (nat \<Rightarrow> CompactSnapshot) \<Rightarrow> VectorStore \<Rightarrow> sim_result list expected option" where
  "SearchByVector impl pq rnd cls e ms flt query top_k vs snaps vs' =
     (case ValidateTopK e top_k of
        Inl err \<Rightarrow> Some (Inl err)
      | Inr k \<Rightarrow>
          if query = [] then Some (Inl (MakeError kInvalidArgument ''Query vector cannot be empty''))
          else if \<not> list_all isfinite query then Some (Inl (MakeError kInvalidArgument ''Query vector components must be finite''))
          else if 0 < vs_dimension vs \<and> length query \<noteq> vs_dimension vs
          then Some (Inl (MakeError kVectorDimensionMismatch
                 (''Query vector dimension mismatch: expected '' @ show_nat (vs_dimension vs) @ '', got '' @ show_nat (length query))))
          else let query_norm = l2_norm impl query
               in if \<not> isfinite query_norm \<or> use_prenorm e \<and> fl_le query_norm (Fin 0)
                  then Some (Inl (MakeError kInvalidArgument ''Query vector norm must be finite and non-zero''))
                  else let flat = (let snap = GetCompactSnapshot vs'
                                   in if snap_Empty snap then Some (Inr [])
                                      else map_option Inr (flat_search impl pq rnd e ms flt None query query_norm k snap))
                       in if \<not> IsAnnIndexReady cls e then flat
                          else do {
                            outcome \<leftarrow> ann_loop (ann_Search cls (the (se_ann_index e))) (se_ann_generation e) (passes flt ms)
                              (has_filter flt ms) (\<lambda>snap. of_nat (snap_count snap)) k query snaps 0
                              (word_of_int (oversample e (has_filter flt ms) k));
                            (case outcome of AnnAnswer rs \<Rightarrow> Some (Inr rs) | AnnStale \<Rightarrow> flat)
                          })"

subsection \<open>Fusion\<close>

definition ComputeAdaptiveWeights :: "'a SimilarityEngine \<Rightarrow> nat \<Rightarrow> fl \<times> fl" where
  "ComputeAdaptiveWeights e neighbor_count =
     (let c = se_config e;
          threshold = fl_of_int F64 (uint (sc_adaptive_maturity_threshold c));
          ratio = fl_min (Fin 1) (fl_div F64 (fl_of_int F64 (int neighbor_count)) threshold);
          alpha = fl_cast F32 (fl_sub F64 (sc_adaptive_max_alpha c)
                    (fl_mul F64 ratio (fl_sub F64 (sc_adaptive_max_alpha c) (sc_adaptive_min_alpha c))))
      in (alpha, fl_sub F32 (Fin 1) alpha))"

text \<open>\<^verbatim>\<open>fusion_scores[id] += weight * score\<close> on an ordered map.\<close>

definition add_fused :: "fl \<Rightarrow> sim_result list \<Rightarrow> (string, fl) umap \<Rightarrow> (string, fl) umap" where
  "add_fused w rs m =
     fold (\<lambda>r m. um_set (sr_item_id r)
        (fl_add F32 (case um_find m (sr_item_id r) of None \<Rightarrow> Fin 0 | Some v \<Rightarrow> v) (fl_mul F32 w (sr_score r))) m) rs m"

definition fuse ::
    "FilterCondition list \<Rightarrow> MetadataStore option \<Rightarrow> nat \<Rightarrow> fl \<Rightarrow> fl \<Rightarrow> sim_result list \<Rightarrow> sim_result list \<Rightarrow> sim_result list" where
  "fuse flt ms k event_weight vector_weight events vectors =
     (let fusion_scores = add_fused vector_weight vectors (add_fused event_weight events []);
          results = map (\<lambda>(i, s). \<lparr>sr_item_id = i, sr_score = s\<rparr>)
            (filter (\<lambda>(i, s). passes flt ms i) (std_sort (\<lambda>a b. string_less (fst a) (fst b)) fusion_scores))
      in MergeAndSelectTopK results k)"

text \<open>The weights that contribute: one when the other source has no candidates.\<close>

definition fusion_weights :: "fl \<Rightarrow> fl \<Rightarrow> bool \<Rightarrow> bool \<Rightarrow> (fl \<times> fl) option" where
  "fusion_weights alpha beta has_events has_vectors =
     (let event_weight = (if has_events then beta else Fin 0); vector_weight = (if has_vectors then alpha else Fin 0)
      in if has_events \<noteq> has_vectors then Some (if has_events then Fin 1 else Fin 0, if has_vectors then Fin 1 else Fin 0)
         else let w = fl_add F32 event_weight vector_weight
              in if fl_less (Fin 0) w then Some (fl_div F32 event_weight w, fl_div F32 vector_weight w) else None)"

definition base_weights :: "'a SimilarityEngine \<Rightarrow> CoOccurrenceIndex \<Rightarrow> string \<Rightarrow> bool option \<Rightarrow> fl \<times> fl" where
  "base_weights e co item adaptive =
     (if case adaptive of None \<Rightarrow> sc_adaptive_fusion (se_config e) | Some b \<Rightarrow> b
      then ComputeAdaptiveWeights e (GetNeighborCount item co)
      else (fl_cast F32 (sc_fusion_alpha (se_config e)), fl_cast F32 (sc_fusion_beta (se_config e))))"

definition fusion_result ::
    "'a SimilarityEngine \<Rightarrow> CoOccurrenceIndex \<Rightarrow> MetadataStore option \<Rightarrow> FilterCondition list \<Rightarrow> string \<Rightarrow> nat \<Rightarrow> bool option \<Rightarrow>
       sim_result list expected \<Rightarrow> sim_result list expected \<Rightarrow> sim_result list expected" where
  "fusion_result e co ms flt item k adaptive event_results vector_results =
     (let (alpha, beta) = base_weights e co item adaptive;
          has_events = (case event_results of Inr rs \<Rightarrow> rs \<noteq> [] | Inl _ \<Rightarrow> False);
          has_vectors = (case vector_results of Inr rs \<Rightarrow> rs \<noteq> [] | Inl _ \<Rightarrow> False)
      in case vector_results of
           Inl err \<Rightarrow>
             if \<not> has_events then Inl err
             else (case event_results of
                     Inl _ \<Rightarrow> Inl (MakeError kSimilaritySearchFailed (''Both event and vector searches failed for ID: '' @ item))
                   | Inr events \<Rightarrow>
                       (case fusion_weights alpha beta True False of
                          None \<Rightarrow> Inr []
                        | Some (we, wv) \<Rightarrow> Inr (fuse flt ms k we wv (NormalizeScores events) [])))
         | Inr vectors \<Rightarrow>
             (let events = (case event_results of Inl _ \<Rightarrow> [] | Inr rs \<Rightarrow> rs)
              in case fusion_weights alpha beta has_events has_vectors of
                   None \<Rightarrow> Inr []
                 | Some (we, wv) \<Rightarrow> Inr (fuse flt ms k we wv (NormalizeScores events) (NormalizeScores vectors))))"

definition SearchByIdFusion ::
    "DistanceFunctions \<Rightarrow> PQ \<Rightarrow> (nat \<Rightarrow> u32) \<Rightarrow> 'a AnnClass \<Rightarrow> 'a SimilarityEngine \<Rightarrow> CoOccurrenceIndex \<Rightarrow> MetadataStore option \<Rightarrow>
       FilterCondition list \<Rightarrow> string \<Rightarrow> int \<Rightarrow> bool option \<Rightarrow> VectorStore \<Rightarrow> (nat \<Rightarrow> CompactSnapshot) \<Rightarrow> VectorStore \<Rightarrow>
       sim_result list expected option" where
  "SearchByIdFusion impl pq rnd cls e co ms flt item top_k adaptive vs snaps vs' =
     (case ValidateTopK e top_k of
        Inl err \<Rightarrow> Some (Inl err)
      | Inr k \<Rightarrow> do {
          let fetch_k = to_int (min (int k * 3) (uint (sc_max_top_k (se_config e))));
          event_results \<leftarrow> SearchByIdEvents e co ms flt item fetch_k;
          vector_results \<leftarrow> SearchByIdVectors impl pq rnd cls e ms flt item fetch_k vs snaps vs';
          Some (fusion_result e co ms flt item k adaptive event_results vector_results)
        })"

subsection \<open>Publication of the approximate index\<close>

definition EnsureAnnDimension :: "'a AnnClass \<Rightarrow> VectorStore \<Rightarrow> 'a SimilarityEngine \<Rightarrow> 'a SimilarityEngine" where
  "EnsureAnnDimension cls vs e =
     (case se_ann_index e of
        None \<Rightarrow> e
      | Some a \<Rightarrow>
          if se_ann_bound e then e
          else let real_dim = (of_nat (vs_dimension vs) :: u32)
               in if real_dim = 0 then e
                  else if real_dim \<noteq> se_ann_dimension e
                  then e\<lparr>se_ann_index := Some (ann_Rebuild cls [] 0 real_dim a), se_ann_dimension := real_dim, se_ann_bound := True\<rparr>
                  else e\<lparr>se_ann_bound := True\<rparr>)"

definition RebuildAnnFromStore :: "'a AnnClass \<Rightarrow> VectorStore \<Rightarrow> 'a SimilarityEngine \<Rightarrow> 'a SimilarityEngine" where
  "RebuildAnnFromStore cls vs e =
     (case se_ann_index e of
        None \<Rightarrow> e
      | Some a \<Rightarrow>
          let snap = GetCompactSnapshot vs; d = (of_nat (snap_dim snap) :: u32); n = (of_nat (snap_count snap) :: u32);
              e = e\<lparr>se_ann_index := Some (ann_Rebuild cls (snap_matrix snap) n (if d = 0 then se_ann_dimension e else d) a),
                    se_ann_generation := snap_generation snap\<rparr>
          in if d = 0 then e\<lparr>se_ann_bound := False\<rparr> else e\<lparr>se_ann_dimension := d, se_ann_bound := True\<rparr>)"

datatype ivf_work = NoWork | StartTraining | StartSeal

text \<open>What was added is read from the store; the second result is the work the engine starts in the background.\<close>

definition NotifyVectorAdded ::
    "'a AnnClass \<Rightarrow> nat \<Rightarrow> VectorStore \<Rightarrow> 'a SimilarityEngine \<Rightarrow> ('a SimilarityEngine \<times> ivf_work) option" where
  "NotifyVectorAdded cls idx vs e =
     (let snap = GetCompactSnapshot vs
      in if se_ann_index e = None \<or> snap_Empty snap \<or> snap_count snap \<le> idx \<or> snap_IsDeleted snap idx then Some (e, NoWork)
         else let e = EnsureAnnDimension cls vs e; a = the (se_ann_index e)
              in if se_ann_generation e = - 1 \<or> se_ann_generation e + 1 \<noteq> snap_generation snap
                 then Some (e\<lparr>se_ann_index := Some (ann_Rebuild cls (snap_matrix snap) (of_nat (snap_count snap)) (of_nat (snap_dim snap)) a),
                              se_ann_dimension := of_nat (snap_dim snap), se_ann_bound := True,
                              se_ann_generation := snap_generation snap\<rparr>, NoWork)
                 else do {
                   vec \<leftarrow> read_row (snap_dim snap) idx (snap_matrix snap);
                   let (a, work) =
                     (if sc_index_type (se_config e) = ''hnsw'' then (ann_Add cls (of_nat idx) vec a, NoWork)
                      else if sc_index_type (se_config e) = ''ivf''
                      then let a = ivf_AppendToBuffer cls idx vec a
                           in (a, if \<not> ivf_IsTrained cls a then StartTraining else if ivf_NeedsSeal cls a then StartSeal else NoWork)
                      else (a, NoWork));
                   Some (e\<lparr>se_ann_index := Some a, se_ann_generation := snap_generation snap\<rparr>, work)
                 })"

definition NotifyVectorRemoved :: "'a AnnClass \<Rightarrow> nat \<Rightarrow> 'a SimilarityEngine \<Rightarrow> 'a SimilarityEngine" where
  "NotifyVectorRemoved cls idx e =
     (case se_ann_index e of None \<Rightarrow> e | Some a \<Rightarrow> e\<lparr>se_ann_index := Some (ann_MarkDeleted cls (of_nat idx) a)\<rparr>)"

subsection \<open>Search by co-occurrence ends and is exact\<close>

lemma take_passing_eq: "length acc < k \<Longrightarrow> take_passing P k xs acc = acc @ take (k - length acc) (filter P xs)"
proof (induction P k xs acc rule: take_passing.induct)
  case (2 P k x xs acc)
  show ?case
  proof (cases "P x \<and> Suc (length acc) < k")
    case True
    then have "k - length acc = Suc (k - Suc (length acc))" by linarith
    then show ?thesis using 2 True by simp
  next
    case False
    then show ?thesis using 2 by (cases "P x") (auto simp: Suc_diff_le not_less_eq_eq take_Cons')
  qed
qed simp

text \<open>The positively scored neighbours of an item, best first.\<close>

definition ranking :: "CoOccurrenceIndex \<Rightarrow> string \<Rightarrow> (string \<times> fl) list" where
  "ranking co item = std_sort by_score_desc (filter (\<lambda>(n, v). fl_less (Fin 0) v) (GetAllNeighbors item co))"

lemma GetSimilar_ranking: "0 < k \<Longrightarrow> GetSimilar item k co = take (nat k) (ranking co item)"
  by (simp add: GetSimilar_row ranking_def)

lemma length_ranking: "length (ranking co item) \<le> GetNeighborCount item co"
  by (auto simp: ranking_def GetNeighborCount_def GetAllNeighbors_def split: option.split)

definition as_result :: "string \<times> fl \<Rightarrow> sim_result" where
  "as_result = (\<lambda>(i, s). \<lparr>sr_item_id = i, sr_score = s\<rparr>)"

lemma take_filter_prefix:
  assumes "k \<le> length (filter P (take n c)) \<or> length c \<le> n"
  shows "take k (filter P (take n c)) = take k (filter P c)"
proof (cases "length c \<le> n")
  case False
  then have "take k (filter P (take n c)) = take k (filter P (take n c) @ filter P (drop n c))" using assms by simp
  then show ?thesis by (simp flip: filter_append)
qed simp

lemma events_loop_exact:
  assumes k: "0 < k" and small: "GetNeighborCount item co \<le> INT_MAX"
  shows "0 < fetch \<Longrightarrow> (has_filter flt ms \<or> fetch = k) \<Longrightarrow>
    events_loop co item flt ms k fetch = Some (map as_result (take k (filter (\<lambda>p. passes flt ms (fst p)) (ranking co item))))"
proof (induction "GetNeighborCount item co - fetch" arbitrary: fetch rule: less_induct)
  case less
  let ?n = "GetNeighborCount item co" and ?c = "ranking co item" and ?P = "\<lambda>p :: string \<times> fl. passes flt ms (fst p)"
  have got: "GetSimilar item (int fetch) co = take fetch ?c" using less.prems by (simp add: GetSimilar_ranking)
  have tp: "take_passing (\<lambda>(i, s). passes flt ms i) k (take fetch ?c) [] = take k (filter ?P (take fetch ?c))"
    using take_passing_eq [of "[]" k "\<lambda>(i, s). passes flt ms i" "take fetch ?c"] k by (simp add: split_def)
  let ?rs = "map as_result (take k (filter ?P (take fetch ?c)))"
  have eq: "events_loop co item flt ms k fetch =
     (if \<not> has_filter flt ms \<or> k \<le> length ?rs \<or> length (take fetch ?c) < fetch \<or> ?n \<le> fetch then Some ?rs
      else events_loop co item flt ms k (min ?n (min (fetch * 2) INT_MAX)))"
    by (subst events_loop.simps) (simp add: got tp Let_def as_result_def split del: if_split cong: if_cong)
  show ?case
  proof (cases "\<not> has_filter flt ms \<or> k \<le> length ?rs \<or> length (take fetch ?c) < fetch \<or> ?n \<le> fetch")
    case True
    have "take k (filter ?P (take fetch ?c)) = take k (filter ?P ?c)"
    proof (cases "has_filter flt ms")
      case False
      then have "filter ?P xs = xs" for xs by (simp add: passes_def)
      then show ?thesis using less.prems False by simp
    next
      case hf: True
      then show ?thesis using True length_ranking [of co item] by (intro take_filter_prefix) auto
    qed
    then show ?thesis using True eq by simp
  next
    case False
    let ?f = "min ?n (min (fetch * 2) INT_MAX)"
    have "fetch < ?f" using False small less.prems(1) by auto
    then have "?n - ?f < ?n - fetch" "0 < ?f" using False by auto
    then show ?thesis using less.hyps [of ?f] False eq by simp
  qed
qed

lemma to_int_small: "i \<in> {0..<2 ^ 31} \<Longrightarrow> to_int i = i"
  by (simp add: to_int_def signed_take_bit_int_eq_self)

text \<open>
  C16. Search by co-occurrence ends and is exact: for a \<open>top_k\<close> that is positive and within the
  maximum it returns the best \<open>top_k\<close> of the item's positively scored neighbours that pass the
  metadata filter, best first, however often it has to fetch more candidates; any other \<open>top_k\<close> is
  refused.
\<close>

theorem search_events_exact:
  assumes "GetNeighborCount item co < 2 ^ 31"
  shows "SearchByIdEvents e co ms flt item top_k =
    (if 0 < top_k \<and> top_k \<le> to_int (uint (sc_max_top_k (se_config e)))
     then Some (Inr (map (\<lambda>(i, s). \<lparr>sr_item_id = i, sr_score = s\<rparr>)
            (take (nat top_k) (filter (\<lambda>p. passes flt ms (fst p)) (ranking co item)))))
     else Some (Inl (if top_k \<le> 0 then MakeError kCommandInvalidTopK ''top_k must be positive''
            else MakeError kCommandInvalidTopK
              (''top_k exceeds maximum allowed: '' @ show_nat (unat (sc_max_top_k (se_config e)))))))"
  using assms events_loop_exact [of "nat top_k" item co "nat top_k" flt ms]
  by (auto simp: SearchByIdEvents_def ValidateTopK_def as_result_def)

theorem search_events_exact_witness:
  "SearchByIdEvents (se_new (\<lambda>_. ()) (default_similarity\<lparr>sc_max_top_k := 10\<rparr>) \<lparr>vc_default_dimension = 1, vc_distance_metric = []\<rparr>)
     \<lparr>co_scores = [(''a'', [(''b'', Fin 1), (''c'', Fin 2)])], co_generation = 0,
      co_config = \<lparr>cc_max_neighbors_per_item = 0, cc_min_support = Fin 0, cc_negative_max_propagation = 0\<rparr>\<rparr> None [] ''a'' 1 =
   Some (Inr [\<lparr>sr_item_id = ''c'', sr_score = Fin 2\<rparr>])"
  by (subst search_events_exact)
     (simp_all add: GetNeighborCount_def se_new_def to_int_small ranking_def GetAllNeighbors_def std_sort_def by_score_desc_def
       passes_def has_filter_def Let_def)

subsection \<open>Sampling\<close>

lemma reservoir_inv:
  "\<lbrakk>distinct res; set res \<subseteq> {..<p}; p \<le> q\<rbrakk> \<Longrightarrow>
     distinct (reservoir rnd [p..<q] n res) \<and> set (reservoir rnd [p..<q] n res) \<subseteq> {..<q} \<and>
     length (reservoir rnd [p..<q] n res) = length res"
proof (induction "q - p" arbitrary: p n res)
  case (Suc x)
  then have pq: "p < q" by simp
  define j where "j = unat (rnd n) mod (p + 1)"
  define r where "r = (if j < length res then res[j := p] else res)"
  have "p \<notin> set res" using Suc.prems(2) by auto
  then have "distinct r" using Suc.prems(1) by (simp add: r_def distinct_list_update)
  moreover have "set r \<subseteq> {..<Suc p}"
    using Suc.prems(2) set_update_subset_insert [of res j p] by (auto simp: r_def less_Suc_eq)
  moreover have "x = q - Suc p" using Suc.hyps(2) by simp
  moreover have "reservoir rnd [p..<q] n res = reservoir rnd [Suc p..<q] (n + 1) r"
    using pq by (simp add: upt_conv_Cons Let_def r_def j_def)
  moreover have "length r = length res" by (simp add: r_def)
  ultimately show ?case using Suc.hyps(1) [of "Suc p" r "n + 1"] pq by simp
qed auto

lemma SampleIndices_ok:
  "distinct (SampleIndices rnd n m) \<and> set (SampleIndices rnd n m) \<subseteq> {..<n} \<and> length (SampleIndices rnd n m) = min m n"
  using reservoir_inv [of "[0..<m]" m n rnd 0] by (auto simp: SampleIndices_def lessThan_atLeast0)

lemma scan_indices_ok: "distinct (scan_indices rnd e snap) \<and> set (scan_indices rnd e snap) \<subseteq> {..<snap_count snap}"
  using SampleIndices_ok [of rnd "snap_count snap" "unat (sc_sample_size (se_config e))"] by (auto simp: scan_indices_def Let_def)

subsection \<open>Order of results\<close>

lemma string_less_irrefl [simp]: "\<not> string_less xs xs"
  by (induction xs) auto

lemma string_less_linear: "string_less xs ys \<or> xs = ys \<or> string_less ys xs"
proof (induction xs ys rule: string_less.induct)
  case (3 x xs y ys)
  have "x = y" if "(of_char x :: nat) = of_char y" using that by (metis char_of_char)
  then show ?case using 3 by (cases "of_char x :: nat" "of_char y :: nat" rule: linorder_cases) auto
next
  case (1 xs)
  then show ?case by (cases xs) auto
qed simp

lemma string_less_trans: "\<lbrakk>string_less xs ys; string_less ys zs\<rbrakk> \<Longrightarrow> string_less xs zs"
proof (induction xs ys arbitrary: zs rule: string_less.induct)
  case (2 y ys)
  then show ?case by (cases zs) auto
next
  case (3 x xs y ys)
  then show ?case by (cases zs) auto
qed simp

lemma string_less_asym: "string_less xs ys \<Longrightarrow> \<not> string_less ys xs"
  using string_less_trans [of xs ys xs] by auto

lemma sr_less_trans_neg:
  assumes "sr_score a \<noteq> NaN" "sr_score b \<noteq> NaN" "sr_score c \<noteq> NaN" "\<not> sr_less b a" "\<not> sr_less c b"
  shows "\<not> sr_less c a"
proof -
  let ?before = "\<lambda>a b. fl_less (sr_score b) (sr_score a) \<or>
     sr_score a = sr_score b \<and> (string_less (sr_item_id a) (sr_item_id b) \<or> sr_item_id a = sr_item_id b)"
  have iff: "\<not> sr_less y x \<longleftrightarrow> ?before x y" if nan: "sr_score x \<noteq> NaN" "sr_score y \<noteq> NaN" for x y
  proof (cases "sr_score x = sr_score y")
    case True
    then have "sr_less y x \<longleftrightarrow> string_less (sr_item_id y) (sr_item_id x)" using nan by (simp add: sr_less_def fl_eq_iff)
    then show ?thesis using True string_less_linear string_less_asym by (metis fl_less_irrefl string_less_irrefl)
  next
    case False
    then have "sr_less y x \<longleftrightarrow> fl_less (sr_score x) (sr_score y)" by (simp add: sr_less_def fl_eq_iff)
    then show ?thesis using False fl_less_linear [OF nan] fl_less_asym by blast
  qed
  have "?before a b" using iff [OF assms(1,2)] assms(4) by blast
  moreover have "?before b c" using iff [OF assms(2,3)] assms(5) by blast
  ultimately have "?before a c" using fl_less_trans [of "sr_score c" "sr_score b" "sr_score a"]
      string_less_trans [of "sr_item_id a" "sr_item_id b" "sr_item_id c"] by auto
  then show ?thesis using iff [OF assms(1,3)] by blast
qed

lemma strict_weak_sr_less: "strict_weak_on sr_less {r. sr_score r \<noteq> NaN}"
proof -
  have "\<not> sr_less b a" if "sr_less a b" for a b
    using that fl_less_asym [of "sr_score b" "sr_score a"] string_less_trans [of "sr_item_id a" "sr_item_id b" "sr_item_id a"]
    by (auto simp: sr_less_def fl_eq_iff split: if_splits)
  then show ?thesis unfolding strict_weak_on_def using sr_less_trans_neg by blast
qed

lemma sorted_results: "(\<And>r. r \<in> set rs \<Longrightarrow> sr_score r \<noteq> NaN) \<Longrightarrow> sorted_wrt (\<lambda>a b. \<not> sr_less b a) (std_sort sr_less rs)"
  by (rule sorted_std_sort [OF strict_weak_sr_less]) auto

subsection \<open>The approximate index\<close>

lemma ann_collect_sound:
  "\<lbrakk>0 < k; length acc \<le> k; r \<in> set (ann_collect snap keep k xs acc); r \<notin> set acc\<rbrakk> \<Longrightarrow>
     \<exists>idx. (idx, sr_score r) \<in> set xs \<and> unat idx < snap_count snap \<and> \<not> snap_IsDeleted snap (unat idx) \<and>
       sr_item_id r = snap_idx_to_id snap ! unat idx \<and> keep (sr_item_id r)"
proof (induction snap keep k xs acc rule: ann_collect.induct)
  case (2 snap keep k idx score xs acc)
  show ?case
  proof (cases "snap_count snap \<le> unat idx \<or> snap_IsDeleted snap (unat idx) \<or> \<not> keep (snap_idx_to_id snap ! unat idx)")
    case True
    then show ?thesis using 2 by (auto split: if_splits)
  next
    case False
    let ?acc = "acc @ [\<lparr>sr_item_id = snap_idx_to_id snap ! unat idx, sr_score = score\<rparr>]"
    show ?thesis
    proof (cases "r \<in> set ?acc")
      case True
      then show ?thesis using 2 False by auto
    next
      case out: False
      then show ?thesis using 2 False by (auto simp: Let_def split: if_splits)
    qed
  qed
qed simp

lemma length_ann_collect: "\<lbrakk>0 < k; length acc < k\<rbrakk> \<Longrightarrow> length (ann_collect snap keep k xs acc) \<le> k"
  by (induction snap keep k xs acc rule: ann_collect.induct) (auto simp: Let_def)

text \<open>A result of the index is a live item of a snapshot of the published generation.\<close>

definition ann_hit :: "(nat \<Rightarrow> CompactSnapshot) \<Rightarrow> u64 \<Rightarrow> (string \<Rightarrow> bool) \<Rightarrow> sim_result \<Rightarrow> bool" where
  "ann_hit snaps generation keep r \<longleftrightarrow>
     (\<exists>n idx. snap_generation (snaps n) = generation \<and> idx < snap_count (snaps n) \<and> \<not> snap_IsDeleted (snaps n) idx \<and>
        sr_item_id r = snap_idx_to_id (snaps n) ! idx \<and> keep (sr_item_id r))"

definition ann_sound :: "(nat \<Rightarrow> CompactSnapshot) \<Rightarrow> u64 \<Rightarrow> (string \<Rightarrow> bool) \<Rightarrow> nat \<Rightarrow> ann_outcome \<Rightarrow> bool" where
  "ann_sound snaps generation keep k out \<longleftrightarrow>
     (case out of AnnStale \<Rightarrow> \<exists>n. snap_generation (snaps n) \<noteq> generation | AnnAnswer rs \<Rightarrow> length rs \<le> k \<and> (\<forall>r \<in> set rs. ann_hit snaps generation keep r))"

lemma ann_loop_sound:
  "ann_loop search generation keep filtering total_n k query snaps n fetch = Some out \<Longrightarrow> 0 < k \<Longrightarrow>
     ann_sound snaps generation keep k out"
proof (induction rule: ann_loop.raw_induct [rotated, consumes 1])
  case (1 f search generation keep filtering total_n k query snaps n fetch out)
  let ?found = "ann_collect (snaps n) keep k (search query fetch) []"
  have hit: "ann_hit snaps generation keep r" if "snap_generation (snaps n) = generation" "r \<in> set ?found" for r
    using ann_collect_sound [OF 1(3) _ that(2)] that(1) unfolding ann_hit_def by fastforce
  show ?case
  proof (cases "snap_Empty (snaps n) \<or> snap_generation (snaps n) \<noteq> generation")
    case True
    then have "out = AnnAnswer [] \<or> out = AnnStale \<and> snap_generation (snaps n) \<noteq> generation"
      using 1(2) by (cases "snap_Empty (snaps n)") (simp_all add: Let_def)
    then show ?thesis by (auto simp: ann_sound_def)
  next
    case False
    show ?thesis
    proof (cases "filtering \<and> length ?found < k \<and> fetch < total_n (snaps n) \<and> unat fetch \<le> length (search query fetch)")
      case True
      then show ?thesis using 1(1) [OF _ 1(3)] 1(2) False by (simp add: Let_def)
    next
      case stop: False
      then have "out = AnnAnswer (std_sort sr_less ?found)" using 1(2) False by (simp only: Let_def if_False) simp
      then show ?thesis using hit False length_ann_collect [OF 1(3), of "[]"] 1(3) by (simp add: ann_sound_def)
    qed
  qed
qed

lemma double_word: "fetch < t \<Longrightarrow> unat t \<le> 2 ^ 31 \<Longrightarrow> unat (fetch * 2) = unat fetch * 2" for fetch t :: u32
  by (simp add: word_less_nat_alt unat_word_ariths(2))

text \<open>The search ends: what is fetched doubles until it covers every vector.\<close>

lemma ann_loop_returns:
  assumes small: "\<And>n. unat (total_n (snaps n)) \<le> 2 ^ 31"
  shows "0 < fetch \<Longrightarrow> \<exists>out. ann_loop search generation keep filtering total_n k query snaps n fetch = Some out"
proof (induction "2 ^ 32 - unat fetch" arbitrary: n fetch rule: less_induct)
  case less
  show ?case
  proof (cases "fetch < total_n (snaps n)")
    case True
    then have eq: "unat (fetch * 2) = unat fetch * 2" using double_word small by blast
    moreover have "0 < unat fetch" using less.prems by (simp add: unat_gt_0 word_gt_0)
    ultimately have "2 ^ 32 - unat (fetch * 2) < 2 ^ 32 - unat fetch" "0 < unat (fetch * 2)"
      using unsigned_less [of "fetch * 2", where 'a = nat] by simp_all
    then have "\<exists>out. ann_loop search generation keep filtering total_n k query snaps (n + 1) (fetch * 2) = Some out"
      using less.hyps by (metis unat_gt_0 word_gt_0)
    then show ?thesis by (subst ann_loop.simps) (auto simp: Let_def)
  next
    case False
    then show ?thesis by (subst ann_loop.simps) (simp add: Let_def)
  qed
qed

end
