(* ===== verification/VectorSearch.thy ===== *)
theory VectorSearch
  imports SimilarityEngine
begin

text \<open>
  What the searches by vector of \<open>SimilarityEngine\<close> return: without an index, the best of all stored
  vectors; with an index, whatever the index answers, items that were stored when the store had the
  generation the index was published for.
\<close>

subsection \<open>The flat scan selects the best\<close>

definition item_score :: "DistanceFunctions \<Rightarrow> 'a SimilarityEngine \<Rightarrow> fl list \<Rightarrow> fl list \<Rightarrow> fl" where
  "item_score impl e query row =
     (if use_prenorm e then CosineSimilarityPreNorm impl query row (l2_norm impl query) (l2_norm impl row)
      else SelectDistanceFunction impl (se_metric e) query row)"

text \<open>
  \<open>rs\<close> are the \<open>k\<close> best of the items of \<open>M\<close> that satisfy \<open>P\<close>, or all of them when there are no
  more, each with its score and in the order of results.
\<close>

definition best_matches :: "(string \<Rightarrow> Vector option) \<Rightarrow> (string \<Rightarrow> bool) \<Rightarrow> (fl list \<Rightarrow> fl) \<Rightarrow> nat \<Rightarrow> sim_result list \<Rightarrow> bool" where
  "best_matches M P score k rs \<longleftrightarrow>
     distinct (map sr_item_id rs) \<and> length rs = min k (card {i \<in> dom M. P i}) \<and>
     (\<forall>r \<in> set rs. \<exists>v. M (sr_item_id r) = Some v \<and> P (sr_item_id r) \<and> sr_score r = score (vec_data v)) \<and>
     (\<forall>i v r. M i = Some v \<and> P i \<and> i \<notin> sr_item_id ` set rs \<and> r \<in> set rs \<longrightarrow> \<not> fl_less (sr_score r) (score (vec_data v))) \<and>
     sorted_wrt (\<lambda>a b. \<not> sr_less b a) rs"

text \<open>A snapshot of a store that has slots holds the store's arrays.\<close>

lemma snapshot_fields:
  assumes "vs_shape s" "vs_idx_to_id s \<noteq> []"
  shows "snap_matrix (GetCompactSnapshot s) = vs_matrix s" "snap_norms (GetCompactSnapshot s) = vs_norms s"
    "snap_count (GetCompactSnapshot s) = length (vs_idx_to_id s)" "snap_dim (GetCompactSnapshot s) = vs_dimension s"
    "snap_id_to_idx (GetCompactSnapshot s) = vs_id_to_idx s" "snap_idx_to_id (GetCompactSnapshot s) = vs_idx_to_id s"
    "snap_deleted (GetCompactSnapshot s) = vs_deleted s" "\<not> snap_Empty (GetCompactSnapshot s)"
  using assms by (auto simp: GetCompactSnapshot_def vs_shape_def snap_Empty_def)

lemma snapshot_empty: "vs_shape s \<Longrightarrow> snap_Empty (GetCompactSnapshot s) \<longleftrightarrow> vs_idx_to_id s = []"
  by (auto simp: GetCompactSnapshot_def vs_shape_def snap_Empty_def)

definition slot_cand :: "VectorStore \<Rightarrow> (string \<Rightarrow> bool) \<Rightarrow> nat option \<Rightarrow> nat \<Rightarrow> bool" where
  "slot_cand s P self i \<longleftrightarrow> self \<noteq> Some i \<and> slot_live s i \<and> P (vs_idx_to_id s ! i)"

lemma scan_push:
  assumes wf: "vs_wf impl s" and ne: "vs_idx_to_id s \<noteq> []"
  shows "set xs \<subseteq> {..<length (vs_idx_to_id s)} \<Longrightarrow>
    scan (push_candidate impl pq e ms flt self query (l2_norm impl query) k (GetCompactSnapshot s)) xs h =
      Some (fold (offer pq k) (map (\<lambda>i. (item_score impl e query (row_at (vs_dimension s) i (vs_matrix s)), i))
        (filter (slot_cand s (passes flt ms) self) xs)) h)"
proof (induction xs arbitrary: h)
  case (Cons i xs)
  have shape: "vs_shape s" and nrm: "vs_norms_ok impl s" using wf by (simp_all add: vs_wf_def)
  have i: "i < length (vs_idx_to_id s)" using Cons.prems by simp
  have row: "read_row (vs_dimension s) i (vs_matrix s) = Some (row_at (vs_dimension s) i (vs_matrix s))"
    using shape i by (intro read_row_Some [where n = "length (vs_idx_to_id s)"]) (auto simp: vs_shape_def)
  note fields = snapshot_fields [OF shape ne]
  have "push_candidate impl pq e ms flt self query (l2_norm impl query) k (GetCompactSnapshot s) i h =
    Some (if slot_cand s (passes flt ms) self i
          then offer pq k (item_score impl e query (row_at (vs_dimension s) i (vs_matrix s)), i) h else h)" for h
    using i shape nrm
    by (simp add: push_candidate_def candidate_score_def fields snap_IsDeleted_def get_at_def row slot_cand_def
        slot_live_def vs_shape_def vs_norms_ok_def item_score_def)
  then show ?case using Cons by simp
qed simp

lemma heap_results_Some:
  "\<forall>y \<in> set ys. snd y < length (snap_idx_to_id snap) \<Longrightarrow>
     heap_results snap ys = Some (map (\<lambda>(s, i). \<lparr>sr_item_id = snap_idx_to_id snap ! i, sr_score = s\<rparr>) ys)"
  by (induction snap ys rule: heap_results.induct) (auto simp: get_at_def)

lemma top_k_slots:
  assumes top: "top_k_of k (map (\<lambda>i. (sc i, i)) xs) ys" and xs: "distinct xs"
  shows "distinct (map snd ys)" "y \<in> set ys \<Longrightarrow> snd y \<in> set xs \<and> fst y = sc (snd y)" "length ys = min k (length xs)"
    "\<lbrakk>i \<in> set xs; i \<notin> snd ` set ys; y \<in> set ys\<rbrakk> \<Longrightarrow> \<not> fl_less (fst y) (sc i)"
proof -
  let ?c = "map (\<lambda>i. (sc i, i)) xs"
  have sub: "mset ys \<subseteq># mset ?c" using top by (simp add: top_k_of_def)
  then have "mset (map snd ys) \<subseteq># mset xs"
    using image_mset_subseteq_mono [OF sub, of snd] by (simp add: image_mset.compositionality comp_def)
  then obtain zs where "mset xs = mset (map snd ys @ zs)" by (metis ex_mset mset_append mset_subset_eq_exists_conv)
  then show "distinct (map snd ys)" using xs by (metis mset_eq_imp_distinct_iff distinct_append)
  show "y \<in> set ys \<Longrightarrow> snd y \<in> set xs \<and> fst y = sc (snd y)" using mset_subset_eqD [OF sub, of y] by auto
  show "length ys = min k (length xs)" using top by (simp add: top_k_of_def)
  assume i: "i \<in> set xs" "i \<notin> snd ` set ys" "y \<in> set ys"
  have "(sc i, i) \<in># mset ?c" using i(1) by simp
  moreover have "(sc i, i) \<notin># mset ys" using i(2) by force
  ultimately have "(sc i, i) \<in># mset ?c - mset ys" by (metis count_greater_zero_iff count_inI in_diff_count)
  then show "\<not> fl_less (fst y) (sc i)" using top i(3) by (auto simp: top_k_of_def)
qed


lemma live_find: "\<lbrakk>vs_maps s; slot_live s i\<rbrakk> \<Longrightarrow> um_find (vs_id_to_idx s) (vs_idx_to_id s ! i) = Some i"
  by (simp add: vs_maps_def)

text \<open>The slots a scan of the whole store considers are the items it is about.\<close>

lemma cand_items:
  assumes maps: "vs_maps s"
    and xs: "set xs = {i. slot_live s i \<and> P (vs_idx_to_id s ! i)}" and sc: "\<And>i. sc i = f (row_at (vs_dimension s) i (vs_matrix s))"
  shows "j \<in> set xs \<Longrightarrow> \<exists>v. vs_abs s (vs_idx_to_id s ! j) = Some v \<and> P (vs_idx_to_id s ! j) \<and> sc j = f (vec_data v)"
    "\<lbrakk>vs_abs s i = Some v; P i\<rbrakk> \<Longrightarrow> \<exists>j. j \<in> set xs \<and> vs_idx_to_id s ! j = i \<and> sc j = f (vec_data v)"
    "inj_on ((!) (vs_idx_to_id s)) (set xs)" "(!) (vs_idx_to_id s) ` set xs = {i \<in> dom (vs_abs s). P i}"
proof -
  show item: "\<exists>v. vs_abs s (vs_idx_to_id s ! j) = Some v \<and> P (vs_idx_to_id s ! j) \<and> sc j = f (vec_data v)" if "j \<in> set xs" for j
    using that live_find [OF maps, of j] by (auto simp: xs sc vs_abs_def)
  show stored: "\<exists>j. j \<in> set xs \<and> vs_idx_to_id s ! j = i \<and> sc j = f (vec_data v)" if "vs_abs s i = Some v" "P i" for i v
    using that vs_maps_find [OF maps] by (fastforce simp: xs sc vs_abs_def)
  show "inj_on ((!) (vs_idx_to_id s)) (set xs)" using live_id_unique [OF maps] by (auto simp: inj_on_def xs)
  show "(!) (vs_idx_to_id s) ` set xs = {i \<in> dom (vs_abs s). P i}"
  proof (intro equalityI subsetI)
    fix i
    assume "i \<in> {i \<in> dom (vs_abs s). P i}"
    then show "i \<in> (!) (vs_idx_to_id s) ` set xs" using stored by blast
  qed (use item in blast)
qed

lemma best_matches_top:
  assumes maps: "vs_maps s" and xs: "set xs = {i. slot_live s i \<and> P (vs_idx_to_id s ! i)}" "distinct xs"
    and sc: "\<And>i. sc i = f (row_at (vs_dimension s) i (vs_matrix s))" and nan: "\<And>i. i \<in> set xs \<Longrightarrow> sc i \<noteq> NaN"
    and top: "top_k_of k (map (\<lambda>i. (sc i, i)) xs) ys"
  shows "best_matches (vs_abs s) P f k
    (std_sort sr_less (map (\<lambda>(s', i). \<lparr>sr_item_id = vs_idx_to_id s ! i, sr_score = s'\<rparr>) ys))" (is "best_matches _ _ _ _ (std_sort _ ?rs)")
proof -
  note top = top_k_slots [OF top xs(2)] and items = cand_items [where P = P and f = f and sc = sc, OF maps xs(1) sc]
  have ids: "map sr_item_id ?rs = map ((!) (vs_idx_to_id s)) (map snd ys)" by (simp add: split_def)
  have sub: "set (map snd ys) \<subseteq> set xs" using top(2) by auto
  have "distinct (map sr_item_id ?rs)"
    unfolding ids using top(1) inj_on_subset [OF items(3) sub] by (simp add: distinct_map comp_inj_on)
  then have dist: "distinct (map sr_item_id (std_sort sr_less ?rs))"
    by (metis mset_eq_imp_distinct_iff mset_map mset_std_sort)
  have "card {i \<in> dom (vs_abs s). P i} = length xs"
    using card_image [OF items(3)] distinct_card [OF xs(2)] items(4) by simp
  then have len: "length (std_sort sr_less ?rs) = min k (card {i \<in> dom (vs_abs s). P i})" using top(3) by simp
  have res: "r \<in> set ?rs \<longleftrightarrow> (\<exists>y \<in> set ys. sr_item_id r = vs_idx_to_id s ! snd y \<and> sr_score r = fst y)" for r
    by (cases r) force
  have sound: "\<exists>v. vs_abs s (sr_item_id r) = Some v \<and> P (sr_item_id r) \<and> sr_score r = f (vec_data v)" if "r \<in> set ?rs" for r
    using that top(2) items(1) unfolding res by metis
  have best: "\<not> fl_less (sr_score r) (f (vec_data v))"
    if out: "vs_abs s i = Some v" "P i" "i \<notin> sr_item_id ` set ?rs" "r \<in> set ?rs" for i v r
  proof -
    obtain j where j: "j \<in> set xs" "vs_idx_to_id s ! j = i" "sc j = f (vec_data v)" using items(2) out(1,2) by blast
    have "j \<notin> snd ` set ys" using out(3) j(2) by (force simp: image_iff)
    then show ?thesis using top(4) [OF j(1)] out(4) unfolding res j(3) by auto
  qed
  have "sr_score r \<noteq> NaN" if "r \<in> set ?rs" for r using that top(2) nan unfolding res by metis
  then have "sorted_wrt (\<lambda>a b. \<not> sr_less b a) (std_sort sr_less ?rs)" by (rule sorted_results)
  then show ?thesis using dist len sound best unfolding best_matches_def by (auto simp del: set_map)
qed

lemma flat_search_best:
  assumes wf: "vs_wf impl s" and ne: "vs_idx_to_id s \<noteq> []" and pq: "pq_ok pq" and k: "0 < k"
    and all: "sc_sample_size (se_config e) = 0 \<or> GetCompactCount s \<le> unat (sc_sample_size (se_config e) * 2)"
    and nan: "\<And>i v. \<lbrakk>vs_abs s i = Some v; self = None \<or> self \<noteq> um_find (vs_id_to_idx s) i; passes flt ms i\<rbrakk> \<Longrightarrow> item_score impl e query (vec_data v) \<noteq> NaN"
  shows "\<exists>rs. flat_search impl pq rnd e ms flt self query (l2_norm impl query) k (GetCompactSnapshot s) = Some rs \<and>
    best_matches (vs_abs s) (\<lambda>i. (self = None \<or> self \<noteq> um_find (vs_id_to_idx s) i) \<and> passes flt ms i) (item_score impl e query) k rs"
proof -
  have shape: "vs_shape s" and maps: "vs_maps s" using wf by (simp_all add: vs_wf_def)
  let ?P = "\<lambda>i. (self = None \<or> self \<noteq> um_find (vs_id_to_idx s) i) \<and> passes flt ms i"
  define sc where "sc i = item_score impl e query (row_at (vs_dimension s) i (vs_matrix s))" for i
  define xs where "xs = filter (slot_cand s (passes flt ms) self) [0..<length (vs_idx_to_id s)]"
  define ys where "ys = top_scores pq k (map (\<lambda>i. (sc i, i)) xs)"
  note fields = snapshot_fields [OF shape ne]
  have set_xs: "set xs = {i. slot_live s i \<and> ?P (vs_idx_to_id s ! i)}"
    using live_find [OF maps] by (auto simp: xs_def slot_cand_def slot_live_def)
  have nanx: "sc i \<noteq> NaN" if "i \<in> set xs" for i
    using cand_items(1) [where P = ?P and f = "item_score impl e query" and sc = sc, OF maps set_xs sc_def that] nan by metis
  then have top: "top_k_of k (map (\<lambda>i. (sc i, i)) xs) ys" unfolding ys_def by (intro top_scores_top_k [OF pq k]) auto
  have dxs: "distinct xs" by (simp add: xs_def)
  have idx: "scan_indices rnd e (GetCompactSnapshot s) = [0..<length (vs_idx_to_id s)]"
    using all by (auto simp: scan_indices_def fields Let_def GetCompactCount_def)
  have "heap_results (GetCompactSnapshot s) ys = Some (map (\<lambda>(s', i). \<lparr>sr_item_id = vs_idx_to_id s ! i, sr_score = s'\<rparr>) ys)"
    unfolding fields(6) [symmetric] using top_k_slots(2) [OF top dxs] set_xs
    by (intro heap_results_Some) (auto simp: fields slot_live_def)
  moreover have "scan (push_candidate impl pq e ms flt self query (l2_norm impl query) k (GetCompactSnapshot s))
      [0..<length (vs_idx_to_id s)] [] = Some (fold (offer pq k) (map (\<lambda>i. (sc i, i)) xs) [])"
    unfolding sc_def xs_def by (rule scan_push [OF wf ne]) auto
  ultimately have "flat_search impl pq rnd e ms flt self query (l2_norm impl query) k (GetCompactSnapshot s) =
      Some (std_sort sr_less (map (\<lambda>(s', i). \<lparr>sr_item_id = vs_idx_to_id s ! i, sr_score = s'\<rparr>) ys))"
    by (simp add: flat_search_def idx ys_def top_scores_def Let_def)
  then show ?thesis using best_matches_top [where P = ?P and f = "item_score impl e query" and sc = sc, OF maps set_xs dxs sc_def nanx top] by blast
qed


text \<open>The conditions under which a query vector is accepted.\<close>

definition query_ok :: "DistanceFunctions \<Rightarrow> 'a SimilarityEngine \<Rightarrow> fl list \<Rightarrow> VectorStore \<Rightarrow> bool" where
  "query_ok impl e query vs \<longleftrightarrow> query \<noteq> [] \<and> list_all isfinite query \<and> (vs_dimension vs = 0 \<or> length query = vs_dimension vs) \<and>
     isfinite (l2_norm impl query) \<and> \<not> (use_prenorm e \<and> fl_le (l2_norm impl query) (Fin 0))"

definition top_k_ok :: "'a SimilarityEngine \<Rightarrow> int \<Rightarrow> bool" where
  "top_k_ok e top_k \<longleftrightarrow> 0 < top_k \<and> top_k \<le> to_int (uint (sc_max_top_k (se_config e)))"

lemma ValidateTopK_ok: "top_k_ok e top_k \<Longrightarrow> ValidateTopK e top_k = Inr (nat top_k)"
  by (simp add: ValidateTopK_def top_k_ok_def)

definition scans_all :: "'a SimilarityEngine \<Rightarrow> VectorStore \<Rightarrow> bool" where
  "scans_all e vs \<longleftrightarrow> sc_sample_size (se_config e) = 0 \<or> GetCompactCount vs \<le> unat (sc_sample_size (se_config e) * 2)"

lemma best_matches_none: "best_matches M (\<lambda>_. False) f k []" "best_matches Map.empty P f k []"
  by (simp_all add: best_matches_def)

lemma no_slots: "\<lbrakk>vs_maps s; vs_idx_to_id s = []\<rbrakk> \<Longrightarrow> um_find (vs_id_to_idx s) k = None"
  by (cases "um_find (vs_id_to_idx s) k") (auto simp: vs_maps_def slot_live_def)



definition dot_engine :: "unit SimilarityEngine" where
  "dot_engine = se_new (\<lambda>_. ()) (default_similarity\<lparr>sc_max_top_k := 10, sc_sample_size := 0\<rparr>)
     \<lparr>vc_default_dimension = 1, vc_distance_metric = ''dot''\<rparr>"

lemma dot_engine_simps:
  "se_metric dot_engine = ''dot''" "sc_max_top_k (se_config dot_engine) = 10" "sc_sample_size (se_config dot_engine) = 0"
  "\<not> IsAnnIndexReady cls dot_engine"
  by (simp_all add: dot_engine_def se_new_def Let_def IsAnnIndexReady_def default_similarity_def)

lemma dot_engine_ok: "top_k_ok dot_engine 1" "scans_all dot_engine vs" "\<not> use_prenorm dot_engine"
  by (simp_all add: top_k_ok_def dot_engine_simps to_int_small scans_all_def use_prenorm_def)

lemma dot_engine_score: "item_score scalar_impl dot_engine [Fin 0] [Fin 0] = Fin 0"
  by (simp add: item_score_def dot_engine_ok SelectDistanceFunction_def dot_engine_simps DotProduct_def scalar_impl_simps
      DotProductScalar_def dot_lane_def fl_mac_def)

lemma abs_dimension: "\<lbrakk>vs_wf impl s; vs_abs s k = Some v\<rbrakk> \<Longrightarrow> length (vec_data v) = vs_dimension s"
  using vs_maps_find [of s k] length_row_at by (fastforce simp: vs_abs_def vs_wf_def vs_shape_def slot_live_def)

lemma one_vector_dimension: "vs_dimension one_vector_store = 1"
  using abs_dimension [of scalar_impl one_vector_store "''a''"] vs_run_refines [OF one_vector_run] by (auto simp: vs_inv_def)

text \<open>An index class for an engine without an index.\<close>

definition no_ann :: "unit AnnClass" where
  "no_ann = \<lparr>ann_Add = \<lambda>_ _ a. a, ann_MarkDeleted = \<lambda>_ a. a, ann_Search = \<lambda>_ _ _. [], ann_Rebuild = \<lambda>_ _ _ a. a,
     ann_Size = \<lambda>_. 0, ivf_IsTrained = \<lambda>_. False, ivf_NeedsSeal = \<lambda>_. False, ivf_AppendToBuffer = \<lambda>_ _ a. a\<rparr>"


text \<open>
  Search by a stored item without an index is exact in the same sense, for the item's own vector
  as the query and without the item itself; an item that is not stored is refused.
\<close>

theorem search_by_id_exact:
  assumes "vs_run impl vs M" "pq_ok pq" "\<not> IsAnnIndexReady cls e" "scans_all e vs" "top_k_ok e top_k"
    and nan: "\<And>i q v. \<lbrakk>M item = Some q; M i = Some v; i \<noteq> item; passes flt ms i\<rbrakk> \<Longrightarrow>
      item_score impl e (vec_data q) (vec_data v) \<noteq> NaN"
  shows "case M item of
      None \<Rightarrow> SearchByIdVectors impl pq rnd cls e ms flt item top_k vs snaps vs =
        Some (Inl (MakeError kVectorNotFound (''Query vector not found: '' @ item)))
    | Some q \<Rightarrow> \<exists>rs. SearchByIdVectors impl pq rnd cls e ms flt item top_k vs snaps vs = Some (Inr rs) \<and>
        best_matches M (\<lambda>i. i \<noteq> item \<and> passes flt ms i) (item_score impl e (vec_data q)) (nat top_k) rs"
proof -
  have wf: "vs_wf impl vs" and M: "vs_abs vs = M" using vs_run_refines [OF assms(1)] by (auto simp: vs_inv_def)
  then have shape: "vs_shape vs" and maps: "vs_maps vs" and norms: "vs_norms_ok impl vs" by (simp_all add: vs_wf_def)
  have k: "0 < nat top_k" using assms(5) by (simp add: top_k_ok_def)
  let ?ids = "vs_id_to_idx vs"
  show ?thesis
  proof (cases "um_find ?ids item")
    case None
    then have "M item = None" unfolding M [symmetric] by (simp add: vs_abs_def)
    then show ?thesis
      using None snapshot_fields(5) [OF shape] by (auto simp: SearchByIdVectors_def ValidateTopK_ok [OF assms(5)] snapshot_empty [OF shape]
          not_found_def Let_def)
  next
    case (Some j)
    have live: "slot_live vs j" "vs_idx_to_id vs ! j = item" using vs_maps_find [OF maps Some] by auto
    then have j: "j < length (vs_idx_to_id vs)" and ne: "vs_idx_to_id vs \<noteq> []" by (auto simp: slot_live_def)
    let ?q = "row_at (vs_dimension vs) j (vs_matrix vs)"
    have q: "M item = Some \<lparr>vec_data = ?q, vec_normalized = vs_normalized vs ! j\<rparr>"
      unfolding M [symmetric] by (simp add: vs_abs_def Some)
    have row: "read_row (vs_dimension vs) j (vs_matrix vs) = Some ?q"
      using shape j by (intro read_row_Some [where n = "length (vs_idx_to_id vs)"]) (auto simp: vs_shape_def)
    have nrm: "get_at j (vs_norms vs) = Some (l2_norm impl ?q)"
      using norms live(1) shape j by (simp add: get_at_def vs_norms_ok_def vs_shape_def)
    have other: "(Some j \<noteq> um_find ?ids i) = (i \<noteq> item)" for i
      using Some vs_maps_find [OF maps] live(2) by metis
    note fields = snapshot_fields [OF shape ne]
    have "SearchByIdVectors impl pq rnd cls e ms flt item top_k vs snaps vs =
        map_option Inr (flat_search impl pq rnd e ms flt (Some j) ?q (l2_norm impl ?q) (nat top_k) (GetCompactSnapshot vs))"
      using assms(3) by (simp add: SearchByIdVectors_def ValidateTopK_ok [OF assms(5)] fields Some row nrm flat_search_by_id_def Let_def
          map_option_case option.case_distrib bind_def split: option.split)
    moreover have "\<exists>rs. flat_search impl pq rnd e ms flt (Some j) ?q (l2_norm impl ?q) (nat top_k) (GetCompactSnapshot vs) = Some rs \<and>
        best_matches M (\<lambda>i. i \<noteq> item \<and> passes flt ms i) (item_score impl e ?q) (nat top_k) rs"
      using flat_search_best [OF wf ne assms(2) k, of e "Some j" flt ms ?q rnd] assms(4) nan [OF q] 
      by (simp add: other scans_all_def M)
    ultimately show ?thesis using q by auto
  qed
qed


theorem search_by_id_exact_witness:
  "SearchByIdVectors scalar_impl sorted_pq (\<lambda>_. 0) no_ann dot_engine None [] ''a'' 1 one_vector_store
     (\<lambda>_. GetCompactSnapshot one_vector_store) one_vector_store = Some (Inr [])"
  using search_by_id_exact [OF one_vector_run pq_ok_sorted_pq dot_engine_simps(4) dot_engine_ok(2,1), of "''a''" "[]" None
      "\<lambda>_. 0" no_ann "\<lambda>_. GetCompactSnapshot one_vector_store"]
  by (auto simp: best_matches_def split: if_splits)

subsection \<open>Search with the index\<close>

lemma oversample_range:
  assumes "top_k_ok e top_k"
  shows "0 < oversample e filtering (nat top_k)" "oversample e filtering (nat top_k) < 2 ^ 31"
proof -
  let ?m = "uint (sc_max_top_k (se_config e))"
  let ?i = "min (if filtering then int (nat top_k) * 3 else int (nat top_k)) ?m"
  have "?m < 2 ^ 31"
  proof (rule ccontr)
    assume "\<not> ?thesis"
    moreover have "?m < 2 ^ 32" using uint_bounded [of "sc_max_top_k (se_config e)"] by simp
    moreover have "signed_take_bit 31 ?m \<le> ?m - 2 ^ 32" if "2 ^ 31 \<le> ?m" using signed_take_bit_int_less_eq [OF that] by simp
    ultimately have "to_int ?m < 0" unfolding to_int_def by linarith
    then show False using assms by (simp add: top_k_ok_def)
  qed
  then have "top_k \<le> ?m" "?m < 2 ^ 31" using assms by (simp_all add: top_k_ok_def to_int_small)
  then have "0 < ?i" "?i < 2 ^ 31" using assms by (auto simp: top_k_ok_def)
  then show "0 < oversample e filtering (nat top_k)" "oversample e filtering (nat top_k) < 2 ^ 31"
    by (simp_all add: oversample_def to_int_small)
qed


lemma positive_word: "\<lbrakk>0 < i; i < 2 ^ 31\<rbrakk> \<Longrightarrow> 0 < (word_of_int i :: u32)"
  by (simp add: word_less_def uint_word_of_int take_bit_int_eq_self)

lemma ann_search_cases:
  assumes ok: "top_k_ok e top_k" and small: "\<And>n. unat (total_n (GetCompactSnapshot (st n))) \<le> 2 ^ 31" and fetch: "0 < fetch"
    and run: "\<And>n. vs_run impl (st n) (Ms n)"
  obtains (stale) m where "ann_loop search generation keep filtering total_n (nat top_k) query (\<lambda>n. GetCompactSnapshot (st n)) n fetch = Some AnnStale"
      "vs_generation (st m) \<noteq> generation"
    | (answer) rs where "ann_loop search generation keep filtering total_n (nat top_k) query (\<lambda>n. GetCompactSnapshot (st n)) n fetch =
        Some (AnnAnswer rs)" "length rs \<le> nat top_k"
      "\<And>r. r \<in> set rs \<Longrightarrow> \<exists>n. vs_generation (st n) = generation \<and> sr_item_id r \<in> dom (Ms n) \<and> keep (sr_item_id r)"
proof -
  have k: "0 < nat top_k" using ok by (simp add: top_k_ok_def)
  let ?snaps = "\<lambda>n. GetCompactSnapshot (st n)"
  obtain out where out: "ann_loop search generation keep filtering total_n (nat top_k) query ?snaps n fetch = Some out"
    using ann_loop_returns [where total_n = total_n and snaps = ?snaps, OF small fetch] by blast
  have gen: "snap_generation (GetCompactSnapshot s) = vs_generation s" for s by (simp add: GetCompactSnapshot_def)
  have live: "\<exists>n. vs_generation (st n) = generation \<and> sr_item_id r \<in> dom (Ms n) \<and> keep (sr_item_id r)"
    if found: "ann_hit ?snaps generation keep r" for r
  proof -
    obtain n idx where hit: "vs_generation (st n) = generation" "idx < snap_count (?snaps n)" "\<not> snap_IsDeleted (?snaps n) idx"
      "sr_item_id r = snap_idx_to_id (?snaps n) ! idx" "keep (sr_item_id r)"
      using found unfolding ann_hit_def gen by blast
    have wf: "vs_wf impl (st n)" and M: "vs_abs (st n) = Ms n" using vs_run_refines [OF run [of n]] by (auto simp: vs_inv_def)
    then have shape: "vs_shape (st n)" and maps: "vs_maps (st n)" by (simp_all add: vs_wf_def)
    have ne: "vs_idx_to_id (st n) \<noteq> []" using hit(2) by (auto simp: GetCompactSnapshot_def split: if_splits)
    have "slot_live (st n) idx"
      using hit(2,3) shape by (simp add: snapshot_fields [OF shape ne] snap_IsDeleted_def slot_live_def vs_shape_def)
    then have "sr_item_id r \<in> dom (Ms n)"
      using live_find [OF maps] hit(4) unfolding M [symmetric] by (simp add: snapshot_fields [OF shape ne] vs_abs_def dom_def)
    then show ?thesis using hit by blast
  qed
  show thesis
    using ann_loop_sound [OF out k] stale answer out live by (cases out) (auto simp: ann_sound_def gen)
qed

lemma search_without_index:
  "ValidateTopK (e\<lparr>se_ann_index := None\<rparr>) top_k = ValidateTopK e top_k" "use_prenorm (e\<lparr>se_ann_index := None\<rparr>) = use_prenorm e"
  "\<not> IsAnnIndexReady cls (e\<lparr>se_ann_index := None\<rparr>)"
  by (simp_all add: use_prenorm_def ValidateTopK_def IsAnnIndexReady_def)

lemma flat_search_without_index:
  "flat_search impl pq rnd (e\<lparr>se_ann_index := None\<rparr>) ms flt self query qn k snap = flat_search impl pq rnd e ms flt self query qn k snap"
proof -
  have "candidate_score impl (e\<lparr>se_ann_index := None\<rparr>) snap query qn idx = candidate_score impl e snap query qn idx" for idx
    by (simp add: candidate_score_def search_without_index cong: if_cong)
  then have "push_candidate impl pq (e\<lparr>se_ann_index := None\<rparr>) ms flt self query qn k snap = push_candidate impl pq e ms flt self query qn k snap"
    by (simp add: fun_eq_iff push_candidate_def cong: if_cong)
  then show ?thesis by (simp add: flat_search_def scan_indices_def)
qed

text \<open>
  C15. Search with an approximate index ends and its answer is sound, whatever the index returns and
  however the store changes during the search: at most \<open>top_k\<close> results, each an item that passes
  the filter and was stored when the store had the generation the index was published for; once
  the store has another generation, the answer is the one of the exact search.
\<close>

theorem ann_search_sound:
  assumes "\<And>n. vs_run impl (st n) (Ms n)" "\<And>n. GetCompactCount (st n) \<le> 2 ^ 31" "IsAnnIndexReady cls e" "top_k_ok e top_k"
    "query_ok impl e query vs"
  shows "(\<exists>rs. SearchByVector impl pq rnd cls e ms flt query top_k vs (\<lambda>n. GetCompactSnapshot (st n)) vs' = Some (Inr rs) \<and>
      length rs \<le> nat top_k \<and>
      (\<forall>r \<in> set rs. \<exists>n. vs_generation (st n) = se_ann_generation e \<and> sr_item_id r \<in> dom (Ms n) \<and> passes flt ms (sr_item_id r))) \<or>
    (\<exists>n. vs_generation (st n) \<noteq> se_ann_generation e) \<and>
    SearchByVector impl pq rnd cls e ms flt query top_k vs (\<lambda>n. GetCompactSnapshot (st n)) vs' =
      SearchByVector impl pq rnd cls (e\<lparr>se_ann_index := None\<rparr>) ms flt query top_k vs (\<lambda>n. GetCompactSnapshot (st n)) vs'"
proof -
  let ?flt = "has_filter flt ms" and ?t = "\<lambda>snap. of_nat (snap_count snap) :: u32"
  let ?fetch = "word_of_int (oversample e ?flt (nat top_k)) :: u32"
  have "snap_count (GetCompactSnapshot (st n)) \<le> 2 ^ 31" for n
    using assms(2) [of n] by (auto simp: GetCompactSnapshot_def GetCompactCount_def)
  then have small: "unat (?t (GetCompactSnapshot (st n))) \<le> 2 ^ 31" for n
    by (simp add: unat_of_nat take_bit_eq_mod) (meson le_trans mod_less_eq_dividend)
  have fetch: "0 < ?fetch" using positive_word oversample_range [OF assms(4)] by blast
  have eq: "SearchByVector impl pq rnd cls e' ms flt query top_k vs (\<lambda>n. GetCompactSnapshot (st n)) vs' =
      (let flat = (let snap = GetCompactSnapshot vs'
                   in if snap_Empty snap then Some (Inr [])
                      else map_option Inr (flat_search impl pq rnd e ms flt None query (l2_norm impl query) (nat top_k) snap))
       in if \<not> IsAnnIndexReady cls e' then flat
          else do {
            outcome \<leftarrow> ann_loop (ann_Search cls (the (se_ann_index e))) (se_ann_generation e) (passes flt ms) ?flt ?t (nat top_k) query
              (\<lambda>n. GetCompactSnapshot (st n)) 0 ?fetch;
            (case outcome of AnnAnswer rs \<Rightarrow> Some (Inr rs) | AnnStale \<Rightarrow> flat)
          })" if "e' = e \<or> e' = e\<lparr>se_ann_index := None\<rparr>" for e'
    using that assms(5) by (auto simp: SearchByVector_def search_without_index flat_search_without_index ValidateTopK_ok [OF assms(4)] query_ok_def Let_def)
  show ?thesis
    by (rule ann_search_cases [where search = "ann_Search cls (the (se_ann_index e))" and generation = "se_ann_generation e" and
          keep = "passes flt ms" and filtering = ?flt and query = query and n = 0 and total_n = ?t and st = st and Ms = Ms, OF assms(4) small fetch assms(1)])
       (auto simp: eq assms(3) search_without_index Let_def)
qed


definition hnsw_engine :: "unit SimilarityEngine" where
  "hnsw_engine = dot_engine\<lparr>se_config := (se_config dot_engine)\<lparr>sc_index_type := ''hnsw''\<rparr>, se_ann_index := Some (),
     se_ann_generation := vs_generation one_vector_store\<rparr>"

definition stub_ann :: "unit AnnClass" where
  "stub_ann = no_ann\<lparr>ann_Size := \<lambda>_. 1, ann_Search := \<lambda>_ _ _. [(7, Fin 1), (0, Fin 0)]\<rparr>"

theorem ann_search_sound_witness:
  "\<exists>rs. SearchByVector scalar_impl sorted_pq (\<lambda>_. 0) stub_ann hnsw_engine None [] [Fin 0] 1 one_vector_store
     (\<lambda>_. GetCompactSnapshot one_vector_store) one_vector_store = Some (Inr rs) \<and> set (map sr_item_id rs) \<subseteq> {''a''}"
proof -
  have e: "IsAnnIndexReady stub_ann hnsw_engine" "top_k_ok hnsw_engine 1" "query_ok scalar_impl hnsw_engine [Fin 0] one_vector_store"
    by (simp_all add: hnsw_engine_def stub_ann_def IsAnnIndexReady_def top_k_ok_def to_int_small dot_engine_simps query_ok_def norm_zero
        one_vector_dimension use_prenorm_def)
  have "GetCompactCount one_vector_store = 1"
    by (simp add: one_vector_store_def SetVector_def vs_prepare_def ValidateVector_def norm_zero kMaxVectorDimension_def vs_new_def)
       (simp add: vs_commit_def append_slot_def write_row_def store_row_def set_at_def GetCompactCount_def bump_generation_def)
  then show ?thesis
    using ann_search_sound [where st = "\<lambda>_. one_vector_store", OF one_vector_run _ e, where flt = "[]" and ms = None and
        vs' = one_vector_store and pq = sorted_pq and rnd = "\<lambda>_. 0"]
    by (auto simp: hnsw_engine_def split: if_splits)
qed

end
