(* ===== verification/FloatOrder.thy ===== *)
theory FloatOrder
  imports Distance
begin

text \<open>
  Rounding is monotone on the non-negative numbers, and so are the float operations the score
  normalisation uses.
\<close>

lemma round_half_even_bounds: "\<lfloor>q\<rfloor> \<le> round_half_even q" "round_half_even q \<le> \<lfloor>q\<rfloor> + 1"
  by (simp_all add: round_half_even_def Let_def)

lemma round_half_even_mono: "q \<le> q' \<Longrightarrow> round_half_even q \<le> round_half_even q'"
proof (cases "\<lfloor>q\<rfloor> = \<lfloor>q'\<rfloor>")
  case True
  then show "q \<le> q' \<Longrightarrow> ?thesis" by (auto simp: round_half_even_def Let_def)
next
  case False
  assume "q \<le> q'"
  then have "\<lfloor>q\<rfloor> < \<lfloor>q'\<rfloor>" using False floor_mono by fastforce
  then show ?thesis using round_half_even_bounds [of q] round_half_even_bounds [of q'] by linarith
qed

lemma rat_exp_mono: "0 < x \<Longrightarrow> x \<le> y \<Longrightarrow> rat_exp x \<le> rat_exp y"
proof (rule ccontr)
  assume x: "0 < x" "x \<le> y" and "\<not> rat_exp x \<le> rat_exp y"
  then have "pow2 (rat_exp y + 1) \<le> pow2 (rat_exp x)" by (intro pow2_mono) simp
  then show False using rat_exp_bounds [of x] rat_exp_bounds [of y] x by linarith
qed

text \<open>What is rounded, and when the result overflows.\<close>

definition fl_unit :: "fmt \<Rightarrow> rat \<Rightarrow> rat" where
  "fl_unit f x = pow2 (max (rat_exp \<bar>x\<bar>) (fmt_emin f) - fmt_prec f + 1)"

definition rounded :: "fmt \<Rightarrow> rat \<Rightarrow> rat" where
  "rounded f x = of_int (round_half_even (x / fl_unit f x)) * fl_unit f x"

lemma fl_round_rounded:
  "x \<noteq> 0 \<Longrightarrow> fl_round f x = (if pow2 (fmt_emax f + 1) \<le> \<bar>rounded f x\<bar> then Inf (rounded f x < 0) else Fin (rounded f x))"
  by (simp add: fl_round_def rounded_def fl_unit_def Let_def)

lemma fl_round_not_NaN [simp]: "fl_round f x \<noteq> NaN"
  by (cases "x = 0") (simp_all add: fl_round_rounded)

lemma rounded_nonneg: "0 \<le> x \<Longrightarrow> 0 \<le> rounded f x"
  using round_half_even_sign(2) [of "x / fl_unit f x"] by (simp add: rounded_def fl_unit_def)

lemma rounded_at_pow2:
  assumes x: "0 < x" and k: "max (rat_exp x) (fmt_emin f) - fmt_prec f + 1 \<le> k"
  shows "x \<le> pow2 k \<Longrightarrow> rounded f x \<le> pow2 k" "pow2 k \<le> x \<Longrightarrow> pow2 k \<le> rounded f x"
proof -
  define m where "m = max (rat_exp x) (fmt_emin f) - fmt_prec f + 1"
  have u: "fl_unit f x = pow2 m" using x by (simp add: fl_unit_def m_def)
  have split: "pow2 k = of_int (2 ^ nat (k - m)) * pow2 m" using k by (intro pow2_split) (simp add: m_def)
  have pos: "0 < pow2 m" by simp
  show "rounded f x \<le> pow2 k" if "x \<le> pow2 k"
  proof -
    have "x / pow2 m \<le> of_int (2 ^ nat (k - m))" using that pos by (simp add: split divide_le_eq)
    then have "round_half_even (x / pow2 m) \<le> 2 ^ nat (k - m)" using round_half_even_mono round_half_even_of_int by metis
    then have "of_int (round_half_even (x / pow2 m)) \<le> (of_int (2 ^ nat (k - m)) :: rat)" by (simp only: of_int_le_iff)
    then show ?thesis unfolding rounded_def u split using pos by (intro mult_right_mono) simp_all
  qed
  show "pow2 k \<le> rounded f x" if "pow2 k \<le> x"
  proof -
    have "of_int (2 ^ nat (k - m)) \<le> x / pow2 m" using that pos by (simp add: split le_divide_eq)
    then have "2 ^ nat (k - m) \<le> round_half_even (x / pow2 m)" using round_half_even_mono round_half_even_of_int by metis
    then have "(of_int (2 ^ nat (k - m)) :: rat) \<le> of_int (round_half_even (x / pow2 m))" by (simp only: of_int_le_iff)
    then show ?thesis unfolding rounded_def u split using pos by (intro mult_right_mono) simp_all
  qed
qed

lemma rounded_mono:
  assumes x: "0 < x" "x \<le> y"
  shows "rounded f x \<le> rounded f y"
proof -
  let ?e = "\<lambda>x. max (rat_exp x) (fmt_emin f)"
  have prec: "1 < fmt_prec f" by (cases f) simp_all
  show ?thesis
  proof (cases "?e x = ?e y")
    case True
    then have u: "fl_unit f x = fl_unit f y" "0 < fl_unit f y" using x by (simp_all add: fl_unit_def)
    then have "round_half_even (x / fl_unit f x) \<le> round_half_even (y / fl_unit f y)"
      using x by (intro round_half_even_mono) (simp add: divide_right_mono)
    then show ?thesis using u by (simp add: rounded_def)
  next
    case False
    then have e: "rat_exp x < rat_exp y" "fmt_emin f < rat_exp y" using rat_exp_mono [OF x] by (auto simp: max_def split: if_splits)
    have "x \<le> pow2 (rat_exp y)"
      using rat_exp_bounds [of x] x(1) e(1) pow2_mono [of "rat_exp x + 1" "rat_exp y"] by linarith
    then have "rounded f x \<le> pow2 (rat_exp y)" using e prec x(1) by (intro rounded_at_pow2) (auto simp: max_def)
    moreover have "pow2 (rat_exp y) \<le> rounded f y"
      using e prec x rat_exp_bounds [of y] by (intro rounded_at_pow2) (auto simp: max_def)
    ultimately show ?thesis by linarith
  qed
qed

lemma fl_round_mono:
  assumes "0 \<le> x" "x \<le> y"
  shows "fl_le (fl_round f x) (fl_round f y)"
proof (cases "x = 0")
  case True
  then show ?thesis using assms fl_round_sign(2) [of y f] by simp
next
  case False
  then have "rounded f x \<le> rounded f y" "0 \<le> rounded f x" "0 \<le> rounded f y" using assms rounded_mono rounded_nonneg by auto
  then show ?thesis using False assms by (auto simp: fl_round_rounded fl_le_def)
qed

end
