(* ===== verification/Fusion.thy ===== *)
theory Fusion
  imports VectorSearch FloatOrder
begin

text \<open>
  Normalisation and fusion of scores (\<open>NormalizeScores\<close>, \<open>fuse\<close> and \<open>fusion_result\<close> of
  \<open>SimilarityEngine\<close>): normalised scores are between 0 and 1 and keep their order, and the fused
  result ranks the union of both sources.
\<close>

subsection \<open>Normalisation of scores\<close>

lemma fold_fl_min:
  "\<forall>r \<in> set rs. isfinite (sr_score r) \<Longrightarrow>
     \<exists>m. fold (\<lambda>r m. fl_min m (sr_score r)) rs (Fin a) = Fin m \<and> m \<le> a \<and> (\<forall>r \<in> set rs. fl_le (Fin m) (sr_score r)) \<and>
       (m = a \<or> Fin m \<in> sr_score ` set rs)"
proof (induction rs arbitrary: a)
  case (Cons r rs)
  obtain x where x: "sr_score r = Fin x" using Cons.prems by (cases "sr_score r") auto
  obtain m where m: "fold (\<lambda>r m. fl_min m (sr_score r)) rs (Fin (min a x)) = Fin m" "m \<le> min a x"
    "\<forall>r \<in> set rs. fl_le (Fin m) (sr_score r)" "m = min a x \<or> Fin m \<in> sr_score ` set rs"
    using Cons by fastforce
  then show ?case using x by (auto simp: fl_min_def min_def fl_le_def split: if_splits)
qed simp

lemma fold_fl_max:
  "\<forall>r \<in> set rs. isfinite (sr_score r) \<Longrightarrow>
     \<exists>m. fold (\<lambda>r m. fl_max m (sr_score r)) rs (Fin a) = Fin m \<and> a \<le> m \<and> (\<forall>r \<in> set rs. fl_le (sr_score r) (Fin m)) \<and>
       (m = a \<or> Fin m \<in> sr_score ` set rs)"
proof (induction rs arbitrary: a)
  case (Cons r rs)
  obtain x where x: "sr_score r = Fin x" using Cons.prems by (cases "sr_score r") auto
  obtain m where m: "fold (\<lambda>r m. fl_max m (sr_score r)) rs (Fin (max a x)) = Fin m" "max a x \<le> m"
    "\<forall>r \<in> set rs. fl_le (sr_score r) (Fin m)" "m = max a x \<or> Fin m \<in> sr_score ` set rs"
    using Cons by fastforce
  then show ?case using x by (auto simp: fl_max_def max_def fl_le_def split: if_splits)
qed simp

lemma fl_le_Fin [simp]: "fl_le (Fin x) (Fin y) \<longleftrightarrow> x \<le> y"
  by (auto simp: fl_le_def)

lemma clamp01_Fin: "clamp01 (Fin x) = Fin (max 0 (min 1 x))"
  by (auto simp: clamp01_def fl_max_def fl_min_def max_def min_def)

lemma clamp01_bounds: "fl_le (Fin 0) (clamp01 v) \<and> fl_le (clamp01 v) (Fin 1)"
  by (cases v) (auto simp: clamp01_def fl_max_def fl_min_def fl_le_def)

lemma fl_round_1: "fl_round F32 1 = Fin 1"
  by (simp add: fl_eval)

text \<open>The score of \<open>x\<close> in the range from \<open>lo\<close> to \<open>hi\<close>.\<close>

lemma scale_bounds:
  assumes fin: "fl_sub F32 (Fin hi) (Fin lo) = Fin R" and R: "0 < R" and x: "lo \<le> x" "x \<le> hi"
  shows "\<exists>q. fl_div F32 (fl_sub F32 (Fin x) (Fin lo)) (Fin R) = Fin q \<and> 0 \<le> q \<and> q \<le> 1"
proof -
  have "fl_le (fl_round F32 (x - lo)) (Fin R)" using fin x fl_round_mono [of "x - lo" "hi - lo" F32] by (simp add: fl_sub_def)
  then obtain d where d: "fl_round F32 (x - lo) = Fin d" "d \<le> R"
    using fl_round_sign(2) [of "x - lo" F32] x by (cases "fl_round F32 (x - lo)") (auto simp: fl_le_def)
  then have d0: "0 \<le> d" using fl_round_sign(2) [of "x - lo" F32] x by simp
  have "fl_le (Fin 0) (fl_round F32 (d / R))" "fl_le (fl_round F32 (d / R)) (Fin 1)"
    using fl_round_sign(2) [of "d / R" F32] fl_round_mono [of "d / R" 1 F32] d0 d(2) R by (simp_all add: fl_round_1)
  then show ?thesis using d R by (cases "fl_round F32 (d / R)") (auto simp: fl_sub_def fl_le_def)
qed

lemma scale_mono:
  assumes R: "0 < R" and x: "lo \<le> x" "x \<le> y" and fin: "fl_sub F32 (Fin x) (Fin lo) = Fin a" "fl_sub F32 (Fin y) (Fin lo) = Fin b"
  shows "fl_le (fl_div F32 (Fin a) (Fin R)) (fl_div F32 (Fin b) (Fin R))"
proof -
  have "a \<le> b" "0 \<le> a"
    using fin x fl_round_mono [of "x - lo" "y - lo" F32] fl_round_sign(2) [of "x - lo" F32] by (simp_all add: fl_sub_def)
  then show ?thesis using R by (simp add: fl_round_mono divide_right_mono)
qed

lemma kMinRange_pos: "\<exists>r. kMinRange = Fin r \<and> 0 < r"
proof -
  have "kMinRange = Fin (13743895 / 137438953472)" by (simp add: kMinRange_def fl_eval)
  moreover have "0 < (13743895 / 137438953472 :: rat)" by simp
  ultimately show ?thesis by blast
qed

text \<open>The normalisation applies one function to every score: a clamp, or the scaling to the range of the scores.\<close>

lemma NormalizeScores_cases:
  assumes fin: "\<forall>r \<in> set rs. isfinite (sr_score r)"
    and diff: "\<forall>r \<in> set rs. \<forall>r' \<in> set rs. isfinite (fl_sub F32 (sr_score r) (sr_score r'))"
  obtains (clamp) "NormalizeScores rs = map_scores clamp01 rs"
    | (scale) lo hi R where "NormalizeScores rs = map_scores (\<lambda>s. fl_div F32 (fl_sub F32 s (Fin lo)) (Fin R)) rs"
      "fl_sub F32 (Fin hi) (Fin lo) = Fin R" "0 < R" "Fin lo \<in> sr_score ` set rs"
      "\<forall>r \<in> set rs. fl_le (Fin lo) (sr_score r) \<and> fl_le (sr_score r) (Fin hi)"
proof (cases "length rs \<le> 1")
  case True
  then show ?thesis by (intro clamp) (simp add: NormalizeScores_def)
next
  case False
  then have ne: "hd rs \<in> set rs" by (cases rs) auto
  then obtain a where a: "sr_score (hd rs) = Fin a" using fin by (cases "sr_score (hd rs)") auto
  obtain lo where lo: "fold (\<lambda>r m. fl_min m (sr_score r)) rs (Fin a) = Fin lo" "\<forall>r \<in> set rs. fl_le (Fin lo) (sr_score r)"
    "Fin lo \<in> sr_score ` set rs" using fold_fl_min [OF fin, of a] a ne by (metis image_eqI)
  obtain hi where hi: "fold (\<lambda>r m. fl_max m (sr_score r)) rs (Fin a) = Fin hi" "\<forall>r \<in> set rs. fl_le (sr_score r) (Fin hi)"
    "Fin hi \<in> sr_score ` set rs" using fold_fl_max [OF fin, of a] a ne by (metis image_eqI)
  have "isfinite (fl_sub F32 (Fin hi) (Fin lo))" using diff lo(3) hi(3) by (metis imageE)
  then obtain R where R: "fl_sub F32 (Fin hi) (Fin lo) = Fin R" by (cases "fl_sub F32 (Fin hi) (Fin lo)") auto
  obtain t where t: "kMinRange = Fin t" "0 < t" using kMinRange_pos by blast
  show ?thesis
  proof (cases "R < t")
    case True
    then have "fl_less (fl_sub F32 (Fin hi) (Fin lo)) kMinRange" unfolding R t(1) by simp
    then show ?thesis using False a lo(1) hi(1) by (intro clamp) (simp add: NormalizeScores_def Let_def)
  next
    case big: False
    then have "\<not> fl_less (fl_sub F32 (Fin hi) (Fin lo)) kMinRange" unfolding R t(1) by simp
    then have "NormalizeScores rs = map_scores (\<lambda>s. fl_div F32 (fl_sub F32 s (Fin lo)) (Fin R)) rs"
      using False a lo(1) hi(1) R by (simp add: NormalizeScores_def Let_def)
    then show ?thesis using scale R t(2) lo(2,3) hi(2) big by auto
  qed
qed

text \<open>
  Normalisation makes scores comparable: as long as no difference of two scores overflows, every
  normalised score lies between 0 and 1, the ids and their order are kept, and a higher score is
  never normalised to a lower one.
\<close>

theorem normalize_scores_bounds:
  assumes fin: "\<forall>r \<in> set rs. isfinite (sr_score r)"
    and diff: "\<forall>r \<in> set rs. \<forall>r' \<in> set rs. isfinite (fl_sub F32 (sr_score r) (sr_score r'))"
  shows "map sr_item_id (NormalizeScores rs) = map sr_item_id rs \<and>
    (\<forall>r \<in> set (NormalizeScores rs). fl_le (Fin 0) (sr_score r) \<and> fl_le (sr_score r) (Fin 1)) \<and>
    (\<forall>i j. i < length rs \<and> j < length rs \<and> fl_le (sr_score (rs ! i)) (sr_score (rs ! j)) \<longrightarrow>
       fl_le (sr_score (NormalizeScores rs ! i)) (sr_score (NormalizeScores rs ! j)))"
proof (cases rule: NormalizeScores_cases [OF fin diff, case_names clamp scale])
  case clamp
  have "fl_le (clamp01 a) (clamp01 b)" if "fl_le a b" for a b
    using that by (cases a; cases b) (auto simp: clamp01_Fin, auto simp: fl_le_def clamp01_def fl_max_def fl_min_def)
  then show ?thesis using clamp01_bounds by (auto simp: clamp map_scores_def)
next
  case (scale lo hi R)
  let ?f = "\<lambda>s. fl_div F32 (fl_sub F32 s (Fin lo)) (Fin R)"
  have bounds: "fl_le (Fin 0) (?f (sr_score r)) \<and> fl_le (?f (sr_score r)) (Fin 1)" if r: "r \<in> set rs" for r
  proof -
    obtain x where x: "sr_score r = Fin x" using fin r by (auto simp: isfinite_iff)
    then have "lo \<le> x" "x \<le> hi" using bspec [OF scale(5) r] by simp_all
    then show ?thesis using scale_bounds [OF scale(2,3), of x] x by auto
  qed
  have mono: "fl_le (?f (sr_score r)) (?f (sr_score r'))" if r: "r \<in> set rs" "r' \<in> set rs" "fl_le (sr_score r) (sr_score r')" for r r'
  proof -
    obtain x y where xy: "sr_score r = Fin x" "sr_score r' = Fin y" using fin r(1,2) unfolding isfinite_iff by blast
    obtain r0 where r0: "r0 \<in> set rs" "sr_score r0 = Fin lo" using scale(4) by force
    have "isfinite (fl_sub F32 (Fin x) (Fin lo))" "isfinite (fl_sub F32 (Fin y) (Fin lo))"
      using bspec [OF bspec [OF diff r(1)] r0(1)] bspec [OF bspec [OF diff r(2)] r0(1)] xy r0(2) by simp_all
    then obtain a b where "fl_sub F32 (Fin x) (Fin lo) = Fin a" "fl_sub F32 (Fin y) (Fin lo) = Fin b"
      unfolding isfinite_iff by blast
    moreover have "lo \<le> x" "x \<le> y" using bspec [OF scale(5) r(1)] r(3) xy by simp_all
    ultimately show ?thesis using scale_mono [OF scale(3), of lo x y a b] xy by simp
  qed
  show ?thesis using bounds mono by (auto simp: scale(1) map_scores_def)
qed

theorem normalize_scores_bounds_witness:
  "fl_le (sr_score (NormalizeScores [\<lparr>sr_item_id = ''a'', sr_score = Fin 3\<rparr>, \<lparr>sr_item_id = ''b'', sr_score = Fin 1\<rparr>] ! 1))
     (sr_score (NormalizeScores [\<lparr>sr_item_id = ''a'', sr_score = Fin 3\<rparr>, \<lparr>sr_item_id = ''b'', sr_score = Fin 1\<rparr>] ! 0))"
proof -
  let ?rs = "[\<lparr>sr_item_id = ''a'', sr_score = Fin 3\<rparr>, \<lparr>sr_item_id = ''b'', sr_score = Fin 1\<rparr>]"
  have "fl_round F32 2 = Fin 2" "fl_round F32 (- 2) = Fin (- 2)" by (simp_all add: fl_eval)
  then have "\<forall>r \<in> set ?rs. \<forall>r' \<in> set ?rs. isfinite (fl_sub F32 (sr_score r) (sr_score r'))" by (simp add: fl_sub_def)
  then show ?thesis using normalize_scores_bounds [of ?rs] by auto
qed

text \<open>When the difference of the highest and the lowest score overflows, the highest score becomes a NaN.\<close>

lemma normalize_scores_overflow:
  "map sr_score (NormalizeScores [\<lparr>sr_item_id = ''a'', sr_score = Fin f32_max\<rparr>, \<lparr>sr_item_id = ''b'', sr_score = Fin (- f32_max)\<rparr>]) =
   [NaN, Fin 0]"
proof -
  have R: "fl_sub F32 (Fin f32_max) (Fin (- f32_max)) = Inf False" by (simp add: fl_sub_def f32_max_def fl_eval)
  obtain t where t: "kMinRange = Fin t" using kMinRange_pos by blast
  have "\<not> fl_less (Inf False) kMinRange" unfolding t by simp
  moreover have "fl_sub F32 (Fin (- f32_max)) (Fin (- f32_max)) = Fin 0" by (simp add: fl_sub_def)
  moreover have "- f32_max < f32_max" by (simp add: f32_max_def)
  ultimately show ?thesis using R by (simp add: NormalizeScores_def fl_min_def fl_max_def map_scores_def Let_def)
qed

subsection \<open>Fusion\<close>

definition scores_of :: "sim_result list \<Rightarrow> string \<Rightarrow> fl option" where
  "scores_of rs = map_of (map (\<lambda>r. (sr_item_id r, sr_score r)) rs)"

definition add_weighted :: "fl \<Rightarrow> fl option \<Rightarrow> fl option \<Rightarrow> fl option" where
  "add_weighted w s acc =
     (case s of None \<Rightarrow> acc
      | Some v \<Rightarrow> Some (fl_add F32 (case acc of None \<Rightarrow> Fin 0 | Some a \<Rightarrow> a) (fl_mul F32 w v)))"

text \<open>The fused score of an item: the weighted sum over the sources that have it.\<close>

definition fused_score :: "fl \<Rightarrow> fl \<Rightarrow> sim_result list \<Rightarrow> sim_result list \<Rightarrow> string \<Rightarrow> fl option" where
  "fused_score event_weight vector_weight events vectors i =
     add_weighted vector_weight (scores_of vectors i) (add_weighted event_weight (scores_of events i) None)"

lemma add_fused_find:
  "distinct (map sr_item_id rs) \<Longrightarrow> um_find (add_fused w rs m) i = add_weighted w (scores_of rs i) (um_find m i)"
proof (induction rs arbitrary: m)
  case (Cons r rs)
  let ?v = "fl_add F32 (case um_find m (sr_item_id r) of None \<Rightarrow> Fin 0 | Some v \<Rightarrow> v) (fl_mul F32 w (sr_score r))"
  have none: "scores_of rs (sr_item_id r) = None" using Cons.prems by (auto simp: scores_of_def map_of_eq_None_iff)
  have "add_fused w (r # rs) m = add_fused w rs (um_set (sr_item_id r) ?v m)" by (simp add: add_fused_def)
  then have "um_find (add_fused w (r # rs) m) i = add_weighted w (scores_of rs i) (um_find (um_set (sr_item_id r) ?v m) i)"
    using Cons by simp
  then show ?case using none by (cases "i = sr_item_id r") (simp_all add: add_weighted_def, simp_all add: scores_of_def)
qed (simp add: add_fused_def scores_of_def add_weighted_def)

lemma um_wf_add_fused: "um_wf m \<Longrightarrow> um_wf (add_fused w rs m)"
  by (induction rs arbitrary: m) (simp_all add: add_fused_def)

lemma fused_score_dom: "dom (fused_score we wv E V) = sr_item_id ` set E \<union> sr_item_id ` set V"
proof -
  have sc: "scores_of rs i \<noteq> None \<longleftrightarrow> i \<in> sr_item_id ` set rs" for rs i by (simp add: scores_of_def map_of_eq_None_iff image_image)
  have "fused_score we wv E V i \<noteq> None \<longleftrightarrow> scores_of E i \<noteq> None \<or> scores_of V i \<noteq> None" for i
    by (simp add: fused_score_def add_weighted_def split: option.split)
  then show ?thesis unfolding dom_def sc by blast
qed

text \<open>\<open>rs\<close> are the first \<open>k\<close> of the items that \<open>F\<close> scores and \<open>P\<close> lets through, in the order of results.\<close>

definition first_ranked :: "(string \<Rightarrow> fl option) \<Rightarrow> (string \<Rightarrow> bool) \<Rightarrow> nat \<Rightarrow> sim_result list \<Rightarrow> bool" where
  "first_ranked F P k rs \<longleftrightarrow>
     distinct (map sr_item_id rs) \<and> length rs = min k (card {i \<in> dom F. P i}) \<and>
     (\<forall>r \<in> set rs. F (sr_item_id r) = Some (sr_score r) \<and> P (sr_item_id r)) \<and>
     (\<forall>i s r. F i = Some s \<and> P i \<and> i \<notin> sr_item_id ` set rs \<and> r \<in> set rs \<longrightarrow> \<not> sr_less \<lparr>sr_item_id = i, sr_score = s\<rparr> r) \<and>
     sorted_wrt (\<lambda>a b. \<not> sr_less b a) rs"

lemma MergeAndSelectTopK_eq: "MergeAndSelectTopK rs k = take k (std_sort sr_less rs)"
  by (simp add: MergeAndSelectTopK_def)

lemma first_ranked_take:
  assumes dist: "distinct (map sr_item_id rs)" and F: "\<And>r. r \<in> set rs \<longleftrightarrow> F (sr_item_id r) = Some (sr_score r) \<and> P (sr_item_id r)"
    and nan: "\<And>r. r \<in> set rs \<Longrightarrow> sr_score r \<noteq> NaN"
  shows "first_ranked F P k (MergeAndSelectTopK rs k)"
proof -
  let ?s = "std_sort sr_less rs"
  have ids: "sr_item_id ` set rs = {i \<in> dom F. P i}"
  proof (intro equalityI subsetI)
    fix i
    assume "i \<in> {i \<in> dom F. P i}"
    then obtain s where "\<lparr>sr_item_id = i, sr_score = s\<rparr> \<in> set rs" using F by fastforce
    then show "i \<in> sr_item_id ` set rs" by force
  qed (auto simp: F)
  have sorted: "sorted_wrt (\<lambda>a b. \<not> sr_less b a) ?s" using nan by (rule sorted_results)
  have dist': "distinct (map sr_item_id ?s)" using dist by (metis mset_eq_imp_distinct_iff mset_map mset_std_sort)
  have len: "length ?s = card {i \<in> dom F. P i}" using distinct_card [OF dist] ids by simp
  have cut: "sorted_wrt (\<lambda>a b. \<not> sr_less b a) (take k ?s)" "r \<in> set (take k ?s) \<Longrightarrow> x \<in> set (drop k ?s) \<Longrightarrow> \<not> sr_less x r" for r x
    using sorted by (metis append_take_drop_id sorted_wrt_append)+
  have out: "\<not> sr_less \<lparr>sr_item_id = i, sr_score = s\<rparr> r"
    if x: "F i = Some s" "P i" "i \<notin> sr_item_id ` set (take k ?s)" "r \<in> set (take k ?s)" for i s r
  proof -
    have "\<lparr>sr_item_id = i, sr_score = s\<rparr> \<in> set ?s" using x(1,2) F by simp
    then have "\<lparr>sr_item_id = i, sr_score = s\<rparr> \<in> set (take k ?s) \<union> set (drop k ?s)" by (metis append_take_drop_id set_append)
    moreover have "\<lparr>sr_item_id = i, sr_score = s\<rparr> \<notin> set (take k ?s)" using x(3) by force
    ultimately show ?thesis using cut(2) x(4) by blast
  qed
  have "\<forall>r \<in> set (take k ?s). F (sr_item_id r) = Some (sr_score r) \<and> P (sr_item_id r)"
    using F set_take_subset [of k ?s] by (metis set_std_sort subsetD)
  moreover have "distinct (map sr_item_id (take k ?s))" using dist' by (simp add: take_map [symmetric])
  ultimately show ?thesis using out cut(1) len unfolding first_ranked_def MergeAndSelectTopK_eq by (simp add: min.commute)
qed

lemma fuse_first_ranked:
  assumes "distinct (map sr_item_id E)" "distinct (map sr_item_id V)"
    and nan: "\<And>i s. \<lbrakk>fused_score we wv E V i = Some s; passes flt ms i\<rbrakk> \<Longrightarrow> s \<noteq> NaN"
  shows "first_ranked (fused_score we wv E V) (passes flt ms) k (fuse flt ms k we wv E V)"
proof -
  define m where "m = add_fused wv V (add_fused we E [])"
  have wf: "um_wf m" by (simp add: m_def um_wf_add_fused)
  have find: "um_find m i = fused_score we wv E V i" for i using assms(1,2) by (simp add: m_def add_fused_find fused_score_def)
  define s where "s = std_sort (\<lambda>a b. string_less (fst a) (fst b)) m"
  define rs where "rs = map (\<lambda>(i, s). \<lparr>sr_item_id = i, sr_score = s\<rparr>) (filter (\<lambda>(i, s). passes flt ms i) s)"
  have "distinct (map fst s)" using wf unfolding s_def um_wf_def by (metis mset_eq_imp_distinct_iff mset_map mset_std_sort)
  then have "distinct (map sr_item_id rs)" by (simp add: rs_def comp_def split_def distinct_map_filter)
  moreover have "r \<in> set rs \<longleftrightarrow> fused_score we wv E V (sr_item_id r) = Some (sr_score r) \<and> passes flt ms (sr_item_id r)" for r
    using um_find_in_set [OF wf, of "sr_item_id r" "sr_score r"] unfolding find [symmetric] rs_def s_def
    by (cases r) (auto simp: image_iff)
  moreover have "fuse flt ms k we wv E V = MergeAndSelectTopK rs k" by (simp add: fuse_def rs_def s_def m_def Let_def)
  moreover have "sr_score r \<noteq> NaN" if "r \<in> set rs" for r using that nan calculation(2) by blast
  ultimately show ?thesis using first_ranked_take [of rs "fused_score we wv E V" "passes flt ms"] by simp
qed

lemma ids_NormalizeScores: "map sr_item_id (NormalizeScores rs) = map sr_item_id rs"
  by (simp add: NormalizeScores_def map_scores_def Let_def)

text \<open>
  C17. Fusion ranks the union of the two sources: the score of an item is the weighted sum of its
  normalised scores in the sources that have it, the result are the best \<open>top_k\<close> of the items of
  either source that pass the filter, ordered by score and then by id, and no item is listed twice.
\<close>

theorem fusion_ranks_union:
  assumes "distinct (map sr_item_id E)" "distinct (map sr_item_id V)"
    and "fusion_weights (fst (base_weights e co item adaptive)) (snd (base_weights e co item adaptive)) (E \<noteq> []) (V \<noteq> []) = Some (we, wv)"
    and "\<And>i s. \<lbrakk>fused_score we wv (NormalizeScores E) (NormalizeScores V) i = Some s; passes flt ms i\<rbrakk> \<Longrightarrow> s \<noteq> NaN"
  shows "\<exists>rs. fusion_result e co ms flt item k adaptive (Inr E) (Inr V) = Inr rs \<and>
    dom (fused_score we wv (NormalizeScores E) (NormalizeScores V)) = sr_item_id ` set E \<union> sr_item_id ` set V \<and>
    first_ranked (fused_score we wv (NormalizeScores E) (NormalizeScores V)) (passes flt ms) k rs"
proof -
  have "fusion_result e co ms flt item k adaptive (Inr E) (Inr V) = Inr (fuse flt ms k we wv (NormalizeScores E) (NormalizeScores V))"
    using assms(3) by (simp add: fusion_result_def split_def Let_def)
  moreover have "set (map sr_item_id (NormalizeScores rs)) = sr_item_id ` set rs" for rs unfolding ids_NormalizeScores by simp
  then have "sr_item_id ` set (NormalizeScores rs) = sr_item_id ` set rs" for rs by simp
  ultimately show ?thesis
    using fuse_first_ranked [of "NormalizeScores E" "NormalizeScores V" we wv flt ms] assms
      fused_score_dom [of we wv "NormalizeScores E" "NormalizeScores V"] by (auto simp: ids_NormalizeScores)
qed


theorem fusion_ranks_union_witness:
  "\<exists>rs. fusion_result dot_engine (co_new \<lparr>cc_max_neighbors_per_item = 0, cc_min_support = Fin 0, cc_negative_max_propagation = 0\<rparr>)
     None [] ''x'' 1 None (Inr [\<lparr>sr_item_id = ''a'', sr_score = Fin 1\<rparr>]) (Inr []) = Inr rs \<and> map sr_item_id rs = [''a'']"
proof -
  let ?co = "co_new \<lparr>cc_max_neighbors_per_item = 0, cc_min_support = Fin 0, cc_negative_max_propagation = 0\<rparr>"
  let ?E = "[\<lparr>sr_item_id = ''a'', sr_score = Fin 1\<rparr>]"
  have norm: "NormalizeScores ?E = ?E" "NormalizeScores [] = []" by (simp_all add: NormalizeScores_def map_scores_def clamp01_Fin)
  have F: "fused_score (Fin 1) (Fin 0) ?E [] i = (if i = ''a'' then Some (Fin 1) else None)" for i
    by (simp add: fused_score_def add_weighted_def scores_of_def fl_round_1)
  then have dom: "{i \<in> dom (fused_score (Fin 1) (Fin 0) ?E []). passes [] None i} = {''a''}"
    by (auto simp: dom_def passes_def has_filter_def)
  have "\<exists>rs. fusion_result dot_engine ?co None [] ''x'' 1 None (Inr ?E) (Inr []) = Inr rs \<and>
      first_ranked (fused_score (Fin 1) (Fin 0) ?E []) (passes [] None) 1 rs"
  proof -
    have w: "fusion_weights (fst (base_weights dot_engine ?co ''x'' None)) (snd (base_weights dot_engine ?co ''x'' None)) (?E \<noteq> [])
        (([] :: sim_result list) \<noteq> []) = Some (Fin 1, Fin 0)" by (simp add: fusion_weights_def)
    have nan: "s \<noteq> NaN" if "fused_score (Fin 1) (Fin 0) (NormalizeScores ?E) (NormalizeScores []) i = Some s" "passes [] None i" for i s
      using that(1) unfolding norm F by (auto split: if_splits)
    have "distinct (map sr_item_id ?E)" "distinct (map sr_item_id ([] :: sim_result list))" by simp_all
    from fusion_ranks_union [where flt = "[]" and ms = None and k = 1, OF this w] nan show ?thesis unfolding norm by blast
  qed
  then obtain rs where rs: "fusion_result dot_engine ?co None [] ''x'' 1 None (Inr ?E) (Inr []) = Inr rs"
      "length rs = 1" "\<forall>r \<in> set rs. sr_item_id r = ''a''"
    unfolding first_ranked_def dom by (auto simp: F split: if_splits)
  then obtain r where "rs = [r]" by (auto simp: length_Suc_conv)
  then show ?thesis using rs by simp
qed

end
