(* ===== verification/FilterParser.thy ===== *)
theory FilterParser
  imports Metadata Errors "HOL-Library.Sublist"
begin

text \<open>
  Filter expressions (\<^verbatim>\<open>src/server/filter_parser.cpp\<close>): conditions separated by commas, each a field,
  an operator and a value whose type is detected.  The theory shows that a printed filter is parsed
  back and that integers keep their value.

  \<^verbatim>\<open>std::strtod\<close> depends on the locale and on the implementation's treatment of underflow, so it is an
  argument: the value, the rest of the text and whether the range was exceeded, or \<open>None\<close> when
  nothing was converted.
\<close>

type_synonym strtod_fun = "string \<Rightarrow> (fl \<times> string \<times> bool) option"

subsection \<open>Values\<close>

text \<open>A \<^verbatim>\<open>std::string\<close> passed as a C string ends at its first NUL.\<close>

definition c_str :: "string \<Rightarrow> string" where
  "c_str s = takeWhile (\<lambda>c. (of_char c :: nat) \<noteq> 0) s"

definition is_space :: "char \<Rightarrow> bool" where
  "is_space c \<longleftrightarrow> c = CHR '' '' \<or> 9 \<le> (of_char c :: nat) \<and> of_char c \<le> (13 :: nat)"

definition dec_digit :: "char \<Rightarrow> bool" where
  "dec_digit c \<longleftrightarrow> 48 \<le> (of_char c :: nat) \<and> of_char c \<le> (57 :: nat)"

definition dec_value :: "string \<Rightarrow> nat" where
  "dec_value = foldl (\<lambda>n c. 10 * n + (of_char c - 48)) 0"

definition strtoll :: "string \<Rightarrow> (int \<times> string \<times> bool) option" where
  "strtoll s =
     (let t = dropWhile is_space s;
          neg = (t \<noteq> [] \<and> hd t = CHR ''-'');
          u = (if t \<noteq> [] \<and> hd t \<in> {CHR ''-'', CHR ''+''} then tl t else t);
          ds = takeWhile dec_digit u;
          v = (if neg then - int (dec_value ds) else int (dec_value ds))
      in if ds = [] then None
         else Some (max (- (2 ^ 63)) (min (2 ^ 63 - 1) v), dropWhile dec_digit u, v < - (2 ^ 63) \<or> 2 ^ 63 \<le> v))"

text \<open>A conversion counts when it reads something, everything, and stays in range.\<close>

definition converted :: "('a \<times> string \<times> bool) option \<Rightarrow> 'a option" where
  "converted r = (case r of Some (v, [], False) \<Rightarrow> Some v | _ \<Rightarrow> None)"

definition ParseValue :: "strtod_fun \<Rightarrow> string \<Rightarrow> fl MetadataValue" where
  "ParseValue strtod val =
     (if val = ''true'' then VBool True
      else if val = ''false'' then VBool False
      else case converted (strtoll (c_str val)) of
             Some i \<Rightarrow> VInt64 (word_of_int i)
           | None \<Rightarrow> (case converted (strtod (c_str val)) of Some d \<Rightarrow> VDouble d | None \<Rightarrow> VString val))"

subsection \<open>Conditions\<close>

text \<open>\<^verbatim>\<open>std::string::find\<close>\<close>

fun str_find :: "string \<Rightarrow> string \<Rightarrow> nat option" where
  "str_find pat [] = (if pat = [] then Some 0 else None)"
| "str_find pat (c # s) = (if prefix pat (c # s) then Some 0 else map_option Suc (str_find pat s))"

definition kOperators :: "(string \<times> FilterOp) list" where
  "kOperators = [(''!='', kNe), (''>='', kGe), (''<='', kLe), (''='', kEq), (''>'', kGt), (''<'', kLt), ('':'', kEq)]"

definition better_op :: "string \<Rightarrow> string \<times> FilterOp \<Rightarrow> (nat \<times> string \<times> FilterOp) option \<Rightarrow> (nat \<times> string \<times> FilterOp) option" where
  "better_op pair candidate selected =
     (case str_find (fst candidate) pair of
        None \<Rightarrow> selected
      | Some pos \<Rightarrow>
          (case selected of
             None \<Rightarrow> Some (pos, candidate)
           | Some (operator_pos, txt, _) \<Rightarrow>
               if pos < operator_pos \<or> pos = operator_pos \<and> length txt < length (fst candidate) then Some (pos, candidate) else selected))"

definition select_op :: "string \<Rightarrow> (nat \<times> string \<times> FilterOp) option" where
  "select_op pair = fold (better_op pair) kOperators None"

text \<open>The items of \<^verbatim>\<open>in(a|b|c)\<close>; an empty one is refused.\<close>

function parse_items :: "strtod_fun \<Rightarrow> string \<Rightarrow> fl MetadataValue list option" where
  "parse_items strtod s =
     (let item = takeWhile (\<lambda>c. c \<noteq> CHR ''|'') s; rest = dropWhile (\<lambda>c. c \<noteq> CHR ''|'') s
      in if item = [] then None
         else if rest = [] then Some [ParseValue strtod item]
         else map_option ((#) (ParseValue strtod item)) (parse_items strtod (tl rest)))"
  by pat_completeness auto
termination
proof (relation "measure (\<lambda>(strtod, s). length s)", simp)
  fix s item rest :: string and strtod :: strtod_fun
  assume "rest = dropWhile (\<lambda>c. c \<noteq> CHR ''|'') s" "rest \<noteq> []"
  then have "length (tl rest) < length rest" "length rest \<le> length s" by (simp_all add: length_dropWhile_le)
  then show "((strtod, tl rest), strtod, s) \<in> measure (\<lambda>(strtod, s). length s)" by simp
qed

declare parse_items.simps [simp del]

definition ParseCondition :: "strtod_fun \<Rightarrow> string \<Rightarrow> FilterCondition option" where
  "ParseCondition strtod pair =
     (case select_op pair of
        None \<Rightarrow> None
      | Some (operator_pos, txt, opr) \<Rightarrow>
          if operator_pos = 0 then None
          else let field = take operator_pos pair; val = drop (operator_pos + length txt) pair
               in if val = [] then None
                  else if opr = kEq \<and> 5 \<le> length val \<and> prefix ''in('' val \<and> last val = CHR '')''
                  then map_option (\<lambda>vs. \<lparr>fc_field = field, fc_op = kIn, fc_value = VString [], fc_values = vs\<rparr>)
                         (parse_items strtod (take (length val - 4) (drop 3 val)))
                  else Some \<lparr>fc_field = field, fc_op = opr, fc_value = ParseValue strtod val, fc_values = []\<rparr>)"

lemma dropWhile_shorter: "s \<noteq> [] \<Longrightarrow> length (dropWhile P s) - Suc 0 < length s"
  using length_dropWhile_le [of P s] by (cases s) auto

function parse_conditions :: "strtod_fun \<Rightarrow> string \<Rightarrow> FilterCondition list expected" where
  "parse_conditions strtod s =
     (if s = [] then Inr []
      else let pair = takeWhile (\<lambda>c. c \<noteq> CHR '','') s; rest = tl (dropWhile (\<lambda>c. c \<noteq> CHR '','') s)
           in if pair = [] then parse_conditions strtod rest
              else case ParseCondition strtod pair of
                     None \<Rightarrow> Inl (MakeError kCommandParseError (''Invalid filter condition: '' @ [CHR 0x27] @ pair @ [CHR 0x27]))
                   | Some cond \<Rightarrow> map_sum (\<lambda>e. e) ((#) cond) (parse_conditions strtod rest))"
  by pat_completeness auto
termination
  by (relation "measure (\<lambda>(strtod, s). length s)") (simp_all add: dropWhile_shorter)

declare parse_conditions.simps [simp del]

definition ParseSimpleFilter :: "strtod_fun \<Rightarrow> string \<Rightarrow> FilterCondition list expected" where
  "ParseSimpleFilter strtod expr = parse_conditions strtod expr"

subsection \<open>Printing and parsing\<close>

text \<open>A condition as text: the field, the operator and the texts of its values.\<close>

record cond_text =
  ct_field :: string
  ct_op :: FilterOp
  ct_values :: "string list"

definition op_chars :: "char set" where
  "op_chars = {CHR ''!'', CHR ''='', CHR ''<'', CHR ''>'', CHR '':''}"

fun op_text :: "FilterOp \<Rightarrow> string" where
  "op_text kNe = ''!=''"
| "op_text kGe = ''>=''"
| "op_text kLe = ''<=''"
| "op_text kEq = ''=''"
| "op_text kGt = ''>''"
| "op_text kLt = ''<''"
| "op_text kIn = ''=''"

fun join_with :: "char \<Rightarrow> string list \<Rightarrow> string" where
  "join_with c [] = []"
| "join_with c [x] = x"
| "join_with c (x # y # xs) = x @ c # join_with c (y # xs)"

definition val_text :: "cond_text \<Rightarrow> string" where
  "val_text c = (if ct_op c = kIn then ''in('' @ join_with (CHR ''|'') (ct_values c) @ '')'' else hd (ct_values c))"

definition cond_print :: "cond_text \<Rightarrow> string" where
  "cond_print c = ct_field c @ op_text (ct_op c) @ val_text c"

definition cond_ok :: "cond_text \<Rightarrow> bool" where
  "cond_ok c \<longleftrightarrow> ct_field c \<noteq> [] \<and> set (ct_field c) \<inter> insert (CHR '','') op_chars = {} \<and> ct_values c \<noteq> [] \<and>
     (\<forall>t \<in> set (ct_values c). t \<noteq> [] \<and> CHR '','' \<notin> set t) \<and>
     (if ct_op c = kIn then \<forall>t \<in> set (ct_values c). CHR ''|'' \<notin> set t
      else length (ct_values c) = 1 \<and> hd (hd (ct_values c)) \<noteq> CHR ''='' \<and> \<not> prefix ''in('' (hd (ct_values c)))"

definition cond_meaning :: "strtod_fun \<Rightarrow> cond_text \<Rightarrow> FilterCondition" where
  "cond_meaning strtod c =
     (if ct_op c = kIn
      then \<lparr>fc_field = ct_field c, fc_op = kIn, fc_value = VString [], fc_values = map (ParseValue strtod) (ct_values c)\<rparr>
      else \<lparr>fc_field = ct_field c, fc_op = ct_op c, fc_value = ParseValue strtod (hd (ct_values c)), fc_values = []\<rparr>)"

lemma str_find_skip:
  "\<lbrakk>pat \<noteq> []; hd pat \<notin> set f\<rbrakk> \<Longrightarrow> str_find pat (f @ s) = map_option (\<lambda>n. length f + n) (str_find pat s)"
proof (induction f)
  case (Cons c f)
  then have "\<not> prefix pat (c # f @ s)" by (cases pat) auto
  then show ?case using Cons by (simp add: option.map_comp comp_def)
qed (simp add: map_option_case split: option.split)

lemma op_chars_hd: "o' \<in> set kOperators \<Longrightarrow> fst o' \<noteq> [] \<and> hd (fst o') \<in> op_chars"
  by (auto simp: kOperators_def op_chars_def)

lemma select_op_skip:
  assumes "set f \<inter> op_chars = {}"
  shows "select_op (f @ s) = map_option (map_prod (\<lambda>n. length f + n) (\<lambda>x. x)) (select_op s)"
proof -
  let ?m = "map_option (map_prod (\<lambda>n. length f + n) (\<lambda>x. x)) :: (nat \<times> string \<times> FilterOp) option \<Rightarrow> _"
  have "better_op (f @ s) o' (?m b) = ?m (better_op s o' b)" if "o' \<in> set kOperators" for o' b
  proof -
    have "hd (fst o') \<notin> set f" using op_chars_hd [OF that] assms by auto
    then have "str_find (fst o') (f @ s) = map_option (\<lambda>n. length f + n) (str_find (fst o') s)"
      using op_chars_hd [OF that] by (intro str_find_skip) auto
    then show ?thesis by (auto simp: better_op_def split: option.split)
  qed
  then have "fold (better_op (f @ s)) os (?m b) = ?m (fold (better_op s) os b)" if "set os \<subseteq> set kOperators" for os b
    using that by (induction os arbitrary: b) auto
  from this [of kOperators None] show ?thesis by (simp add: select_op_def)
qed

lemma select_stays:
  "\<forall>x \<in> set os. x \<noteq> (t, opr) \<and> str_find (fst x) p = Some 0 \<longrightarrow> length (fst x) < length t \<Longrightarrow>
     fold (better_op p) os (Some (0, t, opr)) = Some (0, t, opr)"
  by (induction os) (auto simp: better_op_def split: option.split)

lemma select_first:
  "\<lbrakk>(t, opr) \<in> set os; str_find t p = Some 0;
    \<forall>x \<in> set os. x \<noteq> (t, opr) \<and> str_find (fst x) p = Some 0 \<longrightarrow> length (fst x) < length t;
    case b of None \<Rightarrow> True | Some (q, t', _) \<Rightarrow> 0 < q \<or> length t' < length t\<rbrakk> \<Longrightarrow>
   fold (better_op p) os b = Some (0, t, opr)"
proof (induction os arbitrary: b)
  case (Cons x os)
  show ?case
  proof (cases "x = (t, opr)")
    case True
    then have "better_op p x b = Some (0, t, opr)" using Cons.prems(2,4) by (auto simp: better_op_def split: option.splits)
    then show ?thesis using select_stays [of os t opr p] Cons.prems(3) by simp
  next
    case False
    then have "case better_op p x b of None \<Rightarrow> True | Some (q, t', _) \<Rightarrow> 0 < q \<or> length t' < length t"
      using Cons.prems(3,4) by (auto simp: better_op_def split: option.splits if_splits)
    then show ?thesis using Cons False by simp
  qed
qed simp

lemma prefix_at: "str_find t p = Some 0 \<longleftrightarrow> prefix t p"
  by (cases p) auto

lemma select_op_text:
  assumes "v \<noteq> []" "hd v \<noteq> CHR ''=''"
  shows "select_op (op_text opr @ v) = Some (0, op_text opr, if opr = kIn then kEq else opr)"
proof -
  obtain c w where v: "v = c # w" "c \<noteq> CHR ''=''" using assms by (cases v) auto
  have "(op_text opr, if opr = kIn then kEq else opr) \<in> set kOperators" by (cases opr) (simp_all add: kOperators_def)
  moreover have "length (fst x) < length (op_text opr)"
    if "x \<in> set kOperators" "x \<noteq> (op_text opr, if opr = kIn then kEq else opr)" "prefix (fst x) (op_text opr @ v)" for x
    using that v by (cases opr) (auto simp: kOperators_def)
  ultimately show ?thesis unfolding select_op_def
    by (intro select_first) (auto simp: prefix_at)
qed

lemma takeWhile_sep: "c \<notin> set x \<Longrightarrow> takeWhile (\<lambda>d. d \<noteq> c) (x @ c # y) = x"
  by (metis (mono_tags, lifting) append_Nil2 takeWhile.simps(2) takeWhile_append2)

lemma dropWhile_sep: "c \<notin> set x \<Longrightarrow> dropWhile (\<lambda>d. d \<noteq> c) (x @ c # y) = c # y"
  by (metis (mono_tags, lifting) dropWhile.simps(2) dropWhile_append2)

lemma while_none: "c \<notin> set x \<Longrightarrow> takeWhile (\<lambda>d. d \<noteq> c) x = x" "c \<notin> set x \<Longrightarrow> dropWhile (\<lambda>d. d \<noteq> c) x = []"
  by (auto simp: takeWhile_eq_all_conv dropWhile_eq_Nil_conv)

lemma parse_items_join:
  "\<lbrakk>ts \<noteq> []; \<forall>t \<in> set ts. t \<noteq> [] \<and> CHR ''|'' \<notin> set t\<rbrakk> \<Longrightarrow>
     parse_items strtod (join_with (CHR ''|'') ts) = Some (map (ParseValue strtod) ts)"
proof (induction ts rule: join_with.induct [of "\<lambda>_. _" "CHR ''|''"])
  case (2 c x)
  then show ?case by (subst parse_items.simps) (simp add: while_none Let_def)
next
  case (3 c x y xs)
  then show ?case by (subst parse_items.simps) (simp add: takeWhile_sep dropWhile_sep Let_def)
qed simp

lemma val_text_ok: "cond_ok c \<Longrightarrow> val_text c \<noteq> [] \<and> hd (val_text c) \<noteq> CHR ''=''"
  by (cases "ct_values c") (auto simp: cond_ok_def val_text_def)

lemma ParseCondition_print:
  assumes ok: "cond_ok c"
  shows "ParseCondition strtod (cond_print c) = Some (cond_meaning strtod c)"
proof -
  let ?v = "val_text c" and ?o = "ct_op c" and ?f = "ct_field c"
  have v: "?v \<noteq> []" "hd ?v \<noteq> CHR ''=''" using val_text_ok [OF ok] by auto
  have "set ?f \<inter> op_chars = {}" "?f \<noteq> []" using ok by (auto simp: cond_ok_def)
  then have sel: "select_op (cond_print c) = Some (length ?f, op_text ?o, if ?o = kIn then kEq else ?o)" "length ?f \<noteq> 0"
    by (simp_all add: cond_print_def select_op_skip select_op_text [OF v])
  have parts: "take (length ?f) (cond_print c) = ?f" "drop (length ?f + length (op_text ?o)) (cond_print c) = ?v"
    by (simp_all add: cond_print_def)
  show ?thesis
  proof (cases "?o = kIn")
    case True
    let ?l = "join_with (CHR ''|'') (ct_values c)"
    have vt: "?v = ''in('' @ ?l @ '')''" using True by (simp add: val_text_def)
    have items: "parse_items strtod ?l = Some (map (ParseValue strtod) (ct_values c))"
      using ok True by (intro parse_items_join) (auto simp: cond_ok_def)
    then have "?l \<noteq> []" by (auto simp: parse_items.simps)
    then have "5 \<le> length ?v" "take (length ?v - 4) (drop 3 ?v) = ?l" by (simp_all add: vt Suc_le_eq)
    moreover have "prefix ''in('' ?v" "last ?v = CHR '')''" by (simp_all add: vt)
    ultimately show ?thesis using sel(2) v(1) True items
      unfolding ParseCondition_def sel(1) option.case prod.case parts Let_def by (simp add: cond_meaning_def)
  next
    case False
    then have "?v = hd (ct_values c)" "\<not> prefix ''in('' ?v" using ok by (auto simp: val_text_def cond_ok_def)
    then show ?thesis using sel(2) v(1) False
      unfolding ParseCondition_def sel(1) option.case prod.case parts Let_def by (simp add: cond_meaning_def)
  qed
qed

lemma join_comma: "\<forall>t \<in> set ts. CHR '','' \<notin> set t \<Longrightarrow> c \<noteq> CHR '','' \<Longrightarrow> CHR '','' \<notin> set (join_with c ts)"
  by (induction c ts rule: join_with.induct) auto

lemma cond_print_no_comma:
  assumes "cond_ok c"
  shows "CHR '','' \<notin> set (cond_print c)" "cond_print c \<noteq> []"
proof -
  have "CHR '','' \<notin> set (op_text (ct_op c))" by (cases "ct_op c") simp_all
  moreover have "CHR '','' \<notin> set (val_text c)"
    using assms join_comma [of "ct_values c" "CHR ''|''"] by (cases "ct_values c") (auto simp: val_text_def cond_ok_def)
  ultimately show "CHR '','' \<notin> set (cond_print c)" using assms by (auto simp: cond_print_def cond_ok_def)
  show "cond_print c \<noteq> []" using assms by (simp add: cond_print_def cond_ok_def)
qed

lemma parse_conditions_join:
  "\<forall>c \<in> set cs. cond_ok c \<Longrightarrow>
     parse_conditions strtod (join_with (CHR '','') (map cond_print cs)) = Inr (map (cond_meaning strtod) cs)"
proof (induction cs rule: induct_list012)
  case 1
  then show ?case by (simp add: parse_conditions.simps)
next
  case (2 c)
  then show ?case using cond_print_no_comma [of c]
    by (subst parse_conditions.simps) (simp add: while_none ParseCondition_print Let_def parse_conditions.simps [of strtod "[]"])
next
  case (3 c d cs)
  then show ?case using cond_print_no_comma [of c]
    by (subst parse_conditions.simps) (simp add: takeWhile_sep dropWhile_sep ParseCondition_print Let_def)
qed

subsection \<open>Integers\<close>

lemma dec_digit_show: "list_all dec_digit (show_nat n)"
  using show_nat_digits [of _ n] by (auto simp: list_all_iff dec_digit_def)

lemma dec_value_snoc: "dec_value (s @ [c]) = 10 * dec_value s + (of_char c - 48)"
  by (simp add: dec_value_def)

lemma dec_value_show: "dec_value (show_nat n) = n"
proof (induction n rule: show_nat.induct)
  case (1 n)
  have digit: "of_char (char_of (48 + k) :: char) = 48 + k" if "k < 10" for k :: nat using that by (simp add: take_bit_eq_mod)
  show ?case
  proof (cases "n < 10")
    case True
    then show ?thesis by (simp add: show_nat.simps [of n] dec_value_def digit)
  next
    case False
    then show ?thesis using 1 digit [of "n mod 10"] by (simp add: show_nat.simps [of n] dec_value_snoc)
  qed
qed

lemma strtoll_digits:
  assumes ds: "ds = show_nat n" and sg: "sg = [] \<or> sg = ''-''"
  shows "strtoll (sg @ ds) =
    (let v = (if sg = [] then int n else - int n)
     in Some (max (- (2 ^ 63)) (min (2 ^ 63 - 1) v), [], v < - (2 ^ 63) \<or> 2 ^ 63 \<le> v))"
proof -
  have all: "list_all dec_digit ds" using dec_digit_show ds by simp
  have "ds \<noteq> []" using ds by simp
  then obtain d t where dt: "ds = d # t" by (cases ds) auto
  then have d: "dec_digit d" using all by simp
  have tw: "takeWhile dec_digit ds = ds" "dropWhile dec_digit ds = []"
    using all by (auto simp: takeWhile_eq_all_conv dropWhile_eq_Nil_conv list_all_iff)
  have sp: "\<not> is_space d" "d \<noteq> CHR ''-''" "d \<noteq> CHR ''+''" using d by (auto simp: dec_digit_def is_space_def)
  have head: "dropWhile is_space (sg @ ds) = sg @ ds" "(sg @ ds \<noteq> [] \<and> hd (sg @ ds) = CHR ''-'') = (sg \<noteq> [])"
    "(if sg @ ds \<noteq> [] \<and> hd (sg @ ds) \<in> {CHR ''-'', CHR ''+''} then tl (sg @ ds) else sg @ ds) = ds"
    using sg sp by (auto simp: dt is_space_def)
  show ?thesis unfolding strtoll_def Let_def head tw using dec_value_show [of n] ds by (simp add: dt)
qed

lemma c_str_show_int: "c_str (show_int i) = show_int i"
proof -
  have "(of_char c :: nat) \<noteq> 0" if "c \<in> set (show_nat n)" for c n using show_nat_digits [OF that] by auto
  then show ?thesis by (auto simp: c_str_def show_int_def takeWhile_eq_all_conv)
qed

lemma ParseValue_int: "ParseValue strtod (show_int (sint i)) = VInt64 i"
proof -
  have range: "- (2 ^ 63) \<le> sint i" "sint i < 2 ^ 63" using sint_greater_eq [of i] sint_less [of i] by simp_all
  have "converted (strtoll (show_int (sint i))) = Some (sint i)"
    using strtoll_digits [of _ "nat (sint i)" "[]"] strtoll_digits [of _ "nat (- sint i)" "''-''"] range
    by (cases "sint i < 0") (auto simp: show_int_def converted_def Let_def)
  moreover have "show_int j \<noteq> ''true''" "show_int j \<noteq> ''false''" for j
    using show_nat_digits [of "CHR ''e''"] by (auto simp: show_int_def) (metis list.set_intros numeral_le_iff)+
  ultimately show ?thesis by (simp add: ParseValue_def c_str_show_int)
qed

subsection \<open>Properties\<close>

text \<open>
  C32. A printed filter is parsed back: for fields without operator characters and commas and values
  without the separators, the text with one of the six operators or \<^verbatim>\<open>in(...)\<close> per condition gives
  exactly these conditions in order, whatever operators the values contain; and the decimal text of
  any 64-bit integer is read as that integer.
\<close>

theorem filter_roundtrip:
  assumes "\<forall>c \<in> set cs. cond_ok c"
  shows "ParseSimpleFilter strtod (join_with (CHR '','') (map cond_print cs)) = Inr (map (cond_meaning strtod) cs) \<and>
    ParseValue strtod (show_int (sint i)) = VInt64 i"
  using parse_conditions_join [OF assms] ParseValue_int by (simp add: ParseSimpleFilter_def)

theorem filter_roundtrip_witness:
  "ParseSimpleFilter (\<lambda>_. None) ''price>=cheap,status=in(a|b)'' =
     Inr [\<lparr>fc_field = ''price'', fc_op = kGe, fc_value = ParseValue (\<lambda>_. None) ''cheap'', fc_values = []\<rparr>,
          \<lparr>fc_field = ''status'', fc_op = kIn, fc_value = VString [],
           fc_values = [ParseValue (\<lambda>_. None) ''a'', ParseValue (\<lambda>_. None) ''b'']\<rparr>]"
proof -
  let ?cs = "[\<lparr>ct_field = ''price'', ct_op = kGe, ct_values = [''cheap'']\<rparr>, \<lparr>ct_field = ''status'', ct_op = kIn, ct_values = [''a'', ''b'']\<rparr>]"
  have "\<forall>c \<in> set ?cs. cond_ok c" by (simp add: cond_ok_def op_chars_def)
  from filter_roundtrip [OF this, of "\<lambda>_. None" 0] show ?thesis
    by (simp add: cond_print_def val_text_def cond_meaning_def)
qed

end
