(* ===== verification/SimilarityCache.thy ===== *)
theory SimilarityCache
  imports ResultCompressor Floats Lru
begin

text \<open>
  The cache of similarity search results (\<^verbatim>\<open>src/cache/similarity_cache.cpp\<close>) and its controller
  (\<^verbatim>\<open>src/cache/similarity_cache_controller.cpp\<close>): an LRU map from cache keys to encoded results,
  bounded by an estimate of its memory, with a time to live per entry, policies per search type
  and a reverse index from item ids to the keys of the entries that mention them.

  The theory shows that the recency list, the map, the reverse index and the counters always
  agree, that the estimate stays within the limit, that a lookup returns exactly the results that
  were inserted and nothing expired or invalidated, that invalidation by item removes every entry
  that mentions the item, and that a lookup that runs concurrently with other operations never
  disturbs a newer entry.

  Time is an argument of the operations (nanoseconds of the steady clock and, for the latency
  statistics, the measured milliseconds).  How many bytes the containers occupy depends on the
  implementation of the standard library: \<open>MemModel\<close> stands for it, as a function of their
  contents.
\<close>

subsection \<open>State\<close>

record CacheKey =
  hash_high :: u64
  hash_low :: u64

datatype SearchType = kItemSearch | kVectorSearch | kFilteredSearch

record CachePolicy =
  cp_enabled :: bool
  cp_ttl_seconds :: int

record CachedEntry =
  ce_compressed_data :: bytes
  ce_compressed :: bool
  ce_original_size :: nat
  ce_query_cost_ms :: fl
  ce_created_at :: int
  ce_expires_at :: "int option"  \<comment> \<open>\<open>None\<close> is \<^verbatim>\<open>time_point::max()\<close>\<close>
  ce_invalidated :: bool
  ce_referenced_item_ids :: "string list"

record CacheStatistics =
  ct_total_queries :: u64
  ct_cache_hits :: u64
  ct_cache_misses :: u64
  ct_cache_misses_invalidated :: u64
  ct_cache_misses_not_found :: u64
  ct_current_entries :: u64
  ct_current_memory_bytes :: nat
  ct_evictions :: u64
  ct_ttl_expirations :: u64
  ct_decompression_failures :: u64
  ct_per_type_queries :: "SearchType \<Rightarrow> u64"
  ct_per_type_hits :: "SearchType \<Rightarrow> u64"
  ct_total_cache_hit_time_ms :: fl
  ct_total_cache_miss_time_ms :: fl
  ct_total_query_saved_time_ms :: fl

type_synonym cache_map = "(CacheKey, CachedEntry) umap"
type_synonym reverse_index = "(string, CacheKey list) umap"

record SimilarityCache =
  sm_lru_list :: "CacheKey list"
  sm_cache_map :: cache_map
  sm_max_memory_bytes :: nat
  sm_compression_enabled :: bool
  sm_eviction_batch_size :: nat
  sm_min_query_cost_ms :: fl
  sm_ttl_seconds :: int
  sm_enabled :: bool
  sm_item_to_cache_keys :: reverse_index
  sm_policies :: "SearchType \<Rightarrow> CachePolicy"
  sm_total_memory_bytes :: nat
  sm_stats :: CacheStatistics

text \<open>Sizes of the library's objects: of one entry on its own, and of the whole cache.\<close>

record MemModel =
  mm_entry :: "bytes \<Rightarrow> nat"
  mm_total :: "cache_map \<Rightarrow> reverse_index \<Rightarrow> nat"

definition stats_zero :: CacheStatistics where
  "stats_zero = \<lparr>ct_total_queries = 0, ct_cache_hits = 0, ct_cache_misses = 0, ct_cache_misses_invalidated = 0,
     ct_cache_misses_not_found = 0, ct_current_entries = 0, ct_current_memory_bytes = 0, ct_evictions = 0,
     ct_ttl_expirations = 0, ct_decompression_failures = 0, ct_per_type_queries = (\<lambda>t. 0),
     ct_per_type_hits = (\<lambda>t. 0), ct_total_cache_hit_time_ms = Fin 0, ct_total_cache_miss_time_ms = Fin 0,
     ct_total_query_saved_time_ms = Fin 0\<rparr>"

fun default_policy :: "SearchType \<Rightarrow> CachePolicy" where
  "default_policy kItemSearch = \<lparr>cp_enabled = True, cp_ttl_seconds = 0\<rparr>"
| "default_policy kVectorSearch = \<lparr>cp_enabled = False, cp_ttl_seconds = 0\<rparr>"
| "default_policy kFilteredSearch = \<lparr>cp_enabled = True, cp_ttl_seconds = 60\<rparr>"

definition sm_new :: "nat \<Rightarrow> fl \<Rightarrow> int \<Rightarrow> bool \<Rightarrow> nat \<Rightarrow> SimilarityCache" where
  "sm_new max_memory min_cost ttl compression batch =
     \<lparr>sm_lru_list = [], sm_cache_map = [], sm_max_memory_bytes = max_memory,
      sm_compression_enabled = compression, sm_eviction_batch_size = max 1 batch,
      sm_min_query_cost_ms = min_cost, sm_ttl_seconds = ttl, sm_enabled = True,
      sm_item_to_cache_keys = [], sm_policies = default_policy, sm_total_memory_bytes = 0,
      sm_stats = stats_zero\<rparr>"

definition stat :: "(CacheStatistics \<Rightarrow> CacheStatistics) \<Rightarrow> SimilarityCache \<Rightarrow> SimilarityCache" where
  "stat f s = s\<lparr>sm_stats := f (sm_stats s)\<rparr>"

subsection \<open>Memory, erasing, evicting\<close>

definition EstimateMemoryLocked :: "MemModel \<Rightarrow> SimilarityCache \<Rightarrow> nat" where
  "EstimateMemoryLocked mm s =
     (if sm_cache_map s = [] \<and> sm_item_to_cache_keys s = [] then 0
      else mm_total mm (sm_cache_map s) (sm_item_to_cache_keys s))"

definition RefreshMemoryLocked :: "MemModel \<Rightarrow> SimilarityCache \<Rightarrow> SimilarityCache" where
  "RefreshMemoryLocked mm s =
     (let bytes = EstimateMemoryLocked mm s
      in stat (ct_current_memory_bytes_update (\<lambda>_. bytes)) (s\<lparr>sm_total_memory_bytes := bytes\<rparr>))"

definition rev_drop :: "CacheKey \<Rightarrow> string \<Rightarrow> reverse_index \<Rightarrow> reverse_index" where
  "rev_drop key ref_id ridx =
     (case um_find ridx ref_id of
        None \<Rightarrow> ridx
      | Some keys \<Rightarrow>
          let keys' = removeAll key keys
          in if keys' = [] then um_erase ref_id ridx else um_set ref_id keys' ridx)"

definition EraseLocked :: "MemModel \<Rightarrow> CacheKey \<Rightarrow> SimilarityCache \<Rightarrow> bool \<times> SimilarityCache" where
  "EraseLocked mm key s =
     (case um_find (sm_cache_map s) key of
        None \<Rightarrow> (False, s)
      | Some entry \<Rightarrow>
          (True, RefreshMemoryLocked mm (stat (\<lambda>t. t\<lparr>ct_current_entries := ct_current_entries t - 1\<rparr>)
             (s\<lparr>sm_item_to_cache_keys := fold (rev_drop key) (ce_referenced_item_ids entry) (sm_item_to_cache_keys s),
               sm_lru_list := remove1 key (sm_lru_list s),
               sm_cache_map := um_erase key (sm_cache_map s)\<rparr>))))"

definition sm_over :: "nat \<Rightarrow> SimilarityCache \<Rightarrow> bool" where
  "sm_over required s \<longleftrightarrow> sm_max_memory_bytes s < sm_total_memory_bytes s + required"

text \<open>The eviction loop, with the number of entries it has evicted so far.\<close>

function evict_loop :: "MemModel \<Rightarrow> nat \<Rightarrow> nat \<Rightarrow> SimilarityCache \<Rightarrow> SimilarityCache" where
  "evict_loop mm required evicted s =
     (if (sm_over required s \<or> evicted < sm_eviction_batch_size s) \<and> sm_lru_list s \<noteq> []
      then let lru_key = last (sm_lru_list s)
           in case um_find (sm_cache_map s) lru_key of
                None \<Rightarrow> evict_loop mm required evicted (s\<lparr>sm_lru_list := butlast (sm_lru_list s)\<rparr>)
              | Some entry \<Rightarrow>
                  evict_loop mm required (Suc evicted)
                    (stat (\<lambda>t. t\<lparr>ct_evictions := ct_evictions t + 1\<rparr>) (snd (EraseLocked mm lru_key s)))
      else s)"
  by pat_completeness auto
termination
proof (relation "measure (\<lambda>(mm, required, evicted, s). length (sm_lru_list s))")
  fix mm required evicted s lru_key entry
  assume "(sm_over required s \<or> evicted < sm_eviction_batch_size s) \<and> sm_lru_list s \<noteq> []"
    "lru_key = last (sm_lru_list s)" "um_find (sm_cache_map s) lru_key = Some entry"
  then show "((mm, required, Suc evicted,
        stat (\<lambda>t. t\<lparr>ct_evictions := ct_evictions t + 1\<rparr>) (snd (EraseLocked mm lru_key s))),
      mm, required, evicted, s) \<in> measure (\<lambda>(mm, required, evicted, s). length (sm_lru_list s))"
    by (simp add: EraseLocked_def stat_def RefreshMemoryLocked_def Let_def length_remove1)
qed auto

declare evict_loop.simps [simp del]

definition EvictForSpace :: "MemModel \<Rightarrow> nat \<Rightarrow> SimilarityCache \<Rightarrow> bool \<times> SimilarityCache" where
  "EvictForSpace mm required s =
     (if \<not> sm_over required s then (True, s)
      else let s' = evict_loop mm required 0 s in (\<not> sm_over required s', s'))"

definition Touch :: "CacheKey \<Rightarrow> SimilarityCache \<Rightarrow> SimilarityCache" where
  "Touch key s =
     (case um_find (sm_cache_map s) key of
        None \<Rightarrow> s
      | Some entry \<Rightarrow> s\<lparr>sm_lru_list := splice_front key (sm_lru_list s)\<rparr>)"

subsection \<open>Lookup\<close>

text \<open>
  \<^verbatim>\<open>LookupWithTtl\<close> reads under the shared lock, releases it and acquires the exclusive lock to
  finish: other operations can run in between.  The two halves are two steps here; what the second
  needs from the first is the plan.
\<close>

datatype lookup_plan =
    LookupDone
  | LookupErase int  \<comment> \<open>erase the entry created at this time\<close>
  | LookupTouch int fl  \<comment> \<open>touch it and record the cost it saved\<close>

definition age_seconds :: "int \<Rightarrow> int \<Rightarrow> int" where
  "age_seconds now created = (now - created) div 1000000000"

definition ttl_expired :: "int \<Rightarrow> int \<Rightarrow> CachedEntry \<Rightarrow> bool" where
  "ttl_expired now ttl entry \<longleftrightarrow>
     (case ce_expires_at entry of None \<Rightarrow> False | Some t \<Rightarrow> t \<le> now) \<or>
     0 < ttl \<and> ttl \<le> age_seconds now (ce_created_at entry)"

definition decode_entry :: "Lz4 \<Rightarrow> CachedEntry \<Rightarrow> result list expected" where
  "decode_entry lz entry =
     (if ce_compressed entry then DecompressSimilarityResults lz (ce_compressed_data entry) (ce_original_size entry)
      else DeserializeSimilarityResults (ce_compressed_data entry))"

definition miss :: "(CacheStatistics \<Rightarrow> CacheStatistics) \<Rightarrow> SimilarityCache \<Rightarrow> SimilarityCache" where
  "miss f s = stat (\<lambda>t. f (t\<lparr>ct_cache_misses := ct_cache_misses t + 1\<rparr>)) s"

definition lookup_read ::
    "Lz4 \<Rightarrow> CacheKey \<Rightarrow> int \<Rightarrow> int \<Rightarrow> SimilarityCache \<Rightarrow> (result list option \<times> lookup_plan) \<times> SimilarityCache" where
  "lookup_read lz key ttl now s =
     (let s0 = stat (\<lambda>t. t\<lparr>ct_total_queries := ct_total_queries t + 1\<rparr>) s
      in case um_find (sm_cache_map s) key of
           None \<Rightarrow>
             ((None, LookupDone),
              miss (\<lambda>t. t\<lparr>ct_cache_misses_not_found := ct_cache_misses_not_found t + 1\<rparr>) s0)
         | Some entry \<Rightarrow>
             if ce_invalidated entry
             then ((None, LookupDone),
                   miss (\<lambda>t. t\<lparr>ct_cache_misses_invalidated := ct_cache_misses_invalidated t + 1\<rparr>) s0)
             else if ttl_expired now ttl entry
             then ((None, LookupErase (ce_created_at entry)),
                   miss (\<lambda>t. t\<lparr>ct_cache_misses_not_found := ct_cache_misses_not_found t + 1,
                              ct_ttl_expirations := ct_ttl_expirations t + 1\<rparr>) s0)
             else case decode_entry lz entry of
                    Inl e \<Rightarrow>
                      ((None, LookupErase (ce_created_at entry)),
                       miss (\<lambda>t. t\<lparr>ct_cache_misses_not_found := ct_cache_misses_not_found t + 1,
                                  ct_decompression_failures := ct_decompression_failures t + 1\<rparr>) s0)
                  | Inr result \<Rightarrow>
                      ((Some result, LookupTouch (ce_created_at entry) (ce_query_cost_ms entry)),
                       stat (\<lambda>t. t\<lparr>ct_cache_hits := ct_cache_hits t + 1\<rparr>) s0))"

definition same_entry :: "CacheKey \<Rightarrow> int \<Rightarrow> SimilarityCache \<Rightarrow> bool" where
  "same_entry key created s \<longleftrightarrow>
     (case um_find (sm_cache_map s) key of None \<Rightarrow> False | Some entry \<Rightarrow> ce_created_at entry = created)"

fun lookup_finish ::
    "MemModel \<Rightarrow> CacheKey \<Rightarrow> result list option \<Rightarrow> lookup_plan \<Rightarrow> fl \<Rightarrow> SimilarityCache \<Rightarrow> SimilarityCache" where
  "lookup_finish mm key res LookupDone elapsed s =
     stat (\<lambda>t. t\<lparr>ct_total_cache_miss_time_ms := fl_add F64 (ct_total_cache_miss_time_ms t) elapsed\<rparr>) s"
| "lookup_finish mm key res (LookupErase created) elapsed s =
     stat (\<lambda>t. t\<lparr>ct_total_cache_miss_time_ms := fl_add F64 (ct_total_cache_miss_time_ms t) elapsed\<rparr>)
       (if same_entry key created s then snd (EraseLocked mm key s) else s)"
| "lookup_finish mm key res (LookupTouch created cost) elapsed s =
     (if same_entry key created s
      then stat (\<lambda>t. t\<lparr>ct_total_cache_hit_time_ms := fl_add F64 (ct_total_cache_hit_time_ms t) elapsed,
                      ct_total_query_saved_time_ms := fl_add F64 (ct_total_query_saved_time_ms t) cost\<rparr>)
             (Touch key s)
      else s)"

definition LookupWithTtl ::
    "MemModel \<Rightarrow> Lz4 \<Rightarrow> CacheKey \<Rightarrow> int \<Rightarrow> int \<Rightarrow> fl \<Rightarrow> SimilarityCache \<Rightarrow> result list option \<times> SimilarityCache" where
  "LookupWithTtl mm lz key ttl now elapsed s =
     (if \<not> sm_enabled s then (None, s)
      else let ((res, plan), s1) = lookup_read lz key ttl now s
           in (res, lookup_finish mm key res plan elapsed s1))"

definition effective_ttl :: "SearchType \<Rightarrow> SimilarityCache \<Rightarrow> int" where
  "effective_ttl ty s =
     (if 0 < cp_ttl_seconds (sm_policies s ty) then cp_ttl_seconds (sm_policies s ty) else sm_ttl_seconds s)"

definition sm_Lookup ::
    "MemModel \<Rightarrow> Lz4 \<Rightarrow> CacheKey \<Rightarrow> SearchType \<Rightarrow> int \<Rightarrow> fl \<Rightarrow> SimilarityCache \<Rightarrow> result list option \<times> SimilarityCache" where
  "sm_Lookup mm lz key ty now elapsed s =
     (if \<not> cp_enabled (sm_policies s ty) then (None, s)
      else let s0 = stat (\<lambda>t. t\<lparr>ct_per_type_queries := (ct_per_type_queries t)(ty := ct_per_type_queries t ty + 1)\<rparr>) s;
               (res, s1) = LookupWithTtl mm lz key (effective_ttl ty s) now elapsed s0
           in (res, if res \<noteq> None
                    then stat (\<lambda>t. t\<lparr>ct_per_type_hits := (ct_per_type_hits t)(ty := ct_per_type_hits t ty + 1)\<rparr>) s1
                    else s1))"

subsection \<open>Insertion\<close>

definition ComputeExpiry :: "int \<Rightarrow> int \<Rightarrow> int option" where
  "ComputeExpiry ttl now = (if ttl \<le> 0 then None else Some (now + ttl * 1000000000))"

definition kMaxTrackedItemsPerEntry :: nat where
  "kMaxTrackedItemsPerEntry = 50"

text \<open>The ids that get registered, and the reverse index with the key under each of them.\<close>

fun register_ids :: "string list \<Rightarrow> string list \<Rightarrow> string list" where
  "register_ids refs [] = refs"
| "register_ids refs (i # ids) =
     (if kMaxTrackedItemsPerEntry \<le> length refs then refs
      else if i \<in> set refs then register_ids refs ids
      else register_ids (refs @ [i]) ids)"

definition rev_add :: "CacheKey \<Rightarrow> string \<Rightarrow> reverse_index \<Rightarrow> reverse_index" where
  "rev_add key i ridx =
     um_set i (case um_find ridx i of None \<Rightarrow> [key] | Some keys \<Rightarrow> List.insert key keys) ridx"

definition RegisterResultItemsLocked :: "CacheKey \<Rightarrow> CachedEntry \<Rightarrow> string list \<Rightarrow> SimilarityCache \<Rightarrow> SimilarityCache" where
  "RegisterResultItemsLocked key entry item_ids s =
     (let refs = ce_referenced_item_ids entry; refs' = register_ids refs item_ids
      in s\<lparr>sm_cache_map := um_set key (entry\<lparr>ce_referenced_item_ids := refs'\<rparr>) (sm_cache_map s),
           sm_item_to_cache_keys := fold (rev_add key) (drop (length refs) refs') (sm_item_to_cache_keys s)\<rparr>)"

definition RegisterResultItems :: "MemModel \<Rightarrow> CacheKey \<Rightarrow> string list \<Rightarrow> SimilarityCache \<Rightarrow> SimilarityCache" where
  "RegisterResultItems mm key item_ids s =
     (case um_find (sm_cache_map s) key of
        None \<Rightarrow> s
      | Some entry \<Rightarrow>
          snd (EvictForSpace mm 0 (RefreshMemoryLocked mm (RegisterResultItemsLocked key entry item_ids s))))"

definition encode_results :: "Lz4 \<Rightarrow> SimilarityCache \<Rightarrow> result list \<Rightarrow> bytes expected" where
  "encode_results lz s results =
     (if sm_compression_enabled s then CompressSimilarityResults lz results else SerializeSimilarityResults results)"

abbreviation SIZE_MAX :: nat where
  "SIZE_MAX \<equiv> 18446744073709551615"

definition InsertWithTtl ::
    "MemModel \<Rightarrow> Lz4 \<Rightarrow> CacheKey \<Rightarrow> result list \<Rightarrow> fl \<Rightarrow> int \<Rightarrow> string list option \<Rightarrow> int \<Rightarrow> int \<Rightarrow> SimilarityCache
       \<Rightarrow> bool \<times> SimilarityCache" where
  "InsertWithTtl mm lz key results cost ttl item_ids now now2 s =
     (if \<not> sm_enabled s then (False, s)
      else if fl_less cost (sm_min_query_cost_ms s) then (False, s)
      else case encode_results lz s results of
             Inl e \<Rightarrow> (False, s)
           | Inr compressed \<Rightarrow>
               if SIZE_MAX div kSerializedResultSize < length results then (False, s)
               else if sm_max_memory_bytes s < mm_entry mm compressed then (False, s)
               else if um_find (sm_cache_map s) key \<noteq> None then (False, s)
               else let (fits, s1) = (if sm_over (mm_entry mm compressed) s
                                      then EvictForSpace mm (mm_entry mm compressed) s else (True, s))
                    in if \<not> fits then (False, s1)
                       else let entry = \<lparr>ce_compressed_data = compressed, ce_compressed = sm_compression_enabled s,
                                  ce_original_size = length results * kSerializedResultSize,
                                  ce_query_cost_ms = cost, ce_created_at = now,
                                  ce_expires_at = ComputeExpiry ttl now2, ce_invalidated = False,
                                  ce_referenced_item_ids = []\<rparr>;
                                s2 = stat (\<lambda>t. t\<lparr>ct_current_entries := ct_current_entries t + 1\<rparr>)
                                       (s1\<lparr>sm_lru_list := key # sm_lru_list s1,
                                           sm_cache_map := um_set key entry (sm_cache_map s1)\<rparr>);
                                s3 = (case item_ids of
                                        None \<Rightarrow> s2
                                      | Some ids \<Rightarrow> RegisterResultItemsLocked key entry ids s2);
                                s4 = snd (EvictForSpace mm 0 (RefreshMemoryLocked mm s3))
                            in (um_find (sm_cache_map s4) key \<noteq> None, s4))"

definition sm_Insert ::
    "MemModel \<Rightarrow> Lz4 \<Rightarrow> CacheKey \<Rightarrow> result list \<Rightarrow> fl \<Rightarrow> SearchType \<Rightarrow> int \<Rightarrow> int \<Rightarrow> SimilarityCache \<Rightarrow> bool \<times> SimilarityCache" where
  "sm_Insert mm lz key results cost ty now now2 s =
     (if \<not> cp_enabled (sm_policies s ty) then (False, s)
      else InsertWithTtl mm lz key results cost (effective_ttl ty s) None now now2 s)"

definition InsertAndRegister ::
    "MemModel \<Rightarrow> Lz4 \<Rightarrow> CacheKey \<Rightarrow> result list \<Rightarrow> string list \<Rightarrow> fl \<Rightarrow> SearchType \<Rightarrow> int \<Rightarrow> int \<Rightarrow> SimilarityCache
       \<Rightarrow> bool \<times> SimilarityCache" where
  "InsertAndRegister mm lz key results item_ids cost ty now now2 s =
     (if \<not> cp_enabled (sm_policies s ty) then (False, s)
      else InsertWithTtl mm lz key results cost (effective_ttl ty s) (Some item_ids) now now2 s)"

subsection \<open>Invalidation and expiry\<close>

text \<open>Erases a list of keys and counts those that were present.\<close>

fun erase_keys :: "MemModel \<Rightarrow> CacheKey list \<Rightarrow> SimilarityCache \<Rightarrow> nat \<times> SimilarityCache" where
  "erase_keys mm [] s = (0, s)"
| "erase_keys mm (k # ks) s =
     (let (erased, s1) = EraseLocked mm k s; (n, s2) = erase_keys mm ks s1
      in (if erased then Suc n else n, s2))"

definition InvalidateByItemId :: "MemModel \<Rightarrow> string \<Rightarrow> SimilarityCache \<Rightarrow> nat \<times> SimilarityCache" where
  "InvalidateByItemId mm item_id s =
     (case um_find (sm_item_to_cache_keys s) item_id of
        None \<Rightarrow> (0, s)
      | Some keys \<Rightarrow>
          erase_keys mm keys (s\<lparr>sm_item_to_cache_keys := um_erase item_id (sm_item_to_cache_keys s)\<rparr>))"

definition MarkInvalidated :: "CacheKey \<Rightarrow> SimilarityCache \<Rightarrow> bool \<times> SimilarityCache" where
  "MarkInvalidated key s =
     (case um_find (sm_cache_map s) key of
        None \<Rightarrow> (False, s)
      | Some entry \<Rightarrow> (True, s\<lparr>sm_cache_map := um_set key (entry\<lparr>ce_invalidated := True\<rparr>) (sm_cache_map s)\<rparr>))"

definition sm_Clear :: "SimilarityCache \<Rightarrow> SimilarityCache" where
  "sm_Clear s =
     stat (\<lambda>t. t\<lparr>ct_current_entries := 0, ct_current_memory_bytes := 0\<rparr>)
       (s\<lparr>sm_lru_list := [], sm_cache_map := [], sm_item_to_cache_keys := [], sm_total_memory_bytes := 0\<rparr>)"

definition ClearIf :: "MemModel \<Rightarrow> (CacheKey \<Rightarrow> bool) \<Rightarrow> SimilarityCache \<Rightarrow> SimilarityCache" where
  "ClearIf mm pred s = snd (erase_keys mm (filter pred (um_keys (sm_cache_map s))) s)"

definition purge_expired_entry :: "int \<Rightarrow> int \<Rightarrow> CachedEntry \<Rightarrow> bool" where
  "purge_expired_entry now global_ttl entry \<longleftrightarrow> ttl_expired now global_ttl entry \<or> ce_invalidated entry"

definition PurgeExpired :: "MemModel \<Rightarrow> int \<Rightarrow> SimilarityCache \<Rightarrow> nat \<times> SimilarityCache" where
  "PurgeExpired mm now s =
     (let expired = um_keys (filter (\<lambda>(k, e). purge_expired_entry now (sm_ttl_seconds s) e) (sm_cache_map s));
          s1 = snd (erase_keys mm expired s)
      in (length expired,
          stat (\<lambda>t. t\<lparr>ct_ttl_expirations := ct_ttl_expirations t + of_nat (length expired)\<rparr>) s1))"

subsection \<open>Settings\<close>

definition sm_SetTtl :: "int \<Rightarrow> SimilarityCache \<Rightarrow> SimilarityCache" where
  "sm_SetTtl ttl s = s\<lparr>sm_ttl_seconds := ttl\<rparr>"

definition sm_SetMinQueryCost :: "fl \<Rightarrow> SimilarityCache \<Rightarrow> SimilarityCache" where
  "sm_SetMinQueryCost c s = s\<lparr>sm_min_query_cost_ms := c\<rparr>"

definition sm_SetEnabled :: "bool \<Rightarrow> SimilarityCache \<Rightarrow> SimilarityCache" where
  "sm_SetEnabled b s = s\<lparr>sm_enabled := b\<rparr>"

definition SetSearchTypePolicy :: "SearchType \<Rightarrow> CachePolicy \<Rightarrow> SimilarityCache \<Rightarrow> SimilarityCache" where
  "SetSearchTypePolicy ty p s = s\<lparr>sm_policies := (sm_policies s)(ty := p)\<rparr>"

text \<open>The controller: the cache it owns, whether it is published (the server passes a publication
  pointer), and the flag it keeps.\<close>

record CacheController =
  kc_cache :: SimilarityCache
  kc_published :: bool
  kc_enabled :: bool

definition kc_new :: "SimilarityCache \<Rightarrow> bool \<Rightarrow> CacheController" where
  "kc_new cache enabled = \<lparr>kc_cache = sm_SetEnabled enabled cache, kc_published = enabled, kc_enabled = enabled\<rparr>"

definition kc_SetEnabled :: "bool \<Rightarrow> CacheController \<Rightarrow> unit expected \<times> CacheController" where
  "kc_SetEnabled b c = (Inr (), c\<lparr>kc_enabled := b, kc_cache := sm_SetEnabled b (kc_cache c), kc_published := b\<rparr>)"

definition kc_SetMinQueryCost :: "fl \<Rightarrow> CacheController \<Rightarrow> unit expected \<times> CacheController" where
  "kc_SetMinQueryCost cost c =
     (if \<not> isfinite cost \<or> fl_less cost (Fin 0)
      then (Inl (MakeError kInvalidArgument ''cache.min_query_cost_ms must be finite and >= 0''), c)
      else (Inr (), c\<lparr>kc_cache := sm_SetMinQueryCost cost (kc_cache c)\<rparr>))"

definition kc_SetTtl :: "int \<Rightarrow> CacheController \<Rightarrow> unit expected \<times> CacheController" where
  "kc_SetTtl ttl c =
     (if ttl < 0
      then (Inl (MakeError kInvalidArgument ''cache.ttl_seconds must be >= 0''), c)
      else (Inr (), c\<lparr>kc_cache := sm_SetTtl ttl (kc_cache c)\<rparr>))"

definition kc_Clear :: "CacheController \<Rightarrow> unit expected \<times> CacheController" where
  "kc_Clear c = (Inr (), c\<lparr>kc_cache := sm_Clear (kc_cache c)\<rparr>)"

subsection \<open>Invariant\<close>

definition rev_keys :: "reverse_index \<Rightarrow> string \<Rightarrow> CacheKey set" where
  "rev_keys ridx i = (case um_find ridx i of None \<Rightarrow> {} | Some ks \<Rightarrow> set ks)"

definition mentions :: "cache_map \<Rightarrow> string \<Rightarrow> CacheKey set" where
  "mentions m i = {k. \<exists>e. um_find m k = Some e \<and> i \<in> set (ce_referenced_item_ids e)}"

definition rev_wf :: "reverse_index \<Rightarrow> bool" where
  "rev_wf ridx \<longleftrightarrow> um_wf ridx \<and> (\<forall>i ks. um_find ridx i = Some ks \<longrightarrow> ks \<noteq> [] \<and> distinct ks)"

definition refs_wf :: "cache_map \<Rightarrow> bool" where
  "refs_wf m \<longleftrightarrow> (\<forall>k e. um_find m k = Some e \<longrightarrow>
     distinct (ce_referenced_item_ids e) \<and> length (ce_referenced_item_ids e) \<le> kMaxTrackedItemsPerEntry)"

text \<open>
  The containers agree; the ids in \<open>E\<close> have just been taken out of the reverse index by an
  invalidation that is still running.
\<close>

definition sm_core :: "string set \<Rightarrow> SimilarityCache \<Rightarrow> bool" where
  "sm_core E s \<longleftrightarrow>
     lru_wf (sm_lru_list s) (sm_cache_map s) \<and> rev_wf (sm_item_to_cache_keys s) \<and> refs_wf (sm_cache_map s) \<and>
     (\<forall>i. i \<notin> E \<longrightarrow> rev_keys (sm_item_to_cache_keys s) i = mentions (sm_cache_map s) i) \<and>
     (\<forall>i. i \<in> E \<longrightarrow> um_find (sm_item_to_cache_keys s) i = None) \<and>
     ct_current_entries (sm_stats s) = of_nat (um_size (sm_cache_map s)) \<and>
     0 < sm_eviction_batch_size s"

definition sm_measured :: "MemModel \<Rightarrow> SimilarityCache \<Rightarrow> bool" where
  "sm_measured mm s \<longleftrightarrow> sm_total_memory_bytes s = EstimateMemoryLocked mm s \<and>
     ct_current_memory_bytes (sm_stats s) = sm_total_memory_bytes s"

definition sm_counts :: "SimilarityCache \<Rightarrow> bool" where
  "sm_counts s \<longleftrightarrow> ct_cache_hits (sm_stats s) + ct_cache_misses (sm_stats s) = ct_total_queries (sm_stats s)"

definition sm_inv :: "MemModel \<Rightarrow> SimilarityCache \<Rightarrow> bool" where
  "sm_inv mm s \<longleftrightarrow> sm_core {} s \<and> sm_measured mm s \<and>
     sm_total_memory_bytes s \<le> sm_max_memory_bytes s \<and> sm_counts s"

text \<open>
  What the library's containers do to the estimate: taking an element out of a map or a set never
  makes it larger, and the invalidation flag does not count.
\<close>

definition mm_ok :: "MemModel \<Rightarrow> bool" where
  "mm_ok mm \<longleftrightarrow>
     (\<forall>m r k. mm_total mm (um_erase k m) r \<le> mm_total mm m r) \<and>
     (\<forall>m r i. mm_total mm m (um_erase i r) \<le> mm_total mm m r) \<and>
     (\<forall>m r i k ks. um_find r i = Some ks \<longrightarrow> mm_total mm m (um_set i (removeAll k ks) r) \<le> mm_total mm m r) \<and>
     (\<forall>m r k e. um_find m k = Some e \<longrightarrow>
        mm_total mm (um_set k (e\<lparr>ce_invalidated := True\<rparr>) m) r = mm_total mm m r)"

lemma stat_simps [simp]:
  "sm_lru_list (stat f s) = sm_lru_list s" "sm_cache_map (stat f s) = sm_cache_map s"
  "sm_max_memory_bytes (stat f s) = sm_max_memory_bytes s"
  "sm_compression_enabled (stat f s) = sm_compression_enabled s"
  "sm_eviction_batch_size (stat f s) = sm_eviction_batch_size s"
  "sm_min_query_cost_ms (stat f s) = sm_min_query_cost_ms s" "sm_ttl_seconds (stat f s) = sm_ttl_seconds s"
  "sm_enabled (stat f s) = sm_enabled s" "sm_item_to_cache_keys (stat f s) = sm_item_to_cache_keys s"
  "sm_policies (stat f s) = sm_policies s" "sm_total_memory_bytes (stat f s) = sm_total_memory_bytes s"
  "sm_stats (stat f s) = f (sm_stats s)"
  by (simp_all add: stat_def)

lemma refresh_simps [simp]:
  "sm_lru_list (RefreshMemoryLocked mm s) = sm_lru_list s" "sm_cache_map (RefreshMemoryLocked mm s) = sm_cache_map s"
  "sm_max_memory_bytes (RefreshMemoryLocked mm s) = sm_max_memory_bytes s"
  "sm_compression_enabled (RefreshMemoryLocked mm s) = sm_compression_enabled s"
  "sm_eviction_batch_size (RefreshMemoryLocked mm s) = sm_eviction_batch_size s"
  "sm_item_to_cache_keys (RefreshMemoryLocked mm s) = sm_item_to_cache_keys s"
  "sm_total_memory_bytes (RefreshMemoryLocked mm s) = EstimateMemoryLocked mm s"
  "ct_current_entries (sm_stats (RefreshMemoryLocked mm s)) = ct_current_entries (sm_stats s)"
  "ct_cache_hits (sm_stats (RefreshMemoryLocked mm s)) = ct_cache_hits (sm_stats s)"
  "ct_cache_misses (sm_stats (RefreshMemoryLocked mm s)) = ct_cache_misses (sm_stats s)"
  "ct_total_queries (sm_stats (RefreshMemoryLocked mm s)) = ct_total_queries (sm_stats s)"
  "EstimateMemoryLocked mm (RefreshMemoryLocked mm s) = EstimateMemoryLocked mm s"
  "sm_core E (RefreshMemoryLocked mm s) = sm_core E s"
  "sm_measured mm (RefreshMemoryLocked mm s)"
  "sm_counts (RefreshMemoryLocked mm s) = sm_counts s"
  by (simp_all add: RefreshMemoryLocked_def Let_def EstimateMemoryLocked_def sm_core_def sm_measured_def sm_counts_def)

lemma rev_wf_drop: "rev_wf r \<Longrightarrow> rev_wf (rev_drop k i r)"
  by (auto simp: rev_wf_def rev_drop_def Let_def distinct_removeAll split: option.splits)

lemma removeAll_Nil: "removeAll k xs = [] \<Longrightarrow> set xs \<subseteq> {k}"
  by (metis Diff_eq_empty_iff empty_set set_removeAll)

lemma rev_keys_drop: "rev_keys (rev_drop k i r) j = (if j = i then rev_keys r j - {k} else rev_keys r j)"
  by (auto simp: rev_keys_def rev_drop_def Let_def split: option.splits dest: removeAll_Nil)

lemma find_rev_drop_None: "um_find r j = None \<Longrightarrow> um_find (rev_drop k i r) j = None"
  by (auto simp: rev_drop_def Let_def split: option.splits)

lemma rev_drops:
  assumes "rev_wf r"
  shows "rev_wf (fold (rev_drop k) ids r)"
    and "rev_keys (fold (rev_drop k) ids r) j = (if j \<in> set ids then rev_keys r j - {k} else rev_keys r j)"
    and "um_find r j = None \<Longrightarrow> um_find (fold (rev_drop k) ids r) j = None"
  using assms
  by (induction ids arbitrary: r) (auto simp: rev_wf_drop rev_keys_drop find_rev_drop_None)

lemma mentions_erase: "mentions (um_erase k m) i = mentions m i - {k}"
  by (auto simp: mentions_def)

lemma lru_wf_remove: "\<lbrakk>lru_wf lru m; um_find m k = Some e\<rbrakk> \<Longrightarrow> lru_wf (remove1 k lru) (um_erase k m)"
  by (auto simp: lru_wf_def)

lemma EraseLocked_core:
  assumes core: "sm_core E s" and key: "um_find (sm_cache_map s) key = Some e"
  shows "sm_core E (snd (EraseLocked mm key s))"
proof -
  let ?s = "snd (EraseLocked mm key s)" and ?r = "sm_item_to_cache_keys s"
  have wf: "lru_wf (sm_lru_list s) (sm_cache_map s)" "rev_wf ?r" "refs_wf (sm_cache_map s)"
    using core by (simp_all add: sm_core_def)
  have map': "sm_cache_map ?s = um_erase key (sm_cache_map s)" and lru': "sm_lru_list ?s = remove1 key (sm_lru_list s)"
    and rev': "sm_item_to_cache_keys ?s = fold (rev_drop key) (ce_referenced_item_ids e) ?r"
    and cnt': "ct_current_entries (sm_stats ?s) = ct_current_entries (sm_stats s) - 1"
    and bat': "sm_eviction_batch_size ?s = sm_eviction_batch_size s"
    by (simp_all add: EraseLocked_def key)
  have rk: "rev_keys (sm_item_to_cache_keys ?s) i = mentions (sm_cache_map ?s) i" if "i \<notin> E" for i
  proof -
    have "rev_keys ?r i = mentions (sm_cache_map s) i" using core that by (simp add: sm_core_def)
    moreover have "key \<notin> mentions (sm_cache_map s) i" if "i \<notin> set (ce_referenced_item_ids e)"
      using that key by (simp add: mentions_def)
    ultimately show ?thesis unfolding rev' map' mentions_erase rev_drops(2) [OF wf(2)] by auto
  qed
  obtain n where n: "um_size (sm_cache_map s) = Suc n" using key by (cases "sm_cache_map s") auto
  have "um_size (um_erase key (sm_cache_map s)) = um_size (sm_cache_map s) - 1"
    using wf(1) lru_wf_mem [OF wf(1) key] by (simp add: um_size_erase lru_wf_def)
  then have "ct_current_entries (sm_stats ?s) = of_nat (um_size (sm_cache_map ?s))"
    using core n unfolding cnt' map' by (simp add: sm_core_def)
  moreover have "refs_wf (sm_cache_map ?s)" using wf(3) unfolding map' refs_wf_def by simp
  moreover have "um_find (sm_item_to_cache_keys ?s) i = None" if "i \<in> E" for i
    using core that rev_drops(3) [OF wf(2)] unfolding rev' by (simp add: sm_core_def)
  ultimately show ?thesis
    using core rk lru_wf_remove [OF wf(1) key] rev_drops(1) [OF wf(2)]
    unfolding sm_core_def lru' map' rev' bat' by simp
qed

lemma EraseLocked_simps [simp]:
  "um_find (sm_cache_map (snd (EraseLocked mm key s))) k = (if k = key then None else um_find (sm_cache_map s) k)"
  "sm_max_memory_bytes (snd (EraseLocked mm key s)) = sm_max_memory_bytes s"
  "sm_eviction_batch_size (snd (EraseLocked mm key s)) = sm_eviction_batch_size s"
  "sm_compression_enabled (snd (EraseLocked mm key s)) = sm_compression_enabled s"
  "sm_counts (snd (EraseLocked mm key s)) = sm_counts s"
  "fst (EraseLocked mm key s) = (um_find (sm_cache_map s) key \<noteq> None)"
  by (auto simp: EraseLocked_def sm_counts_def split: option.split)

lemma EraseLocked_measured:
  "um_find (sm_cache_map s) key \<noteq> None \<Longrightarrow> sm_measured mm (snd (EraseLocked mm key s))"
  "sm_measured mm s \<Longrightarrow> sm_measured mm (snd (EraseLocked mm key s))"
  by (auto simp: EraseLocked_def split: option.split)

lemma EraseLocked_keeps_core: "sm_core E s \<Longrightarrow> sm_core E (snd (EraseLocked mm key s))"
  by (cases "um_find (sm_cache_map s) key") (simp add: EraseLocked_def, rule EraseLocked_core)

lemma mm_total_drops: "mm_ok mm \<Longrightarrow> mm_total mm m (fold (rev_drop k) ids r) \<le> mm_total mm m r"
proof (induction ids arbitrary: r)
  case (Cons i ids)
  have "mm_total mm m (rev_drop k i r) \<le> mm_total mm m r"
    using Cons.prems unfolding rev_drop_def Let_def mm_ok_def by (auto split: option.split)
  then show ?case using Cons.IH [OF Cons.prems, of "rev_drop k i r"] by simp
qed simp

lemma EraseLocked_estimate:
  assumes "mm_ok mm"
  shows "EstimateMemoryLocked mm (snd (EraseLocked mm key s)) \<le> EstimateMemoryLocked mm s"
proof (cases "um_find (sm_cache_map s) key")
  case (Some e)
  then have "sm_cache_map s \<noteq> []" by auto
  moreover have "mm_total mm (um_erase key (sm_cache_map s))
      (fold (rev_drop key) (ce_referenced_item_ids e) (sm_item_to_cache_keys s)) \<le>
      mm_total mm (sm_cache_map s) (sm_item_to_cache_keys s)"
    using mm_total_drops [OF assms] assms unfolding mm_ok_def by (meson order_trans)
  ultimately show ?thesis by (simp add: EraseLocked_def Some EstimateMemoryLocked_def)
qed (simp add: EraseLocked_def)


subsection \<open>Eviction\<close>

definition sm_settings :: "SimilarityCache \<Rightarrow> SimilarityCache \<Rightarrow> bool" where
  "sm_settings s s' \<longleftrightarrow> sm_max_memory_bytes s' = sm_max_memory_bytes s \<and>
     sm_compression_enabled s' = sm_compression_enabled s \<and> sm_eviction_batch_size s' = sm_eviction_batch_size s \<and>
     sm_min_query_cost_ms s' = sm_min_query_cost_ms s \<and> sm_ttl_seconds s' = sm_ttl_seconds s \<and>
     sm_enabled s' = sm_enabled s \<and> sm_policies s' = sm_policies s"

text \<open>What eviction leaves: the most recently used keys, with their entries.\<close>

definition sm_evicted :: "SimilarityCache \<Rightarrow> SimilarityCache \<Rightarrow> bool" where
  "sm_evicted s s' \<longleftrightarrow> sm_settings s s' \<and> (\<exists>n. sm_lru_list s' = take n (sm_lru_list s)) \<and>
     (\<forall>k. um_find (sm_cache_map s') k =
        (if k \<in> set (sm_lru_list s') then um_find (sm_cache_map s) k else None))"

lemma sm_settings_refl [simp]: "sm_settings s s"
  by (simp add: sm_settings_def)

lemma sm_settings_trans: "\<lbrakk>sm_settings s t; sm_settings t u\<rbrakk> \<Longrightarrow> sm_settings s u"
  by (simp add: sm_settings_def)

lemma sm_settings_stat [simp]: "sm_settings s (stat f t) = sm_settings s t"
  by (simp add: sm_settings_def)

lemma sm_settings_erase [simp]: "sm_settings s (snd (EraseLocked mm k s))"
  by (auto simp: sm_settings_def EraseLocked_def RefreshMemoryLocked_def Let_def split: option.split)

lemma sm_core_dom: "sm_core E s \<Longrightarrow> set (sm_lru_list s) = dom (um_find (sm_cache_map s))"
  by (simp add: sm_core_def lru_wf_dom)

lemma sm_evicted_refl: "sm_core E s \<Longrightarrow> sm_evicted s s"
  by (auto simp: sm_evicted_def dom_def sm_core_dom intro: exI [of _ "length (sm_lru_list s)"])

lemma sm_evicted_trans: "\<lbrakk>sm_evicted s t; sm_evicted t u\<rbrakk> \<Longrightarrow> sm_evicted s u"
proof -
  assume a: "sm_evicted s t" "sm_evicted t u"
  then obtain m n where mn: "sm_lru_list t = take m (sm_lru_list s)" "sm_lru_list u = take n (sm_lru_list t)"
    unfolding sm_evicted_def by blast
  then have sub: "k \<in> set (sm_lru_list t)" if "k \<in> set (sm_lru_list u)" for k
    using that by (metis in_set_takeD)
  have "sm_lru_list u = take (min n m) (sm_lru_list s)" using mn by simp
  moreover have "um_find (sm_cache_map u) k =
      (if k \<in> set (sm_lru_list u) then um_find (sm_cache_map s) k else None)" for k
    using a sub [of k] unfolding sm_evicted_def by simp
  ultimately show "sm_evicted s u"
    using a sm_settings_trans unfolding sm_evicted_def by blast
qed

lemma sm_evicted_last:
  assumes "sm_core E s" "sm_lru_list s \<noteq> []"
  shows "sm_evicted s (stat f (snd (EraseLocked mm (last (sm_lru_list s)) s)))"
proof -
  let ?k = "last (sm_lru_list s)"
  have d: "distinct (sm_lru_list s)" using assms(1) by (simp add: sm_core_def lru_wf_def)
  have k: "?k \<in> set (sm_lru_list s)" using assms(2) by simp
  then obtain e where e: "um_find (sm_cache_map s) ?k = Some e" using sm_core_dom [OF assms(1)] by auto
  have "remove1 ?k (sm_lru_list s) = butlast (sm_lru_list s)"
    using d assms(2) by (cases "sm_lru_list s" rule: rev_cases) (auto simp: remove1_append)
  then have lru: "sm_lru_list (snd (EraseLocked mm ?k s)) = butlast (sm_lru_list s)"
    by (simp add: EraseLocked_def e)
  have set: "set (butlast (sm_lru_list s)) = set (sm_lru_list s) - {?k}"
    using d assms(2) by (rule set_butlast_distinct)
  show ?thesis
    unfolding sm_evicted_def stat_simps lru
    using set sm_core_dom [OF assms(1)]
    by (auto simp: butlast_conv_take dom_def)
qed

lemma evict_loop_spec:
  "\<lbrakk>sm_core {} s; sm_measured mm s\<rbrakk> \<Longrightarrow>
     (let s' = evict_loop mm required evicted s
      in sm_core {} s' \<and> sm_measured mm s' \<and> sm_evicted s s' \<and> sm_counts s' = sm_counts s \<and>
         (\<not> sm_over required s' \<or> sm_lru_list s' = []))"
proof (induction mm required evicted s rule: evict_loop.induct)
  case (1 mm required evicted s)
  let ?go = "(sm_over required s \<or> evicted < sm_eviction_batch_size s) \<and> sm_lru_list s \<noteq> []"
  show ?case
  proof (cases ?go)
    case False
    then show ?thesis using 1 sm_evicted_refl [OF "1.prems"(1)] by (auto simp: evict_loop.simps [of mm required evicted s])
  next
    case True
    let ?k = "last (sm_lru_list s)"
    let ?s = "stat (\<lambda>t. t\<lparr>ct_evictions := ct_evictions t + 1\<rparr>) (snd (EraseLocked mm ?k s))"
    obtain e where e: "um_find (sm_cache_map s) ?k = Some e"
      using True sm_core_dom [OF "1.prems"(1)] last_in_set by blast
    have core: "sm_core {} ?s" using EraseLocked_core [OF "1.prems"(1) e, of mm] by (simp add: sm_core_def)
    have meas: "sm_measured mm ?s"
      using EraseLocked_measured(2) [OF "1.prems"(2), of ?k] by (simp add: sm_measured_def EstimateMemoryLocked_def)
    have cnt: "sm_counts ?s = sm_counts s"
      using EraseLocked_simps(5) [of mm ?k s] by (simp add: sm_counts_def)
    have step: "evict_loop mm required evicted s = evict_loop mm required (Suc evicted) ?s"
      using True e by (subst evict_loop.simps) (simp add: Let_def)
    have "sm_evicted s ?s" using True by (intro sm_evicted_last [OF "1.prems"(1)]) simp
    then show ?thesis
      using "1.IH"(2) [OF True refl e core meas] sm_evicted_trans cnt unfolding step Let_def by blast
  qed
qed

lemma sm_core_empty:
  assumes "sm_core {} s" "sm_lru_list s = []"
  shows "EstimateMemoryLocked mm s = 0"
proof -
  have map: "sm_cache_map s = []" using assms by (simp add: sm_core_def lru_wf_def)
  have "um_find (sm_item_to_cache_keys s) i = None" for i
  proof (rule ccontr)
    assume "um_find (sm_item_to_cache_keys s) i \<noteq> None"
    then obtain ks where "um_find (sm_item_to_cache_keys s) i = Some ks" by blast
    moreover have "rev_keys (sm_item_to_cache_keys s) i = {}"
      using assms(1) map by (simp add: sm_core_def mentions_def)
    moreover have "rev_wf (sm_item_to_cache_keys s)" using assms(1) by (simp add: sm_core_def)
    ultimately show False unfolding rev_wf_def rev_keys_def by force
  qed
  then have "sm_item_to_cache_keys s = []" by (metis list.exhaust map_of_eq_None_iff image_eqI list.set_intros(1) option.simps(3) surj_pair)
  with map show ?thesis by (simp add: EstimateMemoryLocked_def)
qed

lemma EvictForSpace_spec:
  assumes "sm_core {} s" "sm_measured mm s"
  shows "sm_core {} (snd (EvictForSpace mm required s))"
    "sm_measured mm (snd (EvictForSpace mm required s))"
    "sm_evicted s (snd (EvictForSpace mm required s))"
    "sm_counts (snd (EvictForSpace mm required s)) = sm_counts s"
    "sm_total_memory_bytes (snd (EvictForSpace mm required s)) \<le> sm_max_memory_bytes s"
    "fst (EvictForSpace mm required s) = (\<not> sm_over required (snd (EvictForSpace mm required s)))"
proof -
  note loop = evict_loop_spec [OF assms, of required 0, unfolded Let_def]
  show core: "sm_core {} (snd (EvictForSpace mm required s))"
    and meas: "sm_measured mm (snd (EvictForSpace mm required s))"
    and ev: "sm_evicted s (snd (EvictForSpace mm required s))"
    and "sm_counts (snd (EvictForSpace mm required s)) = sm_counts s"
    and "fst (EvictForSpace mm required s) = (\<not> sm_over required (snd (EvictForSpace mm required s)))"
    using loop assms sm_evicted_refl [OF assms(1)] by (simp_all add: EvictForSpace_def Let_def)
  have max: "sm_max_memory_bytes (snd (EvictForSpace mm required s)) = sm_max_memory_bytes s"
    using ev by (simp add: sm_evicted_def sm_settings_def)
  have "\<not> sm_over required (snd (EvictForSpace mm required s)) \<or> sm_lru_list (snd (EvictForSpace mm required s)) = []"
    using loop by (simp add: EvictForSpace_def Let_def)
  then show "sm_total_memory_bytes (snd (EvictForSpace mm required s)) \<le> sm_max_memory_bytes s"
    using sm_core_empty [OF core] meas max by (auto simp: sm_over_def sm_measured_def)
qed

subsection \<open>Registration and insertion\<close>

lemma register_ids_spec:
  "\<lbrakk>distinct refs; length refs \<le> kMaxTrackedItemsPerEntry\<rbrakk> \<Longrightarrow>
     \<exists>new. register_ids refs ids = refs @ new \<and> distinct (refs @ new) \<and>
       length (refs @ new) \<le> kMaxTrackedItemsPerEntry \<and> set new \<subseteq> set ids \<and>
       (card (set refs \<union> set ids) \<le> kMaxTrackedItemsPerEntry \<longrightarrow> set (refs @ new) = set refs \<union> set ids)"
proof (induction ids arbitrary: refs)
  case (Cons i ids)
  consider (full) "kMaxTrackedItemsPerEntry \<le> length refs"
    | (old) "length refs < kMaxTrackedItemsPerEntry" "i \<in> set refs"
    | (new) "length refs < kMaxTrackedItemsPerEntry" "i \<notin> set refs" by linarith
  then show ?case
  proof cases
    case full
    have "set refs = set refs \<union> set (i # ids)"
      if "card (set refs \<union> set (i # ids)) \<le> kMaxTrackedItemsPerEntry"
    proof (rule card_subset_eq)
      show "card (set refs) = card (set refs \<union> set (i # ids))"
      proof -
        have "card (set refs) \<le> card (set refs \<union> set (i # ids))" by (rule card_mono) auto
        then show ?thesis using that full Cons.prems distinct_card [of refs] by linarith
      qed
    qed auto
    then show ?thesis using full Cons.prems by (intro exI [of _ "[]"]) auto
  next
    case old
    then show ?thesis using Cons.IH [OF Cons.prems] by (auto simp: insert_absorb)
  next
    case new
    then obtain more where "register_ids (refs @ [i]) ids = (refs @ [i]) @ more" "distinct ((refs @ [i]) @ more)"
      "length ((refs @ [i]) @ more) \<le> kMaxTrackedItemsPerEntry" "set more \<subseteq> set ids"
      "card (set (refs @ [i]) \<union> set ids) \<le> kMaxTrackedItemsPerEntry \<longrightarrow>
         set ((refs @ [i]) @ more) = set (refs @ [i]) \<union> set ids"
      using Cons.IH [of "refs @ [i]"] Cons.prems by auto
    then show ?thesis using new by (intro exI [of _ "i # more"]) auto
  qed
qed auto

lemma rev_wf_add: "rev_wf r \<Longrightarrow> rev_wf (rev_add k i r)"
  by (auto simp: rev_wf_def rev_add_def List.insert_def split: option.splits if_splits)

lemma rev_keys_add: "rev_keys (rev_add k i r) j = (if j = i then insert k (rev_keys r j) else rev_keys r j)"
  by (auto simp: rev_keys_def rev_add_def split: option.splits)

lemma rev_adds:
  assumes "rev_wf r"
  shows "rev_wf (fold (rev_add k) ids r)"
    and "rev_keys (fold (rev_add k) ids r) j = (if j \<in> set ids then insert k (rev_keys r j) else rev_keys r j)"
  using assms by (induction ids arbitrary: r) (auto simp: rev_wf_add rev_keys_add)

lemma register_core:
  assumes core: "sm_core {} s" and key: "um_find (sm_cache_map s) key = Some entry"
  shows "sm_core {} (RegisterResultItemsLocked key entry ids s)"
proof -
  let ?refs = "ce_referenced_item_ids entry" and ?s = "RegisterResultItemsLocked key entry ids s"
  let ?m = "sm_cache_map s"
  have wf: "lru_wf (sm_lru_list s) ?m" "rev_wf (sm_item_to_cache_keys s)" "refs_wf ?m"
    using core by (simp_all add: sm_core_def)
  have refs: "distinct ?refs" "length ?refs \<le> kMaxTrackedItemsPerEntry" using wf(3) key by (auto simp: refs_wf_def)
  obtain new where new: "register_ids ?refs ids = ?refs @ new" "distinct (?refs @ new)"
    "length (?refs @ new) \<le> kMaxTrackedItemsPerEntry"
    using register_ids_spec [OF refs] by blast
  define e' where "e' = entry\<lparr>ce_referenced_item_ids := ?refs @ new\<rparr>"
  have map': "sm_cache_map ?s = um_set key e' ?m"
    and rev': "sm_item_to_cache_keys ?s = fold (rev_add key) new (sm_item_to_cache_keys s)"
    and rest: "sm_lru_list ?s = sm_lru_list s" "sm_stats ?s = sm_stats s" "sm_eviction_batch_size ?s = sm_eviction_batch_size s"
    by (simp_all add: RegisterResultItemsLocked_def Let_def new(1) e'_def)
  have mem: "key \<in> fst ` set ?m" using lru_wf_mem [OF wf(1) key] by simp
  have "lru_wf (sm_lru_list s) (um_set key e' ?m)" using wf(1) mem by (simp add: lru_wf_def insert_absorb)
  moreover have "um_size (um_set key e' ?m) = um_size ?m" using wf(1) mem by (simp add: lru_wf_def um_size_set)
  moreover have "refs_wf (um_set key e' ?m)" using wf(3) new by (auto simp: refs_wf_def e'_def)
  moreover have "rev_keys (fold (rev_add key) new (sm_item_to_cache_keys s)) i = mentions (um_set key e' ?m) i" for i
  proof -
    have "rev_keys (sm_item_to_cache_keys s) i = mentions ?m i" using core by (simp add: sm_core_def)
    moreover have "mentions (um_set key e' ?m) i = (if i \<in> set new then insert key (mentions ?m i) else mentions ?m i)"
      using key by (auto simp: mentions_def e'_def split: if_splits)
    ultimately show ?thesis unfolding rev_adds(2) [OF wf(2)] by simp
  qed
  ultimately show ?thesis
    using core rev_adds(1) [OF wf(2)] unfolding sm_core_def map' rev' rest by simp
qed

lemma push_core:
  assumes core: "sm_core {} s" and key: "um_find (sm_cache_map s) key = None" and refs: "ce_referenced_item_ids entry = []"
  shows "sm_core {} (stat (\<lambda>t. t\<lparr>ct_current_entries := ct_current_entries t + 1\<rparr>)
     (s\<lparr>sm_lru_list := key # sm_lru_list s, sm_cache_map := um_set key entry (sm_cache_map s)\<rparr>))"
proof -
  have "mentions (um_set key entry (sm_cache_map s)) i = mentions (sm_cache_map s) i" for i
    using key refs by (auto simp: mentions_def)
  moreover have "um_size (um_set key entry (sm_cache_map s)) = Suc (um_size (sm_cache_map s))"
    using core key by (simp add: sm_core_def lru_wf_def um_size_set um_find_None)
  ultimately show ?thesis
    using core lru_wf_push [of "sm_lru_list s" "sm_cache_map s" key] key refs
    by (auto simp: sm_core_def refs_wf_def kMaxTrackedItemsPerEntry_def)
qed

lemma evicted_find: "\<lbrakk>sm_evicted s s'; um_find (sm_cache_map s) k = None\<rbrakk> \<Longrightarrow> um_find (sm_cache_map s') k = None"
  unfolding sm_evicted_def by (metis (full_types))

lemma evicted_keeps: "\<lbrakk>sm_evicted s s'; um_find (sm_cache_map s') k = Some e\<rbrakk> \<Longrightarrow> um_find (sm_cache_map s) k = Some e"
  unfolding sm_evicted_def by (metis (full_types) option.distinct(1))

text \<open>The entry that an insertion stores.\<close>

definition new_entry :: "bytes \<Rightarrow> bool \<Rightarrow> nat \<Rightarrow> fl \<Rightarrow> int \<Rightarrow> int \<Rightarrow> int \<Rightarrow> CachedEntry" where
  "new_entry data compressed n cost ttl now now2 =
     \<lparr>ce_compressed_data = data, ce_compressed = compressed, ce_original_size = n * kSerializedResultSize,
      ce_query_cost_ms = cost, ce_created_at = now, ce_expires_at = ComputeExpiry ttl now2,
      ce_invalidated = False, ce_referenced_item_ids = []\<rparr>"

lemma InsertWithTtl_spec:
  assumes "sm_inv mm s"
  shows "let (ok, s') = InsertWithTtl mm lz key results cost ttl item_ids now now2 s
    in sm_inv mm s' \<and> sm_settings s s' \<and>
       (\<forall>k e. k \<noteq> key \<longrightarrow> um_find (sm_cache_map s') k = Some e \<longrightarrow> um_find (sm_cache_map s) k = Some e) \<and>
       (ok \<longrightarrow> (\<exists>data refs. encode_results lz s results = Inr data \<and>
          refs = (case item_ids of None \<Rightarrow> [] | Some ids \<Rightarrow> register_ids [] ids) \<and>
          um_find (sm_cache_map s') key =
            Some (new_entry data (sm_compression_enabled s) (length results) cost ttl now now2
                    \<lparr>ce_referenced_item_ids := refs\<rparr>)))"
proof -
  have inv: "sm_core {} s" "sm_measured mm s" "sm_total_memory_bytes s \<le> sm_max_memory_bytes s" "sm_counts s"
    using assms by (simp_all add: sm_inv_def)
  show ?thesis
  proof (cases "sm_enabled s \<and> \<not> fl_less cost (sm_min_query_cost_ms s) \<and>
      (\<exists>data. encode_results lz s results = Inr data \<and> \<not> SIZE_MAX div kSerializedResultSize < length results \<and>
         \<not> sm_max_memory_bytes s < mm_entry mm data \<and> um_find (sm_cache_map s) key = None)")
    case False
    then have "InsertWithTtl mm lz key results cost ttl item_ids now now2 s = (False, s)"
      by (auto simp: InsertWithTtl_def split: sum.split)
    then show ?thesis using assms by simp
  next
    case True
    then obtain data where d: "encode_results lz s results = Inr data"
      "\<not> SIZE_MAX div kSerializedResultSize < length results"
      "\<not> sm_max_memory_bytes s < mm_entry mm data" "um_find (sm_cache_map s) key = None" by blast
    define p where "p = (if sm_over (mm_entry mm data) s then EvictForSpace mm (mm_entry mm data) s else (True, s))"
    have p: "sm_core {} (snd p)" "sm_measured mm (snd p)" "sm_evicted s (snd p)" "sm_counts (snd p)"
      "sm_total_memory_bytes (snd p) \<le> sm_max_memory_bytes s"
      using EvictForSpace_spec [OF inv(1,2), of "mm_entry mm data"] inv sm_evicted_refl [OF inv(1)]
      by (simp_all add: p_def)
    have set1: "sm_settings s (snd p)" using p(3) by (simp add: sm_evicted_def)
    have keep1: "um_find (sm_cache_map s) k = Some e" if "um_find (sm_cache_map (snd p)) k = Some e" for k e
      using evicted_keeps [OF p(3) that] .
    define e where "e = new_entry data (sm_compression_enabled s) (length results) cost ttl now now2"
    define s2 where "s2 = stat (\<lambda>t. t\<lparr>ct_current_entries := ct_current_entries t + 1\<rparr>)
       ((snd p)\<lparr>sm_lru_list := key # sm_lru_list (snd p), sm_cache_map := um_set key e (sm_cache_map (snd p))\<rparr>)"
    define s3 where "s3 = (case item_ids of None \<Rightarrow> s2 | Some ids \<Rightarrow> RegisterResultItemsLocked key e ids s2)"
    define refs where "refs = (case item_ids of None \<Rightarrow> [] | Some ids \<Rightarrow> register_ids [] ids)"
    define s4 where "s4 = snd (EvictForSpace mm 0 (RefreshMemoryLocked mm s3))"
    have eq: "InsertWithTtl mm lz key results cost ttl item_ids now now2 s =
        (if fst p then (um_find (sm_cache_map s4) key \<noteq> None, s4) else (False, snd p))"
      unfolding s4_def s3_def s2_def e_def new_entry_def using True d
      by (simp add: InsertWithTtl_def Let_def p_def [symmetric] case_prod_unfold)
    have refs0: "ce_referenced_item_ids e = []" by (simp add: e_def new_entry_def)
    have core2: "sm_core {} s2"
      unfolding s2_def by (rule push_core [OF p(1) evicted_find [OF p(3) d(4)] refs0])
    have find2: "um_find (sm_cache_map s2) key = Some e" by (simp add: s2_def)
    have core3: "sm_core {} s3"
      using core2 register_core [OF core2 find2] by (simp add: s3_def split: option.split)
    have set3: "sm_settings s s3"
      using set1 by (simp add: s3_def s2_def sm_settings_def RegisterResultItemsLocked_def Let_def split: option.split)
    have find3: "um_find (sm_cache_map s3) k = (if k = key then Some (e\<lparr>ce_referenced_item_ids := refs\<rparr>)
        else um_find (sm_cache_map (snd p)) k)" for k
      using refs0 by (auto simp: s3_def s2_def refs_def RegisterResultItemsLocked_def Let_def split: option.split)
    have cnt3: "sm_counts s3"
      using p(4) by (simp add: s3_def s2_def sm_counts_def RegisterResultItemsLocked_def Let_def split: option.split)
    have core3': "sm_core {} (RefreshMemoryLocked mm s3)" "sm_measured mm (RefreshMemoryLocked mm s3)"
      using core3 by simp_all
    note ev = EvictForSpace_spec [OF core3', where required = 0, folded s4_def]
    have "sm_settings s3 (RefreshMemoryLocked mm s3)"
      by (simp add: sm_settings_def RefreshMemoryLocked_def Let_def)
    then have set4: "sm_settings s s4"
      using ev(3) set3 sm_settings_trans unfolding sm_evicted_def by blast
    have inv4: "sm_inv mm s4"
      using ev(1,2,4,5) cnt3 set4 set3 by (simp add: sm_inv_def sm_settings_def)
    have find4: "um_find (sm_cache_map s3) k = Some e'" if "um_find (sm_cache_map s4) k = Some e'" for k e'
      using evicted_keeps [OF ev(3) that] by simp
    have other4: "um_find (sm_cache_map s) k = Some e'" if "k \<noteq> key" "um_find (sm_cache_map s4) k = Some e'" for k e'
      using find4 [OF that(2)] find3 [of k] that(1) keep1 by simp
    have own4: "um_find (sm_cache_map s4) key = Some (e\<lparr>ce_referenced_item_ids := refs\<rparr>)"
      if "um_find (sm_cache_map s4) key \<noteq> None"
      using that find4 [of key] find3 [of key] by auto
    have "sm_inv mm (snd p)" using p set1 by (simp add: sm_inv_def sm_settings_def)
    then show ?thesis
      unfolding eq using inv4 set1 set4 other4 own4 keep1 d(1)
      by (cases "fst p") (simp_all add: refs_def [symmetric] e_def [symmetric])
  qed
qed

subsection \<open>Every operation keeps the invariant\<close>

lemma sm_inv_stat:
  assumes "sm_inv mm s" "ct_current_entries (f (sm_stats s)) = ct_current_entries (sm_stats s)"
    "ct_current_memory_bytes (f (sm_stats s)) = ct_current_memory_bytes (sm_stats s)"
    "ct_cache_hits (f (sm_stats s)) + ct_cache_misses (f (sm_stats s)) - ct_total_queries (f (sm_stats s)) =
     ct_cache_hits (sm_stats s) + ct_cache_misses (sm_stats s) - ct_total_queries (sm_stats s)"
  shows "sm_inv mm (stat f s)"
proof -
  have "ct_cache_hits (f (sm_stats s)) + ct_cache_misses (f (sm_stats s)) = ct_total_queries (f (sm_stats s))"
    using assms(1,4) by (simp add: sm_inv_def sm_counts_def)
  then show ?thesis
    using assms(1-3) by (simp add: sm_inv_def sm_core_def sm_measured_def sm_counts_def EstimateMemoryLocked_def)
qed

lemma sm_inv_erase [nv_inv]:
  assumes "mm_ok mm" "sm_inv mm s"
  shows "sm_inv mm (snd (EraseLocked mm key s))"
proof -
  have meas: "sm_measured mm (snd (EraseLocked mm key s))"
    using EraseLocked_measured(2) assms(2) by (simp add: sm_inv_def)
  then have "sm_total_memory_bytes (snd (EraseLocked mm key s)) \<le> sm_max_memory_bytes s"
    using EraseLocked_estimate [OF assms(1), of key s] assms(2) by (simp add: sm_inv_def sm_measured_def)
  then show ?thesis using assms(2) meas EraseLocked_keeps_core by (simp add: sm_inv_def)
qed

lemma sm_inv_erase_keys [nv_inv]:
  "\<lbrakk>mm_ok mm; sm_inv mm s\<rbrakk> \<Longrightarrow> sm_inv mm (snd (erase_keys mm ks s))"
proof (induction ks arbitrary: s)
  case (Cons k ks)
  then have "sm_inv mm (snd (EraseLocked mm k s))" using sm_inv_erase by blast
  then show ?case using Cons.IH [OF Cons.prems(1)] by (simp add: Let_def case_prod_unfold)
qed simp

lemma sm_inv_Touch [nv_inv]: "sm_inv mm s \<Longrightarrow> sm_inv mm (Touch key s)"
proof (cases "um_find (sm_cache_map s) key")
  case (Some e)
  assume inv: "sm_inv mm s"
  then have "key \<in> set (sm_lru_list s)"
    using Some lru_wf_mem [of "sm_lru_list s" "sm_cache_map s" key e] by (simp add: sm_inv_def sm_core_def)
  then show ?thesis using inv Some
    by (simp add: Touch_def sm_inv_def sm_core_def sm_measured_def sm_counts_def EstimateMemoryLocked_def lru_wf_def)
qed (simp add: Touch_def)

lemma stat_stat: "stat f (stat g s) = stat (\<lambda>t. f (g t)) s"
  by (simp add: stat_def)

lemma sm_inv_lookup_read [nv_inv]: "sm_inv mm s \<Longrightarrow> sm_inv mm (snd (lookup_read lz key ttl now s))"
  unfolding lookup_read_def Let_def miss_def stat_stat
  by (auto split: option.split sum.split intro!: sm_inv_stat [of mm s])

lemma sm_inv_lookup_finish [nv_inv]:
  "\<lbrakk>mm_ok mm; sm_inv mm s\<rbrakk> \<Longrightarrow> sm_inv mm (lookup_finish mm key res plan elapsed s)"
  by (cases plan) (auto intro!: sm_inv_stat sm_inv_erase sm_inv_Touch)

lemma sm_inv_LookupWithTtl [nv_inv]:
  assumes "mm_ok mm" "sm_inv mm s"
  shows "sm_inv mm (snd (LookupWithTtl mm lz key ttl now elapsed s))"
proof -
  have "sm_inv mm (snd (lookup_read lz key ttl now s))" using sm_inv_lookup_read [OF assms(2)] .
  then show ?thesis
    using assms sm_inv_lookup_finish [OF assms(1)] by (simp add: LookupWithTtl_def Let_def case_prod_unfold)
qed

lemma sm_inv_Lookup [nv_inv]:
  assumes "mm_ok mm" "sm_inv mm s"
  shows "sm_inv mm (snd (sm_Lookup mm lz key ty now elapsed s))"
proof -
  let ?s0 = "stat (\<lambda>t. t\<lparr>ct_per_type_queries := (ct_per_type_queries t)(ty := ct_per_type_queries t ty + 1)\<rparr>) s"
  have "sm_inv mm ?s0" using assms(2) by (auto intro!: sm_inv_stat)
  then have "sm_inv mm (snd (LookupWithTtl mm lz key (effective_ttl ty s) now elapsed ?s0))"
    by (rule sm_inv_LookupWithTtl [OF assms(1)])
  then show ?thesis
    using assms(2) by (auto simp: sm_Lookup_def Let_def case_prod_unfold intro!: sm_inv_stat)
qed

lemma sm_inv_InsertWithTtl [nv_inv]:
  "sm_inv mm s \<Longrightarrow> sm_inv mm (snd (InsertWithTtl mm lz key results cost ttl item_ids now now2 s))"
  using InsertWithTtl_spec [of mm s lz key results cost ttl item_ids now now2]
  by (simp add: case_prod_unfold Let_def)

lemma sm_inv_Register [nv_inv]:
  assumes "sm_inv mm s"
  shows "sm_inv mm (RegisterResultItems mm key ids s)"
proof (cases "um_find (sm_cache_map s) key")
  case (Some e)
  let ?s = "RegisterResultItemsLocked key e ids s"
  have core: "sm_core {} ?s" using assms by (intro register_core [OF _ Some]) (simp add: sm_inv_def)
  have "sm_counts ?s" using assms by (simp add: sm_inv_def sm_counts_def RegisterResultItemsLocked_def Let_def)
  moreover have "sm_core {} (RefreshMemoryLocked mm ?s)" "sm_measured mm (RefreshMemoryLocked mm ?s)"
    using core by simp_all
  note ev = EvictForSpace_spec [OF this, where required = 0]
  ultimately show ?thesis
    using ev by (simp add: RegisterResultItems_def Some sm_inv_def sm_evicted_def sm_settings_def)
qed (use assms in \<open>simp add: RegisterResultItems_def\<close>)

lemma sm_inv_MarkInvalidated [nv_inv]:
  assumes "mm_ok mm" "sm_inv mm s"
  shows "sm_inv mm (snd (MarkInvalidated key s))"
proof (cases "um_find (sm_cache_map s) key")
  case (Some e)
  let ?e = "e\<lparr>ce_invalidated := True\<rparr>" and ?m = "sm_cache_map s"
  have core: "sm_core {} s" using assms(2) by (simp add: sm_inv_def)
  have mem: "key \<in> fst ` set ?m"
    using core lru_wf_mem [OF _ Some, of "sm_lru_list s"] by (simp add: sm_core_def)
  have "mentions (um_set key ?e ?m) i = mentions ?m i" for i using Some by (auto simp: mentions_def)
  moreover have "refs_wf (um_set key ?e ?m)" using core Some by (auto simp: sm_core_def refs_wf_def)
  moreover have "um_size (um_set key ?e ?m) = um_size ?m"
    using core mem by (simp add: sm_core_def lru_wf_def um_size_set)
  moreover have "lru_wf (sm_lru_list s) (um_set key ?e ?m)"
    using core mem by (simp add: sm_core_def lru_wf_def insert_absorb)
  ultimately have "sm_core {} (s\<lparr>sm_cache_map := um_set key ?e ?m\<rparr>)" using core by (simp add: sm_core_def)
  moreover have "EstimateMemoryLocked mm (s\<lparr>sm_cache_map := um_set key ?e ?m\<rparr>) = EstimateMemoryLocked mm s"
    using assms(1) Some unfolding mm_ok_def EstimateMemoryLocked_def by auto
  ultimately show ?thesis
    using assms(2) by (simp add: MarkInvalidated_def Some sm_inv_def sm_measured_def sm_counts_def)
qed (use assms in \<open>simp add: MarkInvalidated_def\<close>)

lemma sm_inv_Clear [nv_inv]: "sm_inv mm s \<Longrightarrow> sm_inv mm (sm_Clear s)"
  by (simp add: sm_inv_def sm_Clear_def sm_core_def sm_measured_def sm_counts_def EstimateMemoryLocked_def
      rev_wf_def refs_wf_def rev_keys_def mentions_def)

lemma sm_inv_PurgeExpired [nv_inv]:
  "\<lbrakk>mm_ok mm; sm_inv mm s\<rbrakk> \<Longrightarrow> sm_inv mm (snd (PurgeExpired mm now s))"
  by (auto simp: PurgeExpired_def Let_def intro!: sm_inv_stat sm_inv_erase_keys)

lemma sm_inv_ClearIf [nv_inv]: "\<lbrakk>mm_ok mm; sm_inv mm s\<rbrakk> \<Longrightarrow> sm_inv mm (ClearIf mm P s)"
  by (simp add: ClearIf_def sm_inv_erase_keys)

lemma sm_inv_settings [nv_inv]:
  "sm_inv mm s \<Longrightarrow> sm_inv mm (sm_SetTtl ttl s)"
  "sm_inv mm s \<Longrightarrow> sm_inv mm (sm_SetMinQueryCost c s)"
  "sm_inv mm s \<Longrightarrow> sm_inv mm (sm_SetEnabled b s)"
  "sm_inv mm s \<Longrightarrow> sm_inv mm (SetSearchTypePolicy ty p s)"
  by (simp_all add: sm_inv_def sm_core_def sm_measured_def sm_counts_def EstimateMemoryLocked_def
      sm_SetTtl_def sm_SetMinQueryCost_def sm_SetEnabled_def SetSearchTypePolicy_def)

lemma sm_inv_new [simp]: "sm_inv mm (sm_new mx c ttl b n)"
  by (simp add: sm_new_def sm_inv_def sm_core_def sm_measured_def sm_counts_def EstimateMemoryLocked_def
      rev_wf_def refs_wf_def rev_keys_def mentions_def stats_zero_def)

subsection \<open>Invalidation by item\<close>

lemma erase_keys_find:
  "um_find (sm_cache_map (snd (erase_keys mm ks s))) k = (if k \<in> set ks then None else um_find (sm_cache_map s) k)"
  by (induction ks arbitrary: s) (auto simp: Let_def case_prod_unfold)

lemma erase_keys_count:
  "distinct ks \<Longrightarrow> fst (erase_keys mm ks s) = card {k \<in> set ks. um_find (sm_cache_map s) k \<noteq> None}"
proof (induction ks arbitrary: s)
  case (Cons k ks)
  let ?s = "snd (EraseLocked mm k s)"
  have rest: "{j \<in> set ks. um_find (sm_cache_map ?s) j \<noteq> None} = {j \<in> set ks. um_find (sm_cache_map s) j \<noteq> None}"
    using Cons.prems by auto
  have split: "{j \<in> set (k # ks). um_find (sm_cache_map s) j \<noteq> None} =
      (if um_find (sm_cache_map s) k \<noteq> None then {k} else {}) \<union> {j \<in> set ks. um_find (sm_cache_map s) j \<noteq> None}"
    by auto
  have "fst (erase_keys mm (k # ks) s) =
      (if um_find (sm_cache_map s) k \<noteq> None then Suc (fst (erase_keys mm ks ?s)) else fst (erase_keys mm ks ?s))"
    by (simp add: Let_def case_prod_unfold)
  also have "fst (erase_keys mm ks ?s) = card {j \<in> set ks. um_find (sm_cache_map s) j \<noteq> None}"
    using Cons.IH [of ?s] Cons.prems rest by simp
  finally show ?case unfolding split using Cons.prems by simp
qed simp

lemma erase_keys_core: "sm_core E s \<Longrightarrow> sm_core E (snd (erase_keys mm ks s))"
proof (induction ks arbitrary: s)
  case (Cons k ks)
  then show ?case using EraseLocked_keeps_core by (simp add: Let_def case_prod_unfold)
qed simp

lemma erase_keys_frame [simp]:
  "sm_max_memory_bytes (snd (erase_keys mm ks s)) = sm_max_memory_bytes s"
  "sm_counts (snd (erase_keys mm ks s)) = sm_counts s"
  by (induction ks arbitrary: s) (simp_all add: Let_def case_prod_unfold)

lemma erase_keys_measured:
  "sm_measured mm s \<or> (\<exists>k \<in> set ks. um_find (sm_cache_map s) k \<noteq> None) \<Longrightarrow> sm_measured mm (snd (erase_keys mm ks s))"
proof (induction ks arbitrary: s)
  case (Cons k ks)
  have "sm_measured mm (snd (EraseLocked mm k s)) \<or>
      (\<exists>j \<in> set ks. um_find (sm_cache_map (snd (EraseLocked mm k s))) j \<noteq> None)"
  proof (cases "um_find (sm_cache_map s) k")
    case None
    then have "snd (EraseLocked mm k s) = s" by (simp add: EraseLocked_def)
    then show ?thesis using Cons.prems None by auto
  qed (simp add: EraseLocked_measured(1))
  then show ?case using Cons.IH by (simp add: Let_def case_prod_unfold)
qed simp

lemma erase_keys_estimate:
  "mm_ok mm \<Longrightarrow> EstimateMemoryLocked mm (snd (erase_keys mm ks s)) \<le> EstimateMemoryLocked mm s"
proof (induction ks arbitrary: s)
  case (Cons k ks)
  then show ?case using EraseLocked_estimate [OF Cons.prems, of k s] by (simp add: Let_def case_prod_unfold) (meson order_trans)
qed simp


lemma sm_core_outside:
  assumes "sm_core {} s"
  shows "sm_core {i} (s\<lparr>sm_item_to_cache_keys := um_erase i (sm_item_to_cache_keys s)\<rparr>)"
  using assms by (auto simp: sm_core_def rev_wf_def rev_keys_def split: option.splits)

lemma InvalidateByItemId_spec:
  assumes mm: "mm_ok mm" and inv: "sm_inv mm s"
  shows "sm_inv mm (snd (InvalidateByItemId mm i s)) \<and>
    (\<forall>k. um_find (sm_cache_map (snd (InvalidateByItemId mm i s))) k =
       (if k \<in> mentions (sm_cache_map s) i then None else um_find (sm_cache_map s) k)) \<and>
    fst (InvalidateByItemId mm i s) = card (mentions (sm_cache_map s) i)"
proof -
  let ?r = "sm_item_to_cache_keys s" and ?m = "sm_cache_map s"
  have core: "sm_core {} s" using inv by (simp add: sm_inv_def)
  then have rk: "rev_keys ?r i = mentions ?m i" by (simp add: sm_core_def)
  show ?thesis
  proof (cases "um_find ?r i")
    case None
    then have "mentions ?m i = {}" using rk by (simp add: rev_keys_def)
    then show ?thesis using None inv by (simp add: InvalidateByItemId_def)
  next
    case (Some ks)
    define s0 where "s0 = s\<lparr>sm_item_to_cache_keys := um_erase i ?r\<rparr>"
    define s' where "s' = snd (erase_keys mm ks s0)"
    have eq: "InvalidateByItemId mm i s = erase_keys mm ks s0" by (simp add: InvalidateByItemId_def Some s0_def)
    have ks: "set ks = mentions ?m i" using rk Some by (simp add: rev_keys_def)
    have wf: "ks \<noteq> []" "distinct ks" using core Some by (auto simp: sm_core_def rev_wf_def)
    have map0: "sm_cache_map s0 = ?m" by (simp add: s0_def)
    have present: "um_find ?m k \<noteq> None" if "k \<in> set ks" for k using that ks by (auto simp: mentions_def)
    have find': "um_find (sm_cache_map s') k = (if k \<in> set ks then None else um_find ?m k)" for k
      by (simp add: s'_def erase_keys_find map0)
    have core': "sm_core {i} s'" unfolding s'_def s0_def by (rule erase_keys_core [OF sm_core_outside [OF core]])
    have "mentions (sm_cache_map s') i = {}"
      using find' ks by (auto simp: mentions_def split: if_splits)
    moreover have "rev_keys (sm_item_to_cache_keys s') i = {}" using core' by (simp add: sm_core_def rev_keys_def)
    ultimately have "rev_keys (sm_item_to_cache_keys s') j = mentions (sm_cache_map s') j" for j
      using core' by (cases "j = i") (auto simp: sm_core_def)
    then have coreE: "sm_core {} s'" using core' by (simp add: sm_core_def)
    have meas: "sm_measured mm s'"
      unfolding s'_def using wf(1) present map0 by (intro erase_keys_measured) (metis list.set_intros(1) neq_Nil_conv)
    have "EstimateMemoryLocked mm s' \<le> EstimateMemoryLocked mm s0"
      unfolding s'_def by (rule erase_keys_estimate [OF mm])
    also have "\<dots> \<le> EstimateMemoryLocked mm s"
      using mm Some unfolding mm_ok_def by (auto simp: s0_def EstimateMemoryLocked_def)
    finally have "sm_inv mm s'"
      using inv coreE meas by (simp add: sm_inv_def sm_measured_def s'_def s0_def sm_counts_def [of "s\<lparr>sm_item_to_cache_keys := _\<rparr>"])
         (simp add: sm_counts_def)
    moreover have "fst (erase_keys mm ks s0) = card (mentions ?m i)"
    proof -
      have "{k \<in> set ks. um_find (sm_cache_map s0) k \<noteq> None} = mentions ?m i" using present ks map0 by auto
      then show ?thesis using erase_keys_count [OF wf(2), of mm s0] by simp
    qed
    ultimately show ?thesis unfolding eq s'_def [symmetric] using find' ks by simp
  qed
qed

subsection \<open>Runs\<close>

text \<open>
  The atomic steps of the cache.  A lookup is two steps with anything in between: the second may
  come with any plan, so that every interleaving of concurrent lookups with other operations is a
  list of these steps.
\<close>

datatype sm_step =
    SmRead Lz4 CacheKey int int
  | SmFinish CacheKey "result list option" lookup_plan fl
  | SmInsert Lz4 CacheKey "result list" fl int "string list option" int int
  | SmRegister CacheKey "string list"
  | SmErase CacheKey
  | SmMark CacheKey
  | SmInvalidate string
  | SmPurge int
  | SmClearIf "CacheKey \<Rightarrow> bool"
  | SmClear
  | SmSetTtl int
  | SmSetMinCost fl
  | SmSetEnabled bool
  | SmSetPolicy SearchType CachePolicy

fun sm_exec :: "MemModel \<Rightarrow> sm_step \<Rightarrow> SimilarityCache \<Rightarrow> SimilarityCache" where
  "sm_exec mm (SmRead lz key ttl now) s = snd (lookup_read lz key ttl now s)"
| "sm_exec mm (SmFinish key res plan elapsed) s = lookup_finish mm key res plan elapsed s"
| "sm_exec mm (SmInsert lz key results cost ttl ids now now2) s =
     snd (InsertWithTtl mm lz key results cost ttl ids now now2 s)"
| "sm_exec mm (SmRegister key ids) s = RegisterResultItems mm key ids s"
| "sm_exec mm (SmErase key) s = snd (EraseLocked mm key s)"
| "sm_exec mm (SmMark key) s = snd (MarkInvalidated key s)"
| "sm_exec mm (SmInvalidate i) s = snd (InvalidateByItemId mm i s)"
| "sm_exec mm (SmPurge now) s = snd (PurgeExpired mm now s)"
| "sm_exec mm (SmClearIf P) s = ClearIf mm P s"
| "sm_exec mm SmClear s = sm_Clear s"
| "sm_exec mm (SmSetTtl ttl) s = sm_SetTtl ttl s"
| "sm_exec mm (SmSetMinCost c) s = sm_SetMinQueryCost c s"
| "sm_exec mm (SmSetEnabled b) s = sm_SetEnabled b s"
| "sm_exec mm (SmSetPolicy ty p) s = SetSearchTypePolicy ty p s"

lemma sm_inv_exec: "\<lbrakk>mm_ok mm; sm_inv mm s\<rbrakk> \<Longrightarrow> sm_inv mm (sm_exec mm st s)"
  by (cases st) (simp_all add: nv_inv InvalidateByItemId_spec)

lemma sm_inv_run: "\<lbrakk>mm_ok mm; sm_inv mm s\<rbrakk> \<Longrightarrow> sm_inv mm (fold (sm_exec mm) steps s)"
  by (induction steps arbitrary: s) (simp_all add: sm_inv_exec)

text \<open>
  C18. After any interleaving of cache operations, lookups split into their two critical sections
  included: the recency list and the map hold the same keys, the reverse index lists exactly the
  entries that mention an item, the entry counter is the number of entries, the memory estimate is
  current and within the limit, and every query has been counted as a hit or as a miss.
\<close>

theorem similarity_cache_run_safe:
  assumes "mm_ok mm"
  shows "let s = fold (sm_exec mm) steps (sm_new max_memory min_cost ttl compression batch)
    in distinct (sm_lru_list s) \<and> set (sm_lru_list s) = set (um_keys (sm_cache_map s)) \<and>
       (\<forall>i k. (\<exists>ks. um_find (sm_item_to_cache_keys s) i = Some ks \<and> k \<in> set ks) \<longleftrightarrow>
              (\<exists>e. um_find (sm_cache_map s) k = Some e \<and> i \<in> set (ce_referenced_item_ids e))) \<and>
       ct_current_entries (sm_stats s) = of_nat (length (sm_cache_map s)) \<and>
       sm_total_memory_bytes s = EstimateMemoryLocked mm s \<and> sm_total_memory_bytes s \<le> sm_max_memory_bytes s \<and>
       ct_cache_hits (sm_stats s) + ct_cache_misses (sm_stats s) = ct_total_queries (sm_stats s)"
proof -
  define s where "s = fold (sm_exec mm) steps (sm_new max_memory min_cost ttl compression batch)"
  have inv: "sm_inv mm s" unfolding s_def by (rule sm_inv_run [OF assms]) simp
  have rk: "rev_keys (sm_item_to_cache_keys s) i = mentions (sm_cache_map s) i" for i
    using inv by (simp add: sm_inv_def sm_core_def)
  have "(\<exists>ks. um_find (sm_item_to_cache_keys s) i = Some ks \<and> k \<in> set ks) \<longleftrightarrow>
      (\<exists>e. um_find (sm_cache_map s) k = Some e \<and> i \<in> set (ce_referenced_item_ids e))" for i k
  proof -
    have "(\<exists>ks. um_find (sm_item_to_cache_keys s) i = Some ks \<and> k \<in> set ks) \<longleftrightarrow> k \<in> rev_keys (sm_item_to_cache_keys s) i"
      by (simp add: rev_keys_def split: option.split)
    then show ?thesis using rk by (simp add: mentions_def)
  qed
  then show ?thesis
    using inv unfolding s_def [symmetric] Let_def
    by (simp add: sm_inv_def sm_core_def sm_measured_def sm_counts_def lru_wf_def)
qed

definition mm_ex :: MemModel where
  "mm_ex = \<lparr>mm_entry = (\<lambda>bs. 100 + length bs), mm_total = (\<lambda>m r. 100 * length m)\<rparr>"

lemma um_size_set_present: "um_find m k = Some e \<Longrightarrow> um_size (um_set k v m) = um_size m"
  by (induction m) (auto split: if_splits)

lemma mm_ex_ok: "mm_ok mm_ex"
  by (simp add: mm_ok_def mm_ex_def length_delete_le um_size_set_present)

definition key_ex :: "u64 \<Rightarrow> CacheKey" where
  "key_ex n = \<lparr>hash_high = n, hash_low = 0\<rparr>"

theorem similarity_cache_run_safe_witness:
  "let s = fold (sm_exec mm_ex) [SmInsert lz4_store (key_ex 1) [\<lparr>sr_item_id = ''a'', sr_score = 7\<rparr>] (Fin 5) 60 (Some [''a'']) 0 0,
         SmRead lz4_store (key_ex 1) 60 10, SmInvalidate ''a'', SmFinish (key_ex 1) None (LookupTouch 0 (Fin 5)) (Fin 1)]
       (sm_new 10000 (Fin 1) 0 False 1)
   in set (sm_lru_list s) = set (um_keys (sm_cache_map s)) \<and> sm_total_memory_bytes s \<le> sm_max_memory_bytes s"
  using similarity_cache_run_safe [OF mm_ex_ok, of
      "[SmInsert lz4_store (key_ex 1) [\<lparr>sr_item_id = ''a'', sr_score = 7\<rparr>] (Fin 5) 60 (Some [''a'']) 0 0,
         SmRead lz4_store (key_ex 1) 60 10, SmInvalidate ''a'', SmFinish (key_ex 1) None (LookupTouch 0 (Fin 5)) (Fin 1)]"
      10000 "Fin 1" 0 False 1]
  unfolding Let_def by blast

subsection \<open>What a lookup returns\<close>

lemma lookup_result:
  "fst (LookupWithTtl mm lz key ttl now elapsed s) =
     (if \<not> sm_enabled s then None
      else case um_find (sm_cache_map s) key of
             None \<Rightarrow> None
           | Some e \<Rightarrow> if ce_invalidated e \<or> ttl_expired now ttl e then None else accepted (decode_entry lz e))"
  by (simp add: LookupWithTtl_def lookup_read_def Let_def case_prod_unfold accepted_def split: option.split sum.split)

lemma encode_decode:
  assumes "lz4_ok lz" "encode_results lz s results = Inr data"
  shows "decode_entry lz (new_entry data (sm_compression_enabled s) (length results) cost ttl now now2
    \<lparr>ce_referenced_item_ids := refs\<rparr>) = Inr results"
proof (cases "sm_compression_enabled s")
  case True
  then show ?thesis
    using assms compress_ok by (simp add: decode_entry_def new_entry_def encode_results_def)
next
  case False
  then have "accepted (DeserializeSimilarityResults data) = Some results"
    using assms(2) by (intro plain_results.dec_enc) (simp add: encode_results_def)
  with False show ?thesis by (simp add: decode_entry_def new_entry_def)
qed

text \<open>
  C19. When an insertion reports success, a lookup of the same key with the same time to live returns
  exactly the inserted results until that time has passed, and a miss from then on.
\<close>

theorem lookup_returns_inserted:
  assumes "lz4_ok lz" "sm_inv mm s"
    "InsertWithTtl mm lz key results cost ttl item_ids t t s = (True, s')" "t \<le> now"
  shows "fst (LookupWithTtl mm lz key ttl now elapsed s') =
    (if ttl \<le> 0 \<or> now < t + ttl * 1000000000 then Some results else None)"
proof -
  obtain data refs where d: "encode_results lz s results = Inr data" and
    find: "um_find (sm_cache_map s') key =
      Some (new_entry data (sm_compression_enabled s) (length results) cost ttl t t\<lparr>ce_referenced_item_ids := refs\<rparr>)"
    and "sm_settings s s'"
    using InsertWithTtl_spec [OF assms(2), of lz key results cost ttl item_ids t t] assms(3) by auto
  have "sm_enabled s" using assms(3) by (auto simp: InsertWithTtl_def split: if_splits)
  then have en: "sm_enabled s'" using \<open>sm_settings s s'\<close> by (simp add: sm_settings_def)
  have "ttl_expired now ttl (new_entry data (sm_compression_enabled s) (length results) cost ttl t t
      \<lparr>ce_referenced_item_ids := refs\<rparr>) \<longleftrightarrow> 0 < ttl \<and> t + ttl * 1000000000 \<le> now"
  proof -
    have "ttl \<le> age_seconds now t \<longleftrightarrow> t + ttl * 1000000000 \<le> now" unfolding age_seconds_def by linarith
    then show ?thesis by (auto simp: ttl_expired_def new_entry_def ComputeExpiry_def)
  qed
  then show ?thesis
    using encode_decode [OF assms(1) d] en
    by (auto simp: lookup_result find new_entry_def accepted_def)
qed


lemma lz4_store_ok: "lz4_ok lz4_store"
  by (auto simp: lz4_ok_def lz4_store_def split: if_splits)

definition filled_ex :: "bool \<times> SimilarityCache" where
  "filled_ex = InsertWithTtl mm_ex lz4_store (key_ex 1) [] (Fin 5) 60 (Some [''a'']) 0 0 (sm_new 10000 (Fin 1) 0 False 1)"

lemma filled_ex_eq:
  "filled_ex = (True, snd filled_ex)" "sm_inv mm_ex (snd filled_ex)"
  "sm_cache_map (snd filled_ex) = [(key_ex 1, new_entry [] False 0 (Fin 5) 60 0 0\<lparr>ce_referenced_item_ids := [''a'']\<rparr>)]"
proof -
  show "sm_inv mm_ex (snd filled_ex)" unfolding filled_ex_def by (rule sm_inv_InsertWithTtl) simp
  show "filled_ex = (True, snd filled_ex)"
    by (simp add: filled_ex_def InsertWithTtl_def sm_new_def encode_results_def SerializeSimilarityResults_def mm_ex_def
        sm_over_def EvictForSpace_def RegisterResultItemsLocked_def RefreshMemoryLocked_def EstimateMemoryLocked_def
        kMaxTrackedItemsPerEntry_def rev_add_def Let_def stat_def)
  show "sm_cache_map (snd filled_ex) = [(key_ex 1, new_entry [] False 0 (Fin 5) 60 0 0\<lparr>ce_referenced_item_ids := [''a'']\<rparr>)]"
    by (simp add: filled_ex_def InsertWithTtl_def sm_new_def encode_results_def SerializeSimilarityResults_def mm_ex_def
        sm_over_def EvictForSpace_def RegisterResultItemsLocked_def RefreshMemoryLocked_def EstimateMemoryLocked_def
        kMaxTrackedItemsPerEntry_def rev_add_def Let_def stat_def new_entry_def)
qed

theorem lookup_returns_inserted_witness:
  "fst (LookupWithTtl mm_ex lz4_store (key_ex 1) 60 59000000000 (Fin 1) (snd filled_ex)) = Some [] \<and>
   fst (LookupWithTtl mm_ex lz4_store (key_ex 1) 60 60000000000 (Fin 1) (snd filled_ex)) = None"
  using lookup_returns_inserted [OF lz4_store_ok sm_inv_new filled_ex_eq(1) [unfolded filled_ex_def], of 59000000000]
    lookup_returns_inserted [OF lz4_store_ok sm_inv_new filled_ex_eq(1) [unfolded filled_ex_def], of 60000000000]
  by (simp add: filled_ex_def)

text \<open>
  A lookup, by search type, serves an entry only when the cache and the search type are enabled,
  the entry is in the map, is not marked invalid, has not reached its expiry and, for the time to
  live in force (a positive override of the search type, otherwise the global one), is not too old;
  what it serves is the decoding of that entry.
\<close>

theorem lookup_serves_only_fresh:
  assumes "fst (sm_Lookup mm lz key ty now elapsed s) = Some results"
  shows "sm_enabled s \<and> cp_enabled (sm_policies s ty) \<and>
    (\<exists>e. um_find (sm_cache_map s) key = Some e \<and> decode_entry lz e = Inr results \<and> \<not> ce_invalidated e \<and>
       (\<forall>t. ce_expires_at e = Some t \<longrightarrow> now < t) \<and>
       (0 < (if 0 < cp_ttl_seconds (sm_policies s ty) then cp_ttl_seconds (sm_policies s ty) else sm_ttl_seconds s) \<longrightarrow>
          age_seconds now (ce_created_at e) <
            (if 0 < cp_ttl_seconds (sm_policies s ty) then cp_ttl_seconds (sm_policies s ty) else sm_ttl_seconds s)))"
proof -
  let ?s0 = "stat (\<lambda>t. t\<lparr>ct_per_type_queries := (ct_per_type_queries t)(ty := ct_per_type_queries t ty + 1)\<rparr>) s"
  have en: "cp_enabled (sm_policies s ty)"
    and res: "fst (LookupWithTtl mm lz key (effective_ttl ty s) now elapsed ?s0) = Some results"
    using assms by (auto simp: sm_Lookup_def Let_def case_prod_unfold split: if_splits)
  from res obtain e where "sm_enabled s" "um_find (sm_cache_map s) key = Some e" "\<not> ce_invalidated e"
    "\<not> ttl_expired now (effective_ttl ty s) e" "decode_entry lz e = Inr results"
    by (auto simp: lookup_result split: if_splits option.splits)
  then show ?thesis using en unfolding ttl_expired_def effective_ttl_def
    by (auto simp: not_le split: option.splits)
qed

lemma SearchType_item_policy: "sm_policies (snd filled_ex) = default_policy" "sm_enabled (snd filled_ex)"
    "sm_ttl_seconds (snd filled_ex) = 0"
proof -
  have "sm_settings (sm_new 10000 (Fin 1) 0 False 1) (snd filled_ex)"
    using InsertWithTtl_spec [of mm_ex "sm_new 10000 (Fin 1) 0 False 1" lz4_store "key_ex 1" "[]" "Fin 5" 60
        "Some [''a'']" 0 0, OF sm_inv_new]
    unfolding Let_def case_prod_unfold filled_ex_def by blast
  then show "sm_policies (snd filled_ex) = default_policy" "sm_enabled (snd filled_ex)"
    "sm_ttl_seconds (snd filled_ex) = 0"
    by (simp_all add: sm_settings_def sm_new_def)
qed

theorem lookup_serves_only_fresh_witness:
  "fst (sm_Lookup mm_ex lz4_store (key_ex 1) kItemSearch 5 (Fin 1) (snd filled_ex)) = Some [] \<and>
   sm_enabled (snd filled_ex) \<and> cp_enabled (sm_policies (snd filled_ex) kItemSearch)"
proof -
  have hit: "fst (sm_Lookup mm_ex lz4_store (key_ex 1) kItemSearch 5 (Fin 1) (snd filled_ex)) = Some []"
    by (simp add: sm_Lookup_def Let_def case_prod_unfold lookup_result SearchType_item_policy filled_ex_eq(3) new_entry_def
        ttl_expired_def effective_ttl_def ComputeExpiry_def decode_entry_def DeserializeSimilarityResults_def accepted_def)
  then show ?thesis using lookup_serves_only_fresh [OF hit] by simp
qed

text \<open>
  Invalidating an item removes exactly the entries that mention it, returns how many there
  were, and leaves every other entry in place; the entry of an insertion that registered at most
  fifty distinct item ids is among them for each of these ids.
\<close>

theorem invalidation_is_exact:
  assumes "mm_ok mm" "sm_inv mm s"
  shows "(\<forall>k. um_find (sm_cache_map (snd (InvalidateByItemId mm i s))) k =
       (case um_find (sm_cache_map s) k of
          None \<Rightarrow> None
        | Some e \<Rightarrow> if i \<in> set (ce_referenced_item_ids e) then None else Some e)) \<and>
    fst (InvalidateByItemId mm i s) =
      card {k. \<exists>e. um_find (sm_cache_map s) k = Some e \<and> i \<in> set (ce_referenced_item_ids e)} \<and>
    (\<forall>lz key results ids cost ttl now s'.
       InsertWithTtl mm lz key results cost ttl (Some ids) now now s = (True, s') \<and>
       card (set ids) \<le> kMaxTrackedItemsPerEntry \<and> i \<in> set ids \<longrightarrow>
       um_find (sm_cache_map (snd (InvalidateByItemId mm i s'))) key = None)"
proof (intro conjI allI impI)
  note spec = InvalidateByItemId_spec [OF assms(1)]
  show "um_find (sm_cache_map (snd (InvalidateByItemId mm i s))) k =
       (case um_find (sm_cache_map s) k of
          None \<Rightarrow> None
        | Some e \<Rightarrow> if i \<in> set (ce_referenced_item_ids e) then None else Some e)" for k
    using spec [OF assms(2), of i] by (auto simp: mentions_def split: option.split)
  show "fst (InvalidateByItemId mm i s) =
      card {k. \<exists>e. um_find (sm_cache_map s) k = Some e \<and> i \<in> set (ce_referenced_item_ids e)}"
    using spec [OF assms(2), of i] by (simp add: mentions_def)
  fix lz key results ids cost ttl now s'
  assume ins: "InsertWithTtl mm lz key results cost ttl (Some ids) now now s = (True, s') \<and>
       card (set ids) \<le> kMaxTrackedItemsPerEntry \<and> i \<in> set ids"
  then obtain e where inv': "sm_inv mm s'" and e: "um_find (sm_cache_map s') key = Some e"
    "ce_referenced_item_ids e = register_ids [] ids"
    using InsertWithTtl_spec [OF assms(2), of lz key results cost ttl "Some ids" now now] by (auto simp: Let_def)
  have "set (register_ids [] ids) = set ids"
    using register_ids_spec [of "[]" ids] ins by (auto simp: kMaxTrackedItemsPerEntry_def)
  then have "key \<in> mentions (sm_cache_map s') i" using e ins by (simp add: mentions_def)
  then show "um_find (sm_cache_map (snd (InvalidateByItemId mm i s'))) key = None"
    using spec [OF inv', of i] by simp
qed

theorem invalidation_is_exact_witness:
  "um_find (sm_cache_map (snd (InvalidateByItemId mm_ex ''a'' (snd filled_ex)))) (key_ex 1) = None \<and>
   fst (InvalidateByItemId mm_ex ''a'' (snd filled_ex)) = 1"
proof -
  have "{k. \<exists>e. um_find (sm_cache_map (snd filled_ex)) k = Some e \<and> ''a'' \<in> set (ce_referenced_item_ids e)} = {key_ex 1}"
    by (auto simp: filled_ex_eq(3) split: if_splits)
  then show ?thesis
    using invalidation_is_exact [OF mm_ex_ok filled_ex_eq(2), of "''a''"] by (simp add: filled_ex_eq(3))
qed

text \<open>
  The second critical section of a lookup, run after any other operations, leaves the map, the
  recency list and the reverse index alone when the entry it finds under the key is not the one the
  first section read: a newer entry is neither erased nor refreshed.
\<close>

theorem stale_lookup_harmless:
  assumes "plan = LookupErase created \<or> plan = LookupTouch created cost"
    and "\<And>e. um_find (sm_cache_map s) key = Some e \<Longrightarrow> ce_created_at e \<noteq> created"
  shows "sm_cache_map (lookup_finish mm key res plan elapsed s) = sm_cache_map s \<and>
    sm_lru_list (lookup_finish mm key res plan elapsed s) = sm_lru_list s \<and>
    sm_item_to_cache_keys (lookup_finish mm key res plan elapsed s) = sm_item_to_cache_keys s"
proof -
  have "\<not> same_entry key created s" using assms(2) by (auto simp: same_entry_def split: option.split)
  then show ?thesis using assms(1) by auto
qed

theorem stale_lookup_harmless_witness:
  "sm_cache_map (lookup_finish mm_ex (key_ex 1) None (LookupErase 3) (Fin 1) (snd filled_ex)) = sm_cache_map (snd filled_ex)"
  using stale_lookup_harmless [of "LookupErase 3" 3 "Fin 1" "snd filled_ex" "key_ex 1" mm_ex None "Fin 1"]
  by (simp add: filled_ex_eq(3) new_entry_def)

text \<open>
  The background purge does not honour a time-to-live override that is longer than the global
  one: with a global limit of ten seconds, an entry of a filtered search, inserted for sixty, is
  still served at twenty seconds and purged at the same moment.
\<close>

theorem purge_ignores_longer_override:
  "let s = sm_SetTtl 10 (snd filled_ex)
   in fst (sm_Lookup mm_ex lz4_store (key_ex 1) kFilteredSearch 20000000000 (Fin 1) s) = Some [] \<and>
      fst (PurgeExpired mm_ex 20000000000 s) = 1"
proof -
  have "fst (sm_Lookup mm_ex lz4_store (key_ex 1) kFilteredSearch 20000000000 (Fin 1) (sm_SetTtl 10 (snd filled_ex))) = Some []"
    by (simp add: sm_SetTtl_def sm_Lookup_def Let_def case_prod_unfold lookup_result SearchType_item_policy filled_ex_eq(3)
        new_entry_def ttl_expired_def effective_ttl_def ComputeExpiry_def decode_entry_def age_seconds_def
        DeserializeSimilarityResults_def accepted_def)
  moreover have "fst (PurgeExpired mm_ex 20000000000 (sm_SetTtl 10 (snd filled_ex))) = 1"
    by (simp add: PurgeExpired_def sm_SetTtl_def Let_def filled_ex_eq(3) new_entry_def purge_expired_entry_def ttl_expired_def
        ComputeExpiry_def age_seconds_def)
  ultimately show ?thesis by simp
qed

subsection \<open>The controller\<close>

datatype kc_op = KcSetEnabled bool | KcSetMinCost fl | KcSetTtl int | KcClear

fun kc_exec :: "kc_op \<Rightarrow> CacheController \<Rightarrow> unit expected \<times> CacheController" where
  "kc_exec (KcSetEnabled b) c = kc_SetEnabled b c"
| "kc_exec (KcSetMinCost x) c = kc_SetMinQueryCost x c"
| "kc_exec (KcSetTtl t) c = kc_SetTtl t c"
| "kc_exec KcClear c = kc_Clear c"

definition kc_inv :: "MemModel \<Rightarrow> CacheController \<Rightarrow> bool" where
  "kc_inv mm c \<longleftrightarrow> sm_inv mm (kc_cache c) \<and> (kc_published c \<longleftrightarrow> kc_enabled c) \<and>
     (sm_enabled (kc_cache c) \<longleftrightarrow> kc_enabled c) \<and>
     isfinite (sm_min_query_cost_ms (kc_cache c)) \<and> \<not> fl_less (sm_min_query_cost_ms (kc_cache c)) (Fin 0) \<and>
     0 \<le> sm_ttl_seconds (kc_cache c)"

lemma kc_inv_exec: "kc_inv mm c \<Longrightarrow> kc_inv mm (snd (kc_exec op c))"
  by (cases op) (simp_all add: kc_inv_def kc_SetEnabled_def kc_SetMinQueryCost_def kc_SetTtl_def kc_Clear_def nv_inv,
      simp_all add: sm_SetEnabled_def sm_SetMinQueryCost_def sm_SetTtl_def sm_Clear_def)

text \<open>
  Under every sequence of control operations the cache is published to the handlers exactly
  while it is enabled, the minimal cost stays finite and not negative and the time to live not
  negative; a refused value changes nothing.
\<close>

theorem controller_consistent:
  assumes "isfinite min_cost" "\<not> fl_less min_cost (Fin 0)" "0 \<le> ttl"
  shows "let c = fold (\<lambda>op c. snd (kc_exec op c)) ops (kc_new (sm_new max_memory min_cost ttl compression batch) enabled)
    in (kc_published c \<longleftrightarrow> kc_enabled c) \<and> (sm_enabled (kc_cache c) \<longleftrightarrow> kc_enabled c) \<and>
       isfinite (sm_min_query_cost_ms (kc_cache c)) \<and> \<not> fl_less (sm_min_query_cost_ms (kc_cache c)) (Fin 0) \<and>
       0 \<le> sm_ttl_seconds (kc_cache c) \<and> (\<forall>op e. fst (kc_exec op c) = Inl e \<longrightarrow> snd (kc_exec op c) = c)"
proof -
  have "sm_inv mm_ex (sm_SetEnabled enabled (sm_new max_memory min_cost ttl compression batch))" by (simp add: nv_inv)
  then have "kc_inv mm_ex (kc_new (sm_new max_memory min_cost ttl compression batch) enabled)"
    using assms unfolding kc_inv_def kc_new_def by (simp add: sm_SetEnabled_def sm_new_def)
  then have inv: "kc_inv mm_ex (fold (\<lambda>op c. snd (kc_exec op c)) ops
      (kc_new (sm_new max_memory min_cost ttl compression batch) enabled))"
    by (induction ops arbitrary: enabled rule: rev_induct) (simp_all add: kc_inv_exec)
  moreover have "snd (kc_exec op c) = c" if "fst (kc_exec op c) = Inl e" for op e c
    using that by (cases op) (auto simp: kc_SetEnabled_def kc_SetMinQueryCost_def kc_SetTtl_def kc_Clear_def split: if_splits)
  ultimately show ?thesis unfolding Let_def kc_inv_def by blast
qed

theorem controller_consistent_witness:
  "let c = fold (\<lambda>op c. snd (kc_exec op c)) [KcSetTtl (- 1), KcSetEnabled False, KcSetMinCost (Fin 2)]
        (kc_new (sm_new 1000 (Fin 1) 0 True 1) True)
   in \<not> kc_enabled c \<and> \<not> kc_published c \<and> 0 \<le> sm_ttl_seconds (kc_cache c)"
  using controller_consistent [of "Fin 1" 0 "[KcSetTtl (- 1), KcSetEnabled False, KcSetMinCost (Fin 2)]" 1000 True 1 True]
  by (simp add: Let_def kc_SetTtl_def kc_SetEnabled_def kc_SetMinQueryCost_def kc_new_def)

end
