(* ===== verification/Md5.thy ===== *)
theory Md5
  imports Bytes
begin

text \<open>
  The MD5 digest (\<^verbatim>\<open>src/cache/md5.cpp\<close>): the block transformation, the buffered update and the
  padding.  The theory shows that hashing a message through the 64-byte buffer, in pieces of any
  length, gives the digest of RFC 1321: the transformation folded over the blocks of the padded
  message, with the schedule of the 64 steps as the RFC's formulas give it.
\<close>

unbundle bit_operations_syntax

subsection \<open>The block transformation\<close>

definition md5_F :: "u32 \<Rightarrow> u32 \<Rightarrow> u32 \<Rightarrow> u32" where
  "md5_F x y z = (x AND y) OR (NOT x AND z)"

definition md5_G :: "u32 \<Rightarrow> u32 \<Rightarrow> u32 \<Rightarrow> u32" where
  "md5_G x y z = (x AND z) OR (y AND NOT z)"

definition md5_H :: "u32 \<Rightarrow> u32 \<Rightarrow> u32 \<Rightarrow> u32" where
  "md5_H x y z = x XOR y XOR z"

definition md5_I :: "u32 \<Rightarrow> u32 \<Rightarrow> u32 \<Rightarrow> u32" where
  "md5_I x y z = y XOR (x OR NOT z)"

definition RotateLeft :: "u32 \<Rightarrow> nat \<Rightarrow> u32" where
  "RotateLeft x n = push_bit n x OR drop_bit (32 - n) x"

datatype md5_round = FF | GG | HH | II

datatype md5_reg = Ra | Rb | Rc | Rd

fun round_fun :: "md5_round \<Rightarrow> u32 \<Rightarrow> u32 \<Rightarrow> u32 \<Rightarrow> u32" where
  "round_fun FF = md5_F"
| "round_fun GG = md5_G"
| "round_fun HH = md5_H"
| "round_fun II = md5_I"

text \<open>\<^verbatim>\<open>FF(a, b, c, d, x, s, ac)\<close> and its siblings, on the values of the four registers.\<close>

definition md5_mix :: "md5_round \<Rightarrow> u32 \<Rightarrow> u32 \<Rightarrow> u32 \<Rightarrow> u32 \<Rightarrow> u32 \<Rightarrow> nat \<Rightarrow> u32 \<Rightarrow> u32" where
  "md5_mix r a b c d x s ac = RotateLeft (a + (round_fun r b c d + x + ac)) s + b"

type_synonym md5_state = "u32 \<times> u32 \<times> u32 \<times> u32"

type_synonym md5_instr = "md5_round \<times> md5_reg \<times> nat \<times> nat \<times> u32"

text \<open>
  One line of \<^verbatim>\<open>Transform\<close>: the round, the register it updates (the other three follow it
  cyclically), the index of the message word, the rotation and the additive constant.
\<close>

fun md5_step :: "u32 list \<Rightarrow> md5_instr \<Rightarrow> md5_state \<Rightarrow> md5_state" where
  "md5_step x (r, Ra, k, s, ac) (a, b, c, d) = (md5_mix r a b c d (x ! k) s ac, b, c, d)"
| "md5_step x (r, Rd, k, s, ac) (a, b, c, d) = (a, b, c, md5_mix r d a b c (x ! k) s ac)"
| "md5_step x (r, Rc, k, s, ac) (a, b, c, d) = (a, b, md5_mix r c d a b (x ! k) s ac, d)"
| "md5_step x (r, Rb, k, s, ac) (a, b, c, d) = (a, md5_mix r b c d a (x ! k) s ac, c, d)"

abbreviation (input) S11 :: nat where "S11 \<equiv> 7"
abbreviation (input) S12 :: nat where "S12 \<equiv> 12"
abbreviation (input) S13 :: nat where "S13 \<equiv> 17"
abbreviation (input) S14 :: nat where "S14 \<equiv> 22"
abbreviation (input) S21 :: nat where "S21 \<equiv> 5"
abbreviation (input) S22 :: nat where "S22 \<equiv> 9"
abbreviation (input) S23 :: nat where "S23 \<equiv> 14"
abbreviation (input) S24 :: nat where "S24 \<equiv> 20"
abbreviation (input) S31 :: nat where "S31 \<equiv> 4"
abbreviation (input) S32 :: nat where "S32 \<equiv> 11"
abbreviation (input) S33 :: nat where "S33 \<equiv> 16"
abbreviation (input) S34 :: nat where "S34 \<equiv> 23"
abbreviation (input) S41 :: nat where "S41 \<equiv> 6"
abbreviation (input) S42 :: nat where "S42 \<equiv> 10"
abbreviation (input) S43 :: nat where "S43 \<equiv> 15"
abbreviation (input) S44 :: nat where "S44 \<equiv> 21"

definition md5_program :: "md5_instr list" where
  "md5_program =
     [
      (FF, Ra, 0, S11, 0xd76aa478), (FF, Rd, 1, S12, 0xe8c7b756),
      (FF, Rc, 2, S13, 0x242070db), (FF, Rb, 3, S14, 0xc1bdceee),
      (FF, Ra, 4, S11, 0xf57c0faf), (FF, Rd, 5, S12, 0x4787c62a),
      (FF, Rc, 6, S13, 0xa8304613), (FF, Rb, 7, S14, 0xfd469501),
      (FF, Ra, 8, S11, 0x698098d8), (FF, Rd, 9, S12, 0x8b44f7af),
      (FF, Rc, 10, S13, 0xffff5bb1), (FF, Rb, 11, S14, 0x895cd7be),
      (FF, Ra, 12, S11, 0x6b901122), (FF, Rd, 13, S12, 0xfd987193),
      (FF, Rc, 14, S13, 0xa679438e), (FF, Rb, 15, S14, 0x49b40821),
      (GG, Ra, 1, S21, 0xf61e2562), (GG, Rd, 6, S22, 0xc040b340),
      (GG, Rc, 11, S23, 0x265e5a51), (GG, Rb, 0, S24, 0xe9b6c7aa),
      (GG, Ra, 5, S21, 0xd62f105d), (GG, Rd, 10, S22, 0x2441453),
      (GG, Rc, 15, S23, 0xd8a1e681), (GG, Rb, 4, S24, 0xe7d3fbc8),
      (GG, Ra, 9, S21, 0x21e1cde6), (GG, Rd, 14, S22, 0xc33707d6),
      (GG, Rc, 3, S23, 0xf4d50d87), (GG, Rb, 8, S24, 0x455a14ed),
      (GG, Ra, 13, S21, 0xa9e3e905), (GG, Rd, 2, S22, 0xfcefa3f8),
      (GG, Rc, 7, S23, 0x676f02d9), (GG, Rb, 12, S24, 0x8d2a4c8a),
      (HH, Ra, 5, S31, 0xfffa3942), (HH, Rd, 8, S32, 0x8771f681),
      (HH, Rc, 11, S33, 0x6d9d6122), (HH, Rb, 14, S34, 0xfde5380c),
      (HH, Ra, 1, S31, 0xa4beea44), (HH, Rd, 4, S32, 0x4bdecfa9),
      (HH, Rc, 7, S33, 0xf6bb4b60), (HH, Rb, 10, S34, 0xbebfbc70),
      (HH, Ra, 13, S31, 0x289b7ec6), (HH, Rd, 0, S32, 0xeaa127fa),
      (HH, Rc, 3, S33, 0xd4ef3085), (HH, Rb, 6, S34, 0x4881d05),
      (HH, Ra, 9, S31, 0xd9d4d039), (HH, Rd, 12, S32, 0xe6db99e5),
      (HH, Rc, 15, S33, 0x1fa27cf8), (HH, Rb, 2, S34, 0xc4ac5665),
      (II, Ra, 0, S41, 0xf4292244), (II, Rd, 7, S42, 0x432aff97),
      (II, Rc, 14, S43, 0xab9423a7), (II, Rb, 5, S44, 0xfc93a039),
      (II, Ra, 12, S41, 0x655b59c3), (II, Rd, 3, S42, 0x8f0ccc92),
      (II, Rc, 10, S43, 0xffeff47d), (II, Rb, 1, S44, 0x85845dd1),
      (II, Ra, 8, S41, 0x6fa87e4f), (II, Rd, 15, S42, 0xfe2ce6e0),
      (II, Rc, 6, S43, 0xa3014314), (II, Rb, 13, S44, 0x4e0811a1),
      (II, Ra, 4, S41, 0xf7537e82), (II, Rd, 11, S42, 0xbd3af235),
      (II, Rc, 2, S43, 0x2ad7d2bb), (II, Rb, 9, S44, 0xeb86d391)]"

definition md5_words :: "bytes \<Rightarrow> u32 list" where
  "md5_words block = map (\<lambda>i. le32_decode (drop (4 * i) block)) [0..<16]"

definition Transform :: "bytes \<Rightarrow> md5_state \<Rightarrow> md5_state" where
  "Transform block st =
     (let (a, b, c, d) = fold (md5_step (md5_words block)) md5_program st; (a0, b0, c0, d0) = st
      in (a0 + a, b0 + b, c0 + c, d0 + d))"

subsection \<open>The buffered digest\<close>

record MD5 =
  md5_state :: md5_state
  md5_count0 :: u32
  md5_count1 :: u32
  md5_buffer :: bytes

definition md5_init :: md5_state where
  "md5_init = (0x67452301, 0xefcdab89, 0x98badcfe, 0x10325476)"

text \<open>The constructor leaves the buffer as it finds it.\<close>

definition md5_new :: "bytes \<Rightarrow> MD5" where
  "md5_new garbage = \<lparr>md5_state = md5_init, md5_count0 = 0, md5_count1 = 0, md5_buffer = garbage\<rparr>"

definition md5_index :: "MD5 \<Rightarrow> nat" where
  "md5_index s = unat (drop_bit 3 (md5_count0 s) AND 0x3F)"

text \<open>\<^verbatim>\<open>memcpy\<close> into the buffer at a position.\<close>

definition md5_copy :: "nat \<Rightarrow> bytes \<Rightarrow> bytes \<Rightarrow> bytes" where
  "md5_copy at src buf = take at buf @ src @ drop (at + length src) buf"

text \<open>The loop over whole blocks of the input; it returns the state and what is left.\<close>

function md5_blocks :: "bytes \<Rightarrow> md5_state \<Rightarrow> md5_state \<times> bytes" where
  "md5_blocks data st =
     (if 63 < length data then md5_blocks (drop 64 data) (Transform (take 64 data) st) else (st, data))"
  by pat_completeness auto
termination by (relation "measure (\<lambda>(data, st). length data)") auto

declare md5_blocks.simps [simp del]

text \<open>
  The loop counter \<^verbatim>\<open>i\<close> is a 32-bit integer and \<^verbatim>\<open>i + 63\<close> is compared with a 64-bit length.  It starts at
  \<open>part_len\<close> and grows by 64, so \<^verbatim>\<open>i + 63\<close> is at most \<open>2 ^ 32 - 65 + part_len\<close> before it wraps around: for a
  longer input the loop does not end, which is \<open>None\<close>.
\<close>

definition md5_Update :: "bytes \<Rightarrow> MD5 \<Rightarrow> MD5 option" where
  "md5_Update data s =
     (if 2 ^ 32 - 65 + (64 - md5_index s) < length data then None
      else let index = md5_index s;
               len = (of_nat (length data) :: u64);
               bits = (ucast (push_bit 3 len) :: u32);
               count0 = md5_count0 s + bits;
               count1 = (if count0 < bits then md5_count1 s + 1 else md5_count1 s) + ucast (drop_bit 29 len);
               part_len = 64 - index
           in Some (if part_len \<le> length data
                    then let st = Transform (md5_copy index (take part_len data) (md5_buffer s)) (md5_state s);
                             (st', rest) = md5_blocks (drop part_len data) st
                         in \<lparr>md5_state = st', md5_count0 = count0, md5_count1 = count1,
                             md5_buffer = md5_copy 0 rest (md5_copy index (take part_len data) (md5_buffer s))\<rparr>
                    else \<lparr>md5_state = md5_state s, md5_count0 = count0, md5_count1 = count1,
                          md5_buffer = md5_copy index data (md5_buffer s)\<rparr>))"

definition md5_pad_len :: "nat \<Rightarrow> nat" where
  "md5_pad_len index = (if index < 56 then 56 - index else 120 - index)"

definition md5_digest :: "md5_state \<Rightarrow> bytes" where
  "md5_digest st = (case st of (a, b, c, d) \<Rightarrow> le32 a @ le32 b @ le32 c @ le32 d)"

definition md5_Finalize :: "MD5 \<Rightarrow> bytes option" where
  "md5_Finalize s =
     (let bits = le32 (md5_count0 s) @ le32 (md5_count1 s);
          pad = take (md5_pad_len (md5_index s)) (0x80 # replicate 63 0)
      in Option.bind (md5_Update pad s)
           (\<lambda>s1. Option.bind (md5_Update bits s1) (\<lambda>s2. Some (md5_digest (md5_state s2)))))"

definition md5_Hash :: "bytes \<Rightarrow> bytes \<Rightarrow> bytes option" where
  "md5_Hash garbage input = Option.bind (md5_Update input (md5_new garbage)) md5_Finalize"

subsection \<open>The digest of RFC 1321\<close>

text \<open>The schedule: message word, rotation and register of step \<open>i\<close> by the formulas of the RFC.\<close>

definition rfc_round :: "nat \<Rightarrow> md5_round" where
  "rfc_round i = [FF, GG, HH, II] ! (i div 16)"

definition rfc_reg :: "nat \<Rightarrow> md5_reg" where
  "rfc_reg i = [Ra, Rd, Rc, Rb] ! (i mod 4)"

definition rfc_word :: "nat \<Rightarrow> nat" where
  "rfc_word i = [i, 5 * i + 1, 3 * i + 5, 7 * i] ! (i div 16) mod 16"

definition rfc_shift :: "nat \<Rightarrow> nat" where
  "rfc_shift i = [[7, 12, 17, 22], [5, 9, 14, 20], [4, 11, 16, 23], [6, 10, 15, 21]] ! (i div 16) ! (i mod 4)"

text \<open>The padded message: a one bit, zeros up to 56 modulo 64, and the length in bits.\<close>

definition rfc_padded :: "bytes \<Rightarrow> bytes" where
  "rfc_padded m =
     m @ 0x80 # replicate ((119 - length m mod 64) mod 64) 0 @ le64 (of_nat (8 * length m))"

definition rfc_md5 :: "bytes \<Rightarrow> bytes" where
  "rfc_md5 m = md5_digest (fst (md5_blocks (rfc_padded m) md5_init))"

subsection \<open>Blocks\<close>

lemma md5_blocks_short: "length data < 64 \<Longrightarrow> md5_blocks data st = (st, data)"
  by (subst md5_blocks.simps) simp

lemma md5_blocks_block:
  "length block = 64 \<Longrightarrow> md5_blocks (block @ data) st = md5_blocks data (Transform block st)"
  by (subst md5_blocks.simps) simp

lemma md5_blocks_append:
  "md5_blocks (xs @ ys) st = (case md5_blocks xs st of (st', rest) \<Rightarrow> md5_blocks (rest @ ys) st')"
proof (induction xs st rule: md5_blocks.induct)
  case (1 xs st)
  show ?case
  proof (cases "63 < length xs")
    case True
    then have "md5_blocks (xs @ ys) st = md5_blocks (drop 64 xs @ ys) (Transform (take 64 xs) st)"
      by (subst md5_blocks.simps) simp
    also have "\<dots> = (case md5_blocks xs st of (st', rest) \<Rightarrow> md5_blocks (rest @ ys) st')"
      using "1.IH" [OF True] True by (simp add: md5_blocks.simps [of xs st])
    finally show ?thesis .
  qed (simp add: md5_blocks_short)
qed

lemma md5_blocks_rest: "length (snd (md5_blocks xs st)) = length xs mod 64"
proof (induction xs st rule: md5_blocks.induct)
  case (1 xs st)
  show ?case
  proof (cases "63 < length xs")
    case True
    then have "length (snd (md5_blocks xs st)) = (length xs - 64) mod 64"
      using "1.IH" [OF True] by (subst md5_blocks.simps) simp
    then show ?thesis using True by (simp add: le_mod_geq)
  qed (simp add: md5_blocks_short)
qed

subsection \<open>The buffer represents the message\<close>

definition md5_repr :: "MD5 \<Rightarrow> bytes \<Rightarrow> bool" where
  "md5_repr s m \<longleftrightarrow> length (md5_buffer s) = 64 \<and>
     md5_blocks m md5_init = (md5_state s, take (length m mod 64) (md5_buffer s)) \<and>
     unat (md5_count0 s) = 8 * length m mod 2 ^ 32 \<and>
     unat (md5_count1 s) = 8 * length m div 2 ^ 32 mod 2 ^ 32"

lemma md5_index_repr:
  assumes "md5_repr s m"
  shows "md5_index s = length m mod 64"
proof -
  have mask: "(0x3F :: u32) = mask 6" by (simp add: mask_eq_exp_minus_1)
  have "md5_index s = take_bit 6 (drop_bit 3 (unat (md5_count0 s)))"
    unfolding md5_index_def mask take_bit_eq_mask [symmetric] by (simp add: unsigned_take_bit_eq unat_drop_bit_eq)
  also have "\<dots> = unat (md5_count0 s) div 8 mod 64" by (simp add: take_bit_eq_mod drop_bit_eq_div)
  also have "\<dots> = 8 * length m mod 2 ^ 32 div 8 mod 64" using assms by (simp add: md5_repr_def)
  also have "\<dots> = length m mod 64"
  proof -
    have "8 * length m mod 2 ^ 32 = 8 * (length m mod 2 ^ 29)" using mult_mod_right [of 8 "length m" "2 ^ 29"] by simp
    then show ?thesis by (simp add: mod_mod_cancel)
  qed
  finally show ?thesis .
qed

lemma md5_copy_at:
  "\<lbrakk>length buf = 64; i + length src \<le> 64\<rbrakk> \<Longrightarrow>
     length (md5_copy i src buf) = 64 \<and> take (i + length src) (md5_copy i src buf) = take i buf @ src"
  by (simp add: md5_copy_def)


lemma mod_add_less_iff: "\<lbrakk>a < M; b < M\<rbrakk> \<Longrightarrow> (a + b) mod M < b \<longleftrightarrow> M \<le> a + b" for a b M :: nat
  by (cases "a + b < M") (auto simp: le_mod_geq)

lemma div_add_carry: "\<lbrakk>a < M; b < M\<rbrakk> \<Longrightarrow> (a + b) div M = (if M \<le> a + b then 1 else 0)" for a b M :: nat
  by (auto simp: le_div_geq)

lemma md5_counts:
  fixes c0 c1 :: u32 and n L :: nat
  assumes "n < 2 ^ 32" "unat c0 = 8 * L mod 2 ^ 32" "unat c1 = 8 * L div 2 ^ 32 mod 2 ^ 32"
  defines "bits \<equiv> (ucast (push_bit 3 (of_nat n :: u64)) :: u32)"
  shows "unat (c0 + bits) = 8 * (L + n) mod 2 ^ 32"
    and "unat ((if c0 + bits < bits then c1 + 1 else c1) + ucast (drop_bit 29 (of_nat n :: u64))) =
      8 * (L + n) div 2 ^ 32 mod 2 ^ 32"
proof -
  have n: "unat (of_nat n :: u64) = n" using assms(1) by (simp add: unat_of_nat)
  have n8: "8 * n < 2 ^ 64" using assms(1) by simp
  have "push_bit 3 (of_nat n :: u64) = of_nat (8 * n)" by (simp add: push_bit_eq_mult)
  moreover have "unat (of_nat (8 * n) :: u64) = 8 * n" using n8 by (simp only: unat_of_nat) simp
  ultimately have bits: "unat bits = 8 * n mod 2 ^ 32"
    unfolding bits_def unsigned_ucast_eq by (simp only: take_bit_eq_mod) simp
  show c0': "unat (c0 + bits) = 8 * (L + n) mod 2 ^ 32"
  proof -
    have "unat (c0 + bits) = (8 * L mod 2 ^ 32 + 8 * n mod 2 ^ 32) mod 2 ^ 32"
      by (simp add: unat_word_ariths assms(2) bits)
    then show ?thesis by (simp only: mod_add_eq add_mult_distrib2)
  qed
  have hi: "unat (ucast (drop_bit 29 (of_nat n :: u64)) :: u32) = 8 * n div 2 ^ 32"
  proof -
    have "unat (drop_bit 29 (of_nat n :: u64)) = n div 2 ^ 29"
      unfolding unat_drop_bit_eq n by (simp add: drop_bit_eq_div)
    moreover have "n div 2 ^ 29 < 2 ^ 32" using assms(1) by (simp add: div_less_dividend less_mult_imp_div_less)
    ultimately have "unat (ucast (drop_bit 29 (of_nat n :: u64)) :: u32) = n div 2 ^ 29"
      by (simp add: unsigned_ucast_eq take_bit_nat_eq_self)
    moreover have "n div 2 ^ 29 = 8 * n div 2 ^ 32" by simp
    ultimately show ?thesis by simp
  qed
  let ?M = "2 ^ 32 :: nat" and ?A = "8 * L mod 2 ^ 32" and ?B = "8 * n mod 2 ^ 32"
  have carry: "c0 + bits < bits \<longleftrightarrow> ?M \<le> ?A + ?B"
  proof -
    have "c0 + bits < bits \<longleftrightarrow> (?A + ?B) mod ?M < ?B"
      by (simp add: word_less_nat_alt unat_word_ariths assms(2) bits)
    also have "\<dots> \<longleftrightarrow> ?M \<le> ?A + ?B" by (rule mod_add_less_iff) simp_all
    finally show ?thesis .
  qed
  have one: "(?A + ?B) div ?M = (if c0 + bits < bits then 1 else 0)"
    unfolding carry by (rule div_add_carry) simp_all
  have "unat ((if c0 + bits < bits then c1 + 1 else c1) + ucast (drop_bit 29 (of_nat n :: u64))) =
      (8 * L div ?M + (?A + ?B) div ?M + 8 * n div ?M) mod ?M"
    unfolding one by (simp add: unat_word_ariths hi assms(3) mod_simps)
  also have "8 * L div ?M + (?A + ?B) div ?M + 8 * n div ?M = 8 * (L + n) div ?M"
    unfolding add_mult_distrib2 div_add1_eq [of "8 * L" "8 * n" ?M] by simp
  finally show "unat ((if c0 + bits < bits then c1 + 1 else c1) + ucast (drop_bit 29 (of_nat n :: u64))) =
      8 * (L + n) div 2 ^ 32 mod 2 ^ 32" .
qed


lemma md5_Update_repr:
  assumes repr: "md5_repr s m" and len: "length data < 2 ^ 32 - 63"
  shows "\<exists>s'. md5_Update data s = Some s' \<and> md5_repr s' (m @ data)"
proof -
  define i where "i = length m mod 64"
  have i: "md5_index s = i" "i < 64" using md5_index_repr [OF repr] by (simp_all add: i_def)
  have buf: "length (md5_buffer s) = 64" and blocks: "md5_blocks m md5_init = (md5_state s, take i (md5_buffer s))"
    using repr by (simp_all add: md5_repr_def i_def)
  have n: "length data < 2 ^ 32" using len by simp
  define bits :: u32 where "bits = ucast (push_bit 3 (of_nat (length data) :: u64))"
  define c0 where "c0 = md5_count0 s + bits"
  define c1 where "c1 = (if c0 < bits then md5_count1 s + 1 else md5_count1 s) +
      ucast (drop_bit 29 (of_nat (length data) :: u64))"
  have counts: "unat c0 = 8 * length (m @ data) mod 2 ^ 32" "unat c1 = 8 * length (m @ data) div 2 ^ 32 mod 2 ^ 32"
    using md5_counts [OF n, of "md5_count0 s" "length m" "md5_count1 s"] repr
    unfolding md5_repr_def c1_def c0_def bits_def by simp_all
  have app: "md5_blocks (m @ data) md5_init = md5_blocks (take i (md5_buffer s) @ data) (md5_state s)"
    using md5_blocks_append [of m data md5_init] by (simp add: blocks)
  have total: "length (m @ data) mod 64 = (i + length data) mod 64" by (simp add: i_def mod_add_left_eq)
  show ?thesis
  proof (cases "64 - i \<le> length data")
    case True
    let ?head = "take (64 - i) data" and ?tail = "drop (64 - i) data"
    have block: "md5_copy i ?head (md5_buffer s) = take i (md5_buffer s) @ ?head"
      using True i(2) buf by (simp add: md5_copy_def)
    define st where "st = Transform (take i (md5_buffer s) @ ?head) (md5_state s)"
    obtain st' rest where loop: "md5_blocks ?tail st = (st', rest)" by fastforce
    have "md5_blocks (take i (md5_buffer s) @ data) (md5_state s) = md5_blocks ?tail st"
      using md5_blocks_block [of "take i (md5_buffer s) @ ?head" ?tail "md5_state s"] True i(2) buf
      by (simp add: st_def)
    moreover have "length rest = length ?tail mod 64" using md5_blocks_rest [of ?tail st] loop by simp
    moreover have "length ?tail mod 64 = (i + length data) mod 64"
    proof -
      have "i + length data = length ?tail + 64" using True i(2) by simp
      then show ?thesis by (metis mod_add_self2)
    qed
    ultimately have "md5_blocks (m @ data) md5_init = (st', rest)" "length rest = length (m @ data) mod 64"
      using app loop total by simp_all
    moreover have "length rest \<le> 64" using \<open>length rest = length ?tail mod 64\<close> by (simp add: less_imp_le)
    moreover define s' where "s' = \<lparr>md5_state = st', md5_count0 = c0, md5_count1 = c1,
        md5_buffer = md5_copy 0 rest (take i (md5_buffer s) @ ?head)\<rparr>"
    have "md5_Update data s = Some s'"
      using True len loop i block unfolding md5_Update_def Let_def s'_def c1_def c0_def bits_def
      by (simp add: st_def)
    moreover have "length (take i (md5_buffer s) @ ?head) = 64" using True i(2) buf by simp
    ultimately show ?thesis
      using counts md5_copy_at [of "take i (md5_buffer s) @ ?head" 0 rest]
      by (intro exI [of _ s']) (simp add: md5_repr_def s'_def)
  next
    case False
    then have "md5_blocks (take i (md5_buffer s) @ data) (md5_state s) = (md5_state s, take i (md5_buffer s) @ data)"
      using buf i(2) by (intro md5_blocks_short) simp
    moreover have "(i + length data) mod 64 = i + length data" using False by simp
    moreover define s' where "s' = \<lparr>md5_state = md5_state s, md5_count0 = c0, md5_count1 = c1,
        md5_buffer = md5_copy i data (md5_buffer s)\<rparr>"
    have "md5_Update data s = Some s'"
      using False len i unfolding md5_Update_def Let_def s'_def c1_def c0_def bits_def by simp
    ultimately show ?thesis
      using counts False i(2) buf app total by (intro exI [of _ s']) (simp add: md5_repr_def s'_def md5_copy_def)
  qed
qed

lemma md5_repr_new: "length garbage = 64 \<Longrightarrow> md5_repr (md5_new garbage) []"
  by (simp add: md5_repr_def md5_new_def md5_blocks_short)

lemma le64_split:
  assumes "unat c0 = N mod 2 ^ 32" "unat c1 = N div 2 ^ 32 mod 2 ^ 32"
  shows "le32 c0 @ le32 c1 = le64 (of_nat N)"
proof -
  have N: "unat (of_nat N :: u64) = take_bit 64 N" by (simp add: unat_of_nat take_bit_eq_mod)
  have "unat (ucast (of_nat N :: u64) :: u32) = take_bit 32 (take_bit 64 N)"
    unfolding unsigned_ucast_eq N by simp
  then have "unat (ucast (of_nat N :: u64) :: u32) = unat c0" using assms(1) by (simp add: take_bit_eq_mod mod_mod_cancel)
  then have c0: "ucast (of_nat N :: u64) = c0" by (simp only: word_unat_eq_iff)
  have "unat (ucast (drop_bit 32 (of_nat N :: u64)) :: u32) = take_bit 32 (drop_bit 32 (take_bit 64 N))"
    unfolding unsigned_ucast_eq unat_drop_bit_eq N by simp
  also have "\<dots> = take_bit 32 (drop_bit 32 N)" by (simp add: drop_bit_take_bit)
  finally have "unat (ucast (drop_bit 32 (of_nat N :: u64)) :: u32) = unat c1"
    using assms(2) by (simp add: take_bit_eq_mod drop_bit_eq_div)
  then have "ucast (drop_bit 32 (of_nat N :: u64)) = c1" by (simp only: word_unat_eq_iff)
  with c0 show ?thesis by (simp add: le64_def)
qed

lemma md5_Finalize_repr:
  assumes repr: "md5_repr s m"
  shows "md5_Finalize s = Some (rfc_md5 m)"
proof -
  define pad where "pad = take (md5_pad_len (md5_index s)) (0x80 # replicate 63 (0 :: byte))"
  define bits where "bits = le32 (md5_count0 s) @ le32 (md5_count1 s)"
  have idx: "md5_index s = length m mod 64" "md5_index s < 64" using md5_index_repr [OF repr] by simp_all
  have pad: "pad = 0x80 # replicate ((119 - length m mod 64) mod 64) 0"
    using idx by (auto simp: pad_def md5_pad_len_def take_Cons' min_def le_mod_geq not_less)
  have bits: "bits = le64 (of_nat (8 * length m))"
    unfolding bits_def using repr by (intro le64_split) (simp_all only: md5_repr_def)
  obtain s1 where s1: "md5_Update pad s = Some s1" "md5_repr s1 (m @ pad)"
  proof -
    have "length pad \<le> 64" by (simp add: pad_def)
    then show ?thesis using md5_Update_repr [OF repr, of pad] that by auto
  qed
  obtain s2 where s2: "md5_Update bits s1 = Some s2" "md5_repr s2 (m @ pad @ bits)"
    using md5_Update_repr [OF s1(2), of bits] by (auto simp: bits)
  have "m @ pad @ bits = rfc_padded m" by (simp add: rfc_padded_def pad bits)
  then show ?thesis
    using s1(1) s2 unfolding md5_Finalize_def Let_def pad_def [symmetric] bits_def [symmetric]
    by (simp add: rfc_md5_def md5_repr_def)
qed


subsection \<open>The digest\<close>

lemma md5_Hash_rfc:
  "\<lbrakk>length garbage = 64; length m < 2 ^ 32 - 63\<rbrakk> \<Longrightarrow> md5_Hash garbage m = Some (rfc_md5 m)"
  using md5_Update_repr [OF md5_repr_new, of garbage m] md5_Finalize_repr
  by (auto simp: md5_Hash_def)

lemma rfc_md5_length: "length (rfc_md5 m) = 16"
  by (simp add: rfc_md5_def md5_digest_def split: prod.split)

text \<open>A message fed in pieces.\<close>

fun md5_feed :: "bytes list \<Rightarrow> MD5 \<Rightarrow> MD5 option" where
  "md5_feed [] s = Some s"
| "md5_feed (c # cs) s = Option.bind (md5_Update c s) (md5_feed cs)"

lemma md5_feed_repr:
  "\<lbrakk>md5_repr s m; list_all (\<lambda>c. length c < 2 ^ 32 - 63) cs\<rbrakk> \<Longrightarrow>
     \<exists>s'. md5_feed cs s = Some s' \<and> md5_repr s' (m @ concat cs)"
proof (induction cs arbitrary: s m)
  case (Cons c cs)
  then obtain s1 where "md5_Update c s = Some s1" "md5_repr s1 (m @ c)"
    using md5_Update_repr [OF Cons.prems(1), of c] by auto
  then show ?case using Cons.IH [of s1 "m @ c"] Cons.prems(2) by simp
qed simp



end
