(* ===== verification/CacheKeys.thy ===== *)
theory CacheKeys
  imports Md5 SimilarityCache
begin

text \<open>
  Cache keys (\<^verbatim>\<open>src/cache/cache_key.cpp\<close>, \<^verbatim>\<open>src/cache/cache_key_generator.cpp\<close>): the query with the
  generations of the stores it depends on is written as a string, and its MD5 digest is the key.
  The theory shows that two queries whose ids and modes have no colon share a key only when the
  digests of two different strings collide, and that a colon in an id makes the string ambiguous.
\<close>

unbundle bit_operations_syntax

subsection \<open>Keys\<close>

definition digest_half :: "bytes \<Rightarrow> u64" where
  "digest_half bs = foldl (\<lambda>h b. push_bit 8 h OR ucast b) 0 bs"

definition key_of_digest :: "bytes \<Rightarrow> CacheKey" where
  "key_of_digest digest = \<lparr>hash_high = digest_half (take 8 digest), hash_low = digest_half (drop 8 digest)\<rparr>"

definition Generate :: "bytes \<Rightarrow> string \<Rightarrow> CacheKey option" where
  "Generate garbage query = map_option key_of_digest (md5_Hash garbage (bytes_of_string query))"

definition hex_digit :: "nat \<Rightarrow> char" where
  "hex_digit n = ''0123456789abcdef'' ! n"

text \<open>\<^verbatim>\<open>std::hex << std::setfill('0') << std::setw(width)\<close> for a value that fits the width.\<close>

fun show_hex :: "nat \<Rightarrow> nat \<Rightarrow> string" where
  "show_hex 0 n = []"
| "show_hex (Suc w) n = show_hex w (n div 16) @ [hex_digit (n mod 16)]"

definition key_ToString :: "CacheKey \<Rightarrow> string" where
  "key_ToString k = show_hex 16 (unat (hash_high k)) @ show_hex 16 (unat (hash_low k))"

subsection \<open>Queries\<close>

record SimCacheKeyParams =
  sp_id :: string
  sp_top_k :: int
  sp_mode :: string
  sp_adaptive :: "bool option"
  sp_cooccurrence_generation :: u64
  sp_vector_generation :: u64
  sp_filter_expr :: string
  sp_metadata_generation :: u64
  sp_dataset_generation :: u64

record SimvCacheKeyParams =
  vp_vector :: "u32 list"  \<comment> \<open>the bit patterns of the floats\<close>
  vp_top_k :: int
  vp_vector_generation :: u64
  vp_filter_expr :: string
  vp_metadata_generation :: u64
  vp_dataset_generation :: u64

definition AdaptiveCachePart :: "bool option \<Rightarrow> string" where
  "AdaptiveCachePart a = (case a of None \<Rightarrow> ''default'' | Some b \<Rightarrow> if b then ''on'' else ''off'')"

definition filter_part :: "string \<Rightarrow> string" where
  "filter_part f = (if f = [] then [] else '':f'' @ f)"

definition sim_query :: "SimCacheKeyParams \<Rightarrow> string" where
  "sim_query p =
     ''SIM:'' @ sp_id p @ '':'' @ show_int (sp_top_k p) @ '':'' @ sp_mode p @ '':a'' @ AdaptiveCachePart (sp_adaptive p) @
     '':g'' @ show_nat (unat (sp_cooccurrence_generation p)) @ '':v'' @ show_nat (unat (sp_vector_generation p)) @
     '':m'' @ show_nat (unat (sp_metadata_generation p)) @ '':d'' @ show_nat (unat (sp_dataset_generation p)) @
     filter_part (sp_filter_expr p)"

definition GenerateSimCacheKey :: "bytes \<Rightarrow> SimCacheKeyParams \<Rightarrow> CacheKey option" where
  "GenerateSimCacheKey garbage p = Generate garbage (sim_query p)"

definition HashVector :: "bytes \<Rightarrow> u32 list \<Rightarrow> string option" where
  "HashVector garbage v =
     (if v = [] \<or> SIZE_MAX div 4 < length v then Some (replicate 32 CHR ''0'')
      else map_option (\<lambda>digest. concat (map (\<lambda>b. show_hex 2 (unat b)) digest))
             (md5_Hash garbage (concat (map le32 v))))"

definition simv_query :: "string \<Rightarrow> SimvCacheKeyParams \<Rightarrow> string" where
  "simv_query hash p =
     ''SIMV:'' @ hash @ '':'' @ show_int (vp_top_k p) @ '':v'' @ show_nat (unat (vp_vector_generation p)) @
     '':m'' @ show_nat (unat (vp_metadata_generation p)) @ '':d'' @ show_nat (unat (vp_dataset_generation p)) @
     filter_part (vp_filter_expr p)"

definition GenerateSimvCacheKey :: "bytes \<Rightarrow> SimvCacheKeyParams \<Rightarrow> CacheKey option" where
  "GenerateSimvCacheKey garbage p =
     Option.bind (HashVector garbage (vp_vector p)) (\<lambda>h. Generate garbage (simv_query h p))"

subsection \<open>Keys determine digests\<close>

lemma digest_half_snoc: "digest_half (bs @ [b]) = push_bit 8 (digest_half bs) OR ucast b"
  by (simp add: digest_half_def)

lemma digest_half_high: "\<lbrakk>8 * length bs \<le> n\<rbrakk> \<Longrightarrow> \<not> bit (digest_half bs) n"
proof (induction bs arbitrary: n rule: rev_induct)
  case (snoc b bs)
  then show ?case using bit_imp_le_length [of b n] by (auto simp: digest_half_snoc bit_simps)
qed (simp add: digest_half_def)

lemma digest_half_inj:
  "\<lbrakk>length bs = length cs; length bs \<le> 8; digest_half bs = digest_half cs\<rbrakk> \<Longrightarrow> bs = cs"
proof (induction bs arbitrary: cs rule: rev_induct)
  case (snoc b bs)
  then obtain cs' c where cs: "cs = cs' @ [c]" by (cases cs rule: rev_cases) auto
  have eq: "push_bit 8 (digest_half bs) OR ucast b = push_bit 8 (digest_half cs') OR (ucast c :: u64)"
    using snoc.prems(3) by (simp add: cs digest_half_snoc)
  have "b = c"
  proof (rule bit_word_eqI)
    fix n
    assume "n < LENGTH(8)"
    then show "bit b n = bit c n"
      using arg_cong [OF eq, of "\<lambda>w. bit w n"] by (simp add: bit_simps)
  qed
  moreover have "digest_half bs = digest_half cs'"
  proof (rule bit_word_eqI)
    fix n
    assume "n < LENGTH(64)"
    show "bit (digest_half bs) n = bit (digest_half cs') n"
    proof (cases "n < 56")
      case True
      have "\<not> bit b (n + 8)" "\<not> bit c (n + 8)" using bit_imp_le_length [of _ "n + 8"] by fastforce+
      then show ?thesis using arg_cong [OF eq, of "\<lambda>w. bit w (n + 8)"] True by (simp add: bit_simps)
    next
      case False
      then show ?thesis using digest_half_high [of bs n] digest_half_high [of cs' n] snoc.prems cs by simp
    qed
  qed
  ultimately show ?case using snoc.IH [of cs'] snoc.prems cs by simp
qed simp

lemma key_of_digest_inj:
  "\<lbrakk>length d = 16; length e = 16\<rbrakk> \<Longrightarrow> key_of_digest d = key_of_digest e \<longleftrightarrow> d = e"
  using digest_half_inj [of "take 8 d" "take 8 e"] digest_half_inj [of "drop 8 d" "drop 8 e"]
  by (auto simp: key_of_digest_def) (metis append_take_drop_id)

lemma Generate_collision:
  assumes "length g = 64" "length g' = 64" "length a < 2 ^ 32 - 63" "length b < 2 ^ 32 - 63"
    and "Generate g a = Generate g' b"
  shows "rfc_md5 (bytes_of_string a) = rfc_md5 (bytes_of_string b)"
  using assms by (simp add: Generate_def md5_Hash_rfc key_of_digest_inj rfc_md5_length)

text \<open>The fields after the id of a query have no colon but the separators, up to the filter.\<close>

lemma filter_part_inj:
  "show_nat m @ filter_part f = show_nat n @ filter_part h \<longleftrightarrow> m = n \<and> f = h"
proof -
  have "show_nat a \<noteq> show_nat b @ CHR '':'' # x" for a b x
    using show_nat_no_sign(2) [of a] by (metis in_set_conv_decomp)
  then show ?thesis
    using separator_unique [OF show_nat_no_sign(2) [of m] show_nat_no_sign(2) [of n]]
    by (auto simp: filter_part_def show_nat_inj dest: sym)
qed

lemma AdaptiveCachePart_inj: "AdaptiveCachePart a = AdaptiveCachePart b \<longleftrightarrow> a = b"
  by (auto simp: AdaptiveCachePart_def split: option.splits)

lemma AdaptiveCachePart_no_colon: "CHR '':'' \<notin> set (AdaptiveCachePart a)"
  by (auto simp: AdaptiveCachePart_def split: option.splits)

lemmas key_separators =
  separator_unique [of "CHR '':''"] show_nat_inj show_int_inj show_nat_no_sign show_int_no_colon
  word_unat_eq_iff [symmetric]
  AdaptiveCachePart_inj AdaptiveCachePart_no_colon filter_part_inj

lemma sim_query_inj:
  assumes "CHR '':'' \<notin> set (sp_id p)" "CHR '':'' \<notin> set (sp_mode p)"
    and "CHR '':'' \<notin> set (sp_id q)" "CHR '':'' \<notin> set (sp_mode q)"
    and "sim_query p = sim_query q"
  shows "p = q"
  using assms by (cases p; cases q) (simp add: sim_query_def key_separators)

lemma simv_query_inj:
  assumes "CHR '':'' \<notin> set h" "CHR '':'' \<notin> set h'" "simv_query h p = simv_query h' q"
  shows "h = h' \<and> p = q\<lparr>vp_vector := vp_vector p\<rparr>"
  using assms by (cases p; cases q) (simp add: simv_query_def key_separators)


subsection \<open>The key is the identity of the query\<close>

lemma hex_digit_simps: "n < 16 \<Longrightarrow> hex_digit n \<noteq> CHR '':''"
  "\<lbrakk>m < 16; n < 16\<rbrakk> \<Longrightarrow> hex_digit m = hex_digit n \<longleftrightarrow> m = n"
proof -
  have "CHR '':'' \<notin> set ''0123456789abcdef''" by simp
  then show "n < 16 \<Longrightarrow> hex_digit n \<noteq> CHR '':''"
    unfolding hex_digit_def using nth_mem [of n "''0123456789abcdef''"] by fastforce
  have "distinct ''0123456789abcdef''" by simp
  then show "\<lbrakk>m < 16; n < 16\<rbrakk> \<Longrightarrow> hex_digit m = hex_digit n \<longleftrightarrow> m = n"
    unfolding hex_digit_def by (subst nth_eq_iff_index_eq) simp_all
qed

lemma show_hex_length [simp]: "length (show_hex w n) = w"
  by (induction w arbitrary: n) simp_all

lemma show_hex_no_colon: "CHR '':'' \<notin> set (show_hex w n)"
proof (induction w arbitrary: n)
  case (Suc w)
  then show ?case using hex_digit_simps(1) [of "n mod 16"] by auto
qed simp

lemma show_hex_inj: "\<lbrakk>m < 16 ^ w; n < 16 ^ w\<rbrakk> \<Longrightarrow> show_hex w m = show_hex w n \<longleftrightarrow> m = n"
proof (induction w arbitrary: m n)
  case (Suc w)
  have "m div 16 < 16 ^ w" "n div 16 < 16 ^ w" using Suc.prems by (simp_all add: less_mult_imp_div_less mult.commute)
  then have "show_hex (Suc w) m = show_hex (Suc w) n \<longleftrightarrow> m div 16 = n div 16 \<and> m mod 16 = n mod 16"
    using Suc.IH [of "m div 16" "n div 16"] hex_digit_simps(2) [of "m mod 16" "n mod 16"] by simp
  also have "\<dots> \<longleftrightarrow> m = n" by (metis div_mult_mod_eq)
  finally show ?case .
qed simp

lemma key_ToString_inj: "key_ToString k = key_ToString k' \<longleftrightarrow> k = k'" for k k' :: CacheKey
proof -
  have "unat x < 16 ^ 16" for x :: u64 using unsigned_less [of x] by simp
  then show ?thesis
    by (cases k; cases k') (simp add: key_ToString_def show_hex_inj word_unat_eq_iff [symmetric])
qed

lemma hex_bytes_inj:
  "length d = length e \<Longrightarrow>
     concat (map (\<lambda>b. show_hex 2 (unat b)) d) = concat (map (\<lambda>b. show_hex 2 (unat b)) e) \<longleftrightarrow> d = (e :: bytes)"
proof (induction d e rule: list_induct2)
  case (Cons x xs y ys)
  have "unat x < 16 ^ 2" "unat y < 16 ^ 2" using unsigned_less [of x] unsigned_less [of y] by simp_all
  then show ?case using Cons show_hex_inj [of "unat x" 2 "unat y"] by (simp add: word_unat_eq_iff del: show_hex.simps)
qed simp

lemma le32_concat_inj: "concat (map le32 v) = concat (map le32 w) \<longleftrightarrow> v = w"
proof (induction v arbitrary: w)
  case (Cons x v)
  show ?case
  proof (cases w)
    case (Cons y w')
    have "le32 x = le32 y \<longleftrightarrow> x = y" by (metis le32_roundtrip_exact)
    then show ?thesis using Cons.IH Cons by simp
  qed (simp add: le32_def)
qed (case_tac w; simp add: le32_def)


definition md5_collision :: "bytes \<Rightarrow> bytes \<Rightarrow> bool" where
  "md5_collision a b \<longleftrightarrow> a \<noteq> b \<and> rfc_md5 a = rfc_md5 b"

abbreviation md5_sized :: "bytes \<Rightarrow> bool" where
  "md5_sized m \<equiv> length m < 2 ^ 32 - 63"

text \<open>The hash of a vector as a text: 32 zeros for the empty vector, the digest of its bytes otherwise.\<close>

definition vector_text :: "u32 list \<Rightarrow> string" where
  "vector_text v = (if v = [] then replicate 32 CHR ''0''
     else concat (map (\<lambda>b. show_hex 2 (unat b)) (rfc_md5 (concat (map le32 v)))))"

lemma length_concat_le32 [simp]: "length (concat (map le32 v)) = 4 * length v"
  by (induction v) simp_all

lemma HashVector_text:
  "\<lbrakk>length g = 64; 4 * length v < 2 ^ 32 - 63\<rbrakk> \<Longrightarrow> HashVector g v = Some (vector_text v)"
  by (simp add: HashVector_def vector_text_def md5_Hash_rfc)

lemma vector_text_no_colon: "CHR '':'' \<notin> set (vector_text v)"
  using show_hex_no_colon by (auto simp: vector_text_def)

lemma zero_text: "replicate 32 CHR ''0'' = concat (map (\<lambda>b. show_hex 2 (unat b)) (replicate 16 (0 :: byte)))"
  by code_simp

lemma vector_text_eq:
  assumes "vector_text v = vector_text w"
  shows "v = w \<or> md5_collision (concat (map le32 v)) (concat (map le32 w)) \<or>
    v = [] \<and> rfc_md5 (concat (map le32 w)) = replicate 16 0 \<or>
    w = [] \<and> rfc_md5 (concat (map le32 v)) = replicate 16 0"
proof -
  have hex: "concat (map (\<lambda>b. show_hex 2 (unat b)) d) = concat (map (\<lambda>b. show_hex 2 (unat b)) e) \<longleftrightarrow> d = e"
    if "length d = 16" "length e = 16" for d e :: bytes
    using that by (intro hex_bytes_inj) simp
  have as_hex: "vector_text x = concat (map (\<lambda>b. show_hex 2 (unat b)) (if x = [] then replicate 16 0 else rfc_md5 (concat (map le32 x))))"
    for x by (simp only: vector_text_def zero_text if_distrib [of "\<lambda>d. concat (map (\<lambda>b. show_hex 2 (unat b)) d)"])
  have "(if v = [] then replicate 16 0 else rfc_md5 (concat (map le32 v))) =
    (if w = [] then replicate 16 0 else rfc_md5 (concat (map le32 w)))"
    using assms unfolding as_hex by (subst (asm) hex) (simp_all add: rfc_md5_length)
  then show ?thesis
    using le32_concat_inj [of v w] by (auto simp: md5_collision_def split: if_splits)
qed

lemma Generate_eq:
  assumes "length g = 64" "length g' = 64" "md5_sized (bytes_of_string a)" "md5_sized (bytes_of_string b)"
  shows "Generate g a = Generate g' b \<longleftrightarrow> a = b \<or> md5_collision (bytes_of_string a) (bytes_of_string b)"
proof -
  have "bytes_of_string a = bytes_of_string b \<longleftrightarrow> a = b" by (metis string_of_bytes_of_string)
  then show ?thesis
    using assms by (auto simp: Generate_def md5_Hash_rfc key_of_digest_inj rfc_md5_length md5_collision_def)
qed


lemma sim_key_eq:
  assumes "length g = 64" "length g' = 64"
    and "md5_sized (bytes_of_string (sim_query p))" "md5_sized (bytes_of_string (sim_query q))"
    and "CHR '':'' \<notin> set (sp_id p) \<union> set (sp_mode p) \<union> set (sp_id q) \<union> set (sp_mode q)"
  shows "GenerateSimCacheKey g p = GenerateSimCacheKey g' q \<longleftrightarrow>
    p = q \<or> md5_collision (bytes_of_string (sim_query p)) (bytes_of_string (sim_query q))"
  using Generate_eq [OF assms(1-4)] sim_query_inj [of p q] assms(5)
  by (auto simp: GenerateSimCacheKey_def)

lemma simv_key_eq:
  assumes "length g = 64" "length g' = 64" "4 * length (vp_vector p) < 2 ^ 32 - 63" "4 * length (vp_vector q) < 2 ^ 32 - 63"
    and "md5_sized (bytes_of_string (simv_query (vector_text (vp_vector p)) p))"
    and "md5_sized (bytes_of_string (simv_query (vector_text (vp_vector q)) q))"
    and "GenerateSimvCacheKey g p = GenerateSimvCacheKey g' q"
  shows "p = q \<or>
    md5_collision (bytes_of_string (simv_query (vector_text (vp_vector p)) p))
      (bytes_of_string (simv_query (vector_text (vp_vector q)) q)) \<or>
    md5_collision (concat (map le32 (vp_vector p))) (concat (map le32 (vp_vector q))) \<or>
    vp_vector p = [] \<and> rfc_md5 (concat (map le32 (vp_vector q))) = replicate 16 0 \<or>
    vp_vector q = [] \<and> rfc_md5 (concat (map le32 (vp_vector p))) = replicate 16 0"
proof -
  have gen: "Generate g (simv_query (vector_text (vp_vector p)) p) = Generate g' (simv_query (vector_text (vp_vector q)) q)"
    using assms(7) by (simp add: GenerateSimvCacheKey_def HashVector_text [OF assms(1,3)] HashVector_text [OF assms(2,4)])
  then consider "simv_query (vector_text (vp_vector p)) p = simv_query (vector_text (vp_vector q)) q"
    | "md5_collision (bytes_of_string (simv_query (vector_text (vp_vector p)) p))
      (bytes_of_string (simv_query (vector_text (vp_vector q)) q))"
    using Generate_eq [OF assms(1,2,5,6)] by blast
  then show ?thesis
  proof cases
    case 1
    have same: "vector_text (vp_vector p) = vector_text (vp_vector q)" "p = q\<lparr>vp_vector := vp_vector p\<rparr>"
      using simv_query_inj [OF vector_text_no_colon vector_text_no_colon 1] by blast+
    then show ?thesis using vector_text_eq [OF same(1)] by (auto simp del: length_concat_le32)
  qed simp
qed

text \<open>
  Two SIM queries whose ids and modes have no colon have the same cache key exactly when they
  are the same query against the same generations, unless MD5 collides on their texts; the key
  does not depend on what the hasher's buffer held. Two SIMV queries with the same key are the
  same unless MD5 collides on their texts or on their vectors, or one vector is empty and the
  other's digest is zero.
\<close>

theorem cache_key_identity:
  assumes "length g = 64" "length g' = 64"
    and "md5_sized (bytes_of_string (sim_query p))" "md5_sized (bytes_of_string (sim_query q))"
    and "CHR '':'' \<notin> set (sp_id p) \<union> set (sp_mode p) \<union> set (sp_id q) \<union> set (sp_mode q)"
    and "4 * length (vp_vector pv) < 2 ^ 32 - 63" "4 * length (vp_vector qv) < 2 ^ 32 - 63"
    and "md5_sized (bytes_of_string (simv_query (vector_text (vp_vector pv)) pv))"
    and "md5_sized (bytes_of_string (simv_query (vector_text (vp_vector qv)) qv))"
  shows "(GenerateSimCacheKey g p = GenerateSimCacheKey g' q \<longleftrightarrow>
      p = q \<or> md5_collision (bytes_of_string (sim_query p)) (bytes_of_string (sim_query q))) \<and>
    GenerateSimCacheKey g p \<noteq> None \<and> GenerateSimvCacheKey g pv \<noteq> None \<and>
    (GenerateSimvCacheKey g pv = GenerateSimvCacheKey g' qv \<longrightarrow> pv = qv \<or>
      md5_collision (bytes_of_string (simv_query (vector_text (vp_vector pv)) pv))
        (bytes_of_string (simv_query (vector_text (vp_vector qv)) qv)) \<or>
      md5_collision (concat (map le32 (vp_vector pv))) (concat (map le32 (vp_vector qv))) \<or>
      vp_vector pv = [] \<and> rfc_md5 (concat (map le32 (vp_vector qv))) = replicate 16 0 \<or>
      vp_vector qv = [] \<and> rfc_md5 (concat (map le32 (vp_vector pv))) = replicate 16 0)"
proof (intro conjI)
  show "GenerateSimCacheKey g p = GenerateSimCacheKey g' q \<longleftrightarrow>
      p = q \<or> md5_collision (bytes_of_string (sim_query p)) (bytes_of_string (sim_query q))"
    by (rule sim_key_eq [OF assms(1-5)])
  show "GenerateSimCacheKey g p \<noteq> None"
    using assms(1,3) by (simp add: GenerateSimCacheKey_def Generate_def md5_Hash_rfc)
  show "GenerateSimvCacheKey g pv \<noteq> None"
    using assms(1,6,8) by (simp add: GenerateSimvCacheKey_def Generate_def md5_Hash_rfc HashVector_text)
qed (intro impI simv_key_eq [OF assms(1,2,6-9)])

definition example_sim :: "string \<Rightarrow> nat \<Rightarrow> SimCacheKeyParams" where
  "example_sim i k = \<lparr>sp_id = i, sp_top_k = int k, sp_mode = ''fusion'', sp_adaptive = None, sp_cooccurrence_generation = 3,
     sp_vector_generation = 5, sp_filter_expr = [], sp_metadata_generation = 0, sp_dataset_generation = 1\<rparr>"

definition example_simv :: "u32 list \<Rightarrow> SimvCacheKeyParams" where
  "example_simv v = \<lparr>vp_vector = v, vp_top_k = 10, vp_vector_generation = 5, vp_filter_expr = [],
     vp_metadata_generation = 0, vp_dataset_generation = 1\<rparr>"

theorem cache_key_identity_witness:
  "GenerateSimCacheKey (replicate 64 0) (example_sim ''item'' 10) = GenerateSimCacheKey (replicate 64 1) (example_sim ''item'' 10) \<and>
   GenerateSimCacheKey (replicate 64 0) (example_sim ''item'' 10) \<noteq> None \<and>
   GenerateSimvCacheKey (replicate 64 0) (example_simv []) \<noteq> None"
proof -
  have "length (sim_query (example_sim ''item'' 10)) = 39"
    "length (simv_query (vector_text []) (example_simv [])) = 49" by code_simp+
  moreover have "sp_id (example_sim ''item'' 10) = ''item''" "sp_mode (example_sim ''item'' 10) = ''fusion''" "vp_vector (example_simv []) = []"
    by (simp_all add: example_sim_def example_simv_def)
  ultimately show ?thesis
    using cache_key_identity [of "replicate 64 0" "replicate 64 1" "example_sim ''item'' 10" "example_sim ''item'' 10"
        "example_simv []" "example_simv []"]
    by (simp del: not_None_eq) (metis not_None_eq)
qed

definition filtered_query :: "string \<Rightarrow> SimCacheKeyParams \<Rightarrow> SimCacheKeyParams" where
  "filtered_query i q = q\<lparr>sp_id := i, sp_top_k := 10, sp_mode := ''fusion'',
     sp_filter_expr := ''x:'' @ drop (length ''SIM:'' + length (sp_id q) + 1) (sim_query (q\<lparr>sp_filter_expr := []\<rparr>))\<rparr>"

definition colliding_id :: "string \<Rightarrow> SimCacheKeyParams \<Rightarrow> string" where
  "colliding_id i q = drop (length ''SIM:'') (sim_query (q\<lparr>sp_id := i, sp_top_k := 10, sp_mode := ''fusion'', sp_filter_expr := ''x''\<rparr>))"

text \<open>
  C31. An id with a colon makes the text ambiguous: for every item, generations and two top-k
  values, there are two SIM queries with the same generations and different ids, one filtered and
  one not, that always have the same cache key.
\<close>

theorem cache_key_colon_ambiguous:
  "GenerateSimCacheKey g (filtered_query i q) =
     GenerateSimCacheKey g (q\<lparr>sp_id := colliding_id i q, sp_filter_expr := []\<rparr>) \<and>
   sp_id (filtered_query i q) \<noteq> sp_id (q\<lparr>sp_id := colliding_id i q, sp_filter_expr := []\<rparr>) \<and>
   sp_filter_expr (filtered_query i q) \<noteq> []"
  by (simp add: GenerateSimCacheKey_def filtered_query_def colliding_id_def sim_query_def filter_part_def)

end
