(* ===== verification/Commands.thy ===== *)
theory Commands
  imports Metadata EventStore
begin

text \<open>
  The commands of the protocol (\<^verbatim>\<open>src/server/command_types.h\<close>, the structure of
  \<^verbatim>\<open>src/server/command_parser.h\<close>): their types, names and privileges, and the parsed command.
  Floats are their bit patterns, and an enumeration read from outside is its underlying value.
\<close>

datatype CommandType =
    kEvent | kVecset | kVecdel | kMetaset | kSim | kSimv
  | kInfo | kConfigHelp | kConfigShow | kConfigVerify
  | kDumpSave | kDumpLoad | kDumpVerify | kDumpInfo | kDumpStatus
  | kDebugOn | kDebugOff | kCacheStats | kCacheClear | kCacheEnable | kCacheDisable
  | kSet | kGet | kShowVariables | kAuth | kUnknown

fun CommandTypeToString :: "CommandType \<Rightarrow> string" where
  "CommandTypeToString kEvent = ''EVENT''"
| "CommandTypeToString kVecset = ''VECSET''"
| "CommandTypeToString kVecdel = ''VECDEL''"
| "CommandTypeToString kMetaset = ''METASET''"
| "CommandTypeToString kSim = ''SIM''"
| "CommandTypeToString kSimv = ''SIMV''"
| "CommandTypeToString kInfo = ''INFO''"
| "CommandTypeToString kConfigHelp = ''CONFIG_HELP''"
| "CommandTypeToString kConfigShow = ''CONFIG_SHOW''"
| "CommandTypeToString kConfigVerify = ''CONFIG_VERIFY''"
| "CommandTypeToString kDumpSave = ''DUMP_SAVE''"
| "CommandTypeToString kDumpLoad = ''DUMP_LOAD''"
| "CommandTypeToString kDumpVerify = ''DUMP_VERIFY''"
| "CommandTypeToString kDumpInfo = ''DUMP_INFO''"
| "CommandTypeToString kDumpStatus = ''DUMP_STATUS''"
| "CommandTypeToString kDebugOn = ''DEBUG_ON''"
| "CommandTypeToString kDebugOff = ''DEBUG_OFF''"
| "CommandTypeToString kCacheStats = ''CACHE_STATS''"
| "CommandTypeToString kCacheClear = ''CACHE_CLEAR''"
| "CommandTypeToString kCacheEnable = ''CACHE_ENABLE''"
| "CommandTypeToString kCacheDisable = ''CACHE_DISABLE''"
| "CommandTypeToString kSet = ''SET''"
| "CommandTypeToString kGet = ''GET''"
| "CommandTypeToString kShowVariables = ''SHOW_VARIABLES''"
| "CommandTypeToString kAuth = ''AUTH''"
| "CommandTypeToString kUnknown = ''UNKNOWN''"

datatype CommandPrivilege = kRead | kWrite | kAdmin

definition GetCommandPrivilege :: "CommandType \<Rightarrow> CommandPrivilege" where
  "GetCommandPrivilege t =
     (if t \<in> {kEvent, kVecset, kVecdel, kMetaset, kSet, kCacheClear, kCacheEnable, kCacheDisable} then kWrite
      else if t \<in> {kDumpSave, kDumpLoad, kDumpVerify, kDumpInfo, kDumpStatus, kConfigVerify} then kAdmin
      else kRead)"

text \<open>The underlying values of the event types.\<close>

fun event_code :: "EventType \<Rightarrow> u8" where
  "event_code ADD = 0"
| "event_code SET = 1"
| "event_code DEL = 2"

record Command =
  cmd_type :: CommandType
  cmd_ctx :: string
  cmd_id :: string
  cmd_score :: int
  cmd_event_type :: u8
  cmd_top_k :: int
  cmd_mode :: string
  cmd_timestamp :: "u64 option"
  cmd_adaptive :: "bool option"
  cmd_filter_expr :: string
  cmd_metadata :: "u64 Metadata option"
  cmd_min_score :: u32
  cmd_dimension :: int
  cmd_vector :: "u32 list"
  cmd_path :: string
  cmd_variable_name :: string
  cmd_variable_value :: string
  cmd_pattern :: string

definition new_command :: Command where
  "new_command = \<lparr>cmd_type = kUnknown, cmd_ctx = [], cmd_id = [], cmd_score = 0, cmd_event_type = event_code ADD,
     cmd_top_k = 100, cmd_mode = ''fusion'', cmd_timestamp = None, cmd_adaptive = None, cmd_filter_expr = [],
     cmd_metadata = None, cmd_min_score = 0, cmd_dimension = 0, cmd_vector = [], cmd_path = [],
     cmd_variable_name = [], cmd_variable_value = [], cmd_pattern = []\<rparr>"

end
