(* ===== verification/WalCodec.thy ===== *)
theory WalCodec
  imports Commands Bytes Errors
begin

text \<open>
  The payloads of the write-ahead log (\<^verbatim>\<open>src/server/wal_codec.cpp\<close>): the encoding of the write
  commands and its bounds-checked decoding.  The theory shows that decoding an encoded command gives
  back the fields a replay uses, and that a truncated payload is refused.
\<close>

unbundle bit_operations_syntax

subsection \<open>Operations and records\<close>

text \<open>An operation byte that names no operation is kept as it is.\<close>

datatype WalOpType =
    kVecSet | kVecDel | kEventAdd | kEventDel | kMetaSet | kMetaDel | kCoOccurrenceMaintenance | op_other u8

fun op_code :: "WalOpType \<Rightarrow> u8" where
  "op_code kVecSet = 1"
| "op_code kVecDel = 2"
| "op_code kEventAdd = 3"
| "op_code kEventDel = 4"
| "op_code kMetaSet = 5"
| "op_code kMetaDel = 6"
| "op_code kCoOccurrenceMaintenance = 7"
| "op_code (op_other b) = b"

definition op_of_code :: "u8 \<Rightarrow> WalOpType" where
  "op_of_code b =
     (if b = 1 then kVecSet else if b = 2 then kVecDel else if b = 3 then kEventAdd else if b = 4 then kEventDel
      else if b = 5 then kMetaSet else if b = 6 then kMetaDel else if b = 7 then kCoOccurrenceMaintenance
      else op_other b)"

record WalRecord =
  wr_sequence :: u64
  wr_timestamp_us :: u64
  wr_op :: WalOpType
  wr_payload :: bytes

subsection \<open>Writing\<close>

definition kTypedMetadataMagic :: u64 where
  "kTypedMetadataMagic = 0x314D564E"

definition AppendLE :: "nat \<Rightarrow> u64 \<Rightarrow> bytes" where
  "AppendLE n v = map (\<lambda>i. ucast (drop_bit (8 * i) v)) [0..<n]"

definition AppendString :: "string \<Rightarrow> bytes" where
  "AppendString str = AppendLE 4 (ucast (of_nat (length str) :: u32)) @ bytes_of_string str"

definition AppendFloat :: "u32 \<Rightarrow> bytes" where
  "AppendFloat bits = AppendLE 4 (ucast bits)"

definition AppendDouble :: "u64 \<Rightarrow> bytes" where
  "AppendDouble bits = AppendLE 8 bits"

fun encode_value :: "u64 MetadataValue \<Rightarrow> bytes" where
  "encode_value (VString s) = 0 # AppendString s"
| "encode_value (VInt64 i) = 1 # AppendLE 8 i"
| "encode_value (VDouble d) = 2 # AppendDouble d"
| "encode_value (VBool b) = [3, if b then 1 else 0]"

definition encode_entry :: "string \<times> u64 MetadataValue \<Rightarrow> bytes" where
  "encode_entry e = AppendString (fst e) @ encode_value (snd e)"

definition EncodeTypedMetadata :: "u64 Metadata \<Rightarrow> bytes" where
  "EncodeTypedMetadata metadata =
     AppendLE 4 kTypedMetadataMagic @ AppendLE 4 (ucast (of_nat (um_size metadata) :: u32)) @
     concat (map encode_entry metadata)"

definition WalOpForCommand :: "Command \<Rightarrow> WalOpType" where
  "WalOpForCommand cmd =
     (case cmd_type cmd of
        kEvent \<Rightarrow> if cmd_event_type cmd = event_code DEL then kEventDel else kEventAdd
      | kVecset \<Rightarrow> kVecSet
      | kVecdel \<Rightarrow> kVecDel
      | kMetaset \<Rightarrow> kMetaSet
      | _ \<Rightarrow> kVecSet)"

definition EncodeCommand :: "Command \<Rightarrow> bytes" where
  "EncodeCommand cmd =
     (case cmd_type cmd of
        kEvent \<Rightarrow>
          [cmd_event_type cmd] @ AppendString (cmd_ctx cmd) @ AppendString (cmd_id cmd) @
          AppendLE 4 (ucast (word_of_int (cmd_score cmd) :: u32)) @
          AppendLE 8 (case cmd_timestamp cmd of None \<Rightarrow> 0 | Some t \<Rightarrow> t)
      | kVecset \<Rightarrow>
          AppendString (cmd_id cmd) @ AppendLE 4 (ucast (of_nat (length (cmd_vector cmd)) :: u32)) @
          concat (map AppendFloat (cmd_vector cmd)) @
          (case cmd_metadata cmd of None \<Rightarrow> [] | Some m \<Rightarrow> EncodeTypedMetadata m)
      | kVecdel \<Rightarrow> AppendString (cmd_id cmd)
      | kMetaset \<Rightarrow>
          AppendString (cmd_id cmd) @
          (case cmd_metadata cmd of Some m \<Rightarrow> EncodeTypedMetadata m | None \<Rightarrow> AppendString (cmd_filter_expr cmd))
      | _ \<Rightarrow> [])"

subsection \<open>Reading\<close>

text \<open>
  The cursor is the list of the bytes that remain; a read returns the value and what remains after
  it, or \<open>None\<close> when it returns false.
\<close>

fun le_value :: "bytes \<Rightarrow> u64" where
  "le_value [] = 0"
| "le_value (b # bs) = ucast b OR push_bit 8 (le_value bs)"

definition ReadLE :: "nat \<Rightarrow> bytes \<Rightarrow> (u64 \<times> bytes) option" where
  "ReadLE n r = (if length r < n then None else Some (le_value (take n r), drop n r))"

definition ReadString :: "bytes \<Rightarrow> (string \<times> bytes) option" where
  "ReadString r =
     Option.bind (ReadLE 4 r)
       (\<lambda>(len, r). if length r < unat len then None
                  else Some (string_of_bytes (take (unat len) r), drop (unat len) r))"

definition ReadFloat :: "bytes \<Rightarrow> (u32 \<times> bytes) option" where
  "ReadFloat r = map_option (map_prod ucast (\<lambda>r. r)) (ReadLE 4 r)"

definition ReadDouble :: "bytes \<Rightarrow> (u64 \<times> bytes) option" where
  "ReadDouble r = ReadLE 8 r"

definition TruncatedError :: "string \<Rightarrow> Error" where
  "TruncatedError what = MakeError kStorageCorrupted (''WAL payload truncated while decoding '' @ what)"

text \<open>A read whose failure is the given error.\<close>

definition try_read :: "('a \<times> bytes) option \<Rightarrow> Error \<Rightarrow> ('a \<Rightarrow> bytes \<Rightarrow> 'b expected) \<Rightarrow> 'b expected" where
  "try_read r e k = (case r of None \<Rightarrow> Inl e | Some (v, rest) \<Rightarrow> k v rest)"

text \<open>\<^verbatim>\<open>emplace\<close> keeps the value of a key that is already there.\<close>

definition emplace :: "string \<Rightarrow> u64 MetadataValue \<Rightarrow> u64 Metadata \<Rightarrow> u64 Metadata" where
  "emplace k v m = (if um_find m k = None then m @ [(k, v)] else m)"

definition decode_value :: "u64 \<Rightarrow> bytes \<Rightarrow> (u64 MetadataValue \<times> bytes) expected" where
  "decode_value tag r =
     (if tag = 0 then try_read (ReadString r) (TruncatedError ''METASET string value'') (\<lambda>v r. Inr (VString v, r))
      else if tag = 1 then try_read (ReadLE 8 r) (TruncatedError ''METASET integer value'') (\<lambda>v r. Inr (VInt64 v, r))
      else if tag = 2 then try_read (ReadDouble r) (TruncatedError ''METASET double value'') (\<lambda>v r. Inr (VDouble v, r))
      else if tag = 3
      then try_read (ReadLE 1 r) (TruncatedError ''METASET boolean value'')
             (\<lambda>v r. if 1 < v then Inl (TruncatedError ''METASET boolean value'') else Inr (VBool (v = 1), r))
      else Inl (MakeError kStorageCorrupted ''METASET metadata value tag is invalid''))"

fun decode_entries :: "nat \<Rightarrow> bytes \<Rightarrow> u64 Metadata \<Rightarrow> u64 Metadata expected" where
  "decode_entries 0 r m = Inr m"
| "decode_entries (Suc n) r m =
     try_read (ReadString r) (TruncatedError ''METASET metadata entry'')
       (\<lambda>key r. try_read (ReadLE 1 r) (TruncatedError ''METASET metadata entry'')
          (\<lambda>tag r. case decode_value tag r of Inl e \<Rightarrow> Inl e | Inr (v, r) \<Rightarrow> decode_entries n r (emplace key v m)))"

definition DecodeTypedMetadata :: "bytes \<Rightarrow> u64 Metadata expected" where
  "DecodeTypedMetadata r =
     try_read (ReadLE 4 r) (TruncatedError ''METASET metadata count'')
       (\<lambda>count r. if length r < unat count
                  then Inl (MakeError kStorageCorrupted ''METASET metadata entry count exceeds payload'')
                  else decode_entries (unat count) r [])"

fun read_floats :: "nat \<Rightarrow> bytes \<Rightarrow> (u32 list \<times> bytes) expected" where
  "read_floats 0 r = Inr ([], r)"
| "read_floats (Suc n) r =
     try_read (ReadFloat r) (TruncatedError ''VECSET vector element'')
       (\<lambda>v r. case read_floats n r of Inl e \<Rightarrow> Inl e | Inr (vs, r) \<Rightarrow> Inr (v # vs, r))"

definition decode_event :: "bytes \<Rightarrow> Command expected" where
  "decode_event r =
     try_read (ReadLE 1 r) (TruncatedError ''EVENT event_type'') (\<lambda>t r.
     try_read (ReadString r) (TruncatedError ''EVENT ctx'') (\<lambda>ctx r.
     try_read (ReadString r) (TruncatedError ''EVENT id'') (\<lambda>i r.
     try_read (ReadLE 4 r) (TruncatedError ''EVENT score'') (\<lambda>score r.
     try_read (ReadLE 8 r) (TruncatedError ''EVENT timestamp'') (\<lambda>ts r.
       Inr (new_command\<lparr>cmd_type := kEvent, cmd_event_type := ucast t, cmd_ctx := ctx, cmd_id := i,
              cmd_score := sint (ucast score :: u32), cmd_timestamp := Some ts\<rparr>))))))"

definition decode_vecset :: "bytes \<Rightarrow> Command expected" where
  "decode_vecset r =
     try_read (ReadString r) (TruncatedError ''VECSET id'') (\<lambda>i r.
     try_read (ReadLE 4 r) (TruncatedError ''VECSET dim'') (\<lambda>dim r.
       if 2147483647 < unat dim \<or> length r div 4 < unat dim
       then Inl (MakeError kStorageCorrupted ''VECSET dimension exceeds payload bounds'')
       else case read_floats (unat dim) r of
              Inl e \<Rightarrow> Inl e
            | Inr (vs, r) \<Rightarrow>
                let cmd = new_command\<lparr>cmd_type := kVecset, cmd_id := i, cmd_dimension := int (unat dim), cmd_vector := vs\<rparr>
                in if r = [] then Inr cmd
                   else case ReadLE 4 r of
                          None \<Rightarrow> Inl (MakeError kStorageCorrupted ''VECSET metadata extension is invalid'')
                        | Some (magic, r) \<Rightarrow>
                            if magic \<noteq> kTypedMetadataMagic
                            then Inl (MakeError kStorageCorrupted ''VECSET metadata extension is invalid'')
                            else case DecodeTypedMetadata r of
                                   Inl e \<Rightarrow> Inl e
                                 | Inr m \<Rightarrow> Inr (cmd\<lparr>cmd_metadata := Some m\<rparr>)))"

definition decode_vecdel :: "bytes \<Rightarrow> Command expected" where
  "decode_vecdel r =
     try_read (ReadString r) (TruncatedError ''VECDEL id'')
       (\<lambda>i r. Inr (new_command\<lparr>cmd_type := kVecdel, cmd_id := i\<rparr>))"

definition decode_metaset :: "bytes \<Rightarrow> Command expected" where
  "decode_metaset r =
     try_read (ReadString r) (TruncatedError ''METASET id'') (\<lambda>i r.
       let cmd = new_command\<lparr>cmd_type := kMetaset, cmd_id := i\<rparr>;
           text = try_read (ReadString r) (TruncatedError ''METASET filter_expr'') (\<lambda>f r. Inr (cmd\<lparr>cmd_filter_expr := f\<rparr>))
       in case ReadLE 4 r of
            None \<Rightarrow> text
          | Some (magic, r') \<Rightarrow>
              if magic = kTypedMetadataMagic
              then case DecodeTypedMetadata r' of Inl e \<Rightarrow> Inl e | Inr m \<Rightarrow> Inr (cmd\<lparr>cmd_metadata := Some m\<rparr>)
              else text)"

definition DecodeWalRecord :: "WalRecord \<Rightarrow> Command expected" where
  "DecodeWalRecord record =
     (case wr_op record of
        kEventAdd \<Rightarrow> decode_event (wr_payload record)
      | kEventDel \<Rightarrow> decode_event (wr_payload record)
      | kVecSet \<Rightarrow> decode_vecset (wr_payload record)
      | kVecDel \<Rightarrow> decode_vecdel (wr_payload record)
      | kMetaSet \<Rightarrow> decode_metaset (wr_payload record)
      | _ \<Rightarrow> Inl (MakeError kStorageInvalidFormat ''Unsupported WAL op type for command decode''))"

subsection \<open>Prefix codes\<close>

text \<open>
  The interface between the writer and the bounds-checked reader: a written value is read back
  whatever follows it, and no proper prefix of it is accepted.
\<close>

locale prefix_code =
  fixes put :: "'a \<Rightarrow> bytes"
    and get :: "bytes \<Rightarrow> ('a \<times> bytes) option"
    and fits :: "'a \<Rightarrow> bool"
  assumes get_put: "fits x \<Longrightarrow> get (put x @ r) = Some (x, r)"
    and get_short: "\<lbrakk>fits x; put x = p @ q; q \<noteq> []\<rbrakk> \<Longrightarrow> get p = None"
begin

lemma try_read_put: "fits x \<Longrightarrow> try_read (get (put x @ r)) e k = k x r"
  by (simp add: try_read_def get_put)

text \<open>A value followed by others is refused when the cut falls inside it, and the cut moves on otherwise.\<close>

lemma try_read_cut:
  assumes "fits x" "put x @ tail = p @ q" "q \<noteq> []"
    and "\<And>p'. tail = p' @ q \<Longrightarrow> \<exists>e'. k x p' = Inl e' \<and> err_code e' = err_code e"
  shows "\<exists>e'. try_read (get p) e k = Inl e' \<and> err_code e' = err_code e"
proof -
  from assms(2) obtain u where "put x = p @ u \<and> u @ tail = q \<or> put x @ u = p \<and> tail = u @ q"
    by (auto simp: append_eq_append_conv2)
  then consider (inside) "put x = p @ u" "u \<noteq> []" | (after) "p = put x @ u" "tail = u @ q"
    by (cases "u = []") auto
  then show ?thesis
  proof cases
    case inside
    then show ?thesis using get_short [OF assms(1)] by (simp add: try_read_def)
  next
    case after
    then show ?thesis using assms(4) [of u] by (simp add: try_read_put assms(1))
  qed
qed

end

lemma length_AppendLE [simp]: "length (AppendLE n v) = n"
  by (simp add: AppendLE_def)

lemma AppendLE_Suc: "AppendLE (Suc n) v = ucast v # AppendLE n (drop_bit 8 v)"
  by (simp add: AppendLE_def upt_conv_Cons map_Suc_upt [symmetric] comp_def add.commute del: upt_Suc)

lemma le_value_AppendLE: "le_value (AppendLE n v) = take_bit (8 * n) v"
proof (induction n arbitrary: v)
  case (Suc n)
  show ?case unfolding AppendLE_Suc le_value.simps Suc.IH
    by (rule bit_word_eqI) (auto simp: bit_simps)
qed (simp add: AppendLE_def)

lemma ReadLE_AppendLE: "ReadLE n (AppendLE n v @ r) = Some (take_bit (8 * n) v, r)"
  by (simp add: ReadLE_def le_value_AppendLE)

lemma ReadLE_short: "\<lbrakk>AppendLE n v = p @ q; q \<noteq> []\<rbrakk> \<Longrightarrow> ReadLE n p = None"
  using length_AppendLE [of n v] by (cases q) (auto simp: ReadLE_def simp del: length_AppendLE)

interpretation byte1: prefix_code "AppendLE 1" "ReadLE 1" "\<lambda>v. take_bit 8 v = v"
  by unfold_locales (simp_all add: ReadLE_AppendLE [of 1, simplified] ReadLE_short)

interpretation word4: prefix_code "AppendLE 4" "ReadLE 4" "\<lambda>v. take_bit 32 v = v"
  by unfold_locales (simp_all add: ReadLE_AppendLE [of 4, simplified] ReadLE_short)

interpretation word8: prefix_code "AppendLE 8" "ReadLE 8" "\<lambda>v. True"
  by unfold_locales (simp_all add: ReadLE_AppendLE [of 8, simplified] ReadLE_short take_bit_word_eq_self)

abbreviation str_fits :: "string \<Rightarrow> bool" where
  "str_fits s \<equiv> length s < 2 ^ 32"

lemma size_word_fits: "n < 2 ^ 32 \<Longrightarrow> take_bit 32 (ucast (of_nat n :: u32) :: u64) = ucast (of_nat n :: u32)"
  by (rule bit_word_eqI) (auto simp: bit_simps dest: bit_imp_le_length)

lemma unat_size_word: "n < 2 ^ 32 \<Longrightarrow> unat (ucast (of_nat n :: u32) :: u64) = n"
  by (simp add: unsigned_ucast_eq unsigned_of_nat take_bit_nat_eq_self)

interpretation str: prefix_code AppendString ReadString str_fits
proof
  fix x r
  assume "str_fits x"
  then show "ReadString (AppendString x @ r) = Some (x, r)"
    by (simp add: ReadString_def AppendString_def word4.get_put size_word_fits unat_size_word)
next
  fix x p q
  assume fits: "str_fits x" and cut: "AppendString x = p @ q" "q \<noteq> []"
  let ?n = "ucast (of_nat (length x) :: u32) :: u64"
  show "ReadString p = None"
  proof (cases "length p < 4")
    case True
    then show ?thesis by (simp add: ReadString_def ReadLE_def)
  next
    case False
    have "AppendLE 4 ?n = take 4 p" "bytes_of_string x = drop 4 p @ q"
      using arg_cong [OF cut(1), of "take 4"] arg_cong [OF cut(1), of "drop 4"] False
      by (simp_all add: AppendString_def)
    then obtain u where "p = AppendLE 4 ?n @ u" "bytes_of_string x = u @ q" by (metis append_take_drop_id)
    moreover from this have "length u < length x" using cut(2) by (metis length_append length_bytes_of_string length_greater_0_conv less_add_same_cancel1)
    ultimately show ?thesis
      using fits by (simp add: ReadString_def word4.get_put size_word_fits unat_size_word)
  qed
qed


lemma u32_word_fits: "take_bit 32 (ucast (w :: u32) :: u64) = ucast w"
  by (rule bit_word_eqI) (auto simp: bit_simps dest: bit_imp_le_length)

lemma u32_through_u64: "ucast (ucast (w :: u32) :: u64) = w"
  by (rule bit_word_eqI) (simp add: bit_simps)

lemma u8_through_u64: "ucast (ucast (w :: u8) :: u64) = w"
  by (rule bit_word_eqI) (simp add: bit_simps)

interpretation float4: prefix_code AppendFloat ReadFloat "\<lambda>v. True"
  by unfold_locales
    (simp_all add: AppendFloat_def ReadFloat_def word4.get_put u32_word_fits u32_through_u64 ReadLE_short)

lemma read_floats_put: "read_floats (length vs) (concat (map AppendFloat vs) @ r) = Inr (vs, r)"
  by (induction vs) (simp_all add: float4.try_read_put)

lemma length_concat_AppendFloat [simp]: "length (concat (map AppendFloat vs)) = 4 * length vs"
  by (induction vs) (simp_all add: AppendFloat_def)

subsection \<open>Typed metadata\<close>

fun value_fits :: "u64 MetadataValue \<Rightarrow> bool" where
  "value_fits (VString s) = str_fits s"
| "value_fits v = True"

definition metadata_fits :: "u64 Metadata \<Rightarrow> bool" where
  "metadata_fits m \<longleftrightarrow> um_wf m \<and> um_size m < 2 ^ 32 \<and> list_all (\<lambda>(k, v). str_fits k \<and> value_fits v) m"

lemma read_byte: "ReadLE (Suc 0) (b # r) = Some (ucast b, r)"
  by (simp add: ReadLE_def)

lemma decode_value_put:
  "value_fits v \<Longrightarrow>
     try_read (ReadLE 1 (encode_value v @ r)) e
       (\<lambda>tag r. case decode_value tag r of Inl e \<Rightarrow> Inl e | Inr (v, r) \<Rightarrow> k v r) = k v r"
  by (cases v)
    (simp_all add: try_read_def [of "Some _"] read_byte decode_value_def str.try_read_put word8.try_read_put
      AppendDouble_def ReadDouble_def)

lemma emplace_new: "k \<notin> fst ` set m \<Longrightarrow> emplace k v m = m @ [(k, v)]"
  by (simp add: emplace_def um_find_None)

lemma decode_entries_put:
  "\<lbrakk>list_all (\<lambda>(k, v). str_fits k \<and> value_fits v) es; distinct (map fst (m @ es))\<rbrakk> \<Longrightarrow>
     decode_entries (length es) (concat (map encode_entry es) @ r) m = Inr (m @ es)"
proof (induction es arbitrary: m)
  case (Cons x es)
  obtain k v where x: "x = (k, v)" by fastforce
  have "emplace k v m = m @ [(k, v)]" using Cons.prems(2) by (intro emplace_new) (auto simp: x)
  then show ?case
    using Cons.prems Cons.IH [of "m @ [(k, v)]"]
    by (simp add: x encode_entry_def str.try_read_put decode_value_put [simplified])
qed simp

lemma entries_count: "length es \<le> length (concat (map encode_entry es))"
  by (induction es) (auto simp: encode_entry_def AppendString_def)

lemma DecodeTypedMetadata_put:
  assumes "metadata_fits m"
  shows "ReadLE 4 (EncodeTypedMetadata m @ r) = Some (kTypedMetadataMagic, drop 4 (EncodeTypedMetadata m @ r))"
    and "DecodeTypedMetadata (drop 4 (EncodeTypedMetadata m @ r)) = Inr m"
proof -
  have "take_bit 32 kTypedMetadataMagic = kTypedMetadataMagic" by (simp add: kTypedMetadataMagic_def)
  then show "ReadLE 4 (EncodeTypedMetadata m @ r) = Some (kTypedMetadataMagic, drop 4 (EncodeTypedMetadata m @ r))"
    by (simp add: EncodeTypedMetadata_def word4.get_put)
  show "DecodeTypedMetadata (drop 4 (EncodeTypedMetadata m @ r)) = Inr m"
    using assms decode_entries_put [of m "[]" r] entries_count [of m]
    by (simp add: EncodeTypedMetadata_def DecodeTypedMetadata_def metadata_fits_def um_wf_def
        word4.try_read_put size_word_fits unat_size_word)
qed


subsection \<open>Commands\<close>

text \<open>
  A command the log can hold: lengths that fit their 32-bit fields, a score in the range of
  \<^verbatim>\<open>int\<close>, and a textual \<^verbatim>\<open>METASET\<close> whose length is not the number that marks typed metadata
  (827 million characters, more than a record may have).
\<close>

definition loggable :: "Command \<Rightarrow> bool" where
  "loggable cmd \<longleftrightarrow> str_fits (cmd_id cmd) \<and>
     (case cmd_type cmd of
        kEvent \<Rightarrow> str_fits (cmd_ctx cmd) \<and> - (2 ^ 31) \<le> cmd_score cmd \<and> cmd_score cmd < 2 ^ 31
      | kVecset \<Rightarrow> length (cmd_vector cmd) < 2 ^ 31 \<and> pred_option metadata_fits (cmd_metadata cmd)
      | kVecdel \<Rightarrow> True
      | kMetaset \<Rightarrow> (case cmd_metadata cmd of
            Some m \<Rightarrow> metadata_fits m
          | None \<Rightarrow> str_fits (cmd_filter_expr cmd) \<and> length (cmd_filter_expr cmd) \<noteq> 0x314D564E)
      | _ \<Rightarrow> False)"

text \<open>What a replay sees of a command: the fields its kind has, and the time stamp made explicit.\<close>

definition replayed :: "Command \<Rightarrow> Command" where
  "replayed cmd =
     (case cmd_type cmd of
        kEvent \<Rightarrow> new_command\<lparr>cmd_type := kEvent, cmd_event_type := cmd_event_type cmd, cmd_ctx := cmd_ctx cmd,
            cmd_id := cmd_id cmd, cmd_score := cmd_score cmd,
            cmd_timestamp := Some (case cmd_timestamp cmd of None \<Rightarrow> 0 | Some t \<Rightarrow> t)\<rparr>
      | kVecset \<Rightarrow> new_command\<lparr>cmd_type := kVecset, cmd_id := cmd_id cmd, cmd_dimension := int (length (cmd_vector cmd)),
            cmd_vector := cmd_vector cmd, cmd_metadata := cmd_metadata cmd\<rparr>
      | kVecdel \<Rightarrow> new_command\<lparr>cmd_type := kVecdel, cmd_id := cmd_id cmd\<rparr>
      | _ \<Rightarrow> new_command\<lparr>cmd_type := kMetaset, cmd_id := cmd_id cmd, cmd_metadata := cmd_metadata cmd,
            cmd_filter_expr := (if cmd_metadata cmd = None then cmd_filter_expr cmd else [])\<rparr>)"

lemma score_roundtrip: "\<lbrakk>- (2 ^ 31) \<le> s; s < 2 ^ 31\<rbrakk> \<Longrightarrow> sint (word_of_int s :: u32) = s"
  by (simp add: sint_sbintrunc' signed_take_bit_int_eq_self)

lemma decode_event_put:
  "\<lbrakk>loggable cmd; cmd_type cmd = kEvent\<rbrakk> \<Longrightarrow> decode_event (EncodeCommand cmd @ r) = Inr (replayed cmd)"
  by (simp add: loggable_def EncodeCommand_def decode_event_def replayed_def try_read_def [of "Some _"] read_byte
      str.try_read_put word4.try_read_put word8.try_read_put u32_word_fits u32_through_u64
      u8_through_u64 score_roundtrip)

lemma decode_vecset_put:
  assumes "loggable cmd" "cmd_type cmd = kVecset"
  shows "decode_vecset (EncodeCommand cmd) = Inr (replayed cmd)"
proof -
  have len: "length (cmd_vector cmd) < 2 ^ 32" and int: "length (cmd_vector cmd) \<le> 2147483647"
    using assms by (simp_all add: loggable_def)
  have ext: "EncodeTypedMetadata m \<noteq> []" for m
    by (metis EncodeTypedMetadata_def append_is_Nil_conv length_AppendLE list.size(3) zero_neq_numeral)
  show ?thesis
    using assms DecodeTypedMetadata_put [of _ "[]"] len int
    by (cases "cmd_metadata cmd")
      (simp_all add: loggable_def EncodeCommand_def decode_vecset_def replayed_def new_command_def ext str.try_read_put
        word4.try_read_put size_word_fits unat_size_word read_floats_put read_floats_put [of _ "[]", simplified]
        not_less [symmetric])
qed

lemma decode_metaset_put:
  assumes "loggable cmd" "cmd_type cmd = kMetaset"
  shows "decode_metaset (EncodeCommand cmd) = Inr (replayed cmd)"
proof (cases "cmd_metadata cmd")
  case None
  have fits: "str_fits (cmd_filter_expr cmd)" "length (cmd_filter_expr cmd) \<noteq> 0x314D564E"
    using assms None by (simp_all add: loggable_def)
  have "ucast (of_nat (length (cmd_filter_expr cmd)) :: u32) \<noteq> kTypedMetadataMagic"
    using fits unat_size_word [OF fits(1)] by (auto simp: kTypedMetadataMagic_def)
  moreover have "ReadLE 4 (AppendString (cmd_filter_expr cmd)) =
      Some (ucast (of_nat (length (cmd_filter_expr cmd)) :: u32), bytes_of_string (cmd_filter_expr cmd))"
    using fits by (simp add: AppendString_def word4.get_put size_word_fits)
  ultimately show ?thesis
    using assms None fits(1)
    by (simp add: loggable_def EncodeCommand_def decode_metaset_def replayed_def new_command_def str.try_read_put
        str.try_read_put [of _ "[]", simplified])
next
  case (Some m)
  then show ?thesis
    using assms DecodeTypedMetadata_put [of m "[]"]
    by (simp add: loggable_def EncodeCommand_def decode_metaset_def replayed_def new_command_def str.try_read_put)
qed


lemma decode_vecdel_put:
  "\<lbrakk>loggable cmd; cmd_type cmd = kVecdel\<rbrakk> \<Longrightarrow> decode_vecdel (EncodeCommand cmd) = Inr (replayed cmd)"
  by (simp add: loggable_def EncodeCommand_def decode_vecdel_def replayed_def str.try_read_put [of _ "[]", simplified])

lemma TruncatedError_code [simp]: "err_code (TruncatedError what) = kStorageCorrupted"
  by (simp add: TruncatedError_def MakeError_def)

lemma decode_vecdel_cut:
  assumes "loggable cmd" "cmd_type cmd = kVecdel" "EncodeCommand cmd = p @ q" "q \<noteq> []"
  shows "\<exists>e. decode_vecdel p = Inl e \<and> err_code e = kStorageCorrupted"
  unfolding decode_vecdel_def
  using assms str.try_read_cut [of "cmd_id cmd" "[]" p q _ "TruncatedError ''VECDEL id''"]
  by (simp add: loggable_def EncodeCommand_def)

lemma decode_event_cut:
  assumes "loggable cmd" "cmd_type cmd = kEvent" "EncodeCommand cmd = p @ q" "q \<noteq> []"
  shows "\<exists>e. decode_event p = Inl e \<and> err_code e = kStorageCorrupted"
proof -
  let ?ts = "case cmd_timestamp cmd of None \<Rightarrow> 0 | Some t \<Rightarrow> t"
  have fits: "str_fits (cmd_ctx cmd)" "str_fits (cmd_id cmd)" using assms by (simp_all add: loggable_def)
  have eq: "AppendLE 1 (ucast (cmd_event_type cmd)) @ AppendString (cmd_ctx cmd) @ AppendString (cmd_id cmd) @
      AppendLE 4 (ucast (word_of_int (cmd_score cmd) :: u32)) @ AppendLE 8 ?ts @ [] = p @ q"
    using assms(2,3) by (simp add: EncodeCommand_def AppendLE_def [of "Suc 0"] u8_through_u64)
  have u8: "take_bit 8 (ucast (cmd_event_type cmd) :: u64) = ucast (cmd_event_type cmd)"
    by (rule bit_word_eqI) (auto simp: bit_simps dest: bit_imp_le_length)
  have code: "err_code (TruncatedError w) = err_code (TruncatedError w')" for w w' by simp
  have "\<exists>e'. decode_event p = Inl e' \<and> err_code e' = err_code (TruncatedError ''EVENT event_type'')"
    unfolding decode_event_def
    apply (rule byte1.try_read_cut [OF u8 eq assms(4)])
    apply (subst code [of _ "''EVENT ctx''"], rule str.try_read_cut [OF fits(1) _ assms(4)], assumption)
    apply (subst code [of _ "''EVENT id''"], rule str.try_read_cut [OF fits(2) _ assms(4)], assumption)
    apply (subst code [of _ "''EVENT score''"], rule word4.try_read_cut [OF u32_word_fits _ assms(4)], assumption)
    apply (subst code [of _ "''EVENT timestamp''"], rule word8.try_read_cut [OF TrueI _ assms(4)], assumption)
    using assms(4) by simp
  then show ?thesis by simp
qed

text \<open>
  Every write command the log can hold is replayed as it was given: decoding the payload under
  the operation it was logged with gives the command with the fields of its kind, the score and
  the bits of floats and doubles unchanged and a missing time stamp as 0. A proper prefix of the
  payload of an event or a vector deletion is refused as corrupted storage.
\<close>

theorem wal_command_roundtrip:
  assumes "loggable cmd"
  shows "DecodeWalRecord \<lparr>wr_sequence = seq, wr_timestamp_us = ts, wr_op = WalOpForCommand cmd, wr_payload = EncodeCommand cmd\<rparr> =
      Inr (replayed cmd) \<and>
    (cmd_type cmd \<in> {kEvent, kVecdel} \<and> EncodeCommand cmd = p @ q \<and> q \<noteq> [] \<longrightarrow>
      (\<exists>e. DecodeWalRecord \<lparr>wr_sequence = seq, wr_timestamp_us = ts, wr_op = WalOpForCommand cmd, wr_payload = p\<rparr> = Inl e \<and>
        err_code e = kStorageCorrupted))"
proof -
  have "cmd_type cmd \<in> {kEvent, kVecset, kVecdel, kMetaset}"
    using assms by (auto simp: loggable_def split: CommandType.splits)
  then consider "cmd_type cmd = kEvent" | "cmd_type cmd = kVecset" | "cmd_type cmd = kVecdel" | "cmd_type cmd = kMetaset"
    by blast
  then show ?thesis
    using assms decode_event_put [of cmd "[]"] decode_vecset_put [of cmd] decode_vecdel_put [of cmd] decode_metaset_put [of cmd]
      decode_event_cut [of cmd p q] decode_vecdel_cut [of cmd p q]
    by cases (simp_all add: DecodeWalRecord_def WalOpForCommand_def)
qed

definition example_vecset :: Command where
  "example_vecset = new_command\<lparr>cmd_type := kVecset, cmd_id := ''item1'', cmd_dimension := 2, cmd_vector := [0x3F800000, 0xC0000000],
     cmd_metadata := Some [(''status'', VString ''active''), (''price'', VInt64 7), (''new'', VBool True)]\<rparr>"

theorem wal_command_roundtrip_witness:
  "DecodeWalRecord \<lparr>wr_sequence = 1, wr_timestamp_us = 5, wr_op = kVecSet, wr_payload = EncodeCommand example_vecset\<rparr> = Inr example_vecset"
proof -
  have "loggable example_vecset"
    by (simp add: loggable_def example_vecset_def new_command_def metadata_fits_def um_wf_def)
  moreover have "replayed example_vecset = example_vecset" "WalOpForCommand example_vecset = kVecSet"
    by (simp_all add: replayed_def example_vecset_def new_command_def WalOpForCommand_def)
  ultimately show ?thesis using wal_command_roundtrip [of example_vecset 1 5 "[]" "[]"] by simp
qed

end
