(* ===== verification/Wal.thy ===== *)
theory Wal
  imports WalCodec
begin

text \<open>
  The write-ahead log (\<^verbatim>\<open>src/storage/wal.h\<close>, \<^verbatim>\<open>src/storage/wal.cpp\<close>): segments of framed records, the
  scan that recovers the log when it is opened, appending with rotation, replay and truncation.

  The files are a map from paths to contents, so a crash keeps the map and loses the rest of the
  state.  The checksum of zlib is a parameter.  Each operation takes the faults of the system calls
  it makes: for every call nothing, or the number of bytes transferred before it failed and the
  text of the error; the calls that read what a file holds do not fail.
\<close>

subsection \<open>Constants and state\<close>

definition kWalRecordHeaderSize :: nat where
  "kWalRecordHeaderSize = 17"

definition kWalFileHeaderSize :: nat where
  "kWalFileHeaderSize = 8"

definition kMaxWalRecordBodySize :: nat where
  "kMaxWalRecordBodySize = 64 * 1024 * 1024"

definition kWalMagic :: u32 where
  "kWalMagic = 0x4C41574E"

definition kWalVersion :: u32 where
  "kWalVersion = 1"

datatype wal_call =
    MkDir | FsyncSegment | CloseSegment | CreateSegment | WriteFileHeaderCall | FsyncNewSegment | FsyncDir
  | WriteRecordHeader | WriteRecordBody | FsyncRecord | Ftruncate | Unlink string | OpenSegment string

type_synonym faults = "wal_call \<Rightarrow> (nat \<times> string) option"

record WalLogConfig =
  lc_directory :: string
  lc_max_file_size :: u64
  lc_sync_on_write :: bool
  lc_sync_interval_ms :: u32
  lc_include_vectors :: bool

record WalFile =
  wf_path :: string
  wf_file_number :: u32
  wf_min_sequence :: u64
  wf_max_sequence :: u64
  wf_file_size :: u64

record WriteAheadLog =
  wal_config :: WalLogConfig
  wal_fs :: "(string, bytes) umap"
  wal_fd :: "string option"
  wal_sequence :: u64
  wal_file_size :: u64
  wal_file_number :: u32
  wal_files :: "WalFile list"
  wal_open :: bool
  wal_needs_sync :: bool
  wal_sync_running :: bool

definition MakeErrorContext :: "ErrorCode \<Rightarrow> string \<Rightarrow> string \<Rightarrow> Error" where
  "MakeErrorContext c msg ctx = \<lparr>err_code = c, err_message = msg, err_context = ctx\<rparr>"

subsection \<open>Files\<close>

text \<open>\<^verbatim>\<open>%06u\<close> pads with zeros to six digits and prints a longer number in full.\<close>

fun show_digits :: "nat \<Rightarrow> nat \<Rightarrow> string" where
  "show_digits 0 n = []"
| "show_digits (Suc w) n = show_digits w (n div 10) @ [char_of (48 + n mod 10)]"

definition MakeFilePath :: "string \<Rightarrow> u32 \<Rightarrow> string" where
  "MakeFilePath dir n =
     dir @ ''/wal-'' @ (if unat n < 10 ^ 6 then show_digits 6 (unat n) else show_nat (unat n)) @ ''.log''"

definition fs_append :: "string \<Rightarrow> bytes \<Rightarrow> (string, bytes) umap \<Rightarrow> (string, bytes) umap" where
  "fs_append path bs fs = um_set path ((case um_find fs path of None \<Rightarrow> [] | Some c \<Rightarrow> c) @ bs) fs"

text \<open>A write of \<open>bs\<close> that fails has written less than all of it.\<close>

definition partial_write :: "nat \<Rightarrow> bytes \<Rightarrow> bytes" where
  "partial_write k bs = take (min k (length bs - 1)) bs"

definition wal_write :: "bytes \<Rightarrow> WriteAheadLog \<Rightarrow> WriteAheadLog" where
  "wal_write bs w = (case wal_fd w of None \<Rightarrow> w | Some path \<Rightarrow> w\<lparr>wal_fs := fs_append path bs (wal_fs w)\<rparr>)"

definition file_header :: bytes where
  "file_header = le32 kWalMagic @ le32 kWalVersion"

definition WriteFileHeader :: "faults \<Rightarrow> WriteAheadLog \<Rightarrow> unit expected \<times> WriteAheadLog" where
  "WriteFileHeader fl w =
     (case fl WriteFileHeaderCall of
        Some (k, _) \<Rightarrow>
          (Inl (MakeError kWalWriteError ''Failed to write WAL file header''), wal_write (partial_write k file_header) w)
      | None \<Rightarrow> (Inr (), (wal_write file_header w)\<lparr>wal_file_size := of_nat kWalFileHeaderSize\<rparr>))"

definition ValidateFileHeader :: "string \<Rightarrow> bytes \<Rightarrow> unit expected" where
  "ValidateFileHeader path content =
     (if length content < kWalFileHeaderSize
      then Inl (MakeErrorContext kWalReadError ''Failed to read WAL file header'' path)
      else if le32_decode content \<noteq> kWalMagic
      then Inl (MakeErrorContext kWalCorrupted ''Invalid WAL magic number'' path)
      else if le32_decode (drop 4 content) \<noteq> kWalVersion
      then Inl (MakeErrorContext kWalCorrupted
             (''Unsupported WAL version: '' @ show_nat (unat (le32_decode (drop 4 content)))) path)
      else Inr ())"

lemma unat_inc: "n \<noteq> - 1 \<Longrightarrow> unat (n + 1) = Suc (unat n)" for n :: "'a::len word"
  using unatSuc [of n] by (metis add.commute add_eq_0_iff)

lemma unat_below32: "unat (n :: u32) < 2 ^ 32"
  using unsigned_less [of n] by simp

text \<open>The loop that creates the next segment under a number that is not taken.\<close>

function next_segment :: "string \<Rightarrow> (string, bytes) umap \<Rightarrow> u32 \<Rightarrow> u32 \<times> string option" where
  "next_segment dir fs n =
     (if n = - 1 then (n, None)
      else if um_find fs (MakeFilePath dir (n + 1)) \<noteq> None then next_segment dir fs (n + 1)
      else (n + 1, Some (MakeFilePath dir (n + 1))))"
  by pat_completeness auto
termination
proof (relation "measure (\<lambda>(dir, fs, n). 2 ^ 32 - unat n)")
  fix dir :: string and fs :: "(string, bytes) umap" and n :: u32
  assume "n \<noteq> - 1"
  then have "unat (n + 1) = Suc (unat n)" by (rule unat_inc)
  then show "((dir, fs, n + 1), (dir, fs, n)) \<in> measure (\<lambda>(dir, fs, n). 2 ^ 32 - unat n)"
    using unat_below32 [of "n + 1"] by simp
qed simp

declare next_segment.simps [simp del]

definition rotate_close :: "faults \<Rightarrow> WriteAheadLog \<Rightarrow> unit expected \<times> WriteAheadLog" where
  "rotate_close fl w =
     (if wal_fd w = None then (Inr (), w)
      else case fl FsyncSegment of
             Some (_, err) \<Rightarrow> (Inl (MakeError kWalRotationFailed (''Failed to fsync WAL segment before rotation: '' @ err)), w)
           | None \<Rightarrow>
               (case fl CloseSegment of
                  Some (_, err) \<Rightarrow>
                    (Inl (MakeError kWalRotationFailed (''Failed to close WAL segment before rotation: '' @ err)), w\<lparr>wal_fd := None\<rparr>)
                | None \<Rightarrow> (Inr (), w\<lparr>wal_fd := None\<rparr>)))"

definition drop_new_segment :: "string \<Rightarrow> string \<Rightarrow> WriteAheadLog \<Rightarrow> unit expected \<times> WriteAheadLog" where
  "drop_new_segment path msg w =
     (Inl (MakeError kWalRotationFailed msg), w\<lparr>wal_fd := None, wal_fs := um_erase path (wal_fs w)\<rparr>)"

definition RotateFile :: "faults \<Rightarrow> WriteAheadLog \<Rightarrow> unit expected \<times> WriteAheadLog" where
  "RotateFile fl w0 =
     (case rotate_close fl w0 of
        (Inl e, w) \<Rightarrow> (Inl e, w)
      | (Inr _, w) \<Rightarrow>
          case next_segment (lc_directory (wal_config w)) (wal_fs w) (wal_file_number w) of
            (n, None) \<Rightarrow> (Inl (MakeError kWalRotationFailed ''WAL file number space exhausted''), w\<lparr>wal_file_number := n\<rparr>)
          | (n, Some path) \<Rightarrow>
              let w = w\<lparr>wal_file_number := n\<rparr>
              in case fl CreateSegment of
                   Some (_, err) \<Rightarrow> (Inl (MakeErrorContext kWalRotationFailed (''Failed to create WAL file: '' @ err) path), w)
                 | None \<Rightarrow>
                     let w = w\<lparr>wal_fd := Some path, wal_fs := um_set path [] (wal_fs w), wal_file_size := 0\<rparr>
                     in case WriteFileHeader fl w of
                          (Inl e, w) \<Rightarrow> (Inl e, w\<lparr>wal_fd := None\<rparr>)
                        | (Inr _, w) \<Rightarrow>
                            (case fl FsyncNewSegment of
                               Some (_, err) \<Rightarrow> drop_new_segment path (''Failed to fsync new WAL segment: '' @ err) w
                             | None \<Rightarrow>
                                 (case fl FsyncDir of
                                    Some (_, err) \<Rightarrow> drop_new_segment path (''Failed to fsync WAL directory: '' @ err) w
                                  | None \<Rightarrow>
                                      (Inr (), w\<lparr>wal_files := wal_files w @
                                         [\<lparr>wf_path = path, wf_file_number = n, wf_min_sequence = wal_sequence w + 1,
                                           wf_max_sequence = 0, wf_file_size = wal_file_size w\<rparr>]\<rparr>))))"

subsection \<open>Appending\<close>

definition record_body :: "u64 \<Rightarrow> u64 \<Rightarrow> WalOpType \<Rightarrow> bytes \<Rightarrow> bytes" where
  "record_body seq timestamp opr payload = le64 seq @ le64 timestamp @ [op_code opr] @ payload"

definition record_header :: "(bytes \<Rightarrow> u32) \<Rightarrow> bytes \<Rightarrow> bytes" where
  "record_header crc body = le32 (of_nat (length body)) @ le32 (crc body)"

definition update_back :: "u64 \<Rightarrow> u64 \<Rightarrow> WalFile list \<Rightarrow> WalFile list" where
  "update_back seq sz files =
     (if files = [] then [] else butlast files @ [(last files)\<lparr>wf_max_sequence := seq, wf_file_size := sz\<rparr>])"

definition poison_current_segment :: "string \<Rightarrow> WriteAheadLog \<Rightarrow> u64 expected \<times> WriteAheadLog" where
  "poison_current_segment msg w = (Inl (MakeError kWalWriteError msg), w\<lparr>wal_fd := None, wal_open := False\<rparr>)"

definition write_record :: "(bytes \<Rightarrow> u32) \<Rightarrow> faults \<Rightarrow> u64 \<Rightarrow> WalOpType \<Rightarrow> bytes \<Rightarrow> WriteAheadLog \<Rightarrow>
    u64 expected \<times> WriteAheadLog" where
  "write_record crc fl now opr payload w0 =
     (let w = w0\<lparr>wal_sequence := wal_sequence w0 + 1\<rparr>;
          seq = wal_sequence w;
          body = record_body seq now opr payload;
          header = record_header crc body
      in case fl WriteRecordHeader of
           Some (k, err) \<Rightarrow>
             poison_current_segment (''Failed to write record header: '' @ err) (wal_write (partial_write k header) w)
         | None \<Rightarrow>
             (case fl WriteRecordBody of
                Some (k, err) \<Rightarrow>
                  poison_current_segment (''Failed to write record body: '' @ err) (wal_write (header @ partial_write k body) w)
              | None \<Rightarrow>
                  let w1 = wal_write (header @ body) w;
                      sz = wal_file_size w1 + of_nat (8 + length body);
                      w2 = w1\<lparr>wal_file_size := sz, wal_files := update_back seq sz (wal_files w1)\<rparr>
                  in if lc_sync_on_write (wal_config w2)
                     then case fl FsyncRecord of
                            Some (_, err) \<Rightarrow> poison_current_segment (''Failed to fsync WAL record: '' @ err) w2
                          | None \<Rightarrow> (Inr seq, w2)
                     else (Inr seq, w2\<lparr>wal_needs_sync := True\<rparr>)))"

text \<open>The size parameter is 32 bits wide: of a longer payload only that many bytes are taken.\<close>

definition Append :: "(bytes \<Rightarrow> u32) \<Rightarrow> faults \<Rightarrow> u64 \<Rightarrow> WalOpType \<Rightarrow> bytes \<Rightarrow> WriteAheadLog \<Rightarrow>
    u64 expected \<times> WriteAheadLog" where
  "Append crc fl now opr data w =
     (let payload_size = unat (of_nat (length data) :: u32);
          payload = take payload_size data;
          total_record_size = 8 + (kWalRecordHeaderSize + payload_size)
      in if \<not> wal_open w \<or> wal_fd w = None then (Inl (MakeError kWalNotOpen ''WAL is not open''), w)
         else if wal_sequence w = - 1
         then (Inl (MakeError kWalWriteError ''WAL sequence number space exhausted''), w)
         else if kMaxWalRecordBodySize - kWalRecordHeaderSize < payload_size
         then (Inl (MakeError kWalWriteError ''WAL payload exceeds maximum record size''), w)
         else if lc_max_file_size (wal_config w) < wal_file_size w + of_nat total_record_size \<and>
                 of_nat kWalFileHeaderSize < wal_file_size w
         then case RotateFile fl (w\<lparr>wal_files := update_back (wal_sequence w) (wal_file_size w) (wal_files w)\<rparr>) of
                (Inl e, w) \<Rightarrow> (Inl e, w)
              | (Inr _, w) \<Rightarrow> write_record crc fl now opr payload w
         else write_record crc fl now opr payload w)"


subsection \<open>Reading segments\<close>

text \<open>
  What the next bytes of a segment are.  The scan and the replay test for these cases in the same
  order and differ in what they do in each.
\<close>

datatype frame = FrameEnd | TornHeader | BadLength u32 | TornBody | BadCrc | Frame bytes bytes

definition next_frame :: "(bytes \<Rightarrow> u32) \<Rightarrow> bytes \<Rightarrow> frame" where
  "next_frame crc bs =
     (if bs = [] then FrameEnd
      else if length bs < 8 then TornHeader
      else let body_length = le32_decode bs; expected_crc = le32_decode (drop 4 bs)
           in if unat body_length < kWalRecordHeaderSize \<or> kMaxWalRecordBodySize < unat body_length then BadLength body_length
              else if length bs - 8 < unat body_length then TornBody
              else let body = take (unat body_length) (drop 8 bs)
                   in if crc body \<noteq> expected_crc then BadCrc else Frame body (drop (8 + unat body_length) bs))"

lemma next_frame_shorter: "next_frame crc bs = Frame body rest \<Longrightarrow> length rest < length bs"
  by (auto simp: next_frame_def Let_def split: if_splits)

definition contiguous_after :: "u64 option \<Rightarrow> u64 \<Rightarrow> bool" where
  "contiguous_after previous seq \<longleftrightarrow>
     (case previous of None \<Rightarrow> True | Some p \<Rightarrow> p \<noteq> - 1 \<and> seq = p + 1)"

definition not_contiguous :: "ErrorCode \<Rightarrow> u64 option \<Rightarrow> u64 \<Rightarrow> Error" where
  "not_contiguous code previous seq =
     MakeError code (''WAL sequence is not contiguous: previous='' @ show_nat (unat (the previous)) @ '', current='' @ show_nat (unat seq))"

text \<open>
  The scan of one segment: it returns the last sequence, the smallest and largest sequence of the
  segment, and the offset a torn tail is cut at.
\<close>

function scan_records :: "(bytes \<Rightarrow> u32) \<Rightarrow> faults \<Rightarrow> bool \<Rightarrow> string \<Rightarrow> bytes \<Rightarrow> u64 option \<Rightarrow> u64 \<Rightarrow> u64 \<Rightarrow> nat \<Rightarrow>
    (u64 option \<times> u64 \<times> u64 \<times> nat option) expected" where
  "scan_records crc fl latest path bs previous min_seq max_seq last_valid =
     (case next_frame crc bs of
        FrameEnd \<Rightarrow> Inr (previous, min_seq, max_seq, None)
      | TornHeader \<Rightarrow>
          if \<not> latest \<or> fl Ftruncate \<noteq> None then Inl (MakeError kWalCorrupted (''Torn WAL header in segment: '' @ path))
          else Inr (previous, min_seq, max_seq, Some last_valid)
      | BadLength _ \<Rightarrow> Inl (MakeError kWalCorrupted (''Invalid WAL record length: '' @ path))
      | TornBody \<Rightarrow>
          if \<not> latest \<or> fl Ftruncate \<noteq> None then Inl (MakeError kWalCorrupted (''Torn WAL body in segment: '' @ path))
          else Inr (previous, min_seq, max_seq, Some last_valid)
      | BadCrc \<Rightarrow> Inl (MakeError kWalCorrupted (''WAL record CRC mismatch: '' @ path))
      | Frame body rest \<Rightarrow>
          let seq = le64_decode body
          in if \<not> contiguous_after previous seq then Inl (not_contiguous kWalCorrupted previous seq)
             else scan_records crc fl latest path rest (Some seq) (if seq < min_seq then seq else min_seq)
                    (if max_seq < seq then seq else max_seq) (last_valid + 8 + length body))"
  by pat_completeness auto
termination
  by (relation "measure (\<lambda>(crc, fl, latest, path, bs, _). length bs)") (auto dest: next_frame_shorter)

declare scan_records.simps [simp del]

text \<open>Segment numbers of the files in the directory.\<close>

definition is_digit :: "char \<Rightarrow> bool" where
  "is_digit c \<longleftrightarrow> 48 \<le> (of_char c :: nat) \<and> (of_char c :: nat) \<le> 57"

definition digits_value :: "string \<Rightarrow> nat" where
  "digits_value s = foldl (\<lambda>v c. 10 * v + (of_char c - 48)) 0 s"

definition segment_number :: "string \<Rightarrow> u32 option" where
  "segment_number name =
     (if length name = 14 \<and> take 4 name = ''wal-'' \<and> drop 10 name = ''.log'' \<and> list_all is_digit (take 6 (drop 4 name))
      then Some (of_nat (digits_value (take 6 (drop 4 name)))) else None)"

definition dir_names :: "string \<Rightarrow> (string, bytes) umap \<Rightarrow> string list" where
  "dir_names dir fs = map (drop (length dir + 1)) (filter (\<lambda>p. take (length dir + 1) p = dir @ ''/'') (um_keys fs))"

definition segment_numbers :: "string \<Rightarrow> (string, bytes) umap \<Rightarrow> u32 list" where
  "segment_numbers dir fs = sort (List.map_filter segment_number (dir_names dir fs))"

fun scan_files :: "(bytes \<Rightarrow> u32) \<Rightarrow> faults \<Rightarrow> u32 list \<Rightarrow> u64 option \<Rightarrow> WriteAheadLog \<Rightarrow> unit expected \<times> WriteAheadLog" where
  "scan_files crc fl [] previous w = (Inr (), w)"
| "scan_files crc fl (n # ns) previous w =
     (let path = MakeFilePath (lc_directory (wal_config w)) n
      in if um_find (wal_fs w) path = None \<or> fl (OpenSegment path) \<noteq> None
         then (Inl (MakeError kWalReadError (''Failed to open WAL segment: '' @ path)), w)
         else let content = the (um_find (wal_fs w) path)
              in case ValidateFileHeader path content of
                   Inl e \<Rightarrow> (Inl e, w)
                 | Inr _ \<Rightarrow>
                     (case scan_records crc fl (ns = []) path (drop kWalFileHeaderSize content) previous (- 1) 0 kWalFileHeaderSize of
                        Inl e \<Rightarrow> (Inl e, w)
                      | Inr (previous, min_seq, max_seq, torn) \<Rightarrow>
                          let content = (case torn of None \<Rightarrow> content | Some off \<Rightarrow> take off content)
                          in scan_files crc fl ns previous
                               (w\<lparr>wal_fs := um_set path content (wal_fs w),
                                  wal_sequence := (if wal_sequence w < max_seq then max_seq else wal_sequence w),
                                  wal_file_number := (if wal_file_number w < n then n else wal_file_number w),
                                  wal_files := wal_files w @
                                    [\<lparr>wf_path = path, wf_file_number = n, wf_min_sequence = (if min_seq = - 1 then 0 else min_seq),
                                      wf_max_sequence = max_seq, wf_file_size = of_nat (length content)\<rparr>]\<rparr>)))"

definition ScanExistingFiles :: "(bytes \<Rightarrow> u32) \<Rightarrow> faults \<Rightarrow> WriteAheadLog \<Rightarrow> unit expected \<times> WriteAheadLog" where
  "ScanExistingFiles crc fl w0 =
     (let w = w0\<lparr>wal_files := [], wal_sequence := 0, wal_file_number := 0\<rparr>;
          numbers = segment_numbers (lc_directory (wal_config w)) (wal_fs w)
      in if \<not> distinct numbers then (Inl (MakeError kWalCorrupted ''Duplicate WAL segment number''), w)
         else scan_files crc fl numbers None w)"

subsection \<open>Opening and closing\<close>

definition wal_Close :: "WriteAheadLog \<Rightarrow> WriteAheadLog" where
  "wal_Close w = w\<lparr>wal_sync_running := False, wal_fd := None, wal_open := False\<rparr>"

fun remove_empty :: "faults \<Rightarrow> WalFile list \<Rightarrow> (string, bytes) umap \<Rightarrow> (WalFile list \<times> bool \<times> (string, bytes) umap) expected" where
  "remove_empty fl [] fs = Inr ([], False, fs)"
| "remove_empty fl (f # files) fs =
     (if wf_max_sequence f \<noteq> 0
      then case remove_empty fl files fs of
             Inl e \<Rightarrow> Inl e
           | Inr (kept, removed, fs) \<Rightarrow> Inr (f # kept, removed, fs)
      else case fl (Unlink (wf_path f)) of
             Some (_, err) \<Rightarrow>
               Inl (MakeError kWalTruncateFailed (''Failed to remove empty WAL segment '' @ [CHR 0x27] @ wf_path f @ [CHR 0x27] @ '': '' @ err))
           | None \<Rightarrow>
               (case remove_empty fl files (um_erase (wf_path f) fs) of
                  Inl e \<Rightarrow> Inl e
                | Inr (kept, _, fs) \<Rightarrow> Inr (kept, True, fs)))"

text \<open>
  \<open>canonical\<close> is the outcome of the checks on the directory: the canonical path, or the error of
  \<^verbatim>\<open>ValidatePrivateDirectory\<close> or \<^verbatim>\<open>canonical\<close>.
\<close>

definition wal_Open :: "(bytes \<Rightarrow> u32) \<Rightarrow> faults \<Rightarrow> string expected \<Rightarrow> WalLogConfig \<Rightarrow> WriteAheadLog \<Rightarrow>
    unit expected \<times> WriteAheadLog" where
  "wal_Open crc fl canonical config w0 =
     (let w = (wal_Close w0)\<lparr>wal_config := config\<rparr>
      in case fl MkDir of
           Some (_, err) \<Rightarrow>
             (Inl (MakeErrorContext kWalWriteError (''Failed to create WAL directory: '' @ err) (lc_directory config)), w)
         | None \<Rightarrow>
             (case canonical of
                Inl e \<Rightarrow> (Inl e, w)
              | Inr directory \<Rightarrow>
                  (case ScanExistingFiles crc fl (w\<lparr>wal_config := config\<lparr>lc_directory := directory\<rparr>\<rparr>) of
                     (Inl e, w) \<Rightarrow> (Inl e, w)
                   | (Inr _, w) \<Rightarrow>
                       case remove_empty fl (wal_files w) (wal_fs w) of
                         Inl e \<Rightarrow> (Inl e, w)
                       | Inr (kept, removed, fs) \<Rightarrow>
                           let w = w\<lparr>wal_files := kept, wal_fs := fs\<rparr>
                           in if removed \<and> fl FsyncDir \<noteq> None
                              then (Inl (MakeError kWalTruncateFailed
                                     (''Failed to fsync WAL directory after removing empty segments: '' @ snd (the (fl FsyncDir)))), w)
                              else case RotateFile fl w of
                                     (Inl e, w) \<Rightarrow> (Inl e, w)
                                   | (Inr _, w) \<Rightarrow>
                                       (Inr (), w\<lparr>wal_open := True, wal_sync_running :=
                                          (if \<not> lc_sync_on_write config \<and> 0 < lc_sync_interval_ms config then True else wal_sync_running w)\<rparr>))))"

subsection \<open>Replay\<close>

text \<open>
  The callback sees a record and changes its own state, and may refuse the record.  The result is
  the number of records it accepted.
\<close>

datatype 's replay_outcome = ReplayStop "u64 expected" 's | ReplayOn "u64 option" bool u64 's

definition parse_record :: "bytes \<Rightarrow> WalRecord" where
  "parse_record body = \<lparr>wr_sequence = le64_decode body, wr_timestamp_us = le64_decode (drop 8 body),
     wr_op = op_of_code (body ! 16), wr_payload = drop kWalRecordHeaderSize body\<rparr>"

function replay_records :: "(bytes \<Rightarrow> u32) \<Rightarrow> bool \<Rightarrow> string \<Rightarrow> u64 \<Rightarrow> (WalRecord \<Rightarrow> 's \<Rightarrow> Error option \<times> 's) \<Rightarrow> bytes \<Rightarrow>
    u64 option \<Rightarrow> bool \<Rightarrow> u64 \<Rightarrow> 's \<Rightarrow> 's replay_outcome" where
  "replay_records crc latest path from callback bs previous seen applied s =
     (case next_frame crc bs of
        FrameEnd \<Rightarrow> ReplayOn previous seen applied s
      | TornHeader \<Rightarrow>
          if latest then ReplayStop (Inr applied) s
          else ReplayStop (Inl (MakeError kStorageCorrupted (''Torn WAL header in non-latest segment: '' @ path))) s
      | BadLength _ \<Rightarrow> ReplayStop (Inl (MakeError kStorageCorrupted (''Invalid WAL record length in '' @ path))) s
      | TornBody \<Rightarrow>
          if latest then ReplayStop (Inr applied) s
          else ReplayStop (Inl (MakeError kStorageCorrupted (''Torn WAL body in non-latest segment: '' @ path))) s
      | BadCrc \<Rightarrow> ReplayStop (Inl (MakeError kStorageCorrupted (''WAL record CRC mismatch in '' @ path))) s
      | Frame body rest \<Rightarrow>
          let record = parse_record body; seq = wr_sequence record
          in if \<not> contiguous_after previous seq then ReplayStop (Inl (not_contiguous kStorageCorrupted previous seq)) s
             else let seen = (seen \<or> seq = from)
                  in if seq < from then replay_records crc latest path from callback rest (Some seq) seen applied s
                     else case callback record s of
                            (Some e, s) \<Rightarrow> ReplayStop (Inl e) s
                          | (None, s) \<Rightarrow> replay_records crc latest path from callback rest (Some seq) seen (applied + 1) s)"
  by pat_completeness auto
termination
  by (relation "measure (\<lambda>(crc, latest, path, from, callback, bs, _). length bs)") (auto dest: next_frame_shorter)

declare replay_records.simps [simp del]

fun replay_files :: "(bytes \<Rightarrow> u32) \<Rightarrow> faults \<Rightarrow> u64 \<Rightarrow> (WalRecord \<Rightarrow> 's \<Rightarrow> Error option \<times> 's) \<Rightarrow> (string, bytes) umap \<Rightarrow>
    string list \<Rightarrow> u64 option \<Rightarrow> bool \<Rightarrow> u64 \<Rightarrow> 's \<Rightarrow> 's replay_outcome" where
  "replay_files crc fl from callback fs [] previous seen applied s = ReplayOn previous seen applied s"
| "replay_files crc fl from callback fs (path # paths) previous seen applied s =
     (if um_find fs path = None \<or> fl (OpenSegment path) \<noteq> None
      then ReplayStop (Inl (MakeError kWalReadError (''Failed to open WAL segment: '' @ path @ '': '' @
             (case fl (OpenSegment path) of None \<Rightarrow> ''No such file or directory'' | Some (_, err) \<Rightarrow> err)))) s
      else let content = the (um_find fs path)
           in case ValidateFileHeader path content of
                Inl e \<Rightarrow> ReplayStop (Inl e) s
              | Inr _ \<Rightarrow>
                  (case replay_records crc (paths = []) path from callback (drop kWalFileHeaderSize content) previous seen applied s of
                     ReplayStop r s \<Rightarrow> ReplayStop r s
                   | ReplayOn previous seen applied s \<Rightarrow> replay_files crc fl from callback fs paths previous seen applied s))"

definition ReplayValidated :: "(bytes \<Rightarrow> u32) \<Rightarrow> faults \<Rightarrow> u64 \<Rightarrow> (WalRecord \<Rightarrow> 's \<Rightarrow> Error option \<times> 's) \<Rightarrow>
    WriteAheadLog \<Rightarrow> 's \<Rightarrow> u64 expected \<times> 's" where
  "ReplayValidated crc fl from callback w s =
     (let paths = map wf_path (filter (\<lambda>f. from \<le> wf_max_sequence f \<or> wf_max_sequence f = 0) (wal_files w))
      in case replay_files crc fl from callback (wal_fs w) paths None (from = 0) 0 s of
           ReplayStop r s \<Rightarrow> (r, s)
         | ReplayOn _ seen applied s \<Rightarrow>
             if \<not> seen \<and> from \<le> wal_sequence w
             then (Inl (MakeError kWalCorrupted
                    (''WAL does not contain requested replay floor sequence '' @ show_nat (unat from))), s)
             else (Inr applied, s))"

subsection \<open>Truncation and background synchronisation\<close>

fun truncate_files :: "faults \<Rightarrow> u64 \<Rightarrow> u32 \<Rightarrow> WalFile list \<Rightarrow> (string, bytes) umap \<Rightarrow>
    WalFile list \<times> nat \<times> Error option \<times> (string, bytes) umap" where
  "truncate_files fl up_to current [] fs = ([], 0, None, fs)"
| "truncate_files fl up_to current (f # files) fs =
     (if wf_max_sequence f \<le> up_to \<and> 0 < wf_max_sequence f \<and> wf_file_number f \<noteq> current
      then case fl (Unlink (wf_path f)) of
             None \<Rightarrow>
               (let (kept, deleted, err, fs) = truncate_files fl up_to current files (um_erase (wf_path f) fs)
                in (kept, Suc deleted, err, fs))
           | Some (_, msg) \<Rightarrow>
               (let (kept, deleted, err, fs) = truncate_files fl up_to current files fs
                in (f # kept, deleted,
                    Some (MakeError kWalTruncateFailed
                      (''Failed to unlink WAL segment '' @ [CHR 0x27] @ wf_path f @ [CHR 0x27] @ '': '' @ msg)), fs))
      else let (kept, deleted, err, fs) = truncate_files fl up_to current files fs in (f # kept, deleted, err, fs))"

definition wal_Truncate :: "faults \<Rightarrow> u64 \<Rightarrow> WriteAheadLog \<Rightarrow> unit expected \<times> WriteAheadLog" where
  "wal_Truncate fl up_to w0 =
     (let (remaining, deleted_count, unlink_error, fs) = truncate_files fl up_to (wal_file_number w0) (wal_files w0) (wal_fs w0);
          w = w0\<lparr>wal_files := remaining, wal_fs := fs\<rparr>
      in if 0 < deleted_count \<and> fl FsyncDir \<noteq> None
         then (Inl (MakeError kWalTruncateFailed (''Failed to fsync WAL directory after truncate: '' @ snd (the (fl FsyncDir)))), w)
         else case unlink_error of Some e \<Rightarrow> (Inl e, w) | None \<Rightarrow> (Inr (), w))"

text \<open>One turn of the background thread.\<close>

definition SyncLoop_turn :: "faults \<Rightarrow> WriteAheadLog \<Rightarrow> WriteAheadLog" where
  "SyncLoop_turn fl w =
     (if \<not> wal_sync_running w \<or> \<not> wal_needs_sync w then w
      else let w = w\<lparr>wal_needs_sync := False\<rparr>
           in if wal_fd w \<noteq> None \<and> fl FsyncSegment \<noteq> None then w\<lparr>wal_fd := None, wal_open := False\<rparr> else w)"

subsection \<open>Segment names\<close>

lemma length_show_digits [simp]: "length (show_digits w n) = w"
  by (induction w arbitrary: n) simp_all

lemma of_char_digit: "(of_char (char_of (48 + n mod 10 :: nat)) :: nat) = 48 + n mod 10"
proof -
  have "n mod 10 < 10" by simp
  then show ?thesis by simp
qed

lemma show_digits_digits: "list_all is_digit (show_digits w n)"
proof (induction w arbitrary: n)
  case (Suc w)
  have "n mod 10 < 10" by simp
  then show ?case using Suc by (simp add: is_digit_def)
qed simp

lemma digits_value_snoc: "digits_value (s @ [c]) = 10 * digits_value s + (of_char c - 48)"
  by (simp add: digits_value_def)

lemma digits_value_show: "n < 10 ^ w \<Longrightarrow> digits_value (show_digits w n) = n"
proof (induction w arbitrary: n)
  case (Suc w)
  then have "n div 10 < 10 ^ w" by (simp add: less_mult_imp_div_less mult.commute)
  then show ?case using Suc.IH [of "n div 10"] by (simp add: digits_value_snoc of_char_digit)
qed (simp add: digits_value_def)

lemma show_digits_value: "list_all is_digit s \<Longrightarrow> digits_value s < 10 ^ length s \<and> show_digits (length s) (digits_value s) = s"
proof (induction s rule: rev_induct)
  case (snoc c s)
  obtain d where d: "of_char c = 48 + d" "d < (10 :: nat)"
    using snoc.prems by (auto simp: is_digit_def le_iff_add)
  have "digits_value (s @ [c]) = 10 * digits_value s + d" by (simp add: digits_value_snoc d)
  moreover have "char_of (48 + d) = c" using d(1) by (metis char_of_char)
  ultimately show ?case using snoc d(2) by simp
qed (simp add: digits_value_def)

lemma MakeFilePath_small:
  "unat n < 10 ^ 6 \<Longrightarrow> MakeFilePath dir n = dir @ ''/'' @ ''wal-'' @ show_digits 6 (unat n) @ ''.log''"
  by (simp add: MakeFilePath_def)

lemma segment_number_name:
  assumes "unat n < 10 ^ 6"
  shows "segment_number (''wal-'' @ show_digits 6 (unat n) @ ''.log'') = Some n"
  using assms digits_value_show [of "unat n" 6] show_digits_digits [of 6 "unat n"]
  by (simp add: segment_number_def)

lemma segment_number_inv:
  assumes "segment_number name = Some n"
  shows "unat n < 10 ^ 6 \<and> name = ''wal-'' @ show_digits 6 (unat n) @ ''.log''"
proof -
  let ?d = "take 6 (drop 4 name)"
  have name: "length name = 14" "take 4 name = ''wal-''" "drop 10 name = ''.log''" "list_all is_digit ?d"
    and n: "n = of_nat (digits_value ?d)"
    using assms by (auto simp: segment_number_def split: if_splits)
  have "length ?d = 6" using name(1) by simp
  then have v: "digits_value ?d < 10 ^ 6" "show_digits 6 (digits_value ?d) = ?d"
    using show_digits_value [OF name(4)] by simp_all
  then have u: "unat n = digits_value ?d" by (simp add: n unsigned_of_nat take_bit_nat_eq_self)
  have "name = take 4 name @ ?d @ drop 10 name"
    using append_take_drop_id [of 4 name] append_take_drop_id [of 6 "drop 4 name"] by simp
  then show ?thesis using v u name by simp
qed


lemma MakeFilePath_inj:
  assumes "unat m < 10 ^ 6" "unat n < 10 ^ 6"
  shows "MakeFilePath dir m = MakeFilePath dir n \<longleftrightarrow> m = n"
proof
  assume "MakeFilePath dir m = MakeFilePath dir n"
  then have "''wal-'' @ show_digits 6 (unat m) @ ''.log'' = ''wal-'' @ show_digits 6 (unat n) @ ''.log''"
    using assms by (simp add: MakeFilePath_small)
  then show "m = n"
    using segment_number_name [OF assms(1)] segment_number_name [OF assms(2)] by (metis option.inject)
qed simp

lemma set_dir_names: "name \<in> set (dir_names dir fs) \<longleftrightarrow> dir @ ''/'' @ name \<in> fst ` set fs"
proof -
  have split: "p = dir @ ''/'' @ drop (length dir + 1) p" if "take (length dir + 1) p = dir @ ''/''" for p
    by (metis append_assoc append_take_drop_id that)
  have "p \<in> fst ` set fs \<and> take (length dir + 1) p = dir @ ''/'' \<and> name = drop (length dir + 1) p \<longleftrightarrow>
      p = dir @ ''/'' @ name \<and> p \<in> fst ` set fs" for p
    using split [of p] by auto
  moreover have "name \<in> set (dir_names dir fs) \<longleftrightarrow>
      (\<exists>p. p \<in> fst ` set fs \<and> take (length dir + 1) p = dir @ ''/'' \<and> name = drop (length dir + 1) p)"
    unfolding dir_names_def set_map set_filter by blast
  ultimately show ?thesis by simp
qed

lemma distinct_dir_names:
  assumes "um_wf fs"
  shows "distinct (dir_names dir fs)"
proof -
  have "inj_on (drop (length dir + 1)) {p. take (length dir + 1) p = dir @ ''/''}"
    by (rule inj_onI) (metis append_take_drop_id mem_Collect_eq)
  then have "inj_on (drop (length dir + 1)) (set (filter (\<lambda>p. take (length dir + 1) p = dir @ ''/'') (um_keys fs)))"
    by (rule inj_on_subset) auto
  moreover have "distinct (filter (\<lambda>p. take (length dir + 1) p = dir @ ''/'') (um_keys fs))"
    using assms by (intro distinct_filter) (simp add: um_wf_def)
  ultimately show ?thesis unfolding dir_names_def by (subst distinct_map) blast
qed

lemma set_segment_numbers:
  "n \<in> set (segment_numbers dir fs) \<longleftrightarrow> unat n < 10 ^ 6 \<and> MakeFilePath dir n \<in> fst ` set fs"
proof -
  have "n \<in> set (segment_numbers dir fs) \<longleftrightarrow> (\<exists>name. dir @ ''/'' @ name \<in> fst ` set fs \<and> segment_number name = Some n)"
    unfolding segment_numbers_def set_dir_names [symmetric] by (force simp: List.map_filter_def)
  also have "\<dots> \<longleftrightarrow> unat n < 10 ^ 6 \<and> MakeFilePath dir n \<in> fst ` set fs"
    by (metis segment_number_inv segment_number_name MakeFilePath_small)
  finally show ?thesis .
qed

lemma distinct_segment_numbers:
  assumes "um_wf fs"
  shows "distinct (segment_numbers dir fs)"
proof -
  have "inj_on (the \<circ> segment_number) {name. segment_number name \<noteq> None}"
  proof (rule inj_onI)
    fix x y
    assume "x \<in> {name. segment_number name \<noteq> None}" "y \<in> {name. segment_number name \<noteq> None}"
      and "(the \<circ> segment_number) x = (the \<circ> segment_number) y"
    then obtain n where "segment_number x = Some n" "segment_number y = Some n" by auto
    then show "x = y" using segment_number_inv by blast
  qed
  then show ?thesis
    using distinct_dir_names [OF assms, of dir]
    by (simp add: segment_numbers_def List.map_filter_def distinct_map comp_def) (erule inj_on_subset, auto)
qed


subsection \<open>Frames\<close>

definition body_of :: "WalRecord \<Rightarrow> bytes" where
  "body_of r = record_body (wr_sequence r) (wr_timestamp_us r) (wr_op r) (wr_payload r)"

definition frame_of :: "(bytes \<Rightarrow> u32) \<Rightarrow> WalRecord \<Rightarrow> bytes" where
  "frame_of crc r = record_header crc (body_of r) @ body_of r"

definition record_ok :: "WalRecord \<Rightarrow> bool" where
  "record_ok r \<longleftrightarrow> kWalRecordHeaderSize + length (wr_payload r) \<le> kMaxWalRecordBodySize \<and>
     op_of_code (op_code (wr_op r)) = wr_op r \<and> wr_sequence r \<noteq> 0"

lemma le32_nonempty [simp]: "le32 w \<noteq> []"
  by (simp add: le32_def)

lemma length_body_of: "length (body_of r) = 17 + length (wr_payload r)"
  by (simp add: body_of_def record_body_def)

lemma length_record_header [simp]: "length (record_header crc body) = 8"
  by (simp add: record_header_def)

lemma body_fits: "record_ok r \<Longrightarrow> length (body_of r) \<le> 67108864"
  by (simp add: record_ok_def length_body_of kMaxWalRecordBodySize_def kWalRecordHeaderSize_def)

lemma body_length_word: "record_ok r \<Longrightarrow> unat (of_nat (length (body_of r)) :: u32) = length (body_of r)"
  using body_fits [of r] by (simp add: unsigned_of_nat take_bit_nat_eq_self)

lemma parse_body: "record_ok r \<Longrightarrow> parse_record (body_of r) = r"
  by (cases r) (simp add: parse_record_def body_of_def record_body_def record_ok_def kWalRecordHeaderSize_def nth_append)

lemma le64_body [simp]: "le64_decode (body_of r) = wr_sequence r"
  by (simp add: body_of_def record_body_def)

lemma length_frame_of: "length (frame_of crc r) = 8 + length (body_of r)"
  by (simp add: frame_of_def)

lemma next_frame_whole:
  assumes "record_ok r"
  shows "next_frame crc (frame_of crc r @ rest) = Frame (body_of r) rest"
proof -
  have "le32_decode (drop 4 (frame_of crc r @ rest)) = crc (body_of r)"
    by (simp add: frame_of_def record_header_def)
  moreover have "le32_decode (frame_of crc r @ rest) = of_nat (length (body_of r))"
    by (simp add: frame_of_def record_header_def)
  moreover have "17 \<le> length (body_of r)" by (simp add: length_body_of)
  moreover have "drop 8 (frame_of crc r @ rest) = body_of r @ rest" "frame_of crc r @ rest \<noteq> []"
    "length (frame_of crc r @ rest) = 8 + length (body_of r) + length rest"
    "drop (8 + length (body_of r)) (frame_of crc r @ rest) = rest"
    by (simp_all add: frame_of_def record_header_def)
  ultimately show ?thesis
    using body_fits [OF assms] body_length_word [OF assms]
    by (simp add: next_frame_def kWalRecordHeaderSize_def kMaxWalRecordBodySize_def)
qed

text \<open>A proper prefix of a frame is seen as the end of the segment or as torn, never as a record.\<close>

definition torn_tail :: "(bytes \<Rightarrow> u32) \<Rightarrow> bytes \<Rightarrow> bool" where
  "torn_tail crc p \<longleftrightarrow> next_frame crc p \<in> {FrameEnd, TornHeader, TornBody}"

lemma torn_tail_Nil [simp]: "torn_tail crc []"
  by (simp add: torn_tail_def next_frame_def)

lemma next_frame_end: "next_frame crc p = FrameEnd \<longleftrightarrow> p = []"
  by (auto simp: next_frame_def Let_def split: if_splits)

lemma torn_tail_prefix:
  assumes "record_ok r" "frame_of crc r = p @ q" "q \<noteq> []"
  shows "torn_tail crc p"
proof (cases "length p < 8")
  case True
  then show ?thesis by (simp add: torn_tail_def next_frame_def)
next
  case False
  have len: "length p + length q = 8 + length (body_of r)"
    using arg_cong [OF assms(2), of length] by (simp add: frame_of_def)
  have "take 4 p = take 4 (frame_of crc r)" using assms(2) False by simp
  then have "take 4 p = le32 (of_nat (length (body_of r)))" by (simp add: frame_of_def record_header_def)
  then have "le32_decode p = of_nat (length (body_of r))" by (metis append_take_drop_id le32_roundtrip)
  moreover have "length p - 8 < length (body_of r)" using len False assms(3) by (cases q) auto
  moreover have "17 \<le> length (body_of r)" by (simp add: length_body_of)
  ultimately show ?thesis
    using False body_fits [OF assms(1)] body_length_word [OF assms(1)]
    by (simp add: torn_tail_def next_frame_def kWalRecordHeaderSize_def kMaxWalRecordBodySize_def Let_def)
qed

subsection \<open>Segments\<close>

definition seg_bytes :: "(bytes \<Rightarrow> u32) \<Rightarrow> WalRecord list \<Rightarrow> bytes" where
  "seg_bytes crc rs = concat (map (frame_of crc) rs)"

lemma seg_bytes_simps [simp]:
  "seg_bytes crc [] = []"
  "seg_bytes crc (r # rs) = frame_of crc r @ seg_bytes crc rs"
  "seg_bytes crc (rs @ rs') = seg_bytes crc rs @ seg_bytes crc rs'"
  by (simp_all add: seg_bytes_def)

fun consecutive :: "u64 option \<Rightarrow> WalRecord list \<Rightarrow> bool" where
  "consecutive previous [] = True"
| "consecutive previous (r # rs) = (contiguous_after previous (wr_sequence r) \<and> consecutive (Some (wr_sequence r)) rs)"

definition last_seq :: "u64 option \<Rightarrow> WalRecord list \<Rightarrow> u64 option" where
  "last_seq previous rs = (if rs = [] then previous else Some (wr_sequence (last rs)))"

lemma last_seq_Cons [simp]: "last_seq previous (r # rs) = last_seq (Some (wr_sequence r)) rs"
  by (simp add: last_seq_def)

lemma last_seq_Nil [simp]: "last_seq previous [] = previous"
  by (simp add: last_seq_def)

lemma consecutive_append: "consecutive previous (rs @ rs') \<longleftrightarrow> consecutive previous rs \<and> consecutive (last_seq previous rs) rs'"
  by (induction rs arbitrary: previous) auto

lemma last_seq_append [simp]: "last_seq previous (rs @ rs') = last_seq (last_seq previous rs) rs'"
  by (induction rs arbitrary: previous) auto

lemma consecutive_None: "consecutive previous rs \<Longrightarrow> consecutive None rs"
  by (cases rs) (auto simp: contiguous_after_def)

lemma contiguous_less: "contiguous_after (Some a) b \<Longrightarrow> a < b"
  using unat_inc [of a] by (auto simp: contiguous_after_def word_less_nat_alt)

lemma consecutive_less: "\<lbrakk>consecutive (Some a) rs; r \<in> set rs\<rbrakk> \<Longrightarrow> a < wr_sequence r"
proof (induction rs arbitrary: a)
  case (Cons x rs)
  have "a < wr_sequence x" using Cons.prems(1) contiguous_less by simp
  then show ?case using Cons by (auto dest: less_trans)
qed simp

lemma consecutive_split_less:
  "\<lbrakk>consecutive previous (rs @ rs'); r \<in> set rs; r' \<in> set rs'\<rbrakk> \<Longrightarrow> wr_sequence r < wr_sequence r'"
proof (induction rs arbitrary: previous)
  case (Cons x rs)
  then show ?case using consecutive_less [of "wr_sequence x" "rs @ rs'" r'] by auto
qed simp

lemma consecutive_last: "\<lbrakk>consecutive previous rs; r \<in> set rs\<rbrakk> \<Longrightarrow> wr_sequence r \<le> wr_sequence (last rs)"
proof (cases rs rule: rev_cases)
  case (snoc ys y)
  then show "consecutive previous rs \<Longrightarrow> r \<in> set rs \<Longrightarrow> ?thesis"
    using consecutive_split_less [of previous ys "[y]" r y] by (auto intro: less_imp_le)
qed simp


lemma scan_records_segment:
  assumes "list_all record_ok rs" "consecutive previous rs" "torn_tail crc p" "latest \<or> p = []" "fl Ftruncate = None"
    and "\<forall>r \<in> set rs. mx < wr_sequence r"
  shows "\<exists>mn'. scan_records crc fl latest path (seg_bytes crc rs @ p) previous mn mx off =
    Inr (last_seq previous rs, mn', (if rs = [] then mx else wr_sequence (last rs)),
         if p = [] then None else Some (off + length (seg_bytes crc rs)))"
  using assms
proof (induction rs arbitrary: previous mn mx off)
  case Nil
  then show ?case
    by (cases "next_frame crc p") (auto simp: scan_records.simps torn_tail_def next_frame_end next_frame_def [of crc "[]"])
next
  case (Cons r rs)
  let ?seq = "wr_sequence r"
  have later: "\<forall>r' \<in> set rs. ?seq < wr_sequence r'"
    using Cons.prems(2) consecutive_less [of ?seq rs] by auto
  have frame: "next_frame crc (frame_of crc r @ seg_bytes crc rs @ p) = Frame (body_of r) (seg_bytes crc rs @ p)"
    using Cons.prems(1) by (simp add: next_frame_whole)
  have "mx < ?seq" using Cons.prems(6) by simp
  obtain mn' where "scan_records crc fl latest path (seg_bytes crc rs @ p) (Some ?seq) (if ?seq < mn then ?seq else mn) ?seq
      (off + 8 + length (body_of r)) =
    Inr (last_seq (Some ?seq) rs, mn', (if rs = [] then ?seq else wr_sequence (last rs)),
         if p = [] then None else Some (off + 8 + length (body_of r) + length (seg_bytes crc rs)))"
    using Cons.IH [of "Some ?seq" ?seq] Cons.prems later by fastforce
  then show ?case
    using Cons.prems(2) \<open>mx < ?seq\<close> unfolding scan_records.simps [of crc fl latest path "seg_bytes crc (r # rs) @ p"]
    by (simp add: frame length_frame_of Let_def ac_simps)
qed

text \<open>The records a callback accepts, in order, up to the first it refuses.\<close>

fun deliver :: "(WalRecord \<Rightarrow> 's \<Rightarrow> Error option \<times> 's) \<Rightarrow> WalRecord list \<Rightarrow> u64 \<Rightarrow> 's \<Rightarrow> u64 expected \<times> 's" where
  "deliver callback [] applied s = (Inr applied, s)"
| "deliver callback (r # rs) applied s =
     (case callback r s of (Some e, s) \<Rightarrow> (Inl e, s) | (None, s) \<Rightarrow> deliver callback rs (applied + 1) s)"

lemma deliver_append:
  "deliver callback (rs @ rs') applied s =
     (case deliver callback rs applied s of (Inl e, s) \<Rightarrow> (Inl e, s) | (Inr n, s) \<Rightarrow> deliver callback rs' n s)"
  by (induction rs arbitrary: applied s) (auto split: prod.splits option.splits)

abbreviation from_on :: "u64 \<Rightarrow> WalRecord list \<Rightarrow> WalRecord list" where
  "from_on from rs \<equiv> filter (\<lambda>r. from \<le> wr_sequence r) rs"

lemma replay_records_segment:
  assumes "list_all record_ok rs" "consecutive previous rs"
  shows "replay_records crc latest path from callback (seg_bytes crc rs) previous seen applied s =
    (case deliver callback (from_on from rs) applied s of
       (Inl e, s) \<Rightarrow> ReplayStop (Inl e) s
     | (Inr n, s) \<Rightarrow> ReplayOn (last_seq previous rs) (seen \<or> (\<exists>r \<in> set rs. wr_sequence r = from)) n s)"
  using assms
proof (induction rs arbitrary: previous seen applied s)
  case Nil
  then show ?case by (simp add: replay_records.simps next_frame_def)
next
  case (Cons r rs)
  have frame: "next_frame crc (frame_of crc r @ seg_bytes crc rs) = Frame (body_of r) (seg_bytes crc rs)"
    using Cons.prems(1) by (simp add: next_frame_whole)
  have parse: "parse_record (body_of r) = r" using Cons.prems(1) by (simp add: parse_body)
  have IH: "replay_records crc latest path from callback (seg_bytes crc rs) (Some (wr_sequence r)) seen applied s =
    (case deliver callback (from_on from rs) applied s of
       (Inl e, s) \<Rightarrow> ReplayStop (Inl e) s
     | (Inr n, s) \<Rightarrow> ReplayOn (last_seq (Some (wr_sequence r)) rs) (seen \<or> (\<exists>r \<in> set rs. wr_sequence r = from)) n s)"
    for seen applied s
    using Cons.IH Cons.prems by simp
  show ?case
    unfolding replay_records.simps [of crc latest path "from" callback "seg_bytes crc (r # rs)"]
    using Cons.prems(2)
    by (auto simp: frame parse IH not_le Let_def split: prod.splits option.splits sum.splits)
qed

subsection \<open>The log on disk\<close>

type_synonym segments = "(u32 \<times> WalRecord list) list"

abbreviation log_of :: "segments \<Rightarrow> WalRecord list" where
  "log_of segs \<equiv> concat (map snd segs)"

text \<open>The segments hold a header and their records, the newest one a torn tail after them.\<close>

fun seg_files :: "(bytes \<Rightarrow> u32) \<Rightarrow> string \<Rightarrow> (string, bytes) umap \<Rightarrow> segments \<Rightarrow> bytes \<Rightarrow> bool" where
  "seg_files crc dir fs [] tail = True"
| "seg_files crc dir fs ((n, rs) # segs) tail \<longleftrightarrow>
     um_find fs (MakeFilePath dir n) = Some (file_header @ seg_bytes crc rs @ (if segs = [] then tail else [])) \<and>
     seg_files crc dir fs segs tail"

definition numbered :: "segments \<Rightarrow> bool" where
  "numbered segs \<longleftrightarrow> sorted_wrt (<) (map fst segs) \<and> list_all (\<lambda>n. unat n < 10 ^ 6) (map fst segs)"

definition log_ok :: "WalRecord list \<Rightarrow> bool" where
  "log_ok rs \<longleftrightarrow> list_all record_ok rs \<and> consecutive None rs"

definition on_disk :: "(bytes \<Rightarrow> u32) \<Rightarrow> string \<Rightarrow> (string, bytes) umap \<Rightarrow> segments \<Rightarrow> bytes \<Rightarrow> bool" where
  "on_disk crc dir fs segs tail \<longleftrightarrow>
     um_wf fs \<and> numbered segs \<and> log_ok (log_of segs) \<and> torn_tail crc tail \<and> seg_files crc dir fs segs tail \<and>
     (\<forall>n. unat n < 10 ^ 6 \<longrightarrow> um_find fs (MakeFilePath dir n) \<noteq> None \<longrightarrow> n \<in> fst ` set segs)"

definition seg_max :: "WalRecord list \<Rightarrow> u64" where
  "seg_max rs = (if rs = [] then 0 else wr_sequence (last rs))"

definition file_matches :: "string \<Rightarrow> WalFile \<Rightarrow> u32 \<times> WalRecord list \<Rightarrow> bool" where
  "file_matches dir f seg \<longleftrightarrow> wf_path f = MakeFilePath dir (fst seg) \<and> wf_file_number f = fst seg \<and> wf_max_sequence f = seg_max (snd seg)"

lemma seg_files_cong:
  "(\<And>n. n \<in> fst ` set segs \<Longrightarrow> um_find fs' (MakeFilePath dir n) = um_find fs (MakeFilePath dir n)) \<Longrightarrow>
     seg_files crc dir fs' segs tail = seg_files crc dir fs segs tail"
  by (induction segs) auto

lemma numbered_Cons: "numbered ((n, rs) # segs) \<longleftrightarrow>
    unat n < 10 ^ 6 \<and> (\<forall>m \<in> fst ` set segs. n < m) \<and> numbered segs"
  by (auto simp: numbered_def)

lemma numbered_bound: "\<lbrakk>numbered segs; n \<in> fst ` set segs\<rbrakk> \<Longrightarrow> unat n < 10 ^ 6"
  by (auto simp: numbered_def list_all_iff)

lemma seg_files_other:
  assumes "numbered segs" "unat n < 10 ^ 6" "n \<notin> fst ` set segs"
  shows "seg_files crc dir (um_set (MakeFilePath dir n) c fs) segs tail = seg_files crc dir fs segs tail"
    and "seg_files crc dir (um_erase (MakeFilePath dir n) fs) segs tail = seg_files crc dir fs segs tail"
proof -
  have "MakeFilePath dir m \<noteq> MakeFilePath dir n" if "m \<in> fst ` set segs" for m
    using that assms numbered_bound [OF assms(1) that] by (auto simp: MakeFilePath_inj)
  then show "seg_files crc dir (um_set (MakeFilePath dir n) c fs) segs tail = seg_files crc dir fs segs tail"
    "seg_files crc dir (um_erase (MakeFilePath dir n) fs) segs tail = seg_files crc dir fs segs tail"
    by - (rule seg_files_cong, simp)+
qed

lemma seg_files_there: "\<lbrakk>seg_files crc dir fs segs tail; n \<in> fst ` set segs\<rbrakk> \<Longrightarrow> um_find fs (MakeFilePath dir n) \<noteq> None"
proof (induction segs)
  case (Cons seg segs)
  then show ?case by (cases seg) auto
qed simp

lemma segment_numbers_on_disk:
  assumes "on_disk crc dir fs segs tail"
  shows "segment_numbers dir fs = map fst segs"
proof -
  have d: "um_wf fs" "numbered segs" "seg_files crc dir fs segs tail"
    and all: "\<And>n. \<lbrakk>unat n < 10 ^ 6; um_find fs (MakeFilePath dir n) \<noteq> None\<rbrakk> \<Longrightarrow> n \<in> fst ` set segs"
    using assms by (auto simp: on_disk_def)
  have "n \<in> set (segment_numbers dir fs) \<longleftrightarrow> n \<in> set (map fst segs)" for n
    using all [of n] seg_files_there [OF d(3), of n] numbered_bound [OF d(2), of n]
    unfolding set_segment_numbers set_map by (metis um_find_None)
  then have "set (segment_numbers dir fs) = set (map fst segs)" by blast
  moreover have "sorted (map fst segs)" "distinct (map fst segs)"
    using d(2) by (auto simp: numbered_def strict_sorted_iff)
  moreover have "sorted (segment_numbers dir fs)" by (simp add: segment_numbers_def)
  ultimately show ?thesis
    using distinct_segment_numbers [OF d(1)] by (metis sorted_distinct_set_unique)
qed

lemma ValidateFileHeader_ok [simp]: "ValidateFileHeader path (file_header @ bs) = Inr ()"
  by (simp add: ValidateFileHeader_def file_header_def kWalFileHeaderSize_def)

lemma drop_file_header [simp]: "drop kWalFileHeaderSize (file_header @ bs) = bs"
  by (simp add: file_header_def kWalFileHeaderSize_def)

lemma length_file_header [simp]: "length file_header = kWalFileHeaderSize"
  by (simp add: file_header_def kWalFileHeaderSize_def)

lemma um_set_same: "um_find m k = Some v \<Longrightarrow> um_set k v m = m"
  by (induction m) auto


text \<open>The fields a scan does not touch.\<close>

definition same_handle :: "WriteAheadLog \<Rightarrow> WriteAheadLog \<Rightarrow> bool" where
  "same_handle w w' \<longleftrightarrow> wal_config w' = wal_config w \<and> wal_fd w' = wal_fd w \<and> wal_open w' = wal_open w \<and>
     wal_needs_sync w' = wal_needs_sync w \<and> wal_sync_running w' = wal_sync_running w"

lemma scan_files_step:
  assumes "um_find (wal_fs w) (MakeFilePath (lc_directory (wal_config w)) n) = Some (file_header @ seg_bytes crc rs @ tail)"
    and "list_all record_ok rs" "consecutive previous rs" "torn_tail crc tail" "ns = [] \<or> tail = []" "\<forall>c. fl c = None"
    and "\<forall>r \<in> set rs. wal_sequence w < wr_sequence r" "wal_file_number w \<le> n"
  shows "\<exists>w' f. scan_files crc fl (n # ns) previous w = scan_files crc fl ns (last_seq previous rs) w' \<and> same_handle w w' \<and>
    wal_fs w' = um_set (MakeFilePath (lc_directory (wal_config w)) n) (file_header @ seg_bytes crc rs) (wal_fs w) \<and>
    wal_sequence w' = (if rs = [] then wal_sequence w else wr_sequence (last rs)) \<and> wal_file_number w' = n \<and>
    wal_files w' = wal_files w @ [f] \<and> file_matches (lc_directory (wal_config w)) f (n, rs)"
proof -
  let ?path = "MakeFilePath (lc_directory (wal_config w)) n"
  have nz: "\<forall>r \<in> set rs. 0 < wr_sequence r"
    using assms(2) by (auto simp: list_all_iff record_ok_def word_neq_0_conv)
  have trunc: "fl Ftruncate = None" using assms(6) by simp
  obtain mn where scan: "scan_records crc fl (ns = []) ?path (seg_bytes crc rs @ tail) previous (- 1) 0 kWalFileHeaderSize =
      Inr (last_seq previous rs, mn, seg_max rs, if tail = [] then None else Some (kWalFileHeaderSize + length (seg_bytes crc rs)))"
    using scan_records_segment [of rs previous crc tail "ns = []" fl 0 ?path "- 1" kWalFileHeaderSize, OF assms(2-5) trunc nz]
    by (auto simp: seg_max_def)
  let ?content = "case (if tail = [] then None else Some (kWalFileHeaderSize + length (seg_bytes crc rs))) of
      None \<Rightarrow> file_header @ seg_bytes crc rs @ tail | Some off \<Rightarrow> take off (file_header @ seg_bytes crc rs @ tail)"
  have content: "?content = file_header @ seg_bytes crc rs" by simp
  have sequence: "(if wal_sequence w < seg_max rs then seg_max rs else wal_sequence w) =
      (if rs = [] then wal_sequence w else wr_sequence (last rs))"
    using assms(7) by (auto simp: seg_max_def)
  have num: "(if wal_file_number w < n then n else wal_file_number w) = n" using assms(8) by auto
  let ?f = "\<lparr>wf_path = ?path, wf_file_number = n, wf_min_sequence = (if mn = - 1 then 0 else mn),
      wf_max_sequence = seg_max rs, wf_file_size = of_nat (length (file_header @ seg_bytes crc rs))\<rparr>"
  let ?w = "w\<lparr>wal_fs := um_set ?path (file_header @ seg_bytes crc rs) (wal_fs w),
      wal_sequence := (if rs = [] then wal_sequence w else wr_sequence (last rs)), wal_file_number := n,
      wal_files := wal_files w @ [?f]\<rparr>"
  have "scan_files crc fl (n # ns) previous w = scan_files crc fl ns (last_seq previous rs) ?w"
    unfolding scan_files.simps Let_def assms(1)
    by (simp only: option.sel option.distinct assms(6) ValidateFileHeader_ok drop_file_header scan content sequence num
        sum.case prod.case simp_thms if_False)
  then show ?thesis
    by (intro exI [of _ ?w] exI [of _ ?f]) (simp add: same_handle_def file_matches_def)
qed

lemma scan_files_segments:
  assumes "seg_files crc dir (wal_fs w) segs tail" "ns = [] \<or> tail = []" "numbered segs" "dir = lc_directory (wal_config w)"
    and "list_all record_ok (log_of segs)" "consecutive previous (log_of segs)" "torn_tail crc tail" "\<forall>c. fl c = None"
    and "\<forall>r \<in> set (log_of segs). wal_sequence w < wr_sequence r" "\<forall>n \<in> fst ` set segs. wal_file_number w \<le> n"
  shows "\<exists>w' files. scan_files crc fl (map fst segs @ ns) previous w = scan_files crc fl ns (last_seq previous (log_of segs)) w' \<and> same_handle w w' \<and>
    wal_sequence w' = (if log_of segs = [] then wal_sequence w else wr_sequence (last (log_of segs))) \<and>
    wal_file_number w' = (if segs = [] then wal_file_number w else fst (last segs)) \<and>
    wal_files w' = wal_files w @ files \<and> list_all2 (file_matches dir) files segs \<and>
    seg_files crc dir (wal_fs w') segs [] \<and>
    fst ` set (wal_fs w') = fst ` set (wal_fs w) \<and> (um_wf (wal_fs w) \<longrightarrow> um_wf (wal_fs w')) \<and>
    (\<forall>n. unat n < 10 ^ 6 \<longrightarrow> n \<notin> fst ` set segs \<longrightarrow>
       um_find (wal_fs w') (MakeFilePath dir n) = um_find (wal_fs w) (MakeFilePath dir n))"
  using assms
proof (induction segs arbitrary: previous w)
  case Nil
  then show ?case by (intro exI [of _ w] exI [of _ "[]"]) (simp add: same_handle_def)
next
  case (Cons seg segs)
  obtain n rs where seg: "seg = (n, rs)" by fastforce
  let ?path = "MakeFilePath dir n"
  have n: "unat n < 10 ^ 6" "\<forall>m \<in> fst ` set segs. n < m" "numbered segs" "n \<notin> fst ` set segs"
    using Cons.prems(3) by (auto simp: seg numbered_Cons)
  have stored: "um_find (wal_fs w) ?path = Some (file_header @ seg_bytes crc rs @ (if segs = [] then tail else []))"
    and rest: "seg_files crc dir (wal_fs w) segs tail"
    using Cons.prems(1) by (simp_all add: seg)
  obtain w1 f where w1: "scan_files crc fl (n # map fst segs @ ns) previous w = scan_files crc fl (map fst segs @ ns) (last_seq previous rs) w1"
    "same_handle w w1" "wal_fs w1 = um_set ?path (file_header @ seg_bytes crc rs) (wal_fs w)"
    "wal_sequence w1 = (if rs = [] then wal_sequence w else wr_sequence (last rs))" "wal_file_number w1 = n"
    "wal_files w1 = wal_files w @ [f]" "file_matches dir f (n, rs)"
    using scan_files_step [of w n crc rs "if segs = [] then tail else []" previous "map fst segs @ ns" fl] stored Cons.prems
    by (auto simp: seg consecutive_append split: if_splits)
  have later: "\<forall>r \<in> set (log_of segs). wal_sequence w1 < wr_sequence r"
  proof
    fix r
    assume r: "r \<in> set (log_of segs)"
    then have "wr_sequence (last rs) < wr_sequence r" if "rs \<noteq> []"
      using that Cons.prems(6) consecutive_split_less [of previous rs "log_of segs" "last rs" r] by (simp add: seg)
    moreover have "wal_sequence w < wr_sequence r" using Cons.prems(9) r by (simp add: seg)
    ultimately show "wal_sequence w1 < wr_sequence r" by (simp add: w1(4))
  qed
  have prem: "list_all record_ok (log_of segs)" "consecutive (last_seq previous rs) (log_of segs)"
    using Cons.prems(5,6) by (simp_all add: seg consecutive_append)
  have upper: "\<forall>m \<in> fst ` set segs. wal_file_number w1 \<le> m" using n(2) w1(5) by (simp add: less_imp_le)
  have kept: "seg_files crc dir (wal_fs w1) segs tail" "dir = lc_directory (wal_config w1)"
    using rest seg_files_other(1) [OF n(3,1,4)] w1(2,3) Cons.prems(4) by (simp_all add: same_handle_def)
  obtain w' files where IH: "scan_files crc fl (map fst segs @ ns) (last_seq previous rs) w1 = scan_files crc fl ns (last_seq (last_seq previous rs) (log_of segs)) w'" "same_handle w1 w'"
    "wal_sequence w' = (if log_of segs = [] then wal_sequence w1 else wr_sequence (last (log_of segs)))"
    "wal_file_number w' = (if segs = [] then wal_file_number w1 else fst (last segs))"
    "wal_files w' = wal_files w1 @ files" "list_all2 (file_matches dir) files segs" "seg_files crc dir (wal_fs w') segs []"
    "fst ` set (wal_fs w') = fst ` set (wal_fs w1)" "um_wf (wal_fs w1) \<longrightarrow> um_wf (wal_fs w')"
    "\<forall>n. unat n < 10 ^ 6 \<longrightarrow> n \<notin> fst ` set segs \<longrightarrow>
       um_find (wal_fs w') (MakeFilePath dir n) = um_find (wal_fs w1) (MakeFilePath dir n)"
    using Cons.IH [OF kept(1) Cons.prems(2) n(3) kept(2) prem Cons.prems(7,8) later upper] by blast
  have "?path \<in> fst ` set (wal_fs w)" using stored by (auto dest: um_find_Some_key)
  moreover have "um_find (wal_fs w') ?path = Some (file_header @ seg_bytes crc rs)"
    using IH(10) n w1(3) by simp
  moreover have "MakeFilePath dir m \<noteq> ?path" if "unat m < 10 ^ 6" "m \<noteq> n" for m
    using that n(1) by (simp add: MakeFilePath_inj)
  ultimately show ?case
    using IH w1 n by (intro exI [of _ w'] exI [of _ "f # files"]) (auto simp: seg same_handle_def)
qed

end
