(* ===== verification/Dispatcher.thy ===== *)
theory Dispatcher
  imports SimilarityEngine SimilarityCache FilterParser Wal
begin

text \<open>
  The request dispatcher (\<^verbatim>\<open>src/server/request_dispatcher.cpp\<close>): the gates a command passes, the write
  handlers, which log a command before they apply it to the stores, and the replay of logged records.

  The handlers work on the context of \<^verbatim>\<open>src/server/server_types.h\<close>: pointers are optional values, and
  a handler returns \<open>None\<close> when it dereferences a null pointer or reaches undefined behaviour of a
  store.  What is not in this repository's stores, such as \<^verbatim>\<open>std::exp2\<close>, zlib's checksum and the faults
  of system calls, is an argument.
\<close>

unbundle bit_operations_syntax

subsection \<open>Floats from their bits\<close>

definition ieee :: "nat \<Rightarrow> nat \<Rightarrow> int \<Rightarrow> bool \<Rightarrow> nat \<Rightarrow> nat \<Rightarrow> fl" where
  "ieee ebits mbits bias neg e m =
     (let s = (if neg then - 1 else 1) :: rat
      in if e = 2 ^ ebits - 1 then if m = 0 then Inf neg else NaN
         else if e = 0 then Fin (s * of_nat m * pow2 (1 - bias - int mbits))
         else Fin (s * of_nat (2 ^ mbits + m) * pow2 (int e - bias - int mbits)))"

definition f32_value :: "u32 \<Rightarrow> fl" where
  "f32_value w = ieee 8 23 127 (bit w 31) (unat (drop_bit 23 w AND 0xFF)) (unat (w AND 0x7FFFFF))"

definition f64_value :: "u64 \<Rightarrow> fl" where
  "f64_value w = ieee 11 52 1023 (bit w 63) (unat (drop_bit 52 w AND 0x7FF)) (unat (w AND 0xFFFFFFFFFFFFF))"

fun meta_value :: "u64 MetadataValue \<Rightarrow> fl MetadataValue" where
  "meta_value (VString s) = VString s"
| "meta_value (VInt64 i) = VInt64 i"
| "meta_value (VDouble d) = VDouble (f64_value d)"
| "meta_value (VBool b) = VBool b"

definition meta_of :: "u64 Metadata \<Rightarrow> fl Metadata" where
  "meta_of m = map (\<lambda>(k, v). (k, meta_value v)) m"

definition event_of_code :: "u8 \<Rightarrow> EventType option" where
  "event_of_code c = (if c = 0 then Some ADD else if c = 1 then Some SET else if c = 2 then Some DEL else None)"

subsection \<open>Context\<close>

record ServerStats =
  ss_total_commands :: u64
  ss_failed_commands :: u64
  ss_event_commands :: u64
  ss_sim_commands :: u64
  ss_vecset_commands :: u64
  ss_info_commands :: u64
  ss_config_commands :: u64
  ss_dump_commands :: u64
  ss_cache_commands :: u64

record ConnectionContext =
  conn_debug_mode :: bool
  conn_authenticated :: bool

record 'a HandlerContext =
  hc_event_store :: "EventStore option"
  hc_co_index :: "CoOccurrenceIndex option"
  hc_vector_store :: "VectorStore option"
  hc_metadata_store :: "MetadataStore option"
  hc_similarity_engine :: "'a SimilarityEngine option"
  hc_cache :: "SimilarityCache option"
  hc_stats :: ServerStats
  hc_config :: "Config option"
  hc_loading :: bool
  hc_read_only :: bool
  hc_requirepass :: string
  hc_wal :: "WriteAheadLog option"
  hc_vector_generation :: u64
  hc_metadata_generation :: u64
  hc_dataset_generation :: u64

text \<open>The library functions and the index class, and what one call reads of the outside: the clocks and the faults of the log.\<close>

record 'a Env =
  env_impl :: DistanceFunctions
  env_exp2 :: "fl \<Rightarrow> fl"
  env_strtod :: strtod_fun
  env_crc :: "bytes \<Rightarrow> u32"
  env_mem :: MemModel
  env_ann :: "'a AnnClass"

record Call =
  call_clock :: clock
  call_log_time :: u64
  call_faults :: faults

type_synonym 'a handled = "(string expected \<times> 'a HandlerContext) option"

definition crlf :: string where
  "crlf = [CHR 0x0D, CHR 0x0A]"

definition FormatOK :: "string \<Rightarrow> string" where
  "FormatOK msg = (if msg = [] then ''OK'' @ crlf else ''OK '' @ msg @ crlf)"

definition FormatError :: "string \<Rightarrow> string" where
  "FormatError msg = ''ERROR '' @ msg @ crlf"

subsection \<open>The log\<close>

definition AppendToWal :: "'a Env \<Rightarrow> Call \<Rightarrow> Command \<Rightarrow> 'a HandlerContext \<Rightarrow> unit expected \<times> 'a HandlerContext" where
  "AppendToWal env call cmd s =
     (case hc_wal s of
        None \<Rightarrow> (Inr (), s)
      | Some w \<Rightarrow>
          if cmd_type cmd = kVecset \<and> (case hc_config s of None \<Rightarrow> False | Some c \<Rightarrow> \<not> wc_include_vectors (cfg_wal c))
          then (Inr (), s)
          else case Append (env_crc env) (call_faults call) (call_log_time call) (WalOpForCommand cmd) (EncodeCommand cmd) w of
                 (Inl e, w') \<Rightarrow> (Inl e, s\<lparr>hc_wal := Some w', hc_read_only := True\<rparr>)
               | (Inr _, w') \<Rightarrow> (Inr (), s\<lparr>hc_wal := Some w'\<rparr>))"

text \<open>What follows an accepted record; a refused one ends the command.\<close>

definition logged :: "'a Env \<Rightarrow> Call \<Rightarrow> Command \<Rightarrow> ('a HandlerContext \<Rightarrow> 'a handled) \<Rightarrow> 'a HandlerContext \<Rightarrow> 'a handled" where
  "logged env call cmd k s = (case AppendToWal env call cmd s of (Inl e, s') \<Rightarrow> Some (Inl e, s') | (Inr _, s') \<Rightarrow> k s')"

definition invalidate_item :: "'a Env \<Rightarrow> string \<Rightarrow> 'a HandlerContext \<Rightarrow> 'a HandlerContext" where
  "invalidate_item env i s = s\<lparr>hc_cache := map_option (\<lambda>c. snd (InvalidateByItemId (env_mem env) i c)) (hc_cache s)\<rparr>"

definition clear_cache :: "'a HandlerContext \<Rightarrow> 'a HandlerContext" where
  "clear_cache s = s\<lparr>hc_cache := map_option sm_Clear (hc_cache s)\<rparr>"

subsection \<open>Events\<close>

definition ingest_options :: "EventsConfig \<Rightarrow> IngestOptions" where
  "ingest_options c =
     \<lparr>io_temporal_enabled = ec_temporal_cooccurrence c, io_half_life_sec = ec_temporal_half_life_sec c,
      io_negative_signals = ec_negative_signals c, io_negative_weight = ec_negative_weight c\<rparr>"

text \<open>The duplicate is only counted; the second store check cannot differ from the first unless the store changed.\<close>

definition count_duplicate :: "Call \<Rightarrow> Command \<Rightarrow> EventType \<Rightarrow> Event \<Rightarrow> EventStore \<Rightarrow> 'a HandlerContext \<Rightarrow> 'a handled" where
  "count_duplicate call cmd type ev es s = do {
     (res, es') \<leftarrow> AddEventAndGetPrior (cmd_ctx cmd) (cmd_id cmd) (cmd_score cmd) type (ev_timestamp ev) (call_clock call) es;
     let s' = s\<lparr>hc_event_store := Some es'\<rparr>;
     Some (if case res of Inl _ \<Rightarrow> True | Inr r \<Rightarrow> \<not> ir_deduped r
           then (Inl (MakeError kInternalError ''Event dedup state changed during acceptance''), s'\<lparr>hc_read_only := True\<rparr>)
           else (Inr (FormatOK ''EVENT''), s'))
   }"

definition update_index :: "'a Env \<Rightarrow> Event list \<Rightarrow> Event \<Rightarrow> 'a HandlerContext \<Rightarrow> 'a HandlerContext option" where
  "update_index env prior ev s =
     (case hc_co_index s of
        None \<Rightarrow> Some s
      | Some co \<Rightarrow> do {
          config \<leftarrow> hc_config s;
          co' \<leftarrow> ApplyIngestedEvent (env_exp2 env) prior ev (ingest_options (cfg_events config)) co;
          Some (s\<lparr>hc_co_index := Some co'\<rparr>)
        })"

definition apply_event :: "'a Env \<Rightarrow> Call \<Rightarrow> Command \<Rightarrow> Event \<Rightarrow> EventStore \<Rightarrow> 'a HandlerContext \<Rightarrow> 'a handled" where
  "apply_event env call cmd ev es s = do {
     (res, es') \<leftarrow> AddEventAndGetPrior (cmd_ctx cmd) (cmd_id cmd) (ev_score ev) (ev_type ev) (ev_timestamp ev) (call_clock call) es;
     let s' = s\<lparr>hc_event_store := Some es'\<rparr>;
     (case res of
        Inl _ \<Rightarrow> Some (Inl (MakeError kInternalError ''Event apply diverged after WAL acceptance''), s'\<lparr>hc_read_only := True\<rparr>)
      | Inr r \<Rightarrow>
          if ir_deduped r
          then Some (Inl (MakeError kInternalError ''Event apply diverged after WAL acceptance''), s'\<lparr>hc_read_only := True\<rparr>)
          else do {
            s'' \<leftarrow> update_index env (ir_prior_events r) (ir_stored_event r) s';
            Some (Inr (FormatOK ''EVENT''), invalidate_item env (cmd_id cmd) s'')
          })
   }"

text \<open>A code that names no event type is outside the model: no command that was parsed has one.\<close>

definition HandleEvent :: "'a Env \<Rightarrow> Call \<Rightarrow> Command \<Rightarrow> 'a HandlerContext \<Rightarrow> 'a handled" where
  "HandleEvent env call cmd s =
     (case hc_event_store s of
        None \<Rightarrow> Some (Inl (MakeError kInternalError ''EventStore not initialized''), s)
      | Some es \<Rightarrow> do {
          type \<leftarrow> event_of_code (cmd_event_type cmd);
          (case PrepareEvent (cmd_ctx cmd) (cmd_id cmd) (cmd_score cmd) type (case cmd_timestamp cmd of None \<Rightarrow> 0 | Some t \<Rightarrow> t)
                  (call_clock call) es of
             Inl e \<Rightarrow> Some (Inl e, s)
           | Inr prepared \<Rightarrow>
               let ev = pe_event prepared
               in if pe_deduped prepared then count_duplicate call cmd type ev es s
                  else let wal_cmd = cmd\<lparr>cmd_score := ev_score ev, cmd_event_type := event_code (ev_type ev),
                                        cmd_timestamp := Some (ev_timestamp ev)\<rparr>
                       in logged env call wal_cmd (apply_event env call cmd ev es) s)
        })"

subsection \<open>Vectors\<close>

text \<open>The vector is looked up and the index told of it.\<close>

definition notify_added :: "'a Env \<Rightarrow> string \<Rightarrow> VectorStore \<Rightarrow> 'a SimilarityEngine option \<Rightarrow> 'a SimilarityEngine option option" where
  "notify_added env i vs engine =
     (case engine of
        None \<Rightarrow> Some None
      | Some e \<Rightarrow>
          let snap = GetCompactSnapshot vs
          in if snap_Empty snap then Some engine
             else case um_find (snap_id_to_idx snap) i of
                    None \<Rightarrow> Some engine
                  | Some idx \<Rightarrow> do {
                      vec \<leftarrow> read_row (snap_dim snap) idx (snap_matrix snap);
                      (e', work) \<leftarrow> NotifyVectorAdded (env_ann env) idx vs e;
                      Some (Some e')
                    })"

definition apply_vecset :: "'a Env \<Rightarrow> Command \<Rightarrow> VectorStore \<Rightarrow> 'a HandlerContext \<Rightarrow> 'a handled" where
  "apply_vecset env cmd vs s = do {
     (res, vs') \<leftarrow> SetVector (env_impl env) (cmd_id cmd) (map f32_value (cmd_vector cmd)) False vs;
     let s = s\<lparr>hc_vector_store := Some vs'\<rparr>;
     (case res of
        Inl e \<Rightarrow> Some (Inl e, s\<lparr>hc_read_only := True\<rparr>)
      | Inr _ \<Rightarrow> do {
          let s = (case cmd_metadata cmd of None \<Rightarrow> s
                   | Some m \<Rightarrow> s\<lparr>hc_metadata_store := map_option (ms_Set (cmd_id cmd) (meta_of m)) (hc_metadata_store s)\<rparr>);
          engine \<leftarrow> notify_added env (cmd_id cmd) vs' (hc_similarity_engine s);
          let s = s\<lparr>hc_similarity_engine := engine, hc_vector_generation := hc_vector_generation s + 1\<rparr>;
          let s = (if cmd_metadata cmd = None then s else s\<lparr>hc_metadata_generation := hc_metadata_generation s + 1\<rparr>);
          let s = invalidate_item env (cmd_id cmd) s;
          Some (Inr (FormatOK ''VECSET''), if cmd_metadata cmd = None then s else clear_cache s)
        })
   }"

definition HandleVecset :: "'a Env \<Rightarrow> Call \<Rightarrow> Command \<Rightarrow> 'a HandlerContext \<Rightarrow> 'a handled" where
  "HandleVecset env call cmd s =
     (case hc_vector_store s of
        None \<Rightarrow> Some (Inl (MakeError kInternalError ''VectorStore not initialized''), s)
      | Some vs \<Rightarrow>
          (case ValidateVector (env_impl env) (cmd_id cmd) (map f32_value (cmd_vector cmd)) vs of
             Inl e \<Rightarrow> Some (Inl e, s)
           | Inr _ \<Rightarrow> logged env call cmd (apply_vecset env cmd vs) s))"

definition vector_not_found :: "string \<Rightarrow> Error" where
  "vector_not_found i = MakeError kVectorNotFound (''Vector not found: '' @ i)"

definition apply_vecdel :: "'a Env \<Rightarrow> Command \<Rightarrow> VectorStore \<Rightarrow> nat \<Rightarrow> 'a HandlerContext \<Rightarrow> 'a handled" where
  "apply_vecdel env cmd vs compact_index s = do {
     (found, vs') \<leftarrow> DeleteVector (cmd_id cmd) vs;
     if \<not> found then Some (Inl (vector_not_found (cmd_id cmd)), s\<lparr>hc_vector_store := Some vs', hc_read_only := True\<rparr>)
     else do {
       vs' \<leftarrow> Defragment vs';
       let s = s\<lparr>hc_vector_store := Some vs', hc_metadata_store := map_option (ms_Delete (cmd_id cmd)) (hc_metadata_store s),
                 hc_similarity_engine := map_option (\<lambda>e. RebuildAnnFromStore (env_ann env) vs'
                   (NotifyVectorRemoved (env_ann env) compact_index e)) (hc_similarity_engine s),
                 hc_vector_generation := hc_vector_generation s + 1, hc_metadata_generation := hc_metadata_generation s + 1\<rparr>;
       Some (Inr (FormatOK ''VECDEL''), invalidate_item env (cmd_id cmd) s)
     }
   }"

definition HandleVecdel :: "'a Env \<Rightarrow> Call \<Rightarrow> Command \<Rightarrow> 'a HandlerContext \<Rightarrow> 'a handled" where
  "HandleVecdel env call cmd s =
     (case hc_vector_store s of
        None \<Rightarrow> Some (Inl (MakeError kInternalError ''VectorStore not initialized''), s)
      | Some vs \<Rightarrow>
          (case GetCompactIndex vs (cmd_id cmd) of
             None \<Rightarrow> Some (Inl (vector_not_found (cmd_id cmd)), s)
           | Some idx \<Rightarrow> logged env call cmd (apply_vecdel env cmd vs idx) s))"

subsection \<open>Metadata\<close>

text \<open>The metadata of the command, or of its expression: one field per condition.\<close>

fun metadata_fields :: "FilterCondition list \<Rightarrow> fl Metadata \<Rightarrow> fl Metadata expected" where
  "metadata_fields [] m = Inr m"
| "metadata_fields (c # cs) m =
     (if fc_field c = [] then Inl (MakeError kCommandInvalidArgument ''Metadata key must not be empty'')
      else metadata_fields cs (um_set (fc_field c) (fc_value c) m))"

definition command_metadata :: "'a Env \<Rightarrow> Command \<Rightarrow> fl Metadata expected" where
  "command_metadata env cmd =
     (case cmd_metadata cmd of
        Some m \<Rightarrow> Inr (meta_of m)
      | None \<Rightarrow> (case ParseSimpleFilter (env_strtod env) (cmd_filter_expr cmd) of
                   Inl e \<Rightarrow> Inl e | Inr conditions \<Rightarrow> metadata_fields conditions []))"

definition apply_metaset :: "Command \<Rightarrow> fl Metadata \<Rightarrow> MetadataStore \<Rightarrow> 'a HandlerContext \<Rightarrow> 'a handled" where
  "apply_metaset cmd metadata ms s =
     Some (Inr (FormatOK ''METASET''),
       clear_cache (s\<lparr>hc_metadata_store := Some (ms_Set (cmd_id cmd) metadata ms), hc_metadata_generation := hc_metadata_generation s + 1\<rparr>))"

definition HandleMetaset :: "'a Env \<Rightarrow> Call \<Rightarrow> Command \<Rightarrow> 'a HandlerContext \<Rightarrow> 'a handled" where
  "HandleMetaset env call cmd s =
     (case hc_vector_store s of
        None \<Rightarrow> Some (Inl (MakeError kInternalError ''VectorStore not initialized''), s)
      | Some vs \<Rightarrow>
          (case hc_metadata_store s of
             None \<Rightarrow> Some (Inl (MakeError kInternalError ''MetadataStore not initialized''), s)
           | Some ms \<Rightarrow>
               if GetCompactIndex vs (cmd_id cmd) = None
               then Some (Inl (MakeError kVectorNotFound (''Vector not found for metadata: '' @ cmd_id cmd)), s)
               else (case command_metadata env cmd of
                       Inl e \<Rightarrow> Some (Inl e, s)
                     | Inr metadata \<Rightarrow> logged env call cmd (apply_metaset cmd metadata ms) s)))"

subsection \<open>Replay\<close>

definition handle_write :: "'a Env \<Rightarrow> Call \<Rightarrow> Command \<Rightarrow> 'a HandlerContext \<Rightarrow> 'a handled" where
  "handle_write env call cmd s =
     (case cmd_type cmd of
        kEvent \<Rightarrow> HandleEvent env call cmd s
      | kVecset \<Rightarrow> HandleVecset env call cmd s
      | kVecdel \<Rightarrow> HandleVecdel env call cmd s
      | kMetaset \<Rightarrow> HandleMetaset env call cmd s
      | _ \<Rightarrow> Some (Inl (MakeError kCommandUnknown ''Unsupported WAL command''), s))"

definition maintain :: "fl \<Rightarrow> bool \<Rightarrow> 'a HandlerContext \<Rightarrow> 'a HandlerContext option" where
  "maintain alpha prune s = do {
     co \<leftarrow> hc_co_index s;
     let co' = ApplyDecay alpha co;
     co'' \<leftarrow> (if prune then Prune co' else Some co');
     Some (s\<lparr>hc_co_index := Some co''\<rparr>)
   }"

definition replay_maintenance :: "bytes \<Rightarrow> 'a HandlerContext \<Rightarrow> (unit expected \<times> 'a HandlerContext) option" where
  "replay_maintenance payload s =
     (if length payload \<noteq> 9
      then Some (Inl (MakeError kWalCorrupted ''Invalid co-occurrence maintenance WAL payload size''), s)
      else let alpha = f64_value (le64_decode payload); prune = payload ! 8
           in if \<not> isfinite alpha \<or> fl_le alpha (Fin 0) \<or> fl_less (Fin 1) alpha \<or> 1 < prune
              then Some (Inl (MakeError kWalCorrupted ''Invalid co-occurrence maintenance WAL payload''), s)
              else map_option (\<lambda>s'. (Inr (), s')) (maintain alpha (prune \<noteq> 0) s))"

definition ReplayRecord :: "'a Env \<Rightarrow> Call \<Rightarrow> WalRecord \<Rightarrow> 'a HandlerContext \<Rightarrow> (unit expected \<times> 'a HandlerContext) option" where
  "ReplayRecord env call record s =
     (if wr_op record = kCoOccurrenceMaintenance then replay_maintenance (wr_payload record) s
      else case DecodeWalRecord record of
             Inl e \<Rightarrow> Some (Inl e, s)
           | Inr cmd \<Rightarrow> map_option (map_prod (map_sum (\<lambda>e. e) (\<lambda>_. ())) (\<lambda>s. s)) (handle_write env call cmd s))"

text \<open>
  The callback the server hands to the log, with the clocks of each record; \<open>None\<close> after undefined
  behaviour.  A replay starts after the sequence of the loaded snapshot, the log is published after
  it, and the index is built again from the restored store.
\<close>

definition replay_callback :: "'a Env \<Rightarrow> (u64 \<Rightarrow> Call) \<Rightarrow> WalRecord \<Rightarrow> 'a HandlerContext option \<Rightarrow> Error option \<times> 'a HandlerContext option" where
  "replay_callback env calls record context =
     (case context of
        None \<Rightarrow> (None, None)
      | Some s \<Rightarrow> (case ReplayRecord env (calls (wr_sequence record)) record s of
            None \<Rightarrow> (None, None)
          | Some (Inl e, s') \<Rightarrow> (Some e, Some s')
          | Some (Inr _, s') \<Rightarrow> (None, Some s')))"

definition rebuild_index :: "'a Env \<Rightarrow> 'a HandlerContext \<Rightarrow> 'a SimilarityEngine option" where
  "rebuild_index env s =
     (case hc_vector_store s of None \<Rightarrow> hc_similarity_engine s
      | Some vs \<Rightarrow> map_option (RebuildAnnFromStore (env_ann env) vs) (hc_similarity_engine s))"

definition recover :: "'a Env \<Rightarrow> faults \<Rightarrow> (u64 \<Rightarrow> Call) \<Rightarrow> u64 \<Rightarrow> WriteAheadLog \<Rightarrow> 'a HandlerContext \<Rightarrow>
    (u64 expected \<times> 'a HandlerContext) option" where
  "recover env fl calls checkpoint w s =
     (case ReplayValidated (env_crc env) fl (if checkpoint = 0 then 0 else checkpoint + 1) (replay_callback env calls) w (Some s) of
        (_, None) \<Rightarrow> None
      | (Inl e, Some s') \<Rightarrow> Some (Inl e, s')
      | (Inr n, Some s') \<Rightarrow> Some (Inr n, s'\<lparr>hc_wal := Some w, hc_similarity_engine := rebuild_index env s'\<rparr>))"

subsection \<open>Maintenance of the co-occurrence index\<close>

text \<open>
  The callback of the decay scheduler; \<open>alpha\<close> is the bits of the factor and \<open>persist\<close> writes the
  snapshot that stands in for the log when there is none.
\<close>

definition maintenance_payload :: "u64 \<Rightarrow> bool \<Rightarrow> bytes" where
  "maintenance_payload alpha prune = le64 alpha @ [if prune then 1 else 0]"

definition MaintenanceCallback :: "('a HandlerContext \<Rightarrow> unit expected) \<Rightarrow> 'a Env \<Rightarrow> Call \<Rightarrow> u64 \<Rightarrow> bool \<Rightarrow> 'a HandlerContext \<Rightarrow>
    (unit expected \<times> 'a HandlerContext) option" where
  "MaintenanceCallback persist env call alpha prune s =
     (if hc_read_only s
      then Some (Inl (MakeError kEventDecayFailed ''Server is read-only; decay maintenance skipped''), s)
      else case hc_wal s of
        Some w \<Rightarrow>
          (case Append (env_crc env) (call_faults call) (call_log_time call) kCoOccurrenceMaintenance (maintenance_payload alpha prune) w of
             (Inl e, w') \<Rightarrow> Some (Inl e, s\<lparr>hc_wal := Some w', hc_read_only := True\<rparr>)
           | (Inr _, w') \<Rightarrow> map_option (\<lambda>s'. (Inr (), s')) (maintain (f64_value alpha) prune (s\<lparr>hc_wal := Some w'\<rparr>)))
      | None \<Rightarrow>
          map_option (\<lambda>s'. case persist s' of Inl e \<Rightarrow> (Inl e, s'\<lparr>hc_read_only := True\<rparr>) | Inr _ \<Rightarrow> (Inr (), s'))
            (maintain (f64_value alpha) prune s))"

text \<open>One turn of the scheduler's loop: the clock is read at the check and again after the maintenance.\<close>

record DecayScheduler =
  ds_interval_sec :: int
  ds_next_decay_time :: int
  ds_cycles_since_prune :: int

definition kPruneEveryNCycles :: int where
  "kPruneEveryNCycles = 10"

definition decay_turn :: "(bool \<Rightarrow> 's \<Rightarrow> (unit expected \<times> 's) option) \<Rightarrow> int \<Rightarrow> int \<Rightarrow> DecayScheduler \<Rightarrow> 's \<Rightarrow>
    (DecayScheduler \<times> 's) option" where
  "decay_turn maintenance now later d s =
     (if now < ds_next_decay_time d then Some (d, s)
      else let cycles = ds_cycles_since_prune d + 1; prune = (kPruneEveryNCycles \<le> cycles)
           in map_option (\<lambda>(_, s'). (d\<lparr>ds_cycles_since_prune := (if prune then 0 else cycles),
                ds_next_decay_time := later + ds_interval_sec d * 1000000000\<rparr>, s')) (maintenance prune s))"

subsection \<open>Dispatch\<close>

definition IsSnapshotProtectedWrite :: "CommandType \<Rightarrow> bool" where
  "IsSnapshotProtectedWrite t \<longleftrightarrow> t \<in> {kEvent, kVecset, kVecdel, kMetaset}"

definition IsSnapshotProtectedCommand :: "CommandType \<Rightarrow> bool" where
  "IsSnapshotProtectedCommand t \<longleftrightarrow> IsSnapshotProtectedWrite t \<or> t = kSim \<or> t = kSimv"

definition byte_at :: "string \<Rightarrow> nat \<Rightarrow> u8" where
  "byte_at s i = (if i < length s then byte_of_char (s ! i) else 0)"

definition ConstantTimeEquals :: "string \<Rightarrow> string \<Rightarrow> bool" where
  "ConstantTimeEquals left right \<longleftrightarrow>
     fold (\<lambda>i difference. difference OR ucast (byte_at left i XOR byte_at right i)) [0..<max (length left) (length right)]
       ((of_nat (length left) :: u64) XOR of_nat (length right)) = 0"

definition failed :: "'a HandlerContext \<Rightarrow> 'a HandlerContext" where
  "failed s = s\<lparr>hc_stats := (hc_stats s)\<lparr>ss_failed_commands := ss_failed_commands (hc_stats s) + 1\<rparr>\<rparr>"

definition HandleAuth :: "Command \<Rightarrow> ConnectionContext \<Rightarrow> 'a HandlerContext \<Rightarrow> string \<times> ConnectionContext \<times> 'a HandlerContext" where
  "HandleAuth cmd conn s =
     (if hc_requirepass s = [] then (''+OK (no password required)'' @ crlf, conn, s)
      else if ConstantTimeEquals (cmd_variable_value cmd) (hc_requirepass s)
      then (''+OK'' @ crlf, conn\<lparr>conn_authenticated := True\<rparr>, s)
      else (FormatError ''ERR invalid password'', conn, failed s))"

definition count_command :: "CommandType \<Rightarrow> ServerStats \<Rightarrow> ServerStats" where
  "count_command t st =
     (if t = kEvent then st\<lparr>ss_event_commands := ss_event_commands st + 1\<rparr>
      else if t = kVecset then st\<lparr>ss_vecset_commands := ss_vecset_commands st + 1\<rparr>
      else if t \<in> {kSim, kSimv} then st\<lparr>ss_sim_commands := ss_sim_commands st + 1\<rparr>
      else if t = kInfo then st\<lparr>ss_info_commands := ss_info_commands st + 1\<rparr>
      else if t \<in> {kConfigHelp, kConfigShow, kConfigVerify, kSet, kGet, kShowVariables}
      then st\<lparr>ss_config_commands := ss_config_commands st + 1\<rparr>
      else if t \<in> {kDumpSave, kDumpLoad, kDumpVerify, kDumpInfo, kDumpStatus} then st\<lparr>ss_dump_commands := ss_dump_commands st + 1\<rparr>
      else if t \<in> {kCacheStats, kCacheClear, kCacheEnable, kCacheDisable} then st\<lparr>ss_cache_commands := ss_cache_commands st + 1\<rparr>
      else st)"

text \<open>
  The commands without a handler here (searches, INFO, CONFIG, DUMP, CACHE and the variables) go
  to \<open>other\<close>, and \<open>parse\<close> is the parser.  Between the two checks of the flags a dispatcher waits for
  the snapshot gate; here nothing happens in between, so that the second check repeats the first.
\<close>

type_synonym 'a other_handlers =
  "Command \<Rightarrow> ConnectionContext \<Rightarrow> 'a HandlerContext \<Rightarrow> (string expected \<times> ConnectionContext \<times> 'a HandlerContext) option"

definition route :: "'a other_handlers \<Rightarrow> 'a Env \<Rightarrow> Call \<Rightarrow> Command \<Rightarrow> ConnectionContext \<Rightarrow> 'a HandlerContext \<Rightarrow>
    (string expected \<times> ConnectionContext \<times> 'a HandlerContext) option" where
  "route other env call cmd conn s =
     (let t = cmd_type cmd; s = s\<lparr>hc_stats := count_command t (hc_stats s)\<rparr>
      in if IsSnapshotProtectedWrite t then map_option (\<lambda>(r, s'). (r, conn, s')) (handle_write env call cmd s)
         else if t = kDebugOn then Some (Inr (''OK DEBUG_ON'' @ crlf), conn\<lparr>conn_debug_mode := True\<rparr>, s)
         else if t = kDebugOff then Some (Inr (''OK DEBUG_OFF'' @ crlf), conn\<lparr>conn_debug_mode := False\<rparr>, s)
         else if t = kUnknown then Some (Inl (MakeError kCommandUnknown ''Unknown command''), conn, s)
         else other cmd conn s)"

definition Dispatch :: "(string \<Rightarrow> u32 \<Rightarrow> Command expected) \<Rightarrow> 'a other_handlers \<Rightarrow> 'a Env \<Rightarrow> Call \<Rightarrow> string \<Rightarrow> ConnectionContext \<Rightarrow>
    'a HandlerContext \<Rightarrow> (string \<times> ConnectionContext \<times> 'a HandlerContext) option" where
  "Dispatch parse other env call request conn s =
     (case parse request (case hc_config s of None \<Rightarrow> 0 | Some c \<Rightarrow> sc_max_top_k (cfg_similarity c)) of
        Inl e \<Rightarrow> Some (FormatError (err_message e), conn, s)
      | Inr cmd \<Rightarrow>
          let t = cmd_type cmd; privileged = (GetCommandPrivilege t \<noteq> kRead)
          in if t = kAuth then Some (HandleAuth cmd conn s)
             else if hc_requirepass s \<noteq> [] \<and> privileged \<and> \<not> conn_authenticated conn
             then Some (FormatError ''NOAUTH Authentication required'', conn, failed s)
             else if IsSnapshotProtectedCommand t \<and> hc_loading s
             then Some (FormatError ''LOADING Snapshot load in progress'', conn, failed s)
             else if privileged \<and> hc_read_only s
             then Some (FormatError ''READONLY Snapshot in progress'', conn, failed s)
             else do {
               (result, conn', s') \<leftarrow> route other env call cmd conn s;
               let s' = s'\<lparr>hc_stats := (hc_stats s')\<lparr>ss_total_commands := ss_total_commands (hc_stats s') + 1\<rparr>\<rparr>;
               Some (case result of
                       Inl e \<Rightarrow> (FormatError (err_message e), conn', failed s')
                     | Inr text' \<Rightarrow> (text', conn', s'))
             })"

end
