(* ===== verification/WalRecovery.thy ===== *)
theory WalRecovery
  imports Wal
begin

text \<open>
  Recovery of the write-ahead log: what opening, appending, truncating and replaying do to the
  sequence of records on disk.  The theory shows that the log refines a list of records through
  restarts and failed writes, that a torn tail costs only the records it tore, and two ways in which
  a restart goes wrong: sequence numbers that start again below a checkpoint, and a segment header
  that was not written in full.
\<close>

lemma seg_files_snoc:
  "seg_files crc dir fs (segs @ [(n, rs)]) tail \<longleftrightarrow>
     seg_files crc dir fs segs [] \<and> um_find fs (MakeFilePath dir n) = Some (file_header @ seg_bytes crc rs @ tail)"
proof (induction segs)
  case (Cons seg segs)
  then show ?case by (cases seg) auto
qed auto

lemma numbered_snoc:
  "numbered (segs @ [(n, rs)]) \<longleftrightarrow> numbered segs \<and> unat n < 10 ^ 6 \<and> (\<forall>m \<in> fst ` set segs. m < n)"
  by (auto simp: numbered_def sorted_wrt_append)

definition no_faults :: faults where
  "no_faults = (\<lambda>_. None)"

lemma no_faults_calls [simp]:
  "no_faults MkDir = None" "no_faults FsyncDir = None" "no_faults (Unlink p) = None" "no_faults (OpenSegment p) = None"
  by (simp_all add: no_faults_def)

lemma no_faults_all: "\<forall>c. no_faults c = None"
  by (simp add: no_faults_def)

definition rotation_ok :: "faults \<Rightarrow> bool" where
  "rotation_ok fl \<longleftrightarrow> fl FsyncSegment = None \<and> fl CloseSegment = None \<and> fl CreateSegment = None \<and>
     fl WriteFileHeaderCall = None \<and> fl FsyncNewSegment = None \<and> fl FsyncDir = None"

text \<open>The states in which the log is open on the given segments.\<close>

definition wal_ok :: "(bytes \<Rightarrow> u32) \<Rightarrow> WriteAheadLog \<Rightarrow> segments \<Rightarrow> bool" where
  "wal_ok crc w segs \<longleftrightarrow>
     (let dir = lc_directory (wal_config w)
      in on_disk crc dir (wal_fs w) segs [] \<and> segs \<noteq> [] \<and> wal_open w \<and>
         wal_fd w = Some (MakeFilePath dir (fst (last segs))) \<and> wal_file_number w = fst (last segs) \<and>
         list_all2 (file_matches dir) (wal_files w) segs \<and>
         (snd (last segs) = [] \<longrightarrow> wal_file_size w = of_nat kWalFileHeaderSize) \<and>
         (log_of segs \<noteq> [] \<longrightarrow> wal_sequence w = wr_sequence (last (log_of segs))))"

lemma on_disk_new_segment:
  assumes "on_disk crc dir fs segs []" "\<forall>m \<in> fst ` set segs. m < n" "unat n < 10 ^ 6"
  shows "um_find fs (MakeFilePath dir n) = None" "on_disk crc dir (um_set (MakeFilePath dir n) file_header fs) (segs @ [(n, [])]) []"
proof -
  have d: "numbered segs" "seg_files crc dir fs segs []" "n \<notin> fst ` set segs"
    using assms by (auto simp: on_disk_def)
  then show free: "um_find fs (MakeFilePath dir n) = None" using assms by (auto simp: on_disk_def)
  have "seg_files crc dir (um_set (MakeFilePath dir n) file_header fs) segs []"
    using seg_files_other(1) [OF d(1) assms(3) d(3)] d(2) by simp
  then have "seg_files crc dir (um_set (MakeFilePath dir n) file_header fs) (segs @ [(n, [])]) []"
    by (simp add: seg_files_snoc)
  moreover have "n' \<in> fst ` set (segs @ [(n, [])])"
    if "unat n' < 10 ^ 6" "um_find (um_set (MakeFilePath dir n) file_header fs) (MakeFilePath dir n') \<noteq> None" for n'
    using that assms by (cases "n' = n") (auto simp: on_disk_def MakeFilePath_inj)
  ultimately show "on_disk crc dir (um_set (MakeFilePath dir n) file_header fs) (segs @ [(n, [])]) []"
    using assms by (simp add: on_disk_def numbered_snoc)
qed

lemma small_number_inc:
  fixes n :: u32
  assumes "unat n + 1 < 10 ^ 6"
  shows "n \<noteq> - 1 \<and> unat (n + 1) = unat n + 1 \<and> n < n + 1"
proof -
  have "unat (- 1 :: u32) = 4294967295" by (simp add: unsigned_minus_1_eq_mask mask_eq_exp_minus_1)
  then have "n \<noteq> - 1" using assms by auto
  then show ?thesis using unat_inc [of n] by (simp add: word_less_nat_alt)
qed

lemma RotateFile_ok:
  assumes "on_disk crc (lc_directory (wal_config w)) (wal_fs w) segs []" "\<forall>m \<in> fst ` set segs. m \<le> wal_file_number w"
    and "unat (wal_file_number w) + 1 < 10 ^ 6" "rotation_ok fl"
  defines "n \<equiv> wal_file_number w + 1" and "path \<equiv> MakeFilePath (lc_directory (wal_config w)) (wal_file_number w + 1)"
  shows "RotateFile fl w = (Inr (), w\<lparr>wal_fd := Some path, wal_fs := um_set path file_header (wal_fs w),
      wal_file_size := of_nat kWalFileHeaderSize, wal_file_number := n, wal_files := wal_files w @
        [\<lparr>wf_path = path, wf_file_number = n, wf_min_sequence = wal_sequence w + 1, wf_max_sequence = 0,
          wf_file_size = of_nat kWalFileHeaderSize\<rparr>]\<rparr>)"
    and "on_disk crc (lc_directory (wal_config w)) (um_set path file_header (wal_fs w)) (segs @ [(n, [])]) []"
proof -
  let ?dir = "lc_directory (wal_config w)"
  have max: "wal_file_number w \<noteq> - 1" using small_number_inc [OF assms(3)] by simp
  have n: "unat n < 10 ^ 6" using assms(3) unat_inc [OF max] by (simp add: n_def)
  have "m < n" if "m \<in> fst ` set segs" for m
    using assms(2) that unat_inc [OF max] by (force simp: n_def word_less_nat_alt word_le_nat_alt)
  then have free: "um_find (wal_fs w) path = None" and
    disk: "on_disk crc ?dir (um_set path file_header (wal_fs w)) (segs @ [(n, [])]) []"
    using on_disk_new_segment [OF assms(1) _ n] by (auto simp: path_def n_def)
  show "on_disk crc ?dir (um_set path file_header (wal_fs w)) (segs @ [(n, [])]) []" by (rule disk)
  have next_n: "next_segment ?dir (wal_fs w) (wal_file_number w) = (n, Some path)"
    using free max by (simp add: next_segment.simps [of ?dir] n_def path_def)
  have close: "rotate_close fl w = (Inr (), w\<lparr>wal_fd := None\<rparr>)"
    using assms(4) by (cases "wal_fd w") (auto simp: rotate_close_def rotation_ok_def)
  have "um_set path file_header (um_set path [] (wal_fs w)) = um_set path file_header (wal_fs w)"
    by simp
  then show "RotateFile fl w = (Inr (), w\<lparr>wal_fd := Some path, wal_fs := um_set path file_header (wal_fs w),
      wal_file_size := of_nat kWalFileHeaderSize, wal_file_number := n, wal_files := wal_files w @
        [\<lparr>wf_path = path, wf_file_number = n, wf_min_sequence = wal_sequence w + 1, wf_max_sequence = 0,
          wf_file_size = of_nat kWalFileHeaderSize\<rparr>]\<rparr>)"
    using assms(4) unfolding RotateFile_def close
    by (simp add: next_n WriteFileHeader_def wal_write_def fs_append_def rotation_ok_def Let_def)
qed


subsection \<open>Removing segments\<close>

lemma seg_files_all:
  "seg_files crc dir fs segs [] \<longleftrightarrow>
     list_all (\<lambda>seg. um_find fs (MakeFilePath dir (fst seg)) = Some (file_header @ seg_bytes crc (snd seg))) segs"
proof (induction segs)
  case (Cons seg segs)
  then show ?case by (cases seg) auto
qed simp

lemma um_find_erase_all: "um_find (fold um_erase ks fs) p = (if p \<in> set ks then None else um_find fs p)"
  by (induction ks arbitrary: fs) auto

lemma um_wf_erase_all: "um_wf fs \<Longrightarrow> um_wf (fold um_erase ks fs)"
  by (induction ks arbitrary: fs) auto

lemma numbered_filter: "numbered segs \<Longrightarrow> numbered (filter Q segs)"
  by (induction segs) (auto simp: numbered_def)

lemma on_disk_erase_all:
  assumes "on_disk crc dir fs segs []" "log_ok (log_of (filter Q segs))"
  shows "on_disk crc dir (fold um_erase (map (\<lambda>seg. MakeFilePath dir (fst seg)) (filter (\<lambda>seg. \<not> Q seg) segs)) fs) (filter Q segs) []"
    (is "on_disk crc dir ?fs _ []")
proof -
  have d: "um_wf fs" "numbered segs" "seg_files crc dir fs segs []"
    and all: "\<And>n. \<lbrakk>unat n < 10 ^ 6; um_find fs (MakeFilePath dir n) \<noteq> None\<rbrakk> \<Longrightarrow> n \<in> fst ` set segs"
    using assms(1) by (auto simp: on_disk_def)
  have inj: "inj_on fst (set segs)" using d(2) by (auto simp: numbered_def strict_sorted_iff distinct_map)
  have small: "unat (fst seg) < 10 ^ 6" if "seg \<in> set segs" for seg using numbered_bound [OF d(2)] that by auto
  have gone: "MakeFilePath dir (fst seg) \<in> set (map (\<lambda>seg. MakeFilePath dir (fst seg)) (filter (\<lambda>seg. \<not> Q seg) segs)) \<longleftrightarrow> \<not> Q seg"
    if "seg \<in> set segs" for seg
  proof -
    have "seg' = seg" if "seg' \<in> set segs" "MakeFilePath dir (fst seg') = MakeFilePath dir (fst seg)" for seg'
      using that \<open>seg \<in> set segs\<close> small inj by (metis MakeFilePath_inj inj_onD)
    then show ?thesis using that by (force simp del: MakeFilePath_inj)
  qed
  have "seg_files crc dir ?fs (filter Q segs) []"
    using d(3) gone unfolding seg_files_all list_all_iff by (auto simp: um_find_erase_all simp del: set_map)
  moreover have "n \<in> fst ` set (filter Q segs)" if n: "unat n < 10 ^ 6" "um_find ?fs (MakeFilePath dir n) \<noteq> None" for n
  proof -
    have "um_find fs (MakeFilePath dir n) \<noteq> None" using n(2) unfolding um_find_erase_all by (auto split: if_splits)
    then obtain seg where seg: "seg \<in> set segs" "n = fst seg" using all [OF n(1)] by auto
    then show ?thesis using gone [OF seg(1)] n(2) unfolding um_find_erase_all by (auto split: if_splits)
  qed
  ultimately show ?thesis
    using assms(2) d(1,2) by (simp add: on_disk_def um_wf_erase_all numbered_filter)
qed

lemma list_all2_filter:
  "\<lbrakk>list_all2 R xs ys; \<And>x y. \<lbrakk>R x y; y \<in> set ys\<rbrakk> \<Longrightarrow> P x = Q y\<rbrakk> \<Longrightarrow> list_all2 R (filter P xs) (filter Q ys)"
  by (induction rule: list_all2_induct) auto

lemma matching_paths: "list_all2 (file_matches dir) files segs \<Longrightarrow> map wf_path files = map (\<lambda>seg. MakeFilePath dir (fst seg)) segs"
  by (induction rule: list_all2_induct) (auto simp: file_matches_def)

lemma remove_empty_ok:
  "\<exists>removed. remove_empty no_faults files fs =
       Inr (filter (\<lambda>f. wf_max_sequence f \<noteq> 0) files, removed,
            fold um_erase (map wf_path (filter (\<lambda>f. wf_max_sequence f = 0) files)) fs)"
proof (induction files arbitrary: fs)
  case (Cons f files)
  let ?fs = "if wf_max_sequence f = 0 then um_erase (wf_path f) fs else fs"
  obtain removed where "remove_empty no_faults files ?fs = Inr (filter (\<lambda>f. wf_max_sequence f \<noteq> 0) files, removed,
      fold um_erase (map wf_path (filter (\<lambda>f. wf_max_sequence f = 0) files)) ?fs)"
    using Cons.IH by blast
  then show ?case by (cases "wf_max_sequence f = 0") auto
qed auto

lemma truncate_files_ok:
  assumes "truncate_files fl up_to current files fs = (kept, deleted, None, fs')"
  shows "kept = filter (\<lambda>f. \<not> (wf_max_sequence f \<le> up_to \<and> 0 < wf_max_sequence f \<and> wf_file_number f \<noteq> current)) files \<and>
    fs' = fold um_erase (map wf_path (filter (\<lambda>f. wf_max_sequence f \<le> up_to \<and> 0 < wf_max_sequence f \<and> wf_file_number f \<noteq> current) files)) fs"
  using assms
proof (induction files arbitrary: fs kept deleted)
  case (Cons f files)
  then show ?case by (auto split: if_splits option.splits prod.splits)
qed auto


subsection \<open>Opening\<close>

lemma log_of_filter_nonempty [simp]: "log_of (filter (\<lambda>seg. snd seg \<noteq> []) segs) = log_of segs"
  by (induction segs) auto

lemma seg_max_zero: "list_all record_ok rs \<Longrightarrow> seg_max rs = 0 \<longleftrightarrow> rs = []"
  by (auto simp: seg_max_def record_ok_def list_all_iff)

text \<open>The state a successful scan leaves.\<close>

lemma ScanExistingFiles_ok:
  assumes "on_disk crc (lc_directory (wal_config w)) (wal_fs w) segs tail"
  shows "\<exists>w'. ScanExistingFiles crc no_faults w = (Inr (), w') \<and> same_handle w w' \<and>
    wal_sequence w' = (if log_of segs = [] then 0 else wr_sequence (last (log_of segs))) \<and>
    wal_file_number w' = (if segs = [] then 0 else fst (last segs)) \<and>
    list_all2 (file_matches (lc_directory (wal_config w))) (wal_files w') segs \<and>
    on_disk crc (lc_directory (wal_config w)) (wal_fs w') segs []"
proof -
  let ?dir = "lc_directory (wal_config w)" and ?w = "w\<lparr>wal_files := [], wal_sequence := 0, wal_file_number := 0\<rparr>"
  have d: "um_wf (wal_fs w)" "numbered segs" "seg_files crc ?dir (wal_fs w) segs tail" "log_ok (log_of segs)" "torn_tail crc tail"
    using assms by (auto simp: on_disk_def)
  have start: "seg_files crc ?dir (wal_fs ?w) segs tail" "?dir = lc_directory (wal_config ?w)"
    "\<forall>r \<in> set (log_of segs). wal_sequence ?w < wr_sequence r" "\<forall>n \<in> fst ` set segs. wal_file_number ?w \<le> n"
    using d(3,4) by (auto simp: log_ok_def list_all_iff record_ok_def word_neq_0_conv)
  have recs: "list_all record_ok (log_of segs)" "consecutive None (log_of segs)" using d(4) by (simp_all add: log_ok_def)
  have "ScanExistingFiles crc no_faults w = scan_files crc no_faults (map fst segs) None ?w"
    using segment_numbers_on_disk [OF assms] distinct_segment_numbers [OF d(1), of ?dir]
    by (simp add: ScanExistingFiles_def Let_def)
  moreover obtain w' files where w': "scan_files crc no_faults (map fst segs) None ?w = (Inr (), w')" "same_handle ?w w'"
    "wal_sequence w' = (if log_of segs = [] then wal_sequence ?w else wr_sequence (last (log_of segs)))"
    "wal_file_number w' = (if segs = [] then wal_file_number ?w else fst (last segs))"
    "wal_files w' = wal_files ?w @ files" "list_all2 (file_matches ?dir) files segs" "seg_files crc ?dir (wal_fs w') segs []"
    "um_wf (wal_fs ?w) \<longrightarrow> um_wf (wal_fs w')"
    "\<forall>n. unat n < 10 ^ 6 \<longrightarrow> n \<notin> fst ` set segs \<longrightarrow>
       um_find (wal_fs w') (MakeFilePath ?dir n) = um_find (wal_fs ?w) (MakeFilePath ?dir n)"
    using scan_files_segments [OF start(1) _ d(2) start(2) recs d(5) no_faults_all start(3,4), of "[]"] by auto
  moreover have "on_disk crc ?dir (wal_fs w') segs []"
    using w'(7-9) assms unfolding on_disk_def by auto
  ultimately show ?thesis by (intro exI [of _ w']) (simp add: same_handle_def)
qed

lemma numbered_last: "\<lbrakk>numbered segs; m \<in> fst ` set segs\<rbrakk> \<Longrightarrow> m \<le> fst (last segs)"
proof (cases segs rule: rev_cases)
  case (snoc ys y)
  then show "\<lbrakk>numbered segs; m \<in> fst ` set segs\<rbrakk> \<Longrightarrow> ?thesis"
    using numbered_snoc [of ys "fst y" "snd y"] by (auto intro: less_imp_le)
qed simp

text \<open>
  Opening the directory after any crash: the recovered state is open on the non-empty segments and a
  new one, with exactly the records that were there; the torn tail is gone.
\<close>

lemma wal_Open_ok:
  assumes "on_disk crc dir (wal_fs w) segs tail"
    and "unat (if segs = [] then 0 else fst (last segs)) + 1 < 10 ^ 6"
  shows "\<exists>w' n. wal_Open crc no_faults (Inr dir) config w = (Inr (), w') \<and>
    wal_ok crc w' (filter (\<lambda>seg. snd seg \<noteq> []) segs @ [(n, [])]) \<and> lc_directory (wal_config w') = dir \<and>
    wal_sequence w' = (if log_of segs = [] then 0 else wr_sequence (last (log_of segs))) \<and>
    n = (if segs = [] then 0 else fst (last segs)) + 1"
proof -
  let ?w0 = "(wal_Close w)\<lparr>wal_config := config\<lparr>lc_directory := dir\<rparr>\<rparr>"
  let ?segs = "filter (\<lambda>seg. snd seg \<noteq> []) segs"
  have "on_disk crc (lc_directory (wal_config ?w0)) (wal_fs ?w0) segs tail" using assms(1) by (simp add: wal_Close_def)
  from ScanExistingFiles_ok [OF this] obtain w1 where
    scan: "ScanExistingFiles crc no_faults ?w0 = (Inr (), w1)" and handle: "same_handle ?w0 w1"
    and sequence: "wal_sequence w1 = (if log_of segs = [] then 0 else wr_sequence (last (log_of segs)))"
    and number: "wal_file_number w1 = (if segs = [] then 0 else fst (last segs))"
    and files: "list_all2 (file_matches dir) (wal_files w1) segs" and disk: "on_disk crc dir (wal_fs w1) segs []"
    by auto
  have recs: "list_all record_ok (log_of segs)" "numbered segs" using disk by (simp_all add: on_disk_def log_ok_def)
  have max0: "wf_max_sequence f \<noteq> 0 \<longleftrightarrow> snd seg \<noteq> []" if "file_matches dir f seg" "seg \<in> set segs" for f seg
    using that recs(1) seg_max_zero [of "snd seg"] by (auto simp: file_matches_def list_all_iff)
  have kept: "list_all2 (file_matches dir) (filter (\<lambda>f. wf_max_sequence f \<noteq> 0) (wal_files w1)) ?segs"
    by (rule list_all2_filter [OF files]) (rule max0)
  have dropped: "map wf_path (filter (\<lambda>f. wf_max_sequence f = 0) (wal_files w1)) =
      map (\<lambda>seg. MakeFilePath dir (fst seg)) (filter (\<lambda>seg. \<not> snd seg \<noteq> []) segs)"
    by (rule matching_paths, rule list_all2_filter [OF files]) (use max0 in auto)
  define fs2 where "fs2 = fold um_erase (map wf_path (filter (\<lambda>f. wf_max_sequence f = 0) (wal_files w1))) (wal_fs w1)"
  have disk2: "on_disk crc dir fs2 ?segs []"
    unfolding fs2_def dropped
    using on_disk_erase_all [OF disk, of "\<lambda>seg. snd seg \<noteq> []"] disk by (simp add: on_disk_def)
  obtain removed where rem: "remove_empty no_faults (wal_files w1) (wal_fs w1) =
      Inr (filter (\<lambda>f. wf_max_sequence f \<noteq> 0) (wal_files w1), removed, fs2)"
    using remove_empty_ok unfolding fs2_def by blast
  define w2 where "w2 = w1\<lparr>wal_files := filter (\<lambda>f. wf_max_sequence f \<noteq> 0) (wal_files w1), wal_fs := fs2\<rparr>"
  have dir: "lc_directory (wal_config w2) = dir" using handle by (simp add: w2_def same_handle_def)
  have upper: "\<forall>m \<in> fst ` set ?segs. m \<le> wal_file_number w2"
    using numbered_last [OF recs(2)] by (fastforce simp: w2_def number)
  have rot: "rotation_ok no_faults" by (simp add: rotation_ok_def no_faults_def)
  have "on_disk crc (lc_directory (wal_config w2)) (wal_fs w2) ?segs []" "unat (wal_file_number w2) + 1 < 10 ^ 6"
    using disk2 dir assms(2) by (simp_all add: w2_def number)
  note rotated = RotateFile_ok [OF this(1) upper this(2) rot, unfolded dir]
  define w3 where "w3 = snd (RotateFile no_faults w2)"
  have rotate: "RotateFile no_faults w2 = (Inr (), w3)" using rotated(1) by (simp add: w3_def)
  let ?w = "w3\<lparr>wal_open := True, wal_sync_running :=
      (if \<not> lc_sync_on_write config \<and> 0 < lc_sync_interval_ms config then True else wal_sync_running w3)\<rparr>"
  let ?path = "MakeFilePath dir (wal_file_number w2 + 1)" and ?new = "?segs @ [(wal_file_number w2 + 1, [])]"
  have w3: "wal_fs w3 = um_set ?path file_header fs2" "wal_fd w3 = Some ?path" "wal_file_number w3 = wal_file_number w2 + 1"
    "wal_sequence w3 = wal_sequence w1" "lc_directory (wal_config w3) = dir" "wal_file_size w3 = of_nat kWalFileHeaderSize"
    using rotated(1) dir by (simp_all add: w3_def w2_def)
  have opened: "wal_Open crc no_faults (Inr dir) config w = (Inr (), ?w)"
    using scan rem rotate by (simp add: wal_Open_def Let_def w2_def)
  have "list_all2 (file_matches dir) (wal_files w3) ?new"
    using rotated(1) kept
    by (simp add: w3_def w2_def list_all2_appendI file_matches_def seg_max_def del: list_all2_append)
  moreover have "on_disk crc dir (wal_fs w3) ?new []" using rotated(2) by (simp add: w3(1) w2_def)
  ultimately have ok: "wal_ok crc ?w ?new" using sequence by (simp add: wal_ok_def w3 del: concat_eq_Nil_conv)
  show ?thesis
    using opened ok w3(4,5) sequence number by (intro exI [of _ ?w] exI [of _ "wal_file_number w2 + 1"]) (simp add: w2_def)
qed

subsection \<open>Appending\<close>

lemma on_disk_append:
  assumes "on_disk crc dir fs (pre @ [(n, rs)]) []" "torn_tail crc tail" "log_ok (log_of (pre @ [(n, rs @ rs')]))"
  shows "on_disk crc dir (fs_append (MakeFilePath dir n) (seg_bytes crc rs' @ tail) fs) (pre @ [(n, rs @ rs')]) tail"
proof -
  have d: "numbered pre" "unat n < 10 ^ 6" "n \<notin> fst ` set pre" "seg_files crc dir fs pre []"
    "um_find fs (MakeFilePath dir n) = Some (file_header @ seg_bytes crc rs)"
    and all: "\<And>m. \<lbrakk>unat m < 10 ^ 6; um_find fs (MakeFilePath dir m) \<noteq> None\<rbrakk> \<Longrightarrow> m \<in> fst ` set (pre @ [(n, rs)])"
    using assms(1) by (auto simp: on_disk_def numbered_snoc seg_files_snoc)
  let ?fs = "fs_append (MakeFilePath dir n) (seg_bytes crc rs' @ tail) fs"
  have "seg_files crc dir ?fs (pre @ [(n, rs @ rs')]) tail"
    using d seg_files_other(1) [OF d(1-3)] by (simp add: seg_files_snoc fs_append_def)
  moreover have "m \<in> fst ` set (pre @ [(n, rs @ rs')])" if "unat m < 10 ^ 6" "um_find ?fs (MakeFilePath dir m) \<noteq> None" for m
    using that all [of m] d(2) by (cases "m = n") (auto simp: fs_append_def MakeFilePath_inj)
  ultimately show ?thesis
    using assms by (auto simp: on_disk_def numbered_snoc fs_append_def)
qed

definition next_record :: "WriteAheadLog \<Rightarrow> u64 \<Rightarrow> WalOpType \<Rightarrow> bytes \<Rightarrow> WalRecord" where
  "next_record w now opr payload = \<lparr>wr_sequence = wal_sequence w + 1, wr_timestamp_us = now, wr_op = opr, wr_payload = payload\<rparr>"

lemma next_record_frame:
  "record_header crc (record_body (wal_sequence w + 1) now opr payload) @ record_body (wal_sequence w + 1) now opr payload =
     frame_of crc (next_record w now opr payload)"
  by (simp add: frame_of_def body_of_def next_record_def)

lemma log_ok_snoc:
  assumes "wal_ok crc w segs" "record_ok (next_record w now opr payload)" "wal_sequence w \<noteq> - 1"
  shows "log_ok (log_of segs @ [next_record w now opr payload])"
proof -
  have ok: "log_ok (log_of segs)" using assms(1) by (simp add: wal_ok_def on_disk_def Let_def)
  have "log_of segs \<noteq> [] \<longrightarrow> wal_sequence w = wr_sequence (last (log_of segs))"
    using assms(1) by (simp add: wal_ok_def Let_def)
  then have "contiguous_after (last_seq None (log_of segs)) (wal_sequence w + 1)"
    using assms(3) by (auto simp: contiguous_after_def last_seq_def split: if_splits)
  then show ?thesis
    using ok assms(2) by (simp add: log_ok_def consecutive_append) (simp add: next_record_def)
qed

lemma wal_ok_segment:
  assumes "wal_ok crc w segs"
  obtains pre n rs where "segs = pre @ [(n, rs)]" "wal_fd w = Some (MakeFilePath (lc_directory (wal_config w)) n)"
    "wal_file_number w = n" "on_disk crc (lc_directory (wal_config w)) (wal_fs w) (pre @ [(n, rs)]) []"
    "list_all2 (file_matches (lc_directory (wal_config w))) (wal_files w) (pre @ [(n, rs)])"
proof -
  have "segs \<noteq> []" using assms by (simp add: wal_ok_def Let_def)
  then obtain pre seg where "segs = pre @ [seg]" by (cases segs rule: rev_cases) auto
  then show ?thesis using that [of pre "fst seg" "snd seg"] assms by (simp add: wal_ok_def Let_def)
qed

lemma update_back_matches:
  assumes "list_all2 (file_matches dir) files (pre @ [(n, rs)])" "rs' \<noteq> []"
  shows "list_all2 (file_matches dir) (update_back (wr_sequence (last rs')) sz files) (pre @ [(n, rs')])"
proof -
  obtain fs f where "files = fs @ [f]" "list_all2 (file_matches dir) fs pre" "file_matches dir f (n, rs)"
    using assms(1) by (auto simp: list_all2_append2 list_all2_Cons2)
  then show ?thesis
    using assms(2) by (simp add: update_back_def file_matches_def seg_max_def list_all2_appendI del: list_all2_append)
qed

lemma write_record_ok:
  assumes "wal_ok crc w segs" "record_ok (next_record w now opr payload)" "wal_sequence w \<noteq> - 1"
    and "write_record crc fl now opr payload w = (Inr s, w')"
  shows "s = wal_sequence w + 1 \<and> wal_config w' = wal_config w \<and> wal_sequence w' = wal_sequence w + 1 \<and>
    (\<exists>segs'. wal_ok crc w' segs' \<and> log_of segs' = log_of segs @ [next_record w now opr payload] \<and> fst (last segs') = fst (last segs))"
proof -
  let ?dir = "lc_directory (wal_config w)" and ?r = "next_record w now opr payload"
  obtain pre n rs where seg: "segs = pre @ [(n, rs)]" "wal_fd w = Some (MakeFilePath ?dir n)" "wal_file_number w = n"
    "on_disk crc ?dir (wal_fs w) (pre @ [(n, rs)]) []" "list_all2 (file_matches ?dir) (wal_files w) (pre @ [(n, rs)])"
    using wal_ok_segment [OF assms(1)] by metis
  let ?segs = "pre @ [(n, rs @ [?r])]"
  have log: "log_of ?segs = log_of segs @ [?r]" by (simp add: seg(1))
  have "on_disk crc ?dir (fs_append (MakeFilePath ?dir n) (frame_of crc ?r) (wal_fs w)) ?segs []"
    using on_disk_append [OF seg(4) torn_tail_Nil, of "[?r]"] log_ok_snoc [OF assms(1-3)] by (simp add: seg(1))
  moreover have "list_all2 (file_matches ?dir) (update_back (wal_sequence w + 1) sz (wal_files w)) ?segs" for sz
    using update_back_matches [OF seg(5), of "rs @ [?r]" sz] by (simp add: next_record_def)
  moreover have "wal_open w" using assms(1) by (simp add: wal_ok_def Let_def)
  moreover note outcome = assms(4) [unfolded write_record_def Let_def, simplified]
  ultimately have "s = wal_sequence w + 1 \<and> wal_config w' = wal_config w \<and> wal_sequence w' = wal_sequence w + 1 \<and> wal_ok crc w' ?segs"
    using seg(2,3) next_record_frame [of crc w now opr payload]
    by (auto simp: wal_ok_def wal_write_def poison_current_segment_def next_record_def split: option.splits if_splits)
  then show ?thesis using log seg(1) by (intro conjI exI [of _ ?segs]) auto
qed


text \<open>A failed write leaves a torn tail, a failed synchronisation the whole record.\<close>

lemma partial_write_prefix: "bs \<noteq> [] \<Longrightarrow> \<exists>q. bs = partial_write k bs @ q \<and> q \<noteq> []"
  by (rule exI [of _ "drop (min k (length bs - 1)) bs"]) (cases bs, auto simp: partial_write_def min_def)

lemma write_record_failed:
  assumes "wal_ok crc w segs" "record_ok (next_record w now opr payload)" "wal_sequence w \<noteq> - 1"
    and "write_record crc fl now opr payload w = (Inl e, w')"
  shows "wal_config w' = wal_config w \<and> (\<exists>segs' tail. on_disk crc (lc_directory (wal_config w)) (wal_fs w') segs' tail \<and>
    log_of segs' \<in> {log_of segs, log_of segs @ [next_record w now opr payload]} \<and> segs' \<noteq> [] \<and> fst (last segs') = fst (last segs))"
proof -
  let ?dir = "lc_directory (wal_config w)" and ?r = "next_record w now opr payload"
  let ?body = "record_body (wal_sequence w + 1) now opr payload"
  obtain pre n rs where seg: "segs = pre @ [(n, rs)]" "wal_fd w = Some (MakeFilePath ?dir n)"
    "on_disk crc ?dir (wal_fs w) (pre @ [(n, rs)]) []"
    using wal_ok_segment [OF assms(1)] by metis
  have "log_ok (log_of (pre @ [(n, rs @ [])]))" using seg(3) by (simp add: on_disk_def)
  then have torn: "on_disk crc ?dir (fs_append (MakeFilePath ?dir n) p (wal_fs w)) segs p" if "torn_tail crc p" for p
    using on_disk_append [OF seg(3) that, of "[]"] by (simp add: seg(1))
  have whole: "on_disk crc ?dir (fs_append (MakeFilePath ?dir n) (frame_of crc ?r) (wal_fs w)) (pre @ [(n, rs @ [?r])]) []"
    using on_disk_append [OF seg(3) torn_tail_Nil, of "[?r]"] log_ok_snoc [OF assms(1-3)] by (simp add: seg(1))
  have frame: "frame_of crc ?r = record_header crc ?body @ ?body" by (simp add: next_record_frame)
  have nonempty: "record_header crc ?body \<noteq> []" "?body \<noteq> []"
    by (simp_all add: record_header_def record_body_def)
  have torn_header: "torn_tail crc (partial_write k (record_header crc ?body))" for k
    using torn_tail_prefix [OF assms(2)] partial_write_prefix [OF nonempty(1), of k] frame by (metis append_assoc append_is_Nil_conv)
  have torn_body: "torn_tail crc (record_header crc ?body @ partial_write k ?body)" for k
    using torn_tail_prefix [OF assms(2)] partial_write_prefix [OF nonempty(2), of k] frame by (metis append_assoc)
  note outcome = assms(4) [unfolded write_record_def Let_def, simplified]
  from outcome consider k where "wal_fs w' = fs_append (MakeFilePath ?dir n) (partial_write k (record_header crc ?body)) (wal_fs w)"
    | k where "wal_fs w' = fs_append (MakeFilePath ?dir n) (record_header crc ?body @ partial_write k ?body) (wal_fs w)"
    | "wal_fs w' = fs_append (MakeFilePath ?dir n) (frame_of crc ?r) (wal_fs w)"
    using seg(2) frame by (auto simp: wal_write_def poison_current_segment_def split: option.splits if_splits)
  then have "\<exists>segs' tail. on_disk crc ?dir (wal_fs w') segs' tail \<and> log_of segs' \<in> {log_of segs, log_of segs @ [?r]} \<and>
      segs' \<noteq> [] \<and> fst (last segs') = fst (last segs)"
  proof cases
    case 3
    then show ?thesis using whole seg(1) by (intro exI [of _ "pre @ [(n, rs @ [?r])]"] exI [of _ "[]"]) auto
  qed (use torn [OF torn_header] torn [OF torn_body] seg(1) in \<open>(intro exI [of _ segs] exI; force)+\<close>)
  moreover have "wal_config w' = wal_config w"
    using outcome by (auto simp: wal_write_def poison_current_segment_def split: option.splits if_splits)
  ultimately show ?thesis by blast
qed


lemma rotate_current:
  assumes "wal_ok crc w segs" "rotation_ok fl" "unat (wal_file_number w) + 1 < 10 ^ 6" "snd (last segs) \<noteq> []"
  shows "\<exists>w1 n. RotateFile fl (w\<lparr>wal_files := update_back (wal_sequence w) (wal_file_size w) (wal_files w)\<rparr>) = (Inr (), w1) \<and>
    wal_ok crc w1 (segs @ [(n, [])]) \<and> wal_sequence w1 = wal_sequence w \<and> wal_config w1 = wal_config w \<and> n = wal_file_number w + 1"
proof -
  let ?dir = "lc_directory (wal_config w)" and ?w = "w\<lparr>wal_files := update_back (wal_sequence w) (wal_file_size w) (wal_files w)\<rparr>"
  obtain pre n rs where seg: "segs = pre @ [(n, rs)]" "wal_file_number w = n"
    "on_disk crc ?dir (wal_fs w) (pre @ [(n, rs)]) []" "list_all2 (file_matches ?dir) (wal_files w) (pre @ [(n, rs)])"
    using wal_ok_segment [OF assms(1)] by metis
  have rs: "rs \<noteq> []" using assms(4) by (simp add: seg(1))
  then have last: "wal_sequence w = wr_sequence (last rs)" using assms(1) by (simp add: wal_ok_def Let_def seg(1))
  have files: "list_all2 (file_matches ?dir) (wal_files ?w) segs"
    using update_back_matches [OF seg(4) rs, of "wal_file_size w"] by (simp add: last seg(1))
  have upper: "\<forall>m \<in> fst ` set segs. m \<le> wal_file_number ?w"
    using numbered_last [of segs] seg by (auto simp: on_disk_def)
  have disk: "on_disk crc (lc_directory (wal_config ?w)) (wal_fs ?w) segs []" using seg by simp
  have bound: "unat (wal_file_number ?w) + 1 < 10 ^ 6" using assms(3) by simp
  note rotated = RotateFile_ok [OF disk upper bound assms(2)]
  define w1 where "w1 = snd (RotateFile fl ?w)"
  have w1: "RotateFile fl ?w = (Inr (), w1)" "wal_config w1 = wal_config w" "wal_sequence w1 = wal_sequence w"
    "wal_file_number w1 = wal_file_number w + 1" "wal_fd w1 = Some (MakeFilePath ?dir (wal_file_number w + 1))"
    "wal_fs w1 = um_set (MakeFilePath ?dir (wal_file_number w + 1)) file_header (wal_fs w)" "wal_open w1 = wal_open w"
    "wal_file_size w1 = of_nat kWalFileHeaderSize"
    using rotated(1) by (simp_all add: w1_def)
  have "list_all2 (file_matches ?dir) (wal_files w1) (segs @ [(wal_file_number w + 1, [])])"
    using files by (simp add: w1_def rotated(1) list_all2_appendI file_matches_def seg_max_def del: list_all2_append)
  moreover have "log_of segs \<noteq> []" "wal_open w" using assms(1) rs by (simp_all add: wal_ok_def Let_def seg(1))
  moreover have "wr_sequence (last (log_of segs)) = wal_sequence w" using rs last by (simp add: seg(1))
  ultimately have "wal_ok crc w1 (segs @ [(wal_file_number w + 1, [])])"
    using rotated(2) by (simp add: wal_ok_def w1(2-))
  then show ?thesis using w1 by blast
qed

text \<open>What a call of \<^verbatim>\<open>Append\<close> does to the log: it is refused, or it writes one record to a segment that is open.\<close>

lemma Append_cases:
  assumes "wal_ok crc w segs" "rotation_ok fl" "op_of_code (op_code opr) = opr" "length data < 2 ^ 32"
    and "unat (wal_file_number w) + 1 < 10 ^ 6"
  obtains e where "Append crc fl now opr data w = (Inl e, w)"
      "wal_sequence w = - 1 \<or> kMaxWalRecordBodySize - kWalRecordHeaderSize < length data"
  | w1 segs1 where "Append crc fl now opr data w = write_record crc fl now opr data w1" "wal_ok crc w1 segs1"
      "log_of segs1 = log_of segs" "wal_sequence w1 = wal_sequence w" "wal_config w1 = wal_config w" "wal_sequence w \<noteq> - 1"
      "record_ok (next_record w1 now opr data)" "fst (last segs1) \<le> fst (last segs) + 1"
proof -
  have sz: "unat (of_nat (length data) :: u32) = length data"
    using assms(4) by (simp add: unsigned_of_nat take_bit_nat_eq_self)
  have opened: "wal_open w" "wal_fd w \<noteq> None" using assms(1) by (auto simp: wal_ok_def Let_def)
  show thesis
  proof (cases "wal_sequence w = - 1 \<or> kMaxWalRecordBodySize - kWalRecordHeaderSize < length data")
    case True
    then have "\<exists>e. Append crc fl now opr data w = (Inl e, w)"
      using opened by (cases "wal_sequence w = - 1") (simp_all add: Append_def Let_def sz)
    then show ?thesis using that(1) True by blast
  next
    case False
    then have seq: "wal_sequence w \<noteq> - 1" and fits: "length data \<le> kMaxWalRecordBodySize - kWalRecordHeaderSize" by auto
    then have ok: "record_ok (next_record w1 now opr data)" if "wal_sequence w1 = wal_sequence w" for w1
      using that assms(3)
      by (auto simp: record_ok_def next_record_def kMaxWalRecordBodySize_def kWalRecordHeaderSize_def add_eq_0_iff minus_equation_iff)
    have le: "fst (last segs) \<le> fst (last segs) + 1"
      using small_number_inc [OF assms(5)] assms(1) by (simp add: wal_ok_def Let_def less_imp_le)
    show ?thesis
    proof (cases "lc_max_file_size (wal_config w) < wal_file_size w + of_nat (8 + (kWalRecordHeaderSize + length data)) \<and>
        of_nat kWalFileHeaderSize < wal_file_size w")
      case True
      then have "snd (last segs) \<noteq> []" using assms(1) by (auto simp: wal_ok_def Let_def)
      then obtain w1 n where w1: "RotateFile fl (w\<lparr>wal_files := update_back (wal_sequence w) (wal_file_size w) (wal_files w)\<rparr>) = (Inr (), w1)"
        "wal_ok crc w1 (segs @ [(n, [])])" "wal_sequence w1 = wal_sequence w" "wal_config w1 = wal_config w" "n = wal_file_number w + 1"
        using rotate_current [OF assms(1,2,5)] by blast
      have "wal_file_number w = fst (last segs)" using assms(1) by (simp add: wal_ok_def Let_def)
      moreover have "Append crc fl now opr data w = write_record crc fl now opr data w1"
        using True False opened w1(1) by (auto simp: Append_def Let_def sz)
      ultimately show ?thesis using that(2) [of w1 "segs @ [(n, [])]"] w1 seq ok [of w1] by simp
    next
      case noRotate: False
      have "Append crc fl now opr data w = write_record crc fl now opr data w"
        using noRotate False opened by (auto simp: Append_def Let_def sz)
      then show ?thesis using that(2) [of w segs] assms(1) seq ok [of w] le by simp
    qed
  qed
qed


lemma write_record_done:
  "\<lbrakk>fl WriteRecordHeader = None; fl WriteRecordBody = None; fl FsyncRecord = None\<rbrakk> \<Longrightarrow>
     \<exists>w'. write_record crc fl now opr payload w = (Inr (wal_sequence w + 1), w')"
  by (auto simp: write_record_def Let_def wal_write_def split: option.splits)

subsection \<open>Truncation and replay\<close>

lemma segments_increase:
  "consecutive previous (log_of segs) \<Longrightarrow>
     sorted_wrt (\<lambda>a b. snd a \<noteq> [] \<longrightarrow> snd b \<noteq> [] \<longrightarrow> wr_sequence (last (snd a)) < wr_sequence (last (snd b))) segs"
proof (induction segs arbitrary: previous)
  case (Cons seg segs)
  have "wr_sequence (last (snd seg)) < wr_sequence (last (snd seg'))"
    if "seg' \<in> set segs" "snd seg \<noteq> []" "snd seg' \<noteq> []" for seg'
  proof -
    have "last (snd seg') \<in> set (log_of segs)" using that last_in_set [of "snd seg'"] by force
    then show ?thesis using consecutive_split_less [of previous "snd seg" "log_of segs" "last (snd seg)"] Cons.prems that(2) by simp
  qed
  then show ?case using Cons by (auto simp: consecutive_append)
qed simp

text \<open>
  Dropping segments by a test that, once it keeps a segment with records, keeps all later ones,
  drops a prefix of the log.
\<close>

lemma filter_segments_suffix:
  "sorted_wrt (\<lambda>a b. snd a \<noteq> [] \<longrightarrow> P a \<longrightarrow> P b) segs \<Longrightarrow>
     \<exists>xs. log_of segs = xs @ log_of (filter P segs) \<and> (\<forall>r \<in> set xs. \<exists>seg \<in> set segs. \<not> P seg \<and> r \<in> set (snd seg))"
proof (induction segs)
  case (Cons seg segs)
  then obtain xs where xs: "log_of segs = xs @ log_of (filter P segs)" "\<forall>r \<in> set xs. \<exists>seg \<in> set segs. \<not> P seg \<and> r \<in> set (snd seg)"
    by auto
  consider "\<not> P seg" | "P seg" "snd seg = []" | "P seg" "snd seg \<noteq> []" by blast
  then show ?case
  proof cases
    case 1
    then show ?thesis using xs by (intro exI [of _ "snd seg @ xs"]) auto
  next
    case 2
    then show ?thesis using xs by (intro exI [of _ xs]) auto
  next
    case 3
    then have "filter P segs = segs" using Cons.prems by (simp add: filter_id_conv)
    then show ?thesis using 3 by (intro exI [of _ "[]"]) simp
  qed
qed simp

lemma sorted_wrt_both: "sorted_wrt (\<lambda>a b. A a b \<and> B a b) xs \<longleftrightarrow> sorted_wrt A xs \<and> sorted_wrt B xs"
  by (induction xs) auto

lemma log_ok_suffix: "log_ok (xs @ ys) \<Longrightarrow> log_ok ys"
  by (auto simp: log_ok_def consecutive_append intro: consecutive_None)

lemma seg_max_last: "rs \<noteq> [] \<Longrightarrow> seg_max rs = wr_sequence (last rs)"
  by (simp add: seg_max_def)

lemma seg_max_zero_in: "\<lbrakk>log_ok (log_of segs); sg \<in> set segs\<rbrakk> \<Longrightarrow> seg_max (snd sg) = 0 \<longleftrightarrow> snd sg = []"
  by (intro seg_max_zero) (auto simp: log_ok_def list_all_iff)

lemma segment_record_le:
  assumes "log_ok (log_of segs)" "sg \<in> set segs" "r \<in> set (snd sg)"
  shows "wr_sequence r \<le> seg_max (snd sg)"
proof -
  obtain as bs where "segs = as @ sg # bs" using assms(2) by (meson split_list)
  then have "consecutive (last_seq None (log_of as)) (snd sg)"
    using assms(1) by (simp add: log_ok_def consecutive_append)
  then have "wr_sequence r \<le> wr_sequence (last (snd sg))" using assms(3) by (rule consecutive_last)
  then show ?thesis using assms(3) by (auto simp: seg_max_def)
qed

lemma wal_Truncate_ok:
  assumes "wal_ok crc w segs" "wal_Truncate fl up_to w = (Inr (), w')"
  shows "\<exists>segs' xs. wal_ok crc w' segs' \<and> log_of segs = xs @ log_of segs' \<and> list_all (\<lambda>r. wr_sequence r \<le> up_to) xs \<and>
    segs' = filter (\<lambda>seg. \<not> (seg_max (snd seg) \<le> up_to \<and> 0 < seg_max (snd seg) \<and> fst seg \<noteq> wal_file_number w)) segs \<and>
    wal_config w' = wal_config w \<and> wal_sequence w' = wal_sequence w \<and> wal_file_number w' = wal_file_number w"
proof -
  let ?dir = "lc_directory (wal_config w)" and ?cur = "wal_file_number w"
  let ?Q = "\<lambda>seg. \<not> (seg_max (snd seg) \<le> up_to \<and> 0 < seg_max (snd seg) \<and> fst seg \<noteq> ?cur)"
  obtain pre n rs where seg: "segs = pre @ [(n, rs)]" "wal_fd w = Some (MakeFilePath ?dir n)" "?cur = n"
    "on_disk crc ?dir (wal_fs w) (pre @ [(n, rs)]) []" "list_all2 (file_matches ?dir) (wal_files w) (pre @ [(n, rs)])"
    using wal_ok_segment [OF assms(1)] by metis
  have disk: "on_disk crc ?dir (wal_fs w) segs []" and files: "list_all2 (file_matches ?dir) (wal_files w) segs"
    using seg by simp_all
  then have log: "log_ok (log_of segs)" "numbered segs" by (simp_all add: on_disk_def)
  obtain kept deleted fs' where cut: "truncate_files fl up_to ?cur (wal_files w) (wal_fs w) = (kept, deleted, None, fs')"
    and w': "w' = w\<lparr>wal_files := kept, wal_fs := fs'\<rparr>"
    using assms(2) by (auto simp: wal_Truncate_def Let_def split: prod.splits if_splits option.splits)
  have "sorted_wrt (\<lambda>a b. (snd a \<noteq> [] \<longrightarrow> snd b \<noteq> [] \<longrightarrow> wr_sequence (last (snd a)) < wr_sequence (last (snd b))) \<and> fst a < fst b) segs"
    using segments_increase [of None segs] log by (simp add: sorted_wrt_both log_ok_def numbered_def sorted_wrt_map)
  then have "sorted_wrt (\<lambda>a b. snd a \<noteq> [] \<longrightarrow> ?Q a \<longrightarrow> ?Q b) segs"
  proof (rule sorted_wrt_mono_rel [rotated])
    fix a b
    assume ab: "a \<in> set segs" "b \<in> set segs"
      "(snd a \<noteq> [] \<longrightarrow> snd b \<noteq> [] \<longrightarrow> wr_sequence (last (snd a)) < wr_sequence (last (snd b))) \<and> fst a < fst b"
    have "fst b \<le> n" using numbered_last [OF log(2), of "fst b"] ab(2) by (auto simp: seg(1))
    then show "snd a \<noteq> [] \<longrightarrow> ?Q a \<longrightarrow> ?Q b"
      using ab(3) seg(3) seg_max_zero_in [OF log(1) ab(1)] by (auto simp: seg_max_def word_neq_0_conv)
  qed
  from filter_segments_suffix [OF this] obtain xs where
    xs: "log_of segs = xs @ log_of (filter ?Q segs)" "\<forall>r \<in> set xs. \<exists>seg \<in> set segs. \<not> ?Q seg \<and> r \<in> set (snd seg)"
    by blast
  have below: "wr_sequence r \<le> up_to" if r: "r \<in> set xs" for r
  proof -
    obtain sg where sg: "sg \<in> set segs" "\<not> ?Q sg" "r \<in> set (snd sg)" using xs(2) r by blast
    then show ?thesis using segment_record_le [OF log(1) sg(1,3)] by auto
  qed
  have match: "(\<not> (wf_max_sequence f \<le> up_to \<and> 0 < wf_max_sequence f \<and> wf_file_number f \<noteq> ?cur)) = ?Q sg" if "file_matches ?dir f sg" for f sg
    using that by (simp add: file_matches_def)
  have kept: "list_all2 (file_matches ?dir) kept (filter ?Q segs)"
    using truncate_files_ok [OF cut] list_all2_filter [OF files, of _ ?Q] match by simp
  have gone: "map wf_path (filter (\<lambda>f. wf_max_sequence f \<le> up_to \<and> 0 < wf_max_sequence f \<and> wf_file_number f \<noteq> ?cur) (wal_files w)) =
      map (\<lambda>sg. MakeFilePath ?dir (fst sg)) (filter (\<lambda>sg. \<not> ?Q sg) segs)"
    by (rule matching_paths, rule list_all2_filter [OF files]) (use match in auto)
  have disk': "on_disk crc ?dir fs' (filter ?Q segs) []"
    using truncate_files_ok [OF cut] on_disk_erase_all [OF disk, of ?Q] log_ok_suffix [of xs] log(1) xs(1)
    unfolding gone by simp
  have last: "filter ?Q segs \<noteq> []" "last (filter ?Q segs) = (n, rs)" by (simp_all add: seg(1,3))
  have "wal_ok crc w' (filter ?Q segs)"
    using assms(1) disk' kept last xs(1) unfolding wal_ok_def Let_def w'
    by (auto simp: seg(1,3) simp del: concat_eq_Nil_conv)
  then show ?thesis
    using xs(1) below by (intro exI [of _ "filter ?Q segs"] exI [of _ xs]) (simp add: w' list_all_iff)
qed


lemma wal_Truncate_done: "\<exists>w'. wal_Truncate no_faults up_to w = (Inr (), w')"
proof -
  have "fst (snd (snd (truncate_files no_faults up_to current files fs))) = None" for current files fs
    by (induction files arbitrary: fs) (simp_all add: case_prod_unfold Let_def)
  then show ?thesis by (simp add: wal_Truncate_def Let_def case_prod_unfold)
qed

lemma replay_files_segments:
  assumes "seg_files crc dir fs segs []" "list_all record_ok (log_of segs)" "consecutive previous (log_of segs)"
  shows "replay_files crc no_faults from callback fs (map (\<lambda>seg. MakeFilePath dir (fst seg)) segs) previous seen applied s =
    (case deliver callback (from_on from (log_of segs)) applied s of
       (Inl e, s) \<Rightarrow> ReplayStop (Inl e) s
     | (Inr n, s) \<Rightarrow> ReplayOn (last_seq previous (log_of segs)) (seen \<or> (\<exists>r \<in> set (log_of segs). wr_sequence r = from)) n s)"
  using assms
proof (induction segs arbitrary: previous seen applied s)
  case (Cons seg segs)
  obtain n rs where seg: "seg = (n, rs)" by fastforce
  have content: "um_find fs (MakeFilePath dir n) = Some (file_header @ seg_bytes crc rs)" and rest: "seg_files crc dir fs segs []"
    using Cons.prems(1) by (simp_all add: seg)
  have rs: "list_all record_ok rs" "consecutive previous rs" and later: "list_all record_ok (log_of segs)" "consecutive (last_seq previous rs) (log_of segs)"
    using Cons.prems(2,3) by (simp_all add: seg consecutive_append)
  show ?case
    using Cons.IH [OF rest later] by (auto simp: seg content replay_records_segment [OF rs] deliver_append split: prod.splits sum.splits)
qed simp

definition replay_spec :: "u64 \<Rightarrow> u64 \<Rightarrow> (WalRecord \<Rightarrow> 's \<Rightarrow> Error option \<times> 's) \<Rightarrow> WalRecord list \<Rightarrow> 's \<Rightarrow> u64 expected \<times> 's" where
  "replay_spec from current callback records s =
     (case deliver callback (from_on from records) 0 s of
        (Inl e, s) \<Rightarrow> (Inl e, s)
      | (Inr n, s) \<Rightarrow>
          if from \<noteq> 0 \<and> from \<le> current \<and> \<not> list_ex (\<lambda>r. wr_sequence r = from) records
          then (Inl (MakeError kWalCorrupted
                 (''WAL does not contain requested replay floor sequence '' @ show_nat (unat from))), s)
          else (Inr n, s))"

lemma ReplayValidated_ok:
  assumes "wal_ok crc w segs"
  shows "ReplayValidated crc no_faults from callback w s = replay_spec from (wal_sequence w) callback (log_of segs) s"
proof -
  let ?dir = "lc_directory (wal_config w)"
  let ?P = "\<lambda>seg. from \<le> seg_max (snd seg) \<or> seg_max (snd seg) = 0"
  have disk: "on_disk crc ?dir (wal_fs w) segs []" and files: "list_all2 (file_matches ?dir) (wal_files w) segs"
    using assms by (simp_all add: wal_ok_def Let_def)
  then have log: "log_ok (log_of segs)" "seg_files crc ?dir (wal_fs w) segs []" by (simp_all add: on_disk_def)
  note nonzero = seg_max_zero_in [OF log(1)]
  have "sorted_wrt (\<lambda>a b. snd a \<noteq> [] \<longrightarrow> ?P a \<longrightarrow> ?P b) segs"
  proof (rule sorted_wrt_mono_rel [OF _ segments_increase [of None segs]])
    fix a b
    assume "a \<in> set segs" "b \<in> set segs" "snd a \<noteq> [] \<longrightarrow> snd b \<noteq> [] \<longrightarrow> wr_sequence (last (snd a)) < wr_sequence (last (snd b))"
    then show "snd a \<noteq> [] \<longrightarrow> ?P a \<longrightarrow> ?P b" using nonzero [of a] nonzero [of b] by (auto simp: seg_max_def)
  qed (use log(1) in \<open>simp add: log_ok_def\<close>)
  from filter_segments_suffix [OF this] obtain xs where
    xs: "log_of segs = xs @ log_of (filter ?P segs)" "\<forall>r \<in> set xs. \<exists>seg \<in> set segs. \<not> ?P seg \<and> r \<in> set (snd seg)"
    by blast
  have below: "wr_sequence r < from" if r: "r \<in> set xs" for r
  proof -
    obtain sg where sg: "sg \<in> set segs" "\<not> ?P sg" "r \<in> set (snd sg)" using xs(2) r by blast
    then show ?thesis using segment_record_le [OF log(1) sg(1,3)] by auto
  qed
  have paths: "map wf_path (filter (\<lambda>f. from \<le> wf_max_sequence f \<or> wf_max_sequence f = 0) (wal_files w)) =
      map (\<lambda>sg. MakeFilePath ?dir (fst sg)) (filter ?P segs)"
    by (rule matching_paths, rule list_all2_filter [OF files]) (simp add: file_matches_def)
  have part: "seg_files crc ?dir (wal_fs w) (filter ?P segs) []" using log(2) by (simp add: seg_files_all list_all_iff)
  have suffix: "list_all record_ok (log_of (filter ?P segs))" "consecutive None (log_of (filter ?P segs))"
    using log_ok_suffix [of xs "log_of (filter ?P segs)"] log(1) xs(1) by (simp_all add: log_ok_def)
  have "from_on from (log_of segs) = from_on from (log_of (filter ?P segs))"
    unfolding xs(1) using below by (simp add: filter_empty_conv not_le)
  moreover have "(\<exists>r \<in> set (log_of (filter ?P segs)). wr_sequence r = from) \<longleftrightarrow> list_ex (\<lambda>r. wr_sequence r = from) (log_of segs)"
    unfolding xs(1) using below by (auto simp: list_ex_iff simp del: set_concat)
  ultimately show ?thesis
    unfolding ReplayValidated_def Let_def paths replay_files_segments [OF part suffix]
    by (auto simp: replay_spec_def split: prod.splits sum.splits simp del: set_concat)
qed

subsection \<open>The log as a sequence of records\<close>

text \<open>
  The abstract log is the list of its records.  An append that reported an error is in doubt until
  the restart that follows; a truncation drops a prefix of records that are all covered by the
  checkpoint; a restart changes nothing.
\<close>

datatype log_event = LAppend WalRecord | LFailed WalRecord | LTruncate u64 | LRestart

inductive log_run :: "log_event list \<Rightarrow> WalRecord list \<Rightarrow> bool" where
  log_start: "log_run [] []"
| log_append: "log_run es l \<Longrightarrow> log_run (es @ [LAppend r]) (l @ [r])"
| log_failed: "\<lbrakk>log_run es l; l' \<in> {l, l @ [r]}\<rbrakk> \<Longrightarrow> log_run (es @ [LFailed r]) l'"
| log_truncate: "\<lbrakk>log_run es (xs @ l); list_all (\<lambda>r. wr_sequence r \<le> up_to) xs\<rbrakk> \<Longrightarrow> log_run (es @ [LTruncate up_to]) l"
| log_restart: "log_run es l \<Longrightarrow> log_run (es @ [LRestart]) l"

text \<open>
  The runs of the log on a directory: it is opened without a segment, then records are appended,
  covered segments deleted, the background thread runs, and the process stops and opens the
  directory again, also after a write that failed at any byte.  The calls of a rotation do not
  fail and fewer than a million segments are created.
\<close>

inductive wal_run :: "(bytes \<Rightarrow> u32) \<Rightarrow> string \<Rightarrow> log_event list \<Rightarrow> WriteAheadLog \<Rightarrow> bool" for crc dir where
  run_open: "\<lbrakk>um_wf (wal_fs w0); segment_numbers dir (wal_fs w0) = []; wal_Open crc no_faults (Inr dir) config w0 = (Inr (), w)\<rbrakk> \<Longrightarrow>
    wal_run crc dir [] w"
| run_append: "\<lbrakk>wal_run crc dir es w; rotation_ok fl; op_of_code (op_code opr) = opr; length data < 2 ^ 32;
    unat (wal_file_number w) + 1 < 10 ^ 6; Append crc fl now opr data w = (Inr s, w')\<rbrakk> \<Longrightarrow>
    wal_run crc dir (es @ [LAppend (next_record w now opr data)]) w'"
| run_failed: "\<lbrakk>wal_run crc dir es w; rotation_ok fl; op_of_code (op_code opr) = opr; length data < 2 ^ 32;
    unat (wal_file_number w) + 2 < 10 ^ 6; Append crc fl now opr data w = (Inl e, w1);
    wal_Open crc no_faults (Inr dir) config w1 = (Inr (), w')\<rbrakk> \<Longrightarrow>
    wal_run crc dir (es @ [LFailed (next_record w now opr data)]) w'"
| run_truncate: "\<lbrakk>wal_run crc dir es w; wal_Truncate fl up_to w = (Inr (), w')\<rbrakk> \<Longrightarrow> wal_run crc dir (es @ [LTruncate up_to]) w'"
| run_sync: "\<lbrakk>wal_run crc dir es w; fl FsyncSegment = None\<rbrakk> \<Longrightarrow> wal_run crc dir es (SyncLoop_turn fl w)"
| run_restart: "\<lbrakk>wal_run crc dir es w; unat (wal_file_number w) + 1 < 10 ^ 6;
    wal_Open crc no_faults (Inr dir) config w = (Inr (), w')\<rbrakk> \<Longrightarrow>
    wal_run crc dir (es @ [LRestart]) w'"

lemma on_disk_empty:
  assumes "um_wf fs" "segment_numbers dir fs = []"
  shows "on_disk crc dir fs [] []"
  using assms set_segment_numbers [of _ dir fs] by (auto simp: on_disk_def numbered_def log_ok_def um_find_None)

lemma wal_Open_log:
  assumes "on_disk crc dir (wal_fs w) segs tail" "segs = [] \<or> unat (fst (last segs)) + 1 < 10 ^ 6"
  shows "\<exists>w' segs'. wal_Open crc no_faults (Inr dir) config w = (Inr (), w') \<and> wal_ok crc w' segs' \<and>
    log_of segs' = log_of segs \<and> lc_directory (wal_config w') = dir"
proof -
  have "unat (if segs = [] then 0 else fst (last segs)) + 1 < 10 ^ 6" using assms(2) by auto
  from wal_Open_ok [OF assms(1) this] obtain w' n where
    "wal_Open crc no_faults (Inr dir) config w = (Inr (), w')" "wal_ok crc w' (filter (\<lambda>seg. snd seg \<noteq> []) segs @ [(n, [])])"
    "lc_directory (wal_config w') = dir" by blast
  then show ?thesis
    by (intro exI [of _ w'] exI [of _ "filter (\<lambda>seg. snd seg \<noteq> []) segs @ [(n, [])]"]) simp
qed

text \<open>The effect of an append on the log, reported as done and reported as failed.\<close>

lemma Append_log:
  assumes "wal_ok crc w segs" "rotation_ok fl" "op_of_code (op_code opr) = opr" "length data < 2 ^ 32"
    and "unat (wal_file_number w) + 1 < 10 ^ 6" "Append crc fl now opr data w = (Inr s, w')"
  shows "s = wal_sequence w + 1 \<and> wal_config w' = wal_config w \<and> wal_sequence w' = wal_sequence w + 1 \<and>
    (\<exists>segs'. wal_ok crc w' segs' \<and> log_of segs' = log_of segs @ [next_record w now opr data] \<and>
      fst (last segs') \<le> fst (last segs) + 1)"
proof (rule Append_cases [OF assms(1-5), of now])
  fix w1 segs1
  assume w1: "Append crc fl now opr data w = write_record crc fl now opr data w1" "wal_ok crc w1 segs1"
    "log_of segs1 = log_of segs" "wal_sequence w1 = wal_sequence w" "wal_config w1 = wal_config w" "wal_sequence w \<noteq> - 1"
    "record_ok (next_record w1 now opr data)" "fst (last segs1) \<le> fst (last segs) + 1"
  then have "next_record w1 now opr data = next_record w now opr data" by (simp add: next_record_def)
  then show ?thesis
    using write_record_ok [OF w1(2,7), of fl s w'] w1(1,3-6,8) assms(6) by auto
qed (use assms(6) in simp)

lemma Append_failed_log:
  assumes "wal_ok crc w segs" "rotation_ok fl" "op_of_code (op_code opr) = opr" "length data < 2 ^ 32"
    and "unat (wal_file_number w) + 2 < 10 ^ 6" "Append crc fl now opr data w = (Inl e, w')"
  shows "\<exists>segs' tail. on_disk crc (lc_directory (wal_config w)) (wal_fs w') segs' tail \<and>
    log_of segs' \<in> {log_of segs, log_of segs @ [next_record w now opr data]} \<and> unat (fst (last segs')) + 1 < 10 ^ 6"
proof -
  have number: "wal_file_number w = fst (last segs)" using assms(1) by (simp add: wal_ok_def Let_def)
  have small: "unat (wal_file_number w) + 1 < 10 ^ 6" using assms(5) by simp
  show ?thesis
  proof (rule Append_cases [OF assms(1-4) small, of now])
    fix e'
    assume "Append crc fl now opr data w = (Inl e', w)"
    then show ?thesis
      using assms(1,6) small number by (intro exI [of _ segs] exI [of _ "[]"]) (simp add: wal_ok_def Let_def)
  next
    fix w1 segs1
    assume w1: "Append crc fl now opr data w = write_record crc fl now opr data w1" "wal_ok crc w1 segs1"
      "log_of segs1 = log_of segs" "wal_sequence w1 = wal_sequence w" "wal_config w1 = wal_config w" "wal_sequence w \<noteq> - 1"
      "record_ok (next_record w1 now opr data)" "fst (last segs1) \<le> fst (last segs) + 1"
    have same: "next_record w1 now opr data = next_record w now opr data" using w1(4) by (simp add: next_record_def)
    have "unat (fst (last segs1)) \<le> unat (wal_file_number w) + 1"
      using w1(8) small_number_inc [OF small] number by (simp add: word_le_nat_alt)
    then show ?thesis
      using write_record_failed [OF w1(2,7), of fl e w'] w1(1,3-6) assms(5,6) unfolding same by fastforce
  qed
qed

lemma wal_run_log:
  assumes "wal_run crc dir es w"
  shows "\<exists>segs. wal_ok crc w segs \<and> lc_directory (wal_config w) = dir \<and> log_run es (log_of segs)"
  using assms
proof induction
  case (run_open w0 config w)
  obtain w' segs where "wal_Open crc no_faults (Inr dir) config w0 = (Inr (), w')" "wal_ok crc w' segs"
    "log_of segs = log_of []" "lc_directory (wal_config w') = dir"
    using wal_Open_log [OF on_disk_empty [OF run_open(1,2)], of crc config] by blast
  then show ?case using run_open(3) log_start by (intro exI [of _ segs]) (simp del: concat_eq_Nil_conv)
next
  case (run_append es w fl opr data now s w')
  then obtain segs where segs: "wal_ok crc w segs" "lc_directory (wal_config w) = dir" "log_run es (log_of segs)" by blast
  then show ?case
    using Append_log [OF segs(1) run_append(2-6)] log_append [OF segs(3)] by metis
next
  case (run_failed es w fl opr data now e w1 config w')
  then obtain segs where segs: "wal_ok crc w segs" "lc_directory (wal_config w) = dir" "log_run es (log_of segs)" by blast
  obtain segs1 tail where disk: "on_disk crc dir (wal_fs w1) segs1 tail" "unat (fst (last segs1)) + 1 < 10 ^ 6"
    "log_of segs1 \<in> {log_of segs, log_of segs @ [next_record w now opr data]}"
    using Append_failed_log [OF segs(1) run_failed(2-6)] segs(2) by auto
  then obtain segs' where "wal_ok crc w' segs'" "log_of segs' = log_of segs1" "lc_directory (wal_config w') = dir"
    using wal_Open_log [OF disk(1), of config] run_failed(7) by auto
  then show ?case using log_failed [OF segs(3) disk(3)] by metis
next
  case (run_truncate es w fl up_to w')
  then obtain segs where segs: "wal_ok crc w segs" "lc_directory (wal_config w) = dir" "log_run es (log_of segs)" by blast
  obtain segs' xs where "wal_ok crc w' segs'" "log_of segs = xs @ log_of segs'" "list_all (\<lambda>r. wr_sequence r \<le> up_to) xs"
    "wal_config w' = wal_config w"
    using wal_Truncate_ok [OF segs(1) run_truncate(2)] by blast
  then show ?case using segs(2,3) log_truncate by (intro exI [of _ segs']) simp
next
  case (run_sync es w fl)
  then show ?case by (auto simp: SyncLoop_turn_def wal_ok_def Let_def)
next
  case (run_restart es w config w')
  then obtain segs where segs: "wal_ok crc w segs" "lc_directory (wal_config w) = dir" "log_run es (log_of segs)" by blast
  then have disk: "on_disk crc dir (wal_fs w) segs []" "wal_file_number w = fst (last segs)" by (simp_all add: wal_ok_def Let_def)
  obtain segs' where "wal_ok crc w' segs'" "log_of segs' = log_of segs" "lc_directory (wal_config w') = dir"
    using wal_Open_log [OF disk(1), of config] disk(2) run_restart(2,3) by auto
  then show ?case using log_restart [OF segs(3)] by metis
qed


text \<open>
  C2. The write-ahead log refines a list of records. After any run - appends, truncations, background
  synchronisation, clean restarts, and restarts after a write that failed at any byte of a record -
  there is a list of records that the run allows: every acknowledged append is in it in order, unless
  a truncation covered it, an append that reported an error may be in it or not, and nothing else.
  Its sequence numbers are consecutive, replaying from any sequence hands exactly its records from
  there on to the callback, and opening the directory again succeeds.
\<close>

theorem wal_refines_log:
  assumes "wal_run crc dir es w"
  shows "\<exists>l. log_run es l \<and> consecutive None l \<and>
    (\<forall>from callback (s :: 's). ReplayValidated crc no_faults from callback w s = replay_spec from (wal_sequence w) callback l s) \<and>
    (unat (wal_file_number w) + 1 < 10 ^ 6 \<longrightarrow> (\<exists>w'. wal_Open crc no_faults (Inr dir) config w = (Inr (), w')))"
proof -
  obtain segs where segs: "wal_ok crc w segs" "lc_directory (wal_config w) = dir" "log_run es (log_of segs)"
    using wal_run_log [OF assms] by blast
  then have disk: "on_disk crc dir (wal_fs w) segs []" "wal_file_number w = fst (last segs)" by (simp_all add: wal_ok_def Let_def)
  then have "consecutive None (log_of segs)" by (simp add: on_disk_def log_ok_def)
  moreover have "unat (wal_file_number w) + 1 < 10 ^ 6 \<longrightarrow> (\<exists>w'. wal_Open crc no_faults (Inr dir) config w = (Inr (), w'))"
    using wal_Open_log [OF disk(1), of config] disk(2) by auto
  ultimately show ?thesis using segs(3) ReplayValidated_ok [OF segs(1)] by blast
qed

subsection \<open>Loss of the tail\<close>

lemma take_frames:
  "list_all record_ok rs \<Longrightarrow>
     \<exists>rs1 rs2 p. rs = rs1 @ rs2 \<and> take m (seg_bytes crc rs) = seg_bytes crc rs1 @ p \<and> torn_tail crc p \<and>
       (rs2 \<noteq> [] \<longrightarrow> m < length (seg_bytes crc rs1) + length (frame_of crc (hd rs2)))"
proof (induction rs arbitrary: m)
  case Nil
  then show ?case by auto
next
  case (Cons r rs)
  show ?case
  proof (cases "m < length (frame_of crc r)")
    case True
    then have "torn_tail crc (take m (frame_of crc r))"
      using torn_tail_prefix [of r crc "take m (frame_of crc r)" "drop m (frame_of crc r)"] Cons.prems by simp
    then show ?thesis using True by (intro exI [of _ "[]"] exI [of _ "r # rs"] exI [of _ "take m (frame_of crc r)"]) simp
  next
    case False
    have ok: "list_all record_ok rs" using Cons.prems by simp
    obtain rs1 rs2 p where "rs = rs1 @ rs2" "take (m - length (frame_of crc r)) (seg_bytes crc rs) = seg_bytes crc rs1 @ p" "torn_tail crc p"
      "rs2 \<noteq> [] \<longrightarrow> m - length (frame_of crc r) < length (seg_bytes crc rs1) + length (frame_of crc (hd rs2))"
      using Cons.IH [OF ok, of "m - length (frame_of crc r)"] by blast
    then show ?thesis using False by (intro exI [of _ "r # rs1"] exI [of _ rs2] exI [of _ p]) auto
  qed
qed

definition replayed_log :: "(bytes \<Rightarrow> u32) \<Rightarrow> WriteAheadLog \<Rightarrow> WalRecord list" where
  "replayed_log crc w = snd (ReplayValidated crc no_faults 0 (\<lambda>r rs. (None, rs @ [r])) w [])"

lemma deliver_collect: "deliver (\<lambda>r rs. (None, rs @ [r])) l n s = (Inr (n + of_nat (length l)), s @ l)"
  by (induction l arbitrary: n s) (simp_all add: ac_simps)

lemma replayed_log_ok: "wal_ok crc w segs \<Longrightarrow> replayed_log crc w = log_of segs"
  by (simp add: replayed_log_def ReplayValidated_ok replay_spec_def deliver_collect)


lemma on_disk_cut:
  assumes "on_disk crc dir fs (pre @ [(n, rs1 @ rs2)]) []" "torn_tail crc p"
  shows "on_disk crc dir (um_set (MakeFilePath dir n) (file_header @ seg_bytes crc rs1 @ p) fs) (pre @ [(n, rs1)]) p"
proof -
  have d: "numbered pre" "unat n < 10 ^ 6" "n \<notin> fst ` set pre" "seg_files crc dir fs pre []"
    and all: "\<And>m. \<lbrakk>unat m < 10 ^ 6; um_find fs (MakeFilePath dir m) \<noteq> None\<rbrakk> \<Longrightarrow> m \<in> fst ` set (pre @ [(n, rs1)])"
    using assms(1) by (auto simp: on_disk_def numbered_snoc seg_files_snoc)
  let ?fs = "um_set (MakeFilePath dir n) (file_header @ seg_bytes crc rs1 @ p) fs"
  have "seg_files crc dir ?fs (pre @ [(n, rs1)]) p"
    using d seg_files_other(1) [OF d(1-3)] by (simp add: seg_files_snoc)
  moreover have "m \<in> fst ` set (pre @ [(n, rs1)])" if "unat m < 10 ^ 6" "um_find ?fs (MakeFilePath dir m) \<noteq> None" for m
    using that all [of m] d(2) by (cases "m = n") (auto simp: MakeFilePath_inj)
  moreover have "log_ok (log_of (pre @ [(n, rs1)]))"
    using assms(1) by (simp add: on_disk_def log_ok_def consecutive_append flip: append_assoc)
  ultimately show ?thesis using assms by (auto simp: on_disk_def numbered_snoc)
qed


subsection \<open>Sequence numbers after a checkpoint\<close>

lemma rotation_ok_no_faults: "rotation_ok no_faults"
  by (simp add: rotation_ok_def no_faults_def)

lemma Append_done:
  assumes "wal_ok crc w segs" "op_of_code (op_code opr) = opr" "length data \<le> kMaxWalRecordBodySize - kWalRecordHeaderSize"
    and "unat (wal_file_number w) + 1 < 10 ^ 6" "wal_sequence w \<noteq> - 1"
  shows "\<exists>w' segs'. Append crc no_faults now opr data w = (Inr (wal_sequence w + 1), w') \<and> wal_ok crc w' segs' \<and>
    log_of segs' = log_of segs @ [next_record w now opr data] \<and> wal_config w' = wal_config w \<and>
    wal_sequence w' = wal_sequence w + 1 \<and> fst (last segs') \<le> fst (last segs) + 1"
proof -
  have len: "length data < 2 ^ 32" using assms(3) by (simp add: kMaxWalRecordBodySize_def kWalRecordHeaderSize_def)
  obtain w1 where "Append crc no_faults now opr data w = write_record crc no_faults now opr data w1" "wal_sequence w1 = wal_sequence w"
    using Append_cases [OF assms(1) rotation_ok_no_faults assms(2) len assms(4), of now] assms(3,5) by (metis linorder_not_less)
  then obtain w' where app: "Append crc no_faults now opr data w = (Inr (wal_sequence w + 1), w')"
    using write_record_done [of no_faults crc now opr data w1] by (auto simp: no_faults_def)
  then show ?thesis
    using Append_log [OF assms(1) rotation_ok_no_faults assms(2) len assms(4) app] by auto
qed

text \<open>A truncation up to the current sequence, right after a restart, leaves the directory without a record.\<close>

lemma truncate_all:
  assumes "wal_ok crc w (segs @ [(n, [])])" "list_all (\<lambda>seg. snd seg \<noteq> []) segs"
    and "log_of segs \<noteq> [] \<longrightarrow> wal_sequence w = wr_sequence (last (log_of segs))" "wal_Truncate no_faults (wal_sequence w) w = (Inr (), w')"
  shows "wal_ok crc w' [(n, [])] \<and> wal_config w' = wal_config w"
proof -
  have n: "wal_file_number w = n" "log_ok (log_of segs)" "numbered (segs @ [(n, [])])"
    using assms(1) by (simp_all add: wal_ok_def on_disk_def Let_def)
  have "seg_max (snd sg) \<le> wal_sequence w \<and> 0 < seg_max (snd sg) \<and> fst sg \<noteq> n" if sg: "sg \<in> set segs" for sg
  proof -
    have ne: "snd sg \<noteq> []" using assms(2) sg by (simp add: list_all_iff)
    then have mem: "last (snd sg) \<in> set (log_of segs)" using sg last_in_set [of "snd sg"] by force
    then have "log_of segs \<noteq> []" by (metis empty_iff list.set(1))
    moreover have "wr_sequence (last (snd sg)) \<le> wr_sequence (last (log_of segs))"
      using consecutive_last [OF _ mem, of None] n(2) by (simp add: log_ok_def)
    moreover have "fst sg \<noteq> n" using n(3) sg by (auto simp: numbered_snoc)
    ultimately show ?thesis
      using ne seg_max_zero_in [OF n(2) sg] assms(3) by (simp add: seg_max_last word_neq_0_conv)
  qed
  then have "filter (\<lambda>seg. \<not> (seg_max (snd seg) \<le> wal_sequence w \<and> 0 < seg_max (snd seg) \<and> fst seg \<noteq> wal_file_number w))
      (segs @ [(n, [])]) = [(n, [])]"
    by (simp add: n(1) seg_max_def [of "[]"] filter_empty_conv)
  then show ?thesis using wal_Truncate_ok [OF assms(1,4)] by (simp only: n(1)) blast
qed

text \<open>
  C34. A write that was acknowledged can be lost. Take any run that leaves at least one record, restart,
  write a checkpoint at the current sequence and truncate, restart again, and append a record: the
  append succeeds with sequence 1, because the sequence is recovered from the segments and the last
  one with records is gone. After another restart, the replay from the sequence after the checkpoint
  succeeds and delivers no record.
\<close>

theorem wal_acknowledged_write_lost:
  assumes "wal_run crc dir es w" "replayed_log crc w \<noteq> []" "wal_sequence w \<noteq> - 1" "unat (wal_file_number w) + 5 < 10 ^ 6"
    and "op_of_code (op_code opr) = opr" "length data \<le> kMaxWalRecordBodySize - kWalRecordHeaderSize"
  shows "\<exists>w1 w2 w3 w4 w5.
    wal_Open crc no_faults (Inr dir) config w = (Inr (), w1) \<and>
    wal_Truncate no_faults (wal_sequence w) w1 = (Inr (), w2) \<and>
    wal_Open crc no_faults (Inr dir) config w2 = (Inr (), w3) \<and>
    Append crc no_faults now opr data w3 = (Inr 1, w4) \<and>
    wal_Open crc no_faults (Inr dir) config w4 = (Inr (), w5) \<and>
    (\<forall>callback (s :: 's). ReplayValidated crc no_faults (wal_sequence w + 1) callback w5 s = (Inr 0, s))"
proof -
  obtain segs where w: "wal_ok crc w segs" "lc_directory (wal_config w) = dir" using wal_run_log [OF assms(1)] by blast
  have disk: "on_disk crc dir (wal_fs w) segs []" "wal_file_number w = fst (last segs)" "segs \<noteq> []" "log_of segs \<noteq> []"
    "wal_sequence w = wr_sequence (last (log_of segs))"
    using w assms(2) by (auto simp: wal_ok_def Let_def replayed_log_ok [OF w(1)] simp del: concat_eq_Nil_conv)
  let ?segs = "filter (\<lambda>seg. snd seg \<noteq> []) segs" and ?n = "fst (last segs) + 1"
  have small: "unat (fst (last segs)) + 5 < 10 ^ 6" using assms(4) disk(2) by simp
  have n1: "unat ?n = unat (fst (last segs)) + 1" using small_number_inc [of "fst (last segs)"] small by simp
  have n2: "unat (?n + 1) = unat (fst (last segs)) + 2" using small_number_inc [of ?n] small n1 by simp
  obtain w1 where w1: "wal_Open crc no_faults (Inr dir) config w = (Inr (), w1)" "wal_ok crc w1 (?segs @ [(?n, [])])"
    "lc_directory (wal_config w1) = dir" "wal_sequence w1 = wal_sequence w"
    using wal_Open_ok [OF disk(1), of config] disk(3-5) small by (auto simp del: concat_eq_Nil_conv)
  obtain w2 where w2: "wal_Truncate no_faults (wal_sequence w) w1 = (Inr (), w2)" using wal_Truncate_done by blast
  have ok2: "wal_ok crc w2 [(?n, [])]" "wal_config w2 = wal_config w1"
    using truncate_all [OF w1(2), of w2] w1(4) w2 disk(5) by (auto simp: list_all_iff)
  then have "on_disk crc dir (wal_fs w2) [(?n, [])] []" using w1(3) by (simp add: wal_ok_def Let_def)
  from wal_Open_ok [OF this, of config] n1 small obtain w3 where
    w3: "wal_Open crc no_faults (Inr dir) config w2 = (Inr (), w3)" "wal_ok crc w3 [(?n + 1, [])]" "lc_directory (wal_config w3) = dir" "wal_sequence w3 = 0"
    by auto
  have "unat (wal_file_number w3) + 1 < 10 ^ 6" using w3(2) n2 small by (simp add: wal_ok_def Let_def)
  from Append_done [OF w3(2) assms(5,6) this, of now] w3(3,4) obtain w4 segs4 where
    w4: "Append crc no_faults now opr data w3 = (Inr 1, w4)" "wal_ok crc w4 segs4" "log_of segs4 = [next_record w3 now opr data]"
      "wal_config w4 = wal_config w3" "fst (last segs4) \<le> ?n + 1 + 1" by auto
  have "unat (fst (last segs4)) \<le> unat (?n + 1) + 1"
    using w4(5) small_number_inc [of "?n + 1"] n2 small by (simp add: word_le_nat_alt)
  moreover have "on_disk crc dir (wal_fs w4) segs4 []" "segs4 \<noteq> []" using w4(2,4) w3(3) by (simp_all add: wal_ok_def Let_def)
  ultimately obtain w5 segs5 where w5: "wal_Open crc no_faults (Inr dir) config w4 = (Inr (), w5)" "wal_ok crc w5 segs5"
    "log_of segs5 = [next_record w3 now opr data]" "wal_sequence w5 = 1"
    using wal_Open_ok [of crc dir w4 segs4 "[]" config] n2 small w4(3) w3(4)
    by (fastforce simp: next_record_def)
  have "1 < wal_sequence w + 1"
    using unat_inc [OF assms(3)] disk(1,4,5) last_in_set [OF disk(4)] unat_gt_0 [of "wal_sequence w"]
    by (auto simp: word_less_nat_alt on_disk_def log_ok_def list_all_iff record_ok_def simp del: set_concat unat_gt_0)
  then have "\<not> wal_sequence w + 1 \<le> 1" by (simp add: not_le)
  then have "ReplayValidated crc no_faults (wal_sequence w + 1) callback w5 s = (Inr 0, s)" for callback s
    unfolding ReplayValidated_ok [OF w5(2)] using w3(4) w5(3,4) by (simp add: replay_spec_def next_record_def)
  then show ?thesis using w1(1) w2 w3(1) w4(1) w5(1) by blast
qed


subsection \<open>An example run\<close>

definition example_config :: WalLogConfig where
  "example_config = \<lparr>lc_directory = ''wal'', lc_max_file_size = 1000, lc_sync_on_write = True, lc_sync_interval_ms = 0, lc_include_vectors = True\<rparr>"

definition example_closed :: WriteAheadLog where
  "example_closed = \<lparr>wal_config = example_config, wal_fs = [], wal_fd = None, wal_sequence = 0, wal_file_size = 0, wal_file_number = 0,
     wal_files = [], wal_open = False, wal_needs_sync = False, wal_sync_running = False\<rparr>"

definition example_record :: WalRecord where
  "example_record = \<lparr>wr_sequence = 1, wr_timestamp_us = 5, wr_op = kVecDel, wr_payload = [1, 2]\<rparr>"

definition crc_zero :: "bytes \<Rightarrow> u32" where
  "crc_zero bs = 0"

lemma op_roundtrip_kVecDel: "op_of_code (op_code kVecDel) = kVecDel"
  by (simp add: op_of_code_def)

lemma example_open:
  "\<exists>w. wal_run crc_zero ''wal'' [] w \<and> wal_ok crc_zero w [(1, [])] \<and> lc_directory (wal_config w) = ''wal'' \<and> wal_sequence w = 0 \<and>
     wal_file_number w = 1"
proof -
  have empty: "um_wf (wal_fs example_closed)" "segment_numbers ''wal'' (wal_fs example_closed) = []"
    by (simp_all add: example_closed_def segment_numbers_def dir_names_def List.map_filter_def)
  from wal_Open_ok [OF on_disk_empty [OF empty, of crc_zero], of example_config] obtain w where
    w: "wal_Open crc_zero no_faults (Inr ''wal'') example_config example_closed = (Inr (), w)"
      "wal_ok crc_zero w [(1, [])]" "lc_directory (wal_config w) = ''wal''" "wal_sequence w = 0"
    by auto
  then show ?thesis using run_open [OF empty w(1)] by (intro exI [of _ w]) (simp add: wal_ok_def Let_def)
qed

lemma example_run:
  "\<exists>w segs. wal_run crc_zero ''wal'' [LAppend example_record] w \<and> wal_ok crc_zero w segs \<and> log_of segs = [example_record] \<and>
     wal_sequence w = 1 \<and> unat (wal_file_number w) \<le> 2 \<and> lc_directory (wal_config w) = ''wal''"
proof -
  obtain w where run: "wal_run crc_zero ''wal'' [] w" and w: "wal_ok crc_zero w [(1, [])]" "wal_ok crc_zero w [(1, [])]"
      "lc_directory (wal_config w) = ''wal''" "wal_sequence w = 0" and num: "wal_file_number w = 1"
    using example_open by blast
  have rec: "next_record w 5 kVecDel [1, 2] = example_record" by (simp add: next_record_def w(4) example_record_def)
  from Append_done [OF w(2) op_roundtrip_kVecDel, of "[1, 2]" 5] w(4) num rec obtain w' segs' where
    w': "Append crc_zero no_faults 5 kVecDel [1, 2] w = (Inr 1, w')" "wal_ok crc_zero w' segs'" "log_of segs' = [example_record]"
      "wal_config w' = wal_config w" "wal_sequence w' = 1" "fst (last segs') \<le> 1 + 1"
    by (auto simp: kMaxWalRecordBodySize_def kWalRecordHeaderSize_def)
  have "wal_run crc_zero ''wal'' ([] @ [LAppend (next_record w 5 kVecDel [1, 2])]) w'"
    by (rule run_append [OF run rotation_ok_no_faults op_roundtrip_kVecDel _ _ w'(1)]) (simp_all add: num)
  moreover have "unat (wal_file_number w') \<le> 2" using w'(2,6) by (simp add: wal_ok_def Let_def word_le_nat_alt)
  ultimately show ?thesis using w'(2-5) w(3) by (intro exI [of _ w'] exI [of _ segs']) (simp add: rec)
qed

theorem wal_refines_log_witness:
  "\<exists>w l. wal_run crc_zero ''wal'' [LAppend example_record] w \<and> log_run [LAppend example_record] l \<and> consecutive None l \<and>
     ReplayValidated crc_zero no_faults 0 (\<lambda>r rs. (None, rs @ [r])) w [] = replay_spec 0 (wal_sequence w) (\<lambda>r rs. (None, rs @ [r])) l []"
proof -
  obtain w where w: "wal_run crc_zero ''wal'' [LAppend example_record] w" using example_run by blast
  from wal_refines_log [where 's = "WalRecord list", OF w, of example_config] obtain l where
    "log_run [LAppend example_record] l \<and> consecutive None l \<and>
     (\<forall>from callback (s :: WalRecord list). ReplayValidated crc_zero no_faults from callback w s = replay_spec from (wal_sequence w) callback l s)"
    by (elim exE conjE) (rule that, intro conjI)
  then show ?thesis using w by (intro exI [of _ w] exI [of _ l]) simp
qed


theorem wal_acknowledged_write_lost_witness:
  "\<exists>w w3 w4 w5. wal_run crc_zero ''wal'' [LAppend example_record] w \<and>
     Append crc_zero no_faults 9 kVecDel [7] w3 = (Inr 1, w4) \<and>
     wal_Open crc_zero no_faults (Inr ''wal'') example_config w4 = (Inr (), w5) \<and>
     ReplayValidated crc_zero no_faults 2 (\<lambda>r rs. (None, rs @ [r])) w5 [] = (Inr 0, [])"
proof -
  obtain w segs where w: "wal_run crc_zero ''wal'' [LAppend example_record] w" "wal_ok crc_zero w segs" "log_of segs = [example_record]"
    "wal_sequence w = 1" "unat (wal_file_number w) \<le> 2" using example_run by blast
  have "replayed_log crc_zero w \<noteq> []" "wal_sequence w \<noteq> - 1" using replayed_log_ok [OF w(2)] w(3,4) by simp_all
  moreover have "unat (wal_file_number w) + 5 < 10 ^ 6" using w(5) by simp
  moreover have "length [7 :: u8] \<le> kMaxWalRecordBodySize - kWalRecordHeaderSize"
    by (simp add: kMaxWalRecordBodySize_def kWalRecordHeaderSize_def)
  ultimately have "\<exists>w1 w2 w3 w4 w5.
    wal_Open crc_zero no_faults (Inr ''wal'') example_config w = (Inr (), w1) \<and>
    wal_Truncate no_faults (wal_sequence w) w1 = (Inr (), w2) \<and>
    wal_Open crc_zero no_faults (Inr ''wal'') example_config w2 = (Inr (), w3) \<and>
    Append crc_zero no_faults 9 kVecDel [7] w3 = (Inr 1, w4) \<and>
    wal_Open crc_zero no_faults (Inr ''wal'') example_config w4 = (Inr (), w5) \<and>
    (\<forall>callback (s :: WalRecord list). ReplayValidated crc_zero no_faults (wal_sequence w + 1) callback w5 s = (Inr 0, s))"
    by (intro wal_acknowledged_write_lost [OF w(1) _ _ _ op_roundtrip_kVecDel])
  then show ?thesis using w(1,4) by (elim exE conjE) (intro exI conjI, assumption+, simp)
qed

subsection \<open>A crash inside a rotation\<close>

lemma ScanExistingFiles_torn_header:
  assumes "on_disk crc dir fs segs []" "segs \<noteq> []" "unat (fst (last segs)) + 1 < 10 ^ 6" "length p < kWalFileHeaderSize"
    and "dir = lc_directory (wal_config w)" "wal_fs w = um_set (MakeFilePath dir (fst (last segs) + 1)) p fs"
  shows "\<exists>e w'. ScanExistingFiles crc no_faults w = (Inl e, w') \<and> err_code e = kWalReadError"
proof -
  let ?n = "fst (last segs) + 1" and ?w = "w\<lparr>wal_files := [], wal_sequence := 0, wal_file_number := 0\<rparr>"
  have d: "um_wf fs" "numbered segs" "seg_files crc dir fs segs []" "log_ok (log_of segs)"
    and all: "\<And>m. \<lbrakk>unat m < 10 ^ 6; um_find fs (MakeFilePath dir m) \<noteq> None\<rbrakk> \<Longrightarrow> m \<in> fst ` set segs"
    using assms(1) by (auto simp: on_disk_def)
  have n: "unat ?n < 10 ^ 6" using small_number_inc [OF assms(3)] assms(3) by simp
  have above: "m < ?n" if "m \<in> fst ` set segs" for m
    using numbered_last [OF d(2) that] small_number_inc [OF assms(3)] by (auto intro: le_less_trans)
  then have fresh: "?n \<notin> fst ` set segs" by blast
  have there: "unat m < 10 ^ 6 \<and> MakeFilePath dir m \<in> fst ` set fs \<longleftrightarrow> m \<in> fst ` set segs" for m
    using all [of m] seg_files_there [OF d(3), of m] numbered_bound [OF d(2), of m] by (metis um_find_None)
  have "m \<in> set (segment_numbers dir (wal_fs w)) \<longleftrightarrow> m \<in> set (map fst segs @ [?n])" for m
    using there [of m] n unfolding set_segment_numbers assms(6) um_keys_set by (auto simp: MakeFilePath_inj)
  then have set: "set (segment_numbers dir (wal_fs w)) = set (map fst segs @ [?n])" by blast
  moreover have "sorted (map fst segs @ [?n])" "distinct (map fst segs @ [?n])"
    using d(2) above fresh by (auto simp: numbered_def strict_sorted_iff sorted_append less_imp_le)
  moreover have "sorted (segment_numbers dir (wal_fs w))" by (simp add: segment_numbers_def)
  moreover have "distinct (segment_numbers dir (wal_fs w))" using d(1) by (intro distinct_segment_numbers) (simp add: assms(6))
  ultimately have numbers: "segment_numbers dir (wal_fs w) = map fst segs @ [?n]" by (metis sorted_distinct_set_unique)
  have start: "seg_files crc dir (wal_fs ?w) segs []" "dir = lc_directory (wal_config ?w)"
    "\<forall>r \<in> set (log_of segs). wal_sequence ?w < wr_sequence r" "\<forall>m \<in> fst ` set segs. wal_file_number ?w \<le> m"
    using d(3,4) seg_files_other(1) [OF d(2) n fresh] assms(5,6) by (auto simp: log_ok_def list_all_iff record_ok_def word_neq_0_conv)
  have recs: "list_all record_ok (log_of segs)" "consecutive None (log_of segs)" using d(4) by (simp_all add: log_ok_def)
  obtain w1 where w1: "scan_files crc no_faults (map fst segs @ [?n]) None ?w = scan_files crc no_faults [?n] (last_seq None (log_of segs)) w1"
    "same_handle ?w w1" "um_find (wal_fs w1) (MakeFilePath dir ?n) = um_find (wal_fs ?w) (MakeFilePath dir ?n)"
    using scan_files_segments [OF start(1) _ d(2) start(2) recs torn_tail_Nil no_faults_all start(3,4), of "[?n]"] n fresh by auto
  have "ScanExistingFiles crc no_faults w = scan_files crc no_faults [?n] (last_seq None (log_of segs)) w1"
    using numbers w1(1) \<open>distinct (segment_numbers dir (wal_fs w))\<close> assms(5) by (simp add: ScanExistingFiles_def Let_def)
  moreover have "um_find (wal_fs w1) (MakeFilePath dir ?n) = Some p" "lc_directory (wal_config w1) = dir"
    using w1(2,3) assms(5,6) by (simp_all add: same_handle_def)
  ultimately show ?thesis
    using assms(4) by (simp add: ValidateFileHeader_def MakeErrorContext_def)
qed

text \<open>
  C35. A rotation that stops before the new segment has its whole header leaves a file that no later
  start accepts: when the header is not written, \<^verbatim>\<open>RotateFile\<close> reports the error and keeps the short
  file, and with any proper prefix of the header in the new file every call of \<^verbatim>\<open>Open\<close> fails, although
  no record was in it.
\<close>

theorem wal_torn_segment_header_blocks_open:
  assumes "wal_run crc dir es w" "unat (wal_file_number w) + 1 < 10 ^ 6"
    and "fl FsyncSegment = None" "fl CloseSegment = None" "fl CreateSegment = None" "fl WriteFileHeaderCall = Some (k, err)"
  shows "\<exists>e w1 e2 w2. RotateFile fl w = (Inl e, w1) \<and> wal_Open crc no_faults (Inr dir) config w1 = (Inl e2, w2) \<and>
    err_code e2 = kWalReadError"
proof -
  obtain segs where w: "wal_ok crc w segs" "lc_directory (wal_config w) = dir" using wal_run_log [OF assms(1)] by blast
  have disk: "on_disk crc dir (wal_fs w) segs []" "wal_file_number w = fst (last segs)" "segs \<noteq> []"
    using w by (simp_all add: wal_ok_def Let_def)
  let ?n = "fst (last segs) + 1"
  have small: "unat (fst (last segs)) + 1 < 10 ^ 6" using assms(2) disk(2) by simp
  have n: "unat ?n < 10 ^ 6" using small_number_inc [OF small] small by simp
  have "m < ?n" if "m \<in> fst ` set segs" for m
    using numbered_last [of segs m] disk(1) that small_number_inc [OF small] by (auto simp: on_disk_def intro: le_less_trans)
  then have free: "um_find (wal_fs w) (MakeFilePath dir ?n) = None"
    using on_disk_new_segment(1) [OF disk(1) _ n] by blast
  have next_n: "next_segment dir (wal_fs w) (wal_file_number w) = (?n, Some (MakeFilePath dir ?n))"
    using free small_number_inc [OF small] by (simp add: next_segment.simps [of dir] disk(2))
  have close: "rotate_close fl w = (Inr (), w\<lparr>wal_fd := None\<rparr>)"
    using assms(3,4) by (cases "wal_fd w") (auto simp: rotate_close_def)
  obtain e w1 where rot: "RotateFile fl w = (Inl e, w1)" "wal_config w1 = wal_config w"
    "wal_fs w1 = um_set (MakeFilePath dir ?n) (partial_write k file_header) (wal_fs w)"
    using assms(5,6) w(2) unfolding RotateFile_def close
    by (simp add: next_n WriteFileHeader_def wal_write_def fs_append_def Let_def)
  let ?w = "(wal_Close w1)\<lparr>wal_config := config\<lparr>lc_directory := dir\<rparr>\<rparr>"
  have "length (partial_write k file_header) < kWalFileHeaderSize" by (simp add: partial_write_def kWalFileHeaderSize_def min_def)
  then obtain e2 w2 where "ScanExistingFiles crc no_faults ?w = (Inl e2, w2)" "err_code e2 = kWalReadError"
    using ScanExistingFiles_torn_header [OF disk(1,3) small, of "partial_write k file_header" ?w] rot(3) by (auto simp: wal_Close_def)
  then have "wal_Open crc no_faults (Inr dir) config w1 = (Inl e2, w2)" by (simp add: wal_Open_def Let_def)
  then show ?thesis using rot(1) \<open>err_code e2 = kWalReadError\<close> by blast
qed

theorem wal_torn_segment_header_blocks_open_witness:
  "\<exists>w e w1 e2 w2. wal_run crc_zero ''wal'' [LAppend example_record] w \<and>
     RotateFile (\<lambda>c. if c = WriteFileHeaderCall then Some (3, ''No space left on device'') else None) w = (Inl e, w1) \<and>
     wal_Open crc_zero no_faults (Inr ''wal'') example_config w1 = (Inl e2, w2) \<and> err_code e2 = kWalReadError"
proof -
  obtain w where w: "wal_run crc_zero ''wal'' [LAppend example_record] w" "unat (wal_file_number w) \<le> 2" using example_run by blast
  let ?fl = "\<lambda>c. if c = WriteFileHeaderCall then Some (3, ''No space left on device'') else None"
  have "\<exists>e w1 e2 w2. RotateFile ?fl w = (Inl e, w1) \<and>
     wal_Open crc_zero no_faults (Inr ''wal'') example_config w1 = (Inl e2, w2) \<and> err_code e2 = kWalReadError"
    by (rule wal_torn_segment_header_blocks_open [OF w(1)]) (use w(2) in simp_all)
  then show ?thesis using w(1) by blast
qed

end
