(* ===== verification/Recovery.thy ===== *)
theory Recovery
  imports Dispatcher WalRecovery
begin

text \<open>
  Durability of the write commands: what the dispatcher acknowledged is rebuilt by replaying the
  log.  The theory connects the handlers of \<open>Dispatcher\<close> with the log of \<open>WalRecovery\<close>.
\<close>

subsection \<open>Parts of the context\<close>

definition data_of :: "'a HandlerContext \<Rightarrow> VectorStore option \<times> MetadataStore option \<times> 'a SimilarityEngine option \<times> u64 \<times> u64 \<times> Config option" where
  "data_of s = (hc_vector_store s, hc_metadata_store s, hc_similarity_engine s, hc_vector_generation s, hc_metadata_generation s, hc_config s)"

definition events_of :: "'a HandlerContext \<Rightarrow> EventStore option \<times> CoOccurrenceIndex option \<times> Config option" where
  "events_of s = (hc_event_store s, hc_co_index s, hc_config s)"

lemma frame_simps [simp]:
  "data_of (s\<lparr>hc_wal := w\<rparr>) = data_of s" "data_of (s\<lparr>hc_read_only := b\<rparr>) = data_of s" "data_of (s\<lparr>hc_cache := c\<rparr>) = data_of s"
  "data_of (s\<lparr>hc_event_store := es\<rparr>) = data_of s" "data_of (s\<lparr>hc_co_index := co\<rparr>) = data_of s"
  "events_of (s\<lparr>hc_wal := w\<rparr>) = events_of s" "events_of (s\<lparr>hc_read_only := b\<rparr>) = events_of s" "events_of (s\<lparr>hc_cache := c\<rparr>) = events_of s"
  "events_of (s\<lparr>hc_vector_store := vs\<rparr>) = events_of s" "events_of (s\<lparr>hc_metadata_store := ms\<rparr>) = events_of s"
  "events_of (s\<lparr>hc_similarity_engine := e\<rparr>) = events_of s" "events_of (s\<lparr>hc_vector_generation := g\<rparr>) = events_of s"
  "events_of (s\<lparr>hc_metadata_generation := g\<rparr>) = events_of s"
  by (simp_all add: data_of_def events_of_def)

lemma cache_simps [simp]:
  "data_of (invalidate_item env i s) = data_of s" "events_of (invalidate_item env i s) = events_of s"
  "hc_wal (invalidate_item env i s) = hc_wal s" "hc_read_only (invalidate_item env i s) = hc_read_only s"
  "data_of (clear_cache s) = data_of s" "events_of (clear_cache s) = events_of s"
  "hc_wal (clear_cache s) = hc_wal s" "hc_read_only (clear_cache s) = hc_read_only s"
  by (simp_all add: invalidate_item_def clear_cache_def)

lemma AppendToWal_frame:
  "AppendToWal env call cmd s = (r, s') \<Longrightarrow> data_of s' = data_of s \<and> events_of s' = events_of s \<and> hc_cache s' = hc_cache s"
  by (auto simp: AppendToWal_def split: option.splits if_splits prod.splits sum.splits)

subsection \<open>Events cannot fail during a replay\<close>

definition es_scores :: "EventStore \<Rightarrow> bool" where
  "es_scores es \<longleftrightarrow> (\<forall>ctx. list_all score_ok (GetEvents ctx es))"

text \<open>What the handlers rely on: the stores satisfy their invariants and there is a configuration.\<close>

definition hc_ok :: "'a Env \<Rightarrow> 'a HandlerContext \<Rightarrow> bool" where
  "hc_ok env s \<longleftrightarrow> exp2_ok (env_exp2 env) \<and>
     (\<exists>c. hc_config s = Some c \<and> options_ok (ingest_options (cfg_events c)) \<and> wc_include_vectors (cfg_wal c)) \<and>
     pred_option (\<lambda>es. es_inv es \<and> es_scores es) (hc_event_store s) \<and> pred_option co_inv (hc_co_index s)"

lemma hc_ok_events_of: "events_of s = events_of t \<Longrightarrow> hc_ok env s = hc_ok env t"
  by (simp add: hc_ok_def events_of_def)

lemma AddEvent_ok:
  assumes inv: "es_inv es" "es_scores es"
  shows "\<exists>r es'. AddEventAndGetPrior ctx item score type ts clk es = Some (r, es') \<and> es_inv es' \<and> es_scores es' \<and>
    (\<forall>i. r = Inr i \<and> \<not> ir_deduped i \<longrightarrow> score_ok (ir_stored_event i) \<and> list_all score_ok (ir_prior_events i))"
  using inv(1)
proof (cases rule: AddEventAndGetPrior_cases [where ctx = ctx and item = item and score = score and type = type and timestamp = ts and clk = clk,
      case_names invalid duplicate stored])
  case (invalid e)
  then show ?thesis using inv by simp
next
  case (duplicate s2)
  then have "GetEvents c (s2\<lparr>es_deduped_events := n\<rparr>) = GetEvents c es" for c n
    using es_dedup_frame [OF duplicate(2)] by (simp add: GetEvents_def)
  then show ?thesis using duplicate inv es_inv_AddEventAndGetPrior [OF inv(1) duplicate(3)] by (simp add: es_scores_def)
next
  case (stored s2 rb)
  have "type = DEL \<or> 0 \<le> score \<and> score \<le> 100"
    using stored(1) by (auto simp: es_validate_def kMinEventScore_def kMaxEventScore_def split: if_splits)
  then have ev: "score_ok (stored_event item score type ts clk)" by (auto simp: stored_event_def score_ok_def)
  have "list_all score_ok (GetEvents c (es_appended ctx rb s2))" for c
  proof (cases "c = ctx")
    case True
    then show ?thesis using stored(7) inv(2) ev set_last_n [of "es_capacity es"] by (fastforce simp: es_scores_def list_all_iff)
  next
    case False
    have "GetEvents c s2 = GetEvents c es" using es_dedup_frame [OF stored(2)] by (simp add: GetEvents_def)
    then show ?thesis
      using es_with_room_GetEvents [OF stored(3), of c ctx] inv(2) False by (auto simp: es_appended_other es_scores_def)
  qed
  then show ?thesis using stored(5,6) inv(2) ev by (auto simp: es_scores_def)
qed

lemma update_index_ok:
  assumes "hc_ok env s" "score_ok ev" "list_all score_ok prior"
  shows "\<exists>s'. update_index env prior ev s = Some s' \<and> hc_ok env s' \<and> data_of s' = data_of s \<and> hc_wal s' = hc_wal s \<and>
    hc_read_only s' = hc_read_only s"
proof (cases "hc_co_index s")
  case None
  then show ?thesis using assms by (simp add: update_index_def)
next
  case (Some co)
  obtain c where c: "hc_config s = Some c" "options_ok (ingest_options (cfg_events c))" using assms(1) by (auto simp: hc_ok_def)
  have "exp2_ok (env_exp2 env)" "co_inv co" using assms(1) Some by (auto simp: hc_ok_def)
  then obtain co' where "ApplyIngestedEvent (env_exp2 env) prior ev (ingest_options (cfg_events c)) co = Some co'" "co_inv co'"
    using co_inv_ApplyIngestedEvent [OF _ c(2) assms(2,3)] by blast
  then show ?thesis using assms(1) Some c by (simp add: update_index_def hc_ok_def)
qed

lemma count_duplicate_ok:
  assumes ok: "hc_ok env s" and es: "hc_event_store s = Some es"
  shows "\<exists>r s'. count_duplicate call cmd type ev es s = Some (r, s') \<and> hc_ok env s' \<and> data_of s' = data_of s \<and> hc_wal s' = hc_wal s"
proof -
  have "es_inv es" "es_scores es" using ok es by (auto simp: hc_ok_def)
  from AddEvent_ok [OF this, of "cmd_ctx cmd" "cmd_id cmd" "cmd_score cmd" type "ev_timestamp ev" "call_clock call"] show ?thesis
    using ok by (auto simp: count_duplicate_def hc_ok_def Let_def)
qed

lemma apply_event_ok:
  assumes ok: "hc_ok env s" and es: "es_inv es" "es_scores es"
  shows "\<exists>r s'. apply_event env call cmd ev es s = Some (r, s') \<and> hc_ok env s' \<and> data_of s' = data_of s \<and> hc_wal s' = hc_wal s"
proof -
  obtain r es' where add: "AddEventAndGetPrior (cmd_ctx cmd) (cmd_id cmd) (ev_score ev) (ev_type ev) (ev_timestamp ev) (call_clock call) es =
      Some (r, es')" "es_inv es'" "es_scores es'"
    "\<And>i. r = Inr i \<Longrightarrow> \<not> ir_deduped i \<Longrightarrow> score_ok (ir_stored_event i) \<and> list_all score_ok (ir_prior_events i)"
    using AddEvent_ok [OF es] by metis
  have ok': "hc_ok env (s\<lparr>hc_event_store := Some es'\<rparr>)" using ok add(2,3) by (simp add: hc_ok_def)
  show ?thesis
  proof (cases "\<exists>i. r = Inr i \<and> \<not> ir_deduped i")
    case True
    then obtain i where i: "r = Inr i" "\<not> ir_deduped i" by blast
    then obtain s' where "update_index env (ir_prior_events i) (ir_stored_event i) (s\<lparr>hc_event_store := Some es'\<rparr>) = Some s'"
        "hc_ok env s'" "data_of s' = data_of s" "hc_wal s' = hc_wal s"
      using update_index_ok [OF ok', of "ir_stored_event i" "ir_prior_events i"] add(4) by auto
    then show ?thesis using i add(1) hc_ok_events_of [of "invalidate_item env (cmd_id cmd) s'" s' env]
      by (simp add: apply_event_def)
  next
    case False
    have "hc_ok env (s\<lparr>hc_event_store := Some es', hc_read_only := True\<rparr>)"
      using ok' hc_ok_events_of [of "s\<lparr>hc_event_store := Some es', hc_read_only := True\<rparr>" "s\<lparr>hc_event_store := Some es'\<rparr>"] by simp
    then show ?thesis using False add(1) by (cases r) (auto simp: apply_event_def)
  qed
qed

lemma ResolveTimestamp_idem [simp]: "ResolveTimestamp clk (ResolveTimestamp clk ts) = ResolveTimestamp clk ts"
  by (simp add: ResolveTimestamp_def)

text \<open>A prepared event is ingested as it was prepared.\<close>

lemma prepared_ingest:
  assumes inv: "es_inv es" and prep: "PrepareEvent ctx item score type ts clk es = Inr p"
  shows "\<exists>i es'. AddEventAndGetPrior ctx item (if pe_deduped p then score else ev_score (pe_event p)) (ev_type (pe_event p))
      (ev_timestamp (pe_event p)) clk es = Some (Inr i, es') \<and> ir_deduped i = pe_deduped p" "ev_type (pe_event p) = type"
    "es_validate ctx item score type = Inr ()" "ev_timestamp (pe_event p) = ResolveTimestamp clk ts"
    "ev_score (pe_event p) = (if type = DEL then 0 else score)"
proof -
  show ty: "ev_type (pe_event p) = type" and val: "es_validate ctx item score type = Inr ()"
    and time: "ev_timestamp (pe_event p) = ResolveTimestamp clk ts" and sc: "ev_score (pe_event p) = (if type = DEL then 0 else score)"
    using prep by (auto simp: PrepareEvent_def Let_def split: sum.splits)
  let ?sc = "if pe_deduped p then score else ev_score (pe_event p)"
  have "es_validate ctx item ?sc type = Inr ()" using val sc by (auto simp: es_validate_def split: if_splits)
  then have "\<exists>q. PrepareEvent ctx item ?sc type (ResolveTimestamp clk ts) clk es = Inr q \<and> pe_deduped q = pe_deduped p"
    using prep sc by (cases p; cases type) (auto simp: PrepareEvent_def Let_def split: sum.splits option.splits)
  then show "\<exists>i es'. AddEventAndGetPrior ctx item ?sc (ev_type (pe_event p)) (ev_timestamp (pe_event p)) clk es = Some (Inr i, es') \<and>
      ir_deduped i = pe_deduped p"
    using PrepareEvent_agrees [OF inv, of ctx item ?sc type "ResolveTimestamp clk ts" clk] by (auto simp: ty time)
qed

definition command_time :: "Command \<Rightarrow> u64" where
  "command_time cmd = (case cmd_timestamp cmd of None \<Rightarrow> 0 | Some t \<Rightarrow> t)"

lemma HandleEvent_None:
  assumes "hc_wal s = None" "hc_event_store s = Some es" "event_of_code (cmd_event_type cmd) = Some type"
    and "PrepareEvent (cmd_ctx cmd) (cmd_id cmd) (cmd_score cmd) type (command_time cmd) (call_clock call) es = Inr p"
  shows "HandleEvent env call cmd s =
    (if pe_deduped p then count_duplicate call cmd type (pe_event p) es s else apply_event env call cmd (pe_event p) es s)"
  using assms by (simp add: HandleEvent_def command_time_def logged_def AppendToWal_def Let_def)

lemma HandleEvent_unlogged:
  assumes ok: "hc_ok env s" and wal: "hc_wal s = None" and es: "hc_event_store s = Some es"
    and ty: "event_of_code (cmd_event_type cmd) = Some type" and val: "es_validate (cmd_ctx cmd) (cmd_id cmd) (cmd_score cmd) type = Inr ()"
  shows "\<exists>s'. HandleEvent env call cmd s = Some (Inr (FormatOK ''EVENT''), s') \<and> hc_ok env s' \<and> data_of s' = data_of s \<and>
    hc_wal s' = None \<and> hc_event_store s' \<noteq> None"
proof -
  have inv: "es_inv es" "es_scores es" using ok es by (auto simp: hc_ok_def)
  obtain p where p: "PrepareEvent (cmd_ctx cmd) (cmd_id cmd) (cmd_score cmd) type (command_time cmd) (call_clock call) es = Inr p"
    using val by (auto simp: PrepareEvent_def Let_def)
  note ing = prepared_ingest [OF inv(1) p]
  note eq = HandleEvent_None [OF wal es ty p]
  show ?thesis
  proof (cases "pe_deduped p")
    case True
    obtain r s' where h: "count_duplicate call cmd type (pe_event p) es s = Some (r, s')" "hc_ok env s'" "data_of s' = data_of s" "hc_wal s' = hc_wal s"
      using count_duplicate_ok [OF ok es] by blast
    moreover have "r = Inr (FormatOK ''EVENT'') \<and> hc_event_store s' \<noteq> None" using h(1) ing(1,2) True by (auto simp: count_duplicate_def)
    ultimately show ?thesis using eq True wal by auto
  next
    case False
    obtain r s' where h: "apply_event env call cmd (pe_event p) es s = Some (r, s')" "hc_ok env s'" "data_of s' = data_of s" "hc_wal s' = hc_wal s"
      using apply_event_ok [OF ok inv] by blast
    moreover have "r = Inr (FormatOK ''EVENT'') \<and> hc_event_store s' \<noteq> None"
    proof -
      obtain i es' where add: "AddEventAndGetPrior (cmd_ctx cmd) (cmd_id cmd) (ev_score (pe_event p)) (ev_type (pe_event p))
          (ev_timestamp (pe_event p)) (call_clock call) es = Some (Inr i, es')" "\<not> ir_deduped i" using ing(1) False by auto
      have "hc_event_store s'' \<noteq> None" if "update_index env (ir_prior_events i) (ir_stored_event i) (s\<lparr>hc_event_store := Some es'\<rparr>) = Some s''" for s''
        using that by (auto simp: update_index_def bind_eq_Some_conv split: option.splits)
      then show ?thesis using h(1) add by (auto simp: apply_event_def bind_eq_Some_conv invalidate_item_def)
    qed
    ultimately show ?thesis using eq False wal by auto
  qed
qed

subsection \<open>The other commands depend on the data only\<close>

text \<open>The same step from two contexts with the same data.\<close>

definition outcome :: "'a handled \<Rightarrow> _" where
  "outcome x = map_option (\<lambda>(r, s). (r, data_of s)) x"

definition leaves_events :: "'a handled \<Rightarrow> 'a HandlerContext \<Rightarrow> bool" where
  "leaves_events x s \<longleftrightarrow> (\<forall>r s'. x = Some (r, s') \<longrightarrow> events_of s' = events_of s \<and> hc_wal s' = hc_wal s)"

lemma data_of_eqs:
  assumes "data_of s = data_of t"
  shows "hc_vector_store t = hc_vector_store s" "hc_metadata_store t = hc_metadata_store s" "hc_similarity_engine t = hc_similarity_engine s"
    "hc_vector_generation t = hc_vector_generation s" "hc_metadata_generation t = hc_metadata_generation s" "hc_config t = hc_config s"
  using assms by (simp_all add: data_of_def)

lemma apply_vecset_same:
  assumes "data_of s = data_of t"
  shows "outcome (apply_vecset env cmd vs s) = outcome (apply_vecset env cmd vs t)" "leaves_events (apply_vecset env cmd vs s) s"
proof -
  show "outcome (apply_vecset env cmd vs s) = outcome (apply_vecset env cmd vs t)"
  proof (cases "SetVector (env_impl env) (cmd_id cmd) (map f32_value (cmd_vector cmd)) False vs")
    case None
    then show ?thesis by (simp add: apply_vecset_def)
  next
    case (Some p)
    obtain r vs' where "p = (r, vs')" by (cases p)
    then show ?thesis using Some data_of_eqs [OF assms]
      by (cases r; cases "cmd_metadata cmd"; cases "notify_added env (cmd_id cmd) vs' (hc_similarity_engine s)")
         (simp_all add: apply_vecset_def outcome_def, simp_all add: data_of_def)
  qed
  show "leaves_events (apply_vecset env cmd vs s) s"
    by (cases "cmd_metadata cmd") (auto simp: leaves_events_def apply_vecset_def bind_eq_Some_conv Let_def split: sum.split_asm)
qed

lemma apply_vecdel_same:
  assumes "data_of s = data_of t"
  shows "outcome (apply_vecdel env cmd vs i s) = outcome (apply_vecdel env cmd vs i t)" "leaves_events (apply_vecdel env cmd vs i s) s"
proof -
  show "outcome (apply_vecdel env cmd vs i s) = outcome (apply_vecdel env cmd vs i t)"
  proof (cases "DeleteVector (cmd_id cmd) vs")
    case None
    then show ?thesis by (simp add: apply_vecdel_def)
  next
    case (Some p)
    obtain found vs' where "p = (found, vs')" by (cases p)
    then show ?thesis using Some data_of_eqs [OF assms]
      by (cases found; cases "Defragment vs'") (simp_all add: apply_vecdel_def outcome_def, simp_all add: data_of_def)
  qed
  show "leaves_events (apply_vecdel env cmd vs i s) s"
    by (auto simp: leaves_events_def apply_vecdel_def bind_eq_Some_conv Let_def split: if_splits)
qed

lemma apply_metaset_same:
  assumes "data_of s = data_of t"
  shows "outcome (apply_metaset cmd m ms s) = outcome (apply_metaset cmd m ms t)" "leaves_events (apply_metaset cmd m ms s) s"
  using data_of_eqs [OF assms] by (simp_all add: apply_metaset_def outcome_def leaves_events_def) (simp_all add: data_of_def)

subsection \<open>Logged commands\<close>

lemma logged_cases:
  assumes "logged env call cmd k s = Some (r, s')" "hc_wal s = Some w" "\<not> hc_read_only s'" "hc_config s = Some c" "wc_include_vectors (cfg_wal c)"
  obtains seq w' where "Append (env_crc env) (call_faults call) (call_log_time call) (WalOpForCommand cmd) (EncodeCommand cmd) w = (Inr seq, w')"
    "k (s\<lparr>hc_wal := Some w'\<rparr>) = Some (r, s')"
  using assms by (auto simp: logged_def AppendToWal_def split: prod.splits sum.splits)

lemma logged_None [simp]: "hc_wal s = None \<Longrightarrow> logged env call cmd k s = k s"
  by (simp add: logged_def AppendToWal_def)

lemma loggable_types: "loggable cmd \<Longrightarrow> cmd_type cmd \<in> {kEvent, kVecset, kVecdel, kMetaset}"
  by (auto simp: loggable_def split: CommandType.splits)

lemma op_roundtrip: "(\<And>b. op \<noteq> op_other b) \<Longrightarrow> op_of_code (op_code op) = op"
  by (cases op) (simp_all add: op_of_code_def)

lemma op_roundtrip_logged: "op_of_code (op_code (WalOpForCommand cmd)) = WalOpForCommand cmd"
  by (rule op_roundtrip) (simp add: WalOpForCommand_def split: CommandType.split)

lemma decode_logged:
  assumes "loggable cmd"
  shows "DecodeWalRecord (next_record w now (WalOpForCommand cmd) (EncodeCommand cmd)) = Inr (replayed cmd)"
  using loggable_types [OF assms] assms decode_event_put [of cmd "[]"] decode_vecset_put [of cmd] decode_vecdel_put [of cmd]
    decode_metaset_put [of cmd]
  by (auto simp: DecodeWalRecord_def WalOpForCommand_def next_record_def)

definition forget :: "'a handled \<Rightarrow> (unit expected \<times> 'a HandlerContext) option" where
  "forget x = map_option (map_prod (map_sum (\<lambda>e. e) (\<lambda>_. ())) (\<lambda>s. s)) x"

lemma ReplayRecord_logged:
  assumes "loggable cmd"
  shows "ReplayRecord env call (next_record w now (WalOpForCommand cmd) (EncodeCommand cmd)) t = forget (handle_write env call (replayed cmd) t)"
proof -
  have "WalOpForCommand cmd \<noteq> kCoOccurrenceMaintenance" by (simp add: WalOpForCommand_def split: CommandType.split)
  then show ?thesis using decode_logged [OF assms, of w now] by (simp add: ReplayRecord_def forget_def) (simp add: next_record_def)
qed

text \<open>A live context \<open>s\<close> and a context \<open>t\<close> that a replay built; with \<open>exact\<close> also the events agree.\<close>

definition dedup_off :: "'a HandlerContext \<Rightarrow> bool" where
  "dedup_off s = pred_option (\<lambda>es. es_dedup_cache es = None) (hc_event_store s)"

definition sim :: "'a Env \<Rightarrow> bool \<Rightarrow> 'a HandlerContext \<Rightarrow> 'a HandlerContext \<Rightarrow> bool" where
  "sim env exact s t \<longleftrightarrow> data_of s = data_of t \<and> hc_wal t = None \<and> hc_ok env t \<and>
     (hc_event_store s = None \<longleftrightarrow> hc_event_store t = None) \<and> (hc_co_index s = None \<longleftrightarrow> hc_co_index t = None) \<and>
     (exact \<longrightarrow> events_of s = events_of t \<and> dedup_off t)"

lemma sim_frame:
  assumes "sim env exact s t" "data_of s' = data_of t'" "hc_wal t' = None" "events_of s' = events_of s" "events_of t' = events_of t"
  shows "sim env exact s' t'"
  using assms hc_ok_events_of [of t' t env] by (auto simp: sim_def dedup_off_def events_of_def)

definition data_step :: "('a HandlerContext \<Rightarrow> 'a handled) \<Rightarrow> bool" where
  "data_step k \<longleftrightarrow> (\<forall>s t. data_of s = data_of t \<longrightarrow> outcome (k s) = outcome (k t)) \<and> (\<forall>s. leaves_events (k s) s)"

lemma data_steps: "data_step (apply_vecset env cmd vs)" "data_step (apply_vecdel env cmd vs i)" "data_step (apply_metaset cmd m ms)"
  unfolding data_step_def
  by (auto intro: apply_vecset_same(1) apply_vecdel_same(1) apply_metaset_same(1)
      apply_vecset_same(2) [OF refl] apply_vecdel_same(2) [OF refl] apply_metaset_same(2) [OF refl])

lemma data_step_sim:
  assumes k: "data_step k" and sim: "sim env exact s t" and step: "k (s\<lparr>hc_wal := Some w\<rparr>) = Some (r, s')"
  shows "hc_wal s' = Some w \<and> (\<exists>t'. k t = Some (r, t') \<and> sim env exact s' t')"
proof -
  have "data_of (s\<lparr>hc_wal := Some w\<rparr>) = data_of t" using sim by (simp add: sim_def)
  then have "outcome (k (s\<lparr>hc_wal := Some w\<rparr>)) = outcome (k t)" using k unfolding data_step_def by blast
  then obtain t' where t': "k t = Some (r, t')" "data_of s' = data_of t'" using step by (cases "k t") (auto simp: outcome_def)
  have "events_of s' = events_of (s\<lparr>hc_wal := Some w\<rparr>)" "hc_wal s' = hc_wal (s\<lparr>hc_wal := Some w\<rparr>)"
    using k step unfolding data_step_def leaves_events_def by blast+
  moreover have "events_of t' = events_of t" "hc_wal t' = hc_wal t" using k t'(1) unfolding data_step_def leaves_events_def by blast+
  ultimately show ?thesis using t' sim sim_frame [OF sim t'(2)] by (simp add: sim_def)
qed

text \<open>An apply step that fails after its record was accepted makes the server read-only.\<close>

lemma apply_failed:
  "apply_vecset env cmd vs s = Some (Inl e, s') \<Longrightarrow> hc_read_only s'"
  "apply_vecdel env cmd vs i s = Some (Inl e, s') \<Longrightarrow> hc_read_only s'"
proof -
  assume h: "apply_vecset env cmd vs s = Some (Inl e, s')"
  then obtain r vs' where "SetVector (env_impl env) (cmd_id cmd) (map f32_value (cmd_vector cmd)) False vs = Some (r, vs')"
    by (auto simp: apply_vecset_def bind_eq_Some_conv)
  then show "hc_read_only s'" using h by (cases r) (auto simp: apply_vecset_def bind_eq_Some_conv Let_def)
qed (auto simp: apply_vecdel_def bind_eq_Some_conv Let_def split: if_split_asm)

definition append_cmd :: "'a Env \<Rightarrow> Call \<Rightarrow> Command \<Rightarrow> WriteAheadLog \<Rightarrow> u64 expected \<times> WriteAheadLog" where
  "append_cmd env call cmd w = Append (env_crc env) (call_faults call) (call_log_time call) (WalOpForCommand cmd) (EncodeCommand cmd) w"

text \<open>A command leaves the log as it is, or logs one command whose replay has the same effect.\<close>

definition step_logged :: "'a Env \<Rightarrow> bool \<Rightarrow> Call \<Rightarrow> WriteAheadLog \<Rightarrow> 'a HandlerContext \<Rightarrow> 'a HandlerContext \<Rightarrow> bool" where
  "step_logged env exact call w s' t \<longleftrightarrow>
     (\<exists>cmd seq w'. loggable cmd \<and> length (EncodeCommand cmd) < 2 ^ 32 \<and> append_cmd env call cmd w = (Inr seq, w') \<and> hc_wal s' = Some w' \<and>
        (\<forall>call'. \<exists>r t'. handle_write env call' (replayed cmd) t = Some (Inr r, t') \<and> sim env exact s' t'))"

lemma data_command_step:
  assumes sim: "sim env exact s t" and wal: "hc_wal s = Some w" and rw: "\<not> hc_read_only s'"
    and cmd: "loggable cmd" "length (EncodeCommand cmd) < 2 ^ 32" "cmd_type cmd \<noteq> kEvent"
    and step: "handle_write env call cmd s = Some (r, s')"
  shows "s' = s \<or> step_logged env exact call w s' t"
proof -
  obtain c where c: "hc_config s = Some c" "wc_include_vectors (cfg_wal c)" using sim by (auto simp: sim_def hc_ok_def data_of_def)
  have eqs: "data_of s = data_of t" and t: "hc_wal t = None" using sim by (simp_all add: sim_def)
  note eqs = data_of_eqs [OF eqs]
  have logged_step: "step_logged env exact call w s' t"
    if k: "logged env call cmd k s = Some (r, s')" "data_step k" "\<And>u e. k u = Some (Inl e, s') \<Longrightarrow> hc_read_only s'"
      and again: "\<And>call'. handle_write env call' (replayed cmd) t = k t" for k
  proof -
    obtain seq w' where w': "append_cmd env call cmd w = (Inr seq, w')" "k (s\<lparr>hc_wal := Some w'\<rparr>) = Some (r, s')"
      unfolding append_cmd_def by (rule logged_cases [OF k(1) wal rw c])
    then obtain x where "r = Inr x" using k(3) rw by (cases r) auto
    moreover obtain t' where "hc_wal s' = Some w'" "k t = Some (r, t')" "sim env exact s' t'" using data_step_sim [OF k(2) sim w'(2)] by blast
    ultimately show ?thesis unfolding step_logged_def using cmd(1,2) w'(1) again
      by (intro exI [of _ cmd] exI [of _ seq] exI [of _ w']) simp
  qed
  consider "cmd_type cmd = kVecset" | "cmd_type cmd = kVecdel" | "cmd_type cmd = kMetaset" using loggable_types [OF cmd(1)] cmd(3) by blast
  then show ?thesis
  proof cases
    case 1
    have rep: "replayed cmd = new_command\<lparr>cmd_type := kVecset, cmd_id := cmd_id cmd, cmd_dimension := int (length (cmd_vector cmd)),
        cmd_vector := cmd_vector cmd, cmd_metadata := cmd_metadata cmd\<rparr>" using 1 by (simp add: replayed_def)
    have fields: "cmd_id (replayed cmd) = cmd_id cmd" "cmd_vector (replayed cmd) = cmd_vector cmd" "cmd_metadata (replayed cmd) = cmd_metadata cmd"
      by (simp_all add: rep)
    have same: "apply_vecset env (replayed cmd) vs = apply_vecset env cmd vs" for vs by (rule ext) (simp only: apply_vecset_def fields)
    show ?thesis
    proof (cases "\<exists>vs. hc_vector_store s = Some vs \<and> ValidateVector (env_impl env) (cmd_id cmd) (map f32_value (cmd_vector cmd)) vs = Inr ()")
      case True
      then obtain vs where vs: "hc_vector_store s = Some vs" "ValidateVector (env_impl env) (cmd_id cmd) (map f32_value (cmd_vector cmd)) vs = Inr ()"
        by blast
      have "handle_write env call' (replayed cmd) t = apply_vecset env cmd vs t" for call'
        using vs t eqs(1) same by (simp add: rep handle_write_def HandleVecset_def)
      moreover have "logged env call cmd (apply_vecset env cmd vs) s = Some (r, s')"
        using step vs 1 by (simp add: handle_write_def HandleVecset_def)
      ultimately show ?thesis using logged_step [OF _ data_steps(1), of env cmd vs] apply_failed(1) [of env cmd vs _ _ s'] by blast
    next
      case False
      then show ?thesis using step 1 by (auto simp: handle_write_def HandleVecset_def split: option.splits sum.splits)
    qed
  next
    case 2
    have rep: "replayed cmd = new_command\<lparr>cmd_type := kVecdel, cmd_id := cmd_id cmd\<rparr>" using 2 by (simp add: replayed_def)
    have id: "cmd_id (replayed cmd) = cmd_id cmd" by (simp add: rep)
    have same: "apply_vecdel env (replayed cmd) vs i = apply_vecdel env cmd vs i" for vs i by (rule ext) (simp only: apply_vecdel_def id)
    show ?thesis
    proof (cases "\<exists>vs i. hc_vector_store s = Some vs \<and> GetCompactIndex vs (cmd_id cmd) = Some i")
      case True
      then obtain vs i where vs: "hc_vector_store s = Some vs" "GetCompactIndex vs (cmd_id cmd) = Some i" by blast
      have "handle_write env call' (replayed cmd) t = apply_vecdel env cmd vs i t" for call'
        using vs t eqs(1) same by (simp add: rep handle_write_def HandleVecdel_def)
      moreover have "logged env call cmd (apply_vecdel env cmd vs i) s = Some (r, s')"
        using step vs 2 by (simp add: handle_write_def HandleVecdel_def)
      ultimately show ?thesis using logged_step [OF _ data_steps(2), of env cmd vs i] apply_failed(2) [of env cmd vs i _ _ s'] by blast
    next
      case False
      then show ?thesis using step 2 by (auto simp: handle_write_def HandleVecdel_def split: option.splits)
    qed
  next
    case 3
    have rep: "replayed cmd = new_command\<lparr>cmd_type := kMetaset, cmd_id := cmd_id cmd, cmd_metadata := cmd_metadata cmd,
        cmd_filter_expr := (if cmd_metadata cmd = None then cmd_filter_expr cmd else [])\<rparr>" using 3 by (simp add: replayed_def)
    have same: "apply_metaset (replayed cmd) m ms t = apply_metaset cmd m ms t" for m ms by (simp add: rep apply_metaset_def)
    have meta: "command_metadata env (replayed cmd) = command_metadata env cmd" by (simp add: rep command_metadata_def split: option.split)
    show ?thesis
    proof (cases "\<exists>vs ms m. hc_vector_store s = Some vs \<and> hc_metadata_store s = Some ms \<and> GetCompactIndex vs (cmd_id cmd) \<noteq> None \<and>
        command_metadata env cmd = Inr m")
      case True
      then obtain vs ms m where vs: "hc_vector_store s = Some vs" "hc_metadata_store s = Some ms" "GetCompactIndex vs (cmd_id cmd) \<noteq> None"
        "command_metadata env cmd = Inr m" by blast
      have id: "cmd_id (replayed cmd) = cmd_id cmd" "cmd_type (replayed cmd) = kMetaset" by (simp_all add: rep)
      have "handle_write env call' (replayed cmd) t = apply_metaset cmd m ms t" for call'
        using vs t eqs(1,2) same meta id by (simp add: handle_write_def HandleMetaset_def del: not_None_eq)
      moreover have "logged env call cmd (apply_metaset cmd m ms) s = Some (r, s')"
        using step vs 3 by (simp add: handle_write_def HandleMetaset_def del: not_None_eq)
      moreover have "hc_read_only s'" if "apply_metaset cmd m ms u = Some (Inl e, s')" for u e using that by (simp add: apply_metaset_def)
      ultimately show ?thesis using logged_step [OF _ data_steps(3), of cmd m ms] by blast
    next
      case False
      then show ?thesis using step 3 by (auto simp: handle_write_def HandleMetaset_def split: option.splits sum.splits if_splits)
    qed
  qed
qed

subsection \<open>Events\<close>

lemma apply_event_frame:
  assumes "apply_event env call cmd ev es s = Some (r, s')"
  shows "data_of s' = data_of s" "hc_wal s' = hc_wal s" "hc_event_store s' \<noteq> None" "hc_co_index s' = None \<longleftrightarrow> hc_co_index s = None"
proof -
  have upd: "data_of u' = data_of u \<and> hc_wal u' = hc_wal u \<and> hc_event_store u' = hc_event_store u \<and> (hc_co_index u' = None \<longleftrightarrow> hc_co_index u = None)"
    if "update_index env prior e u = Some u'" for u u' :: "'a HandlerContext" and prior e
    using that by (auto simp: update_index_def bind_eq_Some_conv split: option.splits)
  obtain res es' where add: "AddEventAndGetPrior (cmd_ctx cmd) (cmd_id cmd) (ev_score ev) (ev_type ev) (ev_timestamp ev) (call_clock call) es =
      Some (res, es')" using assms by (auto simp: apply_event_def bind_eq_Some_conv)
  have "data_of s' = data_of s \<and> hc_wal s' = hc_wal s \<and> hc_event_store s' \<noteq> None \<and> (hc_co_index s' = None \<longleftrightarrow> hc_co_index s = None)"
  proof (cases "\<exists>i. res = Inr i \<and> \<not> ir_deduped i")
    case True
    then obtain i u where "res = Inr i" "update_index env (ir_prior_events i) (ir_stored_event i) (s\<lparr>hc_event_store := Some es'\<rparr>) = Some u"
      "s' = invalidate_item env (cmd_id cmd) u" using assms add by (auto simp: apply_event_def bind_eq_Some_conv)
    then show ?thesis using upd [of _ _ "s\<lparr>hc_event_store := Some es'\<rparr>" u] by (simp add: invalidate_item_def)
  next
    case False
    then show ?thesis using assms add by (cases res) (auto simp: apply_event_def)
  qed
  then show "data_of s' = data_of s" "hc_wal s' = hc_wal s" "hc_event_store s' \<noteq> None" "hc_co_index s' = None \<longleftrightarrow> hc_co_index s = None"
    by blast+
qed

lemma count_duplicate_frame:
  assumes "count_duplicate call cmd type ev es s = Some (r, s')"
  shows "data_of s' = data_of s" "hc_wal s' = hc_wal s" "hc_event_store s' \<noteq> None" "hc_co_index s' = hc_co_index s"
  using assms by (auto simp: count_duplicate_def bind_eq_Some_conv Let_def split: if_splits)

text \<open>Without the deduplication cache the clock matters only for an event without a time stamp.\<close>

lemma AddEvent_clock:
  assumes "es_dedup_cache es = None" "ts \<noteq> 0"
  shows "AddEventAndGetPrior ctx item score type ts clk es = AddEventAndGetPrior ctx item score type ts clk' es"
    "AddEventAndGetPrior ctx item score type ts clk es = Some (r, es') \<Longrightarrow> es_dedup_cache es' = None"
proof -
  have dd: "es_dedup ctx item score type ts now (es\<lparr>es_total_events := n\<rparr>) = es_dedup ctx item score type ts now' (es\<lparr>es_total_events := n\<rparr>)" for now now' n
    using assms(1) by (cases type) (simp_all add: es_dedup_def)
  then show "AddEventAndGetPrior ctx item score type ts clk es = AddEventAndGetPrior ctx item score type ts clk' es"
    using assms(2)
    by (cases "es_validate ctx item score type") (simp_all add: AddEventAndGetPrior_def ResolveTimestamp_def dd [of "steady clk" _ "steady clk'"])
  have none: "es_dedup_cache s2 = None" if "es_dedup ctx item score type ts now (es\<lparr>es_total_events := n\<rparr>) = (dup, s2)" for dup s2 now n
    using that assms(1) by (cases type) (auto simp: es_dedup_def split: option.splits prod.splits)
  show "es_dedup_cache es' = None" if h: "AddEventAndGetPrior ctx item score type ts clk es = Some (r, es')"
  proof -
    obtain dup s2 where d: "es_dedup ctx item score type ts (steady clk) (es\<lparr>es_total_events := es_total_events es + 1\<rparr>) = (dup, s2)"
      by (meson surj_pair)
    show ?thesis
      using h assms none [OF d] d
      by (cases "es_validate ctx item score type"; cases dup)
         (auto simp: AddEventAndGetPrior_def ResolveTimestamp_def es_append_eq Let_def split: option.splits)
  qed
qed

definition fresh_event :: "Call \<Rightarrow> Command \<Rightarrow> 'a HandlerContext \<Rightarrow> bool" where
  "fresh_event call cmd s \<longleftrightarrow>
     (case (hc_event_store s, event_of_code (cmd_event_type cmd)) of
        (Some es, Some type) \<Rightarrow>
          (case PrepareEvent (cmd_ctx cmd) (cmd_id cmd) (cmd_score cmd) type (command_time cmd) (call_clock call) es of
             Inr p \<Rightarrow> \<not> pe_deduped p \<and> ev_timestamp (pe_event p) \<noteq> 0 | Inl _ \<Rightarrow> True)
      | _ \<Rightarrow> True)"

lemma HandleEvent_cases:
  assumes step: "HandleEvent env call cmd s = Some (r, s')" and wal: "hc_wal s = Some w" and rw: "\<not> hc_read_only s'"
    and c: "hc_config s = Some c" "wc_include_vectors (cfg_wal c)"
  obtains "s' = s"
  | es type ev where "hc_event_store s = Some es" "\<not> fresh_event call cmd s" "count_duplicate call cmd type ev es s = Some (r, s')"
  | es type p seq w' where "hc_event_store s = Some es" "event_of_code (cmd_event_type cmd) = Some type"
    "PrepareEvent (cmd_ctx cmd) (cmd_id cmd) (cmd_score cmd) type (command_time cmd) (call_clock call) es = Inr p" "\<not> pe_deduped p"
    "append_cmd env call (cmd\<lparr>cmd_score := ev_score (pe_event p), cmd_event_type := event_code type, cmd_timestamp := Some (ev_timestamp (pe_event p))\<rparr>) w =
      (Inr seq, w')" "apply_event env call cmd (pe_event p) es (s\<lparr>hc_wal := Some w'\<rparr>) = Some (r, s')"
proof (cases "hc_event_store s")
  case None
  then show ?thesis using that(1) step by (simp add: HandleEvent_def)
next
  case (Some es)
  then obtain type where type: "event_of_code (cmd_event_type cmd) = Some type" using step by (auto simp: HandleEvent_def bind_eq_Some_conv)
  show ?thesis
  proof (cases "PrepareEvent (cmd_ctx cmd) (cmd_id cmd) (cmd_score cmd) type (command_time cmd) (call_clock call) es")
    case (Inl e)
    then show ?thesis using that(1) step Some type by (simp add: HandleEvent_def command_time_def)
  next
    case (Inr p)
    have ty: "ev_type (pe_event p) = type" using Inr by (auto simp: PrepareEvent_def Let_def split: sum.splits)
    let ?cmd = "cmd\<lparr>cmd_score := ev_score (pe_event p), cmd_event_type := event_code type, cmd_timestamp := Some (ev_timestamp (pe_event p))\<rparr>"
    show ?thesis
    proof (cases "pe_deduped p")
      case True
      then have "\<not> fresh_event call cmd s" using Some type Inr by (simp add: fresh_event_def)
      moreover have "count_duplicate call cmd type (pe_event p) es s = Some (r, s')"
        using step Some type Inr True by (simp add: HandleEvent_def command_time_def Let_def)
      ultimately show ?thesis using that(2) Some by blast
    next
      case False
      then have "logged env call ?cmd (apply_event env call cmd (pe_event p) es) s = Some (r, s')"
        using step Some type Inr by (simp add: HandleEvent_def command_time_def Let_def ty)
      then obtain seq w' where "append_cmd env call ?cmd w = (Inr seq, w')" "apply_event env call cmd (pe_event p) es (s\<lparr>hc_wal := Some w'\<rparr>) = Some (r, s')"
        unfolding append_cmd_def by (rule logged_cases [OF _ wal rw c])
      then show ?thesis using that(3) Some type Inr False by blast
    qed
  qed
qed

lemma event_code_inverse [simp]: "event_of_code (event_code type) = Some type"
  by (cases type) (simp_all add: event_of_code_def)

lemma apply_event_exact:
  assumes "events_of s = events_of t" "es_dedup_cache es = None" "ev_timestamp ev \<noteq> 0"
    and "cmd_ctx cmd' = cmd_ctx cmd" "cmd_id cmd' = cmd_id cmd"
    and "apply_event env call cmd ev es s = Some (r, s')" "apply_event env call' cmd' ev es t = Some (r', t')"
  shows "events_of s' = events_of t' \<and> dedup_off t'"
proof -
  obtain res es' where add: "AddEventAndGetPrior (cmd_ctx cmd) (cmd_id cmd) (ev_score ev) (ev_type ev) (ev_timestamp ev) (call_clock call) es =
      Some (res, es')" using assms(6) by (auto simp: apply_event_def bind_eq_Some_conv)
  note add' = add [unfolded AddEvent_clock(1) [OF assms(2,3), of _ _ _ _ "call_clock call" "call_clock call'"]]
  have none: "es_dedup_cache es' = None" by (rule AddEvent_clock(2) [OF assms(2,3) add])
  have eqs: "hc_co_index t = hc_co_index s" "hc_config t = hc_config s" using assms(1) by (simp_all add: events_of_def)
  have upd: "events_of u = events_of v \<and> hc_event_store v = Some es'"
    if "update_index env prior e (s\<lparr>hc_event_store := Some es'\<rparr>) = Some u" "update_index env prior e (t\<lparr>hc_event_store := Some es'\<rparr>) = Some v"
    for u v prior e
    using that eqs by (auto simp: update_index_def bind_eq_Some_conv events_of_def split: option.splits)
  show ?thesis
  proof (cases "\<exists>i. res = Inr i \<and> \<not> ir_deduped i")
    case True
    then obtain i where i: "res = Inr i" "\<not> ir_deduped i" by blast
    obtain u where u: "update_index env (ir_prior_events i) (ir_stored_event i) (s\<lparr>hc_event_store := Some es'\<rparr>) = Some u"
      "s' = invalidate_item env (cmd_id cmd) u" using assms(6) add i by (auto simp: apply_event_def bind_eq_Some_conv)
    obtain v where v: "update_index env (ir_prior_events i) (ir_stored_event i) (t\<lparr>hc_event_store := Some es'\<rparr>) = Some v"
      "t' = invalidate_item env (cmd_id cmd) v" using assms(4,5,7) add' i by (auto simp: apply_event_def bind_eq_Some_conv)
    show ?thesis using upd [OF u(1) v(1)] none u(2) v(2) by (simp add: dedup_off_def invalidate_item_def)
  next
    case False
    then show ?thesis using assms(4-7) add add' none eqs by (cases res) (auto simp: apply_event_def events_of_def dedup_off_def)
  qed
qed

lemma PrepareEvent_again:
  assumes prep: "PrepareEvent ctx item score type ts clk es = Inr p" and off: "es_dedup_cache es = None" and ts: "ev_timestamp (pe_event p) \<noteq> 0"
  shows "PrepareEvent ctx item (ev_score (pe_event p)) type (ev_timestamp (pe_event p)) clk' es = Inr p"
proof -
  have val: "es_validate ctx item score type = Inr ()" using prep by (auto simp: PrepareEvent_def Let_def split: sum.splits)
  then have again: "es_validate ctx item (if type = DEL then 0 else score) type = Inr ()" by (auto simp: es_validate_def split: if_splits)
  have p: "p = \<lparr>pe_deduped = pe_deduped p, pe_event = \<lparr>ev_item_id = item, ev_score = (if type = DEL then 0 else score),
      ev_timestamp = ResolveTimestamp clk ts, ev_type = type\<rparr>\<rparr>"
    using prep val by (auto simp: PrepareEvent_def Let_def)
  have res: "ResolveTimestamp clk' (ResolveTimestamp clk ts) = ResolveTimestamp clk ts" using ts by (subst (asm) p) (simp add: ResolveTimestamp_def)
  show ?thesis
    using prep val again off res by (subst (1 2) p, cases type) (simp_all add: PrepareEvent_def Let_def)
qed

lemma event_command_step:
  assumes sim: "sim env exact s t" and wal: "hc_wal s = Some w" and rw: "\<not> hc_read_only s'" and fresh: "exact \<Longrightarrow> fresh_event call cmd s"
    and cmd: "loggable cmd" "length (EncodeCommand cmd) < 2 ^ 32" "cmd_type cmd = kEvent"
    and step: "handle_write env call cmd s = Some (r, s')"
  shows "hc_wal s' = Some w \<and> sim env exact s' t \<or> step_logged env exact call w s' t"
proof -
  obtain c where c: "hc_config s = Some c" "wc_include_vectors (cfg_wal c)" using sim by (auto simp: sim_def hc_ok_def data_of_def)
  have t: "data_of s = data_of t" "hc_wal t = None" "hc_ok env t" "hc_event_store s = None \<longleftrightarrow> hc_event_store t = None"
    "hc_co_index s = None \<longleftrightarrow> hc_co_index t = None" using sim by (simp_all add: sim_def)
  have step': "HandleEvent env call cmd s = Some (r, s')" using step cmd(3) by (simp add: handle_write_def)
  from HandleEvent_cases [OF step' wal rw c] show ?thesis
  proof cases
    case 1
    then show ?thesis using sim wal by simp
  next
    case (2 es type ev)
    have "\<not> exact" using fresh 2(2) by blast
    then show ?thesis using count_duplicate_frame [OF 2(3)] 2(1) sim wal by (auto simp: sim_def)
  next
    case (3 es type p seq w')
    let ?ev = "pe_event p"
    let ?cmd = "cmd\<lparr>cmd_score := ev_score ?ev, cmd_event_type := event_code type, cmd_timestamp := Some (ev_timestamp ?ev)\<rparr>"
    have ev: "ev_score ?ev = (if type = DEL then 0 else cmd_score cmd)" "ev_type ?ev = type"
      "es_validate (cmd_ctx cmd) (cmd_id cmd) (cmd_score cmd) type = Inr ()"
      using 3(3) by (auto simp: PrepareEvent_def Let_def split: sum.splits)
    then have val: "es_validate (cmd_ctx cmd) (cmd_id cmd) (ev_score ?ev) type = Inr ()" by (auto simp: es_validate_def split: if_splits)
    have len: "length (EncodeCommand ?cmd) < 2 ^ 32" using cmd(2,3) by (simp add: EncodeCommand_def)
    have lg: "loggable ?cmd" using cmd(1,3) ev(1) by (simp add: loggable_def)
    have rep: "replayed ?cmd = new_command\<lparr>cmd_type := kEvent, cmd_event_type := event_code type, cmd_ctx := cmd_ctx cmd, cmd_id := cmd_id cmd,
        cmd_score := ev_score ?ev, cmd_timestamp := Some (ev_timestamp ?ev)\<rparr>" using cmd(3) by (simp add: replayed_def)
    obtain es_t where es_t: "hc_event_store t = Some es_t" using t(4) 3(1) by auto
    note fr = apply_event_frame [OF 3(6)]
    have "\<exists>r t'. handle_write env call' (replayed ?cmd) t = Some (Inr r, t') \<and> sim env exact s' t'" for call'
    proof -
      obtain t' where t': "HandleEvent env call' (replayed ?cmd) t = Some (Inr (FormatOK ''EVENT''), t')" "hc_ok env t'" "data_of t' = data_of t"
          "hc_wal t' = None" "hc_event_store t' \<noteq> None"
        using HandleEvent_unlogged [OF t(3,2) es_t, of "replayed ?cmd" type call'] val by (auto simp: rep)
      obtain q where q: "PrepareEvent (cmd_ctx cmd) (cmd_id cmd) (ev_score ?ev) type (ev_timestamp ?ev) (call_clock call') es_t = Inr q"
        using val by (auto simp: PrepareEvent_def Let_def)
      have run: "(if pe_deduped q then count_duplicate call' (replayed ?cmd) type (pe_event q) es_t t
          else apply_event env call' (replayed ?cmd) (pe_event q) es_t t) = Some (Inr (FormatOK ''EVENT''), t')"
        using t'(1) HandleEvent_None [OF t(2) es_t, of "replayed ?cmd" type call' q env] q by (simp add: rep command_time_def)
      then have "hc_co_index t' = None \<longleftrightarrow> hc_co_index t = None"
        using count_duplicate_frame(4) [of call' "replayed ?cmd" type "pe_event q" es_t t _ t']
          apply_event_frame(4) [of env call' "replayed ?cmd" "pe_event q" es_t t _ t'] by (auto split: if_splits)
      moreover have "events_of s' = events_of t' \<and> dedup_off t'" if exact
      proof -
        have ex: "es_t = es" "es_dedup_cache es = None" "events_of (s\<lparr>hc_wal := Some w'\<rparr>) = events_of t"
          using sim that 3(1) es_t by (auto simp: sim_def events_of_def dedup_off_def)
        have ts: "ev_timestamp ?ev \<noteq> 0" using fresh [OF that] 3(1-3) by (simp add: fresh_event_def)
        have "\<not> pe_deduped q \<and> pe_event q = ?ev"
          using q PrepareEvent_again [OF 3(3) ex(2) ts, of "call_clock call'"] 3(4) ex(1) by simp
        then show ?thesis
          using apply_event_exact [OF ex(3,2) ts _ _ 3(6), of "replayed ?cmd" call'] run ex(1) by (simp add: rep)
      qed
      ultimately show ?thesis using t' fr t(1,5) by (intro exI [of _ t'] exI) (auto simp: sim_def handle_write_def rep)
    qed
    then show ?thesis unfolding step_logged_def using lg len 3(5) fr(2) by (intro disjI2 exI [of _ ?cmd] exI [of _ seq] exI [of _ w']) simp
  qed
qed

lemma write_command_step:
  assumes "sim env exact s t" "hc_wal s = Some w" "\<not> hc_read_only s'" "exact \<Longrightarrow> cmd_type cmd = kEvent \<Longrightarrow> fresh_event call cmd s"
    and "loggable cmd" "length (EncodeCommand cmd) < 2 ^ 32" "handle_write env call cmd s = Some (r, s')"
  shows "hc_wal s' = Some w \<and> sim env exact s' t \<or> step_logged env exact call w s' t"
  using data_command_step [OF assms(1-3,5,6) _ assms(7)] event_command_step [OF assms(1-3) _ assms(5,6) _ assms(7)] assms(1,2,4)
  by (cases "cmd_type cmd = kEvent") blast+

subsection \<open>Maintenance\<close>

definition decay_ok :: "u64 \<Rightarrow> bool" where
  "decay_ok alpha \<longleftrightarrow> isfinite (f64_value alpha) \<and> fl_less (Fin 0) (f64_value alpha) \<and> fl_le (f64_value alpha) (Fin 1)"

lemma replay_maintenance_payload:
  assumes "decay_ok alpha"
  shows "replay_maintenance (maintenance_payload alpha prune) s = map_option (\<lambda>s'. (Inr (), s')) (maintain (f64_value alpha) prune s)"
  using assms by (cases "f64_value alpha") (auto simp: replay_maintenance_def maintenance_payload_def decay_ok_def fl_le_def nth_append)

lemma maintain_sim:
  assumes sim: "sim env exact s t" and al: "decay_ok alpha" and step: "maintain (f64_value alpha) prune (s\<lparr>hc_wal := Some w\<rparr>) = Some s'"
  shows "hc_wal s' = Some w \<and> (\<exists>t'. maintain (f64_value alpha) prune t = Some t' \<and> sim env exact s' t')"
proof -
  obtain co where co: "hc_co_index s = Some co" using step by (auto simp: maintain_def bind_eq_Some_conv)
  then obtain co_t where co_t: "hc_co_index t = Some co_t" "co_inv co_t" using sim by (auto simp: sim_def hc_ok_def)
  have "f64_value alpha \<noteq> NaN" using al by (auto simp: decay_ok_def)
  then have dec: "co_inv (ApplyDecay (f64_value alpha) co_t)" using co_t(2) by (rule co_inv_ApplyDecay)
  obtain co' where co': "(if prune then Prune (ApplyDecay (f64_value alpha) co_t) else Some (ApplyDecay (f64_value alpha) co_t)) = Some co'" "co_inv co'"
    using co_inv_Prune [OF dec] dec by (cases prune) auto
  then have t': "maintain (f64_value alpha) prune t = Some (t\<lparr>hc_co_index := Some co'\<rparr>)" using co_t(1) by (simp add: maintain_def)
  obtain cs where cs: "(if prune then Prune (ApplyDecay (f64_value alpha) co) else Some (ApplyDecay (f64_value alpha) co)) = Some cs"
      "s' = s\<lparr>hc_wal := Some w, hc_co_index := Some cs\<rparr>" using step co by (auto simp: maintain_def bind_eq_Some_conv Let_def)
  have "co_t = co" if exact using that sim co co_t(1) by (simp add: sim_def events_of_def)
  then have "cs = co'" if exact using that cs(1) co'(1) by auto
  then have "sim env exact s' (t\<lparr>hc_co_index := Some co'\<rparr>)"
    using sim co'(2) cs(2) by (auto simp: sim_def hc_ok_def dedup_off_def events_of_def)
  then show ?thesis using t' cs(2) by simp
qed

subsection \<open>Runs of the server\<close>

text \<open>
  The requests and maintenance turns of a running server, which may also update its counters.  The calls of a rotation do not fail,
  there are fewer than a million segments, the payloads fit the log, and the run ends before an
  append or an apply step made the server read-only.  In an \<open>exact\<close> run no event is a duplicate.
\<close>

definition request_command :: "(string \<Rightarrow> u32 \<Rightarrow> Command expected) \<Rightarrow> string \<Rightarrow> 'a HandlerContext \<Rightarrow> Command expected" where
  "request_command parse request s = parse request (case hc_config s of None \<Rightarrow> 0 | Some c \<Rightarrow> sc_max_top_k (cfg_similarity c))"

definition log_ready :: "Call \<Rightarrow> 'a HandlerContext \<Rightarrow> bool" where
  "log_ready call s \<longleftrightarrow> rotation_ok (call_faults call) \<and> pred_option (\<lambda>w. unat (wal_file_number w) + 1 < 10 ^ 6) (hc_wal s)"

inductive live :: "(string \<Rightarrow> u32 \<Rightarrow> Command expected) \<Rightarrow> 'a other_handlers \<Rightarrow> 'a Env \<Rightarrow> bool \<Rightarrow> 'a HandlerContext \<Rightarrow> 'a HandlerContext \<Rightarrow> bool"
  for parse other env exact s0 where
  live_start: "live parse other env exact s0 s0"
| live_request: "\<lbrakk>live parse other env exact s0 s; log_ready call s; request_command parse request s = Inr cmd; loggable cmd;
    length (EncodeCommand cmd) < 2 ^ 32; exact \<and> cmd_type cmd = kEvent \<longrightarrow> fresh_event call cmd s;
    Dispatch parse other env call request conn s = Some (response, conn', s'); \<not> hc_read_only s'\<rbrakk> \<Longrightarrow>
    live parse other env exact s0 s'"
| live_stats: "live parse other env exact s0 s \<Longrightarrow> live parse other env exact s0 (s\<lparr>hc_stats := x\<rparr>)"
| live_maintenance: "\<lbrakk>live parse other env exact s0 s; log_ready call s; decay_ok alpha;
    MaintenanceCallback persist env call alpha prune s = Some (r, s'); \<not> hc_read_only s'\<rbrakk> \<Longrightarrow> live parse other env exact s0 s'"

lemma stats_simps [simp]:
  "sim env exact (s\<lparr>hc_stats := x\<rparr>) t = sim env exact s t" "fresh_event call cmd (s\<lparr>hc_stats := x\<rparr>) = fresh_event call cmd s"
  "sim env exact (failed s) t = sim env exact s t" "hc_wal (failed s) = hc_wal s" "hc_read_only (failed s) = hc_read_only s"
  by (simp_all add: sim_def fresh_event_def failed_def data_of_def events_of_def)

lemma step_logged_stats: "step_logged env exact call w (s\<lparr>hc_stats := x\<rparr>) t = step_logged env exact call w s t"
  by (simp add: step_logged_def)

lemma Dispatch_write:
  assumes "Dispatch parse other env call request conn s = Some (response, conn', s')" "request_command parse request s = Inr cmd"
    and "cmd_type cmd \<in> {kEvent, kVecset, kVecdel, kMetaset}"
  obtains "s' = failed s"
  | r u x y where "handle_write env call cmd (s\<lparr>hc_stats := x\<rparr>) = Some (r, u)" "s' = u\<lparr>hc_stats := y\<rparr>"
proof -
  have ty: "IsSnapshotProtectedWrite (cmd_type cmd)" "cmd_type cmd \<noteq> kAuth" using assms(3) by (auto simp: IsSnapshotProtectedWrite_def)
  let ?s = "s\<lparr>hc_stats := count_command (cmd_type cmd) (hc_stats s)\<rparr>"
  show thesis
  proof (cases "handle_write env call cmd ?s")
    case None
    then show ?thesis using that(1) assms(1,2) ty
      by (auto simp: Dispatch_def request_command_def route_def Let_def split: if_split_asm)
  next
    case (Some p)
    obtain r u where "p = (r, u)" by (cases p)
    then show ?thesis using that(1) that(2) [of "count_command (cmd_type cmd) (hc_stats s)" r u] assms(1,2) ty Some
      by (cases r) (auto simp: Dispatch_def request_command_def route_def Let_def failed_def split: if_split_asm)
  qed
qed

lemma request_step:
  assumes sim: "sim env exact s t" and wal: "hc_wal s = Some w" and rw: "\<not> hc_read_only s'"
    and fresh: "exact \<and> cmd_type cmd = kEvent \<longrightarrow> fresh_event call cmd s" and cmd: "loggable cmd" "length (EncodeCommand cmd) < 2 ^ 32"
    and step: "Dispatch parse other env call request conn s = Some (response, conn', s')" "request_command parse request s = Inr cmd"
  shows "hc_wal s' = Some w \<and> sim env exact s' t \<or> step_logged env exact call w s' t"
proof (rule Dispatch_write [OF step loggable_types [OF cmd(1)]])
  assume "s' = failed s"
  then show ?thesis using sim wal by simp
next
  fix r u x y
  assume h: "handle_write env call cmd (s\<lparr>hc_stats := x\<rparr>) = Some (r, u)" "s' = u\<lparr>hc_stats := y\<rparr>"
  have "hc_wal u = Some w \<and> sim env exact u t \<or> step_logged env exact call w u t"
    by (rule write_command_step [OF _ _ _ _ cmd h(1)]) (use sim wal rw fresh h(2) in simp_all)
  then show ?thesis using h(2) by (simp add: step_logged_stats)
qed

text \<open>The log of a live context is the log it started with and records whose replay rebuilds the context.\<close>

definition rebuilds :: "'a Env \<Rightarrow> bool \<Rightarrow> (u64 \<Rightarrow> Call) \<Rightarrow> u64 \<Rightarrow> WalRecord list \<Rightarrow> 'a HandlerContext \<Rightarrow> WriteAheadLog \<Rightarrow> WalRecord list \<Rightarrow>
    'a HandlerContext \<Rightarrow> 'a HandlerContext \<Rightarrow> bool" where
  "rebuilds env exact calls c log0 t0 w records s t \<longleftrightarrow> hc_wal s = Some w \<and>
     (\<exists>segs. wal_ok (env_crc env) w segs \<and> log_of segs = log0 @ records) \<and>
     consecutive (Some c) records \<and> last_seq (Some c) records = Some (wal_sequence w) \<and>
     deliver (replay_callback env calls) records 0 (Some t0) = (Inr (of_nat (length records)), Some t) \<and> sim env exact s t"

lemma rebuilds_append:
  assumes rb: "rebuilds env exact calls c log0 t0 w records s t" and fl: "log_ready call s" and opr: "op_of_code (op_code opr) = opr"
    and len: "length data < 2 ^ 32"
    and app: "Append (env_crc env) (call_faults call) (call_log_time call) opr data w = (Inr seq, w')" and wal: "hc_wal s' = Some w'"
    and rep: "\<And>call'. \<exists>t'. ReplayRecord env call' (next_record w (call_log_time call) opr data) t = Some (Inr (), t') \<and> sim env exact s' t'"
  shows "\<exists>t'. rebuilds env exact calls c log0 t0 w' (records @ [next_record w (call_log_time call) opr data]) s' t' \<and> wal_config w' = wal_config w"
proof -
  let ?r = "next_record w (call_log_time call) opr data"
  obtain segs where st: "hc_wal s = Some w" "wal_ok (env_crc env) w segs" "log_of segs = log0 @ records" "consecutive (Some c) records"
      "last_seq (Some c) records = Some (wal_sequence w)"
      "deliver (replay_callback env calls) records 0 (Some t0) = (Inr (of_nat (length records)), Some t)" "sim env exact s t"
    using rb by (auto simp: rebuilds_def)
  have small: "rotation_ok (call_faults call)" "unat (wal_file_number w) + 1 < 10 ^ 6" using fl st(1) by (simp_all add: log_ready_def)
  from Append_log [OF st(2) small(1) opr len small(2) app] obtain segs' where
    w': "wal_config w' = wal_config w" "wal_sequence w' = wal_sequence w + 1" "wal_ok (env_crc env) w' segs'" "log_of segs' = log_of segs @ [?r]" by blast
  have "record_ok ?r" using w'(3,4) by (simp add: wal_ok_def Let_def on_disk_def log_ok_def del: concat_eq_Nil_conv)
  then have "wal_sequence w \<noteq> - 1" by (auto simp: record_ok_def next_record_def)
  then have "contiguous_after (Some (wal_sequence w)) (wr_sequence ?r)" by (simp add: contiguous_after_def next_record_def)
  then have "consecutive (Some c) (records @ [?r])" using st(4,5) by (simp add: consecutive_append)
  moreover have "last_seq (Some c) (records @ [?r]) = Some (wal_sequence w')" using w'(2) by (simp add: last_seq_def next_record_def)
  moreover obtain t' where t': "ReplayRecord env (calls (wr_sequence ?r)) ?r t = Some (Inr (), t')" "sim env exact s' t'" using rep by blast
  then have "deliver (replay_callback env calls) (records @ [?r]) 0 (Some t0) = (Inr (of_nat (length (records @ [?r]))), Some t')"
    using st(6) by (simp add: deliver_append replay_callback_def)
  ultimately show ?thesis using w'(1,3,4) st(3) wal t'(2) by (auto simp: rebuilds_def)
qed

lemma live_rebuilds:
  assumes "live parse other env exact s0 s" and w0: "hc_wal s0 = Some w0" "wal_ok (env_crc env) w0 segs0" and sim: "sim env exact s0 t0"
  shows "\<exists>w records t. rebuilds env exact calls (wal_sequence w0) (log_of segs0) t0 w records s t \<and> wal_config w = wal_config w0"
  using assms(1)
proof induction
  case live_start
  have "rebuilds env exact calls (wal_sequence w0) (log_of segs0) t0 w0 [] s0 t0" using w0 sim by (auto simp: rebuilds_def)
  then show ?case by blast
next
  case (live_request s call request cmd conn response conn' s')
  then obtain w records t where rb: "rebuilds env exact calls (wal_sequence w0) (log_of segs0) t0 w records s t" "wal_config w = wal_config w0" by blast
  then have t: "hc_wal s = Some w" "sim env exact s t" by (auto simp: rebuilds_def)
  from request_step [OF t(2,1) live_request(8,6,4,5,7,3)] show ?case
  proof
    assume "hc_wal s' = Some w \<and> sim env exact s' t"
    then have "rebuilds env exact calls (wal_sequence w0) (log_of segs0) t0 w records s' t" using rb(1) by (simp add: rebuilds_def)
    then show ?case using rb(2) by blast
  next
    assume "step_logged env exact call w s' t"
    then obtain logged_cmd seq w' where lg: "loggable logged_cmd" "length (EncodeCommand logged_cmd) < 2 ^ 32"
        "append_cmd env call logged_cmd w = (Inr seq, w')" "hc_wal s' = Some w'"
        "\<And>call'. \<exists>r t'. handle_write env call' (replayed logged_cmd) t = Some (Inr r, t') \<and> sim env exact s' t'"
      unfolding step_logged_def by blast
    have "\<exists>t'. ReplayRecord env call' (next_record w (call_log_time call) (WalOpForCommand logged_cmd) (EncodeCommand logged_cmd)) t = Some (Inr (), t') \<and>
        sim env exact s' t'" for call'
      using lg(5) [of call'] by (auto simp: ReplayRecord_logged [OF lg(1)] forget_def)
    from rebuilds_append [OF rb(1) live_request(2) op_roundtrip_logged lg(2) lg(3) [unfolded append_cmd_def] lg(4) this] show ?case
      using rb(2) by auto
  qed
next
  case (live_stats s x)
  then obtain w records t where "rebuilds env exact calls (wal_sequence w0) (log_of segs0) t0 w records s t" "wal_config w = wal_config w0" by blast
  then have "rebuilds env exact calls (wal_sequence w0) (log_of segs0) t0 w records (s\<lparr>hc_stats := x\<rparr>) t" by (simp add: rebuilds_def)
  then show ?case using \<open>wal_config w = wal_config w0\<close> by blast
next
  case (live_maintenance s call alpha persist prune r s')
  then obtain w records t where rb: "rebuilds env exact calls (wal_sequence w0) (log_of segs0) t0 w records s t" "wal_config w = wal_config w0" by blast
  then have wal: "hc_wal s = Some w" "sim env exact s t" by (simp_all add: rebuilds_def)
  show ?case
  proof (cases "hc_read_only s")
    case True
    then show ?thesis using live_maintenance(4) rb by (auto simp: MaintenanceCallback_def)
  next
    case False
    obtain seq w' where app: "Append (env_crc env) (call_faults call) (call_log_time call) kCoOccurrenceMaintenance
          (maintenance_payload alpha prune) w = (Inr seq, w')" "maintain (f64_value alpha) prune (s\<lparr>hc_wal := Some w'\<rparr>) = Some s'"
      using live_maintenance(4,5) wal False by (auto simp: MaintenanceCallback_def split: prod.splits sum.splits)
    note ms = maintain_sim [OF wal(2) live_maintenance(3) app(2)]
    have "\<exists>t'. ReplayRecord env call' (next_record w (call_log_time call) kCoOccurrenceMaintenance (maintenance_payload alpha prune)) t = Some (Inr (), t') \<and>
        sim env exact s' t'" for call'
      using ms by (auto simp: ReplayRecord_def next_record_def replay_maintenance_payload [OF live_maintenance(3)])
    from rebuilds_append [OF rb(1) live_maintenance(2) op_roundtrip _ app(1) _ this] show ?thesis
      using rb(2) ms by (auto simp: maintenance_payload_def)
  qed
qed

subsection \<open>Recovery\<close>

lemma from_checkpoint:
  assumes log: "log_ok (log0 @ records)" "consecutive (Some c) records" "c \<noteq> - 1" "c = 0 \<or> log0 \<noteq> []"
    and "log0 \<noteq> [] \<Longrightarrow> c = wr_sequence (last log0)"
  shows "from_on (if c = 0 then 0 else c + 1) (log0 @ records) = records"
proof -
  have old: "wr_sequence r \<le> c" "wr_sequence r \<noteq> 0" if "r \<in> set log0" for r
    using that assms(5) [OF length_greater_0_conv [THEN iffD1]] consecutive_last [of None log0 r] log(1)
    by (auto simp: log_ok_def consecutive_append list_all_iff record_ok_def dest: length_pos_if_in_set)
  have nextc: "c < c + 1" using log(3) by (simp add: word_less_nat_alt unat_inc)
  have new: "c + 1 \<le> wr_sequence r" if "r \<in> set records" for r
    using consecutive_less [OF log(2) that] by (rule inc_le)
  have "log0 = []" if "c = 0" using that old by (cases log0) auto
  moreover have "filter (\<lambda>r. c + 1 \<le> wr_sequence r) log0 = []"
    using old(1) nextc by (auto simp: filter_empty_conv not_le intro: le_less_trans)
  moreover have "filter (\<lambda>r. c + 1 \<le> wr_sequence r) records = records" using new by (simp add: filter_id_conv)
  ultimately show ?thesis by (simp add: filter_id_conv)
qed

end
