(* ===== verification/CommandParser.thy ===== *)
theory CommandParser
  imports Dispatcher Recovery
begin

text \<open>
  \<^verbatim>\<open>src/src/server/command_parser.cpp\<close>: from a request line to a command.  \<^verbatim>\<open>std::stof\<close> depends on the locale and
  on the implementation, so it is an argument: the bits of the value and the rest of the text, or
  \<open>None\<close> when it throws.  Classification of characters is that of the "C" locale.  \<^verbatim>\<open>ParseVector\<close>, which only the tests
  call, is not modelled.
\<close>

type_synonym stof_fun = "string \<Rightarrow> (u32 \<times> string) option"

subsection \<open>Tokens\<close>

function Split :: "string \<Rightarrow> char \<Rightarrow> string list" where
  "Split str delimiter =
     (if str = [] then []
      else let tok = takeWhile (\<lambda>c. c \<noteq> delimiter) str; rest = tl (dropWhile (\<lambda>c. c \<noteq> delimiter) str)
           in if tok \<noteq> [] then tok # Split rest delimiter else Split rest delimiter)"
  by pat_completeness auto
termination by (relation "measure (\<lambda>(s, d). length s)") (simp_all add: dropWhile_shorter)

declare Split.simps [simp del]

definition Trim :: "string \<Rightarrow> string" where
  "Trim str = rev (dropWhile is_space (rev (dropWhile is_space str)))"

definition toupper :: "char \<Rightarrow> char" where
  "toupper c = (if 97 \<le> (of_char c :: nat) \<and> of_char c \<le> (122 :: nat) then char_of (of_char c - 32 :: nat) else c)"

definition ToUpper :: "string \<Rightarrow> string" where
  "ToUpper = map toupper"

subsection \<open>Numbers\<close>

text \<open>\<^verbatim>\<open>std::stoi\<close> and \<^verbatim>\<open>std::stoull\<close>: the value and the text they leave, or \<open>None\<close> when they throw.\<close>

definition stoi :: "string \<Rightarrow> (int \<times> string) option" where
  "stoi s =
     (case strtoll s of
        None \<Rightarrow> None
      | Some (v, rest, overflow) \<Rightarrow> if overflow \<or> v < - (2 ^ 31) \<or> 2 ^ 31 \<le> v then None else Some (v, rest))"

definition stoull :: "string \<Rightarrow> (u64 \<times> string) option" where
  "stoull s =
     (let t = dropWhile is_space s;
          neg = (t \<noteq> [] \<and> hd t = CHR ''-'');
          u = (if t \<noteq> [] \<and> hd t \<in> {CHR ''-'', CHR ''+''} then tl t else t);
          ds = takeWhile dec_digit u;
          v = of_nat (dec_value ds)
      in if ds = [] \<or> 2 ^ 64 \<le> dec_value ds then None else Some (if neg then - v else v, dropWhile dec_digit u))"

definition invalid_argument :: "string \<Rightarrow> Error" where
  "invalid_argument msg = MakeError kCommandInvalidArgument msg"

definition syntax_error :: "string \<Rightarrow> Error" where
  "syntax_error msg = MakeError kCommandSyntaxError msg"

definition ParseInt :: "string \<Rightarrow> int expected" where
  "ParseInt str =
     (case stoi str of
        None \<Rightarrow> Inl (invalid_argument (''Failed to parse integer: '' @ str))
      | Some (v, rest) \<Rightarrow> if rest \<noteq> [] then Inl (invalid_argument (''Invalid integer: '' @ str)) else Inr v)"

definition ParseEventScore :: "string \<Rightarrow> int expected" where
  "ParseEventScore str =
     (case ParseInt str of
        Inl e \<Rightarrow> Inl e
      | Inr v \<Rightarrow>
          if v < kMinEventScore \<or> kMaxEventScore < v
          then Inl (MakeError kEventInvalidScore (''Score must be in range [0, 100], got '' @ show_int v)) else Inr v)"

definition ParseFloat :: "stof_fun \<Rightarrow> string \<Rightarrow> u32 expected" where
  "ParseFloat stof str =
     (case stof str of
        None \<Rightarrow> Inl (invalid_argument (''Failed to parse float: '' @ str))
      | Some (v, rest) \<Rightarrow>
          if rest \<noteq> [] \<or> \<not> isfinite (f32_value v) then Inl (invalid_argument (''Invalid float: '' @ str)) else Inr v)"

fun ParseFloats :: "stof_fun \<Rightarrow> string list \<Rightarrow> u32 list expected" where
  "ParseFloats stof [] = Inr []"
| "ParseFloats stof (t # ts) =
     (case ParseFloat stof t of
        Inl e \<Rightarrow> Inl e
      | Inr v \<Rightarrow> (case ParseFloats stof ts of Inl e \<Rightarrow> Inl e | Inr vs \<Rightarrow> Inr (v # vs)))"

definition ParseTopK :: "string \<Rightarrow> u32 \<Rightarrow> int expected" where
  "ParseTopK str max_top_k =
     (case ParseInt str of
        Inl e \<Rightarrow> Inl e
      | Inr v \<Rightarrow>
          if v \<le> 0 then Inl (MakeError kCommandInvalidTopK (''top_k must be positive, got '' @ show_int v))
          else if 0 < max_top_k \<and> max_top_k < word_of_int v
          then Inl (MakeError kCommandInvalidTopK
                      (''top_k '' @ show_int v @ '' exceeds maximum allowed: '' @ show_nat (unat max_top_k)))
          else Inr v)"

definition ParseTimestamp :: "string \<Rightarrow> u64 expected" where
  "ParseTimestamp str =
     (if \<not> prefix ''timestamp='' str then Inl (invalid_argument (''Invalid option: '' @ str @ '' (expected timestamp=<value>)''))
      else let value_str = drop 10 str
           in case stoull value_str of
                None \<Rightarrow> Inl (invalid_argument (''Failed to parse timestamp: '' @ value_str))
              | Some (v, rest) \<Rightarrow>
                  if rest \<noteq> [] then Inl (invalid_argument (''Invalid timestamp value: '' @ value_str)) else Inr v)"

subsection \<open>Write commands\<close>

definition with_timestamp :: "string list \<Rightarrow> Command \<Rightarrow> Command expected" where
  "with_timestamp ts cmd =
     (case ts of
        [] \<Rightarrow> Inr cmd
      | t # _ \<Rightarrow> (case ParseTimestamp t of Inl e \<Rightarrow> Inl e | Inr v \<Rightarrow> Inr (cmd\<lparr>cmd_timestamp := Some v\<rparr>)))"

text \<open>ADD and SET differ in the type and in the message.\<close>

definition parse_scored_event :: "string \<Rightarrow> EventType \<Rightarrow> string list \<Rightarrow> Command expected" where
  "parse_scored_event type_str type tokens =
     (if length tokens < 5 \<or> 6 < length tokens
      then Inl (syntax_error (''EVENT '' @ type_str @ '' requires 4-5 arguments: <ctx> '' @ type_str @ '' <id> <score> [timestamp=<value>]''))
      else case ParseEventScore (tokens ! 4) of
             Inl e \<Rightarrow> Inl e
           | Inr score \<Rightarrow>
               with_timestamp (drop 5 tokens) (new_command\<lparr>cmd_type := kEvent, cmd_ctx := tokens ! 1, cmd_event_type := event_code type,
                 cmd_id := tokens ! 3, cmd_score := score\<rparr>))"

definition parse_event :: "string list \<Rightarrow> Command expected" where
  "parse_event tokens =
     (if length tokens < 4 then Inl (syntax_error ''EVENT requires at least 3 arguments: <ctx> <type> <id> [<score>]'')
      else let type_str = ToUpper (tokens ! 2)
           in if type_str = ''ADD'' then parse_scored_event ''ADD'' ADD tokens
              else if type_str = ''SET'' then parse_scored_event ''SET'' SET tokens
              else if type_str = ''DEL''
              then if 5 < length tokens
                   then Inl (syntax_error ''EVENT DEL requires 3-4 arguments: <ctx> DEL <id> [timestamp=<value>]'')
                   else with_timestamp (drop 4 tokens) (new_command\<lparr>cmd_type := kEvent, cmd_ctx := tokens ! 1,
                          cmd_event_type := event_code DEL, cmd_id := tokens ! 3, cmd_score := 0\<rparr>)
              else Inl (syntax_error (''Invalid EVENT type: '' @ type_str @ '' (must be ADD, SET, or DEL)'')))"

definition parse_vecset :: "stof_fun \<Rightarrow> string list \<Rightarrow> Command expected" where
  "parse_vecset stof tokens =
     (if length tokens < 3 then Inl (syntax_error ''VECSET requires at least 2 arguments: <id> <floats>'')
      else case ParseFloats stof (drop 2 tokens) of
             Inl e \<Rightarrow> Inl e
           | Inr vec \<Rightarrow> Inr (new_command\<lparr>cmd_type := kVecset, cmd_id := tokens ! 1, cmd_dimension := int (length vec), cmd_vector := vec\<rparr>))"

definition parse_vecdel :: "string list \<Rightarrow> Command expected" where
  "parse_vecdel tokens =
     (if length tokens \<noteq> 2 then Inl (syntax_error ''VECDEL requires 1 argument: <id>'')
      else Inr (new_command\<lparr>cmd_type := kVecdel, cmd_id := tokens ! 1\<rparr>))"

definition parse_metaset :: "string list \<Rightarrow> Command expected" where
  "parse_metaset tokens =
     (if length tokens \<noteq> 3 then Inl (syntax_error ''METASET requires 2 arguments: <id> <key:value[,key:value...]>'')
      else Inr (new_command\<lparr>cmd_type := kMetaset, cmd_id := tokens ! 1, cmd_filter_expr := tokens ! 2\<rparr>))"

subsection \<open>Searches\<close>

text \<open>The options that SIM and SIMV share.\<close>

definition shared_option :: "stof_fun \<Rightarrow> string \<Rightarrow> string \<Rightarrow> Command \<Rightarrow> Command expected" where
  "shared_option stof name tok cmd =
     (if prefix ''filter='' tok then Inr (cmd\<lparr>cmd_filter_expr := drop 7 tok\<rparr>)
      else if prefix ''min_score='' tok
      then (case ParseFloat stof (drop 10 tok) of Inl e \<Rightarrow> Inl e | Inr v \<Rightarrow> Inr (cmd\<lparr>cmd_min_score := v\<rparr>))
      else if prefix ''candidate_limit='' tok then Inl (syntax_error ''candidate_limit option is not supported'')
      else if prefix ''explain='' tok then Inl (syntax_error ''explain option is not supported'')
      else Inl (syntax_error (''Invalid '' @ name @ '' option: '' @ tok)))"

definition sim_option :: "stof_fun \<Rightarrow> string \<Rightarrow> Command \<Rightarrow> Command expected" where
  "sim_option stof tok cmd =
     (if prefix ''using='' tok
      then let mode = drop 6 tok
           in if mode \<notin> {''events'', ''vectors'', ''fusion''}
              then Inl (syntax_error (''Invalid using value: '' @ mode @ '' (must be events, vectors, or fusion)''))
              else Inr (cmd\<lparr>cmd_mode := mode\<rparr>)
      else if prefix ''adaptive='' tok
      then let val = drop 9 tok
           in if val = ''on'' then Inr (cmd\<lparr>cmd_adaptive := Some True\<rparr>)
              else if val = ''off'' then Inr (cmd\<lparr>cmd_adaptive := Some False\<rparr>)
              else Inl (syntax_error (''Invalid adaptive value: '' @ val @ '' (must be on or off)''))
      else shared_option stof ''SIM'' tok cmd)"

fun sim_options :: "stof_fun \<Rightarrow> string list \<Rightarrow> Command \<Rightarrow> Command expected" where
  "sim_options stof [] cmd = Inr cmd"
| "sim_options stof (t # ts) cmd = (case sim_option stof t cmd of Inl e \<Rightarrow> Inl e | Inr cmd' \<Rightarrow> sim_options stof ts cmd')"

definition parse_sim :: "stof_fun \<Rightarrow> u32 \<Rightarrow> string list \<Rightarrow> Command expected" where
  "parse_sim stof max_top_k tokens =
     (if length tokens < 3 then Inl (syntax_error ''SIM requires at least 2 arguments: <id> <top_k>'')
      else case ParseTopK (tokens ! 2) max_top_k of
             Inl e \<Rightarrow> Inl e
           | Inr k \<Rightarrow> sim_options stof (drop 3 tokens) (new_command\<lparr>cmd_type := kSim, cmd_id := tokens ! 1, cmd_top_k := k\<rparr>))"

text \<open>The options up to the first token without \<^verbatim>\<open>=\<close>; the tokens that remain are the vector.\<close>

fun simv_options :: "stof_fun \<Rightarrow> string list \<Rightarrow> Command \<Rightarrow> (Command \<times> string list) expected" where
  "simv_options stof [] cmd = Inr (cmd, [])"
| "simv_options stof (t # ts) cmd =
     (if CHR ''='' \<notin> set t then Inr (cmd, t # ts)
      else case shared_option stof ''SIMV'' t cmd of Inl e \<Rightarrow> Inl e | Inr cmd' \<Rightarrow> simv_options stof ts cmd')"

definition parse_simv :: "stof_fun \<Rightarrow> u32 \<Rightarrow> string list \<Rightarrow> Command expected" where
  "parse_simv stof max_top_k tokens =
     (if length tokens < 3 then Inl (syntax_error ''SIMV requires at least 2 arguments: <top_k> <floats>'')
      else case ParseTopK (tokens ! 1) max_top_k of
             Inl e \<Rightarrow> Inl e
           | Inr k \<Rightarrow>
               (case simv_options stof (drop 2 tokens) (new_command\<lparr>cmd_type := kSimv, cmd_top_k := k\<rparr>) of
                  Inl e \<Rightarrow> Inl e
                | Inr (cmd, rest) \<Rightarrow>
                    (case ParseFloats stof rest of
                       Inl e \<Rightarrow> Inl e
                     | Inr vec \<Rightarrow>
                         if vec = [] then Inl (syntax_error ''SIMV requires at least one vector float'')
                         else Inr (cmd\<lparr>cmd_dimension := int (length vec), cmd_vector := vec\<rparr>))))"

subsection \<open>Administrative commands\<close>

definition third_token :: "string list \<Rightarrow> string" where
  "third_token tokens = (if 3 \<le> length tokens then tokens ! 2 else [])"

text \<open>A command with a subcommand: its table, and the message when there is none and when it is unknown.\<close>

definition subcommand :: "(string \<times> CommandType) list \<Rightarrow> string \<Rightarrow> string \<Rightarrow> string list \<Rightarrow> CommandType expected" where
  "subcommand table missing unknown tokens =
     (if length tokens < 2 then Inl (syntax_error missing)
      else case map_of table (ToUpper (tokens ! 1)) of
             None \<Rightarrow> Inl (syntax_error (unknown @ ToUpper (tokens ! 1)))
           | Some t \<Rightarrow> Inr t)"

definition parse_config :: "string list \<Rightarrow> Command expected" where
  "parse_config tokens =
     map_sum (\<lambda>e. e) (\<lambda>t. new_command\<lparr>cmd_type := t, cmd_path := third_token tokens\<rparr>)
       (subcommand [(''HELP'', kConfigHelp), (''SHOW'', kConfigShow), (''VERIFY'', kConfigVerify)]
         ''CONFIG requires subcommand: HELP|SHOW|VERIFY'' ''Unknown CONFIG subcommand: '' tokens)"

definition parse_dump :: "string list \<Rightarrow> Command expected" where
  "parse_dump tokens =
     map_sum (\<lambda>e. e) (\<lambda>t. new_command\<lparr>cmd_type := t, cmd_path := third_token tokens\<rparr>)
       (subcommand [(''SAVE'', kDumpSave), (''LOAD'', kDumpLoad), (''VERIFY'', kDumpVerify), (''INFO'', kDumpInfo), (''STATUS'', kDumpStatus)]
         ''DUMP requires subcommand: SAVE|LOAD|VERIFY|INFO|STATUS'' ''Unknown DUMP subcommand: '' tokens)"

definition parse_debug :: "string list \<Rightarrow> Command expected" where
  "parse_debug tokens =
     (if length tokens \<noteq> 2 then Inl (syntax_error ''DEBUG requires exactly one argument: ON|OFF'')
      else map_sum (\<lambda>e. e) (\<lambda>t. new_command\<lparr>cmd_type := t\<rparr>)
             (subcommand [(''ON'', kDebugOn), (''OFF'', kDebugOff)] [] ''DEBUG requires ON or OFF, got: '' tokens))"

definition parse_cache :: "string list \<Rightarrow> Command expected" where
  "parse_cache tokens =
     map_sum (\<lambda>e. e) (\<lambda>t. new_command\<lparr>cmd_type := t\<rparr>)
       (subcommand [(''STATS'', kCacheStats), (''CLEAR'', kCacheClear), (''ENABLE'', kCacheEnable), (''DISABLE'', kCacheDisable)]
         ''CACHE requires subcommand: STATS|CLEAR|ENABLE|DISABLE'' ''Unknown CACHE subcommand: '' tokens)"

definition parse_set :: "string list \<Rightarrow> Command expected" where
  "parse_set tokens =
     (if length tokens < 3 then Inl (syntax_error ''SET requires 2 arguments: <variable_name> <value>'')
      else Inr (new_command\<lparr>cmd_type := kSet, cmd_variable_name := tokens ! 1, cmd_variable_value := join_with (CHR '' '') (drop 2 tokens)\<rparr>))"

definition parse_get :: "string list \<Rightarrow> Command expected" where
  "parse_get tokens =
     (if length tokens < 2 then Inl (syntax_error ''GET requires 1 argument: <variable_name>'')
      else Inr (new_command\<lparr>cmd_type := kGet, cmd_variable_name := tokens ! 1\<rparr>))"

definition parse_show :: "string list \<Rightarrow> Command expected" where
  "parse_show tokens =
     map_sum (\<lambda>e. e) (\<lambda>t. new_command\<lparr>cmd_type := t,
         cmd_pattern := (if 4 \<le> length tokens \<and> ToUpper (tokens ! 2) = ''LIKE'' then tokens ! 3 else [])\<rparr>)
       (subcommand [(''VARIABLES'', kShowVariables)] ''SHOW requires subcommand: VARIABLES'' ''Unknown SHOW subcommand: '' tokens)"

text \<open>The password is the rest of the untrimmed line after its first blank.\<close>

definition parse_auth :: "string \<Rightarrow> Command expected" where
  "parse_auth line =
     (let password = tl (dropWhile (\<lambda>c. c \<noteq> CHR '' '' \<and> c \<noteq> CHR 0x09) line)
      in if password = [] then Inl (syntax_error ''AUTH requires 1 argument: <password>'')
         else Inr (new_command\<lparr>cmd_type := kAuth, cmd_variable_value := password\<rparr>))"

subsection \<open>The parser\<close>

definition is_newline :: "char \<Rightarrow> bool" where
  "is_newline c \<longleftrightarrow> c = CHR 0x0D \<or> c = CHR 0x0A"

definition raw_line :: "string \<Rightarrow> string" where
  "raw_line request = rev (dropWhile is_newline (rev request))"

definition parse_tokens :: "stof_fun \<Rightarrow> u32 \<Rightarrow> string \<Rightarrow> string list \<Rightarrow> Command expected" where
  "parse_tokens stof max_top_k line tokens =
     (let name = ToUpper (hd tokens)
      in if name = ''AUTH'' then parse_auth line
         else if name = ''EVENT'' then parse_event tokens
         else if name = ''VECSET'' then parse_vecset stof tokens
         else if name = ''VECDEL'' then parse_vecdel tokens
         else if name = ''METASET'' then parse_metaset tokens
         else if name = ''SIM'' then parse_sim stof max_top_k tokens
         else if name = ''SIMV'' then parse_simv stof max_top_k tokens
         else if name = ''INFO'' then Inr (new_command\<lparr>cmd_type := kInfo\<rparr>)
         else if name = ''CONFIG'' then parse_config tokens
         else if name = ''DUMP'' then parse_dump tokens
         else if name = ''DEBUG'' then parse_debug tokens
         else if name = ''CACHE'' then parse_cache tokens
         else if name = ''SET'' then parse_set tokens
         else if name = ''GET'' then parse_get tokens
         else if name = ''SHOW'' then parse_show tokens
         else Inl (MakeError kCommandUnknown (''Unknown command: '' @ name)))"

definition ParseCommand :: "stof_fun \<Rightarrow> string \<Rightarrow> u32 \<Rightarrow> Command expected" where
  "ParseCommand stof request max_top_k =
     (if request = [] then Inl (syntax_error ''Empty command'')
      else if CHR 0x00 \<in> set request then Inl (syntax_error ''Command must not contain embedded NUL bytes'')
      else let line = raw_line request
           in if line = [] then Inl (syntax_error ''Empty command'')
              else if list_ex is_newline line then Inl (syntax_error ''Command must be a single line'')
              else let tokens = Split (Trim line) (CHR '' '')
                   in if tokens = [] then Inl (syntax_error ''Empty command'') else parse_tokens stof max_top_k line tokens)"

subsection \<open>What a token is\<close>

definition token_ok :: "string \<Rightarrow> bool" where
  "token_ok s \<longleftrightarrow> s \<noteq> [] \<and> CHR '' '' \<notin> set s \<and> CHR 0x00 \<notin> set s \<and> \<not> list_ex is_newline s"

lemma Split_tokens:
  "t \<in> set (Split s d) \<Longrightarrow> t \<noteq> [] \<and> d \<notin> set t \<and> set t \<subseteq> set s \<and> length t \<le> length s"
proof (induction s d rule: Split.induct)
  case (1 s d)
  let ?tok = "takeWhile (\<lambda>c. c \<noteq> d) s" and ?rest = "tl (dropWhile (\<lambda>c. c \<noteq> d) s)"
  have rest: "set ?rest \<subseteq> set s" "length ?rest \<le> length s"
    using set_dropWhileD [of _ "\<lambda>c. c \<noteq> d" s] length_dropWhile_le [of "\<lambda>c. c \<noteq> d" s] by (auto dest: list.set_sel(2) [rotated])
       (metis empty_iff list.sel(2) list.set(1) list.set_sel(2))
  have "s \<noteq> []" using "1.prems" by (auto simp: Split.simps)
  then consider "t = ?tok" "?tok \<noteq> []" | "t \<in> set (Split ?rest d)" using "1.prems" by (subst (asm) Split.simps) (auto simp: Let_def split: if_splits)
  then show ?case
  proof cases
    case 1
    then show ?thesis by (auto simp: length_takeWhile_le dest: set_takeWhileD)
  next
    case 2
    have "t \<noteq> [] \<and> d \<notin> set t \<and> set t \<subseteq> set ?rest \<and> length t \<le> length ?rest"
      using 2 "1.IH" \<open>s \<noteq> []\<close> by (cases "?tok = []") auto
    then show ?thesis using rest by auto
  qed
qed

lemma length_Split: "length (Split s d) \<le> length s"
proof (induction s d rule: Split.induct)
  case (1 s d)
  have "s \<noteq> [] \<Longrightarrow> length (tl (dropWhile (\<lambda>c. c \<noteq> d) s)) < length s" by (simp add: dropWhile_shorter)
  then show ?case using "1.IH" by (subst Split.simps) (fastforce simp: Let_def)
qed

lemma Trim_subset: "set (Trim s) \<subseteq> set s" "length (Trim s) \<le> length s"
  using length_dropWhile_le [of is_space "rev (dropWhile is_space s)"] length_dropWhile_le [of is_space s]
  by (auto simp: Trim_def dest!: set_dropWhileD)

lemma raw_line_subset: "set (raw_line s) \<subseteq> set s" "length (raw_line s) \<le> length s"
  using length_dropWhile_le [of is_newline "rev s"] by (auto simp: raw_line_def dest: set_dropWhileD)

text \<open>A request that is parsed has tokens, and the parser only reads them.\<close>

lemma ParseCommand_tokens:
  assumes "ParseCommand stof request max_top_k = Inr cmd"
  obtains tokens where "parse_tokens stof max_top_k (raw_line request) tokens = Inr cmd" "tokens \<noteq> []" "list_all token_ok tokens"
    "list_all (\<lambda>t. length t \<le> length request) tokens" "length tokens \<le> length request"
proof -
  let ?tokens = "Split (Trim (raw_line request)) (CHR '' '')"
  have h: "CHR 0x00 \<notin> set request" "\<not> list_ex is_newline (raw_line request)" "?tokens \<noteq> []"
    "parse_tokens stof max_top_k (raw_line request) ?tokens = Inr cmd"
    using assms by (auto simp: ParseCommand_def Let_def split: if_splits)
  have "token_ok t \<and> length t \<le> length request" if "t \<in> set ?tokens" for t
  proof -
    have "t \<noteq> []" "CHR '' '' \<notin> set t" "set t \<subseteq> set (raw_line request)" "length t \<le> length (Trim (raw_line request))"
      using Split_tokens [OF that] Trim_subset(1) [of "raw_line request"] by auto
    then show ?thesis
      using h(1,2) raw_line_subset [of request] Trim_subset(2) [of "raw_line request"]
      by (auto simp: token_ok_def list_ex_iff)
  qed
  then show thesis
    using that [OF h(4,3)] length_Split [of "Trim (raw_line request)" "CHR '' ''"] raw_line_subset(2) [of request]
      Trim_subset(2) [of "raw_line request"] by (simp add: list_all_iff)
qed

subsection \<open>Well-formed commands\<close>

definition top_k_in :: "u32 \<Rightarrow> int \<Rightarrow> bool" where
  "top_k_in max_top_k k \<longleftrightarrow> 0 < k \<and> k < 2 ^ 31 \<and> (max_top_k \<noteq> 0 \<longrightarrow> k \<le> uint max_top_k)"

definition vector_in :: "Command \<Rightarrow> bool" where
  "vector_in cmd \<longleftrightarrow> cmd_vector cmd \<noteq> [] \<and> list_all (\<lambda>w. isfinite (f32_value w)) (cmd_vector cmd) \<and> cmd_dimension cmd = int (length (cmd_vector cmd))"

fun command_in :: "u32 \<Rightarrow> CommandType \<Rightarrow> Command \<Rightarrow> bool" where
  "command_in k kEvent cmd \<longleftrightarrow> token_ok (cmd_ctx cmd) \<and> token_ok (cmd_id cmd) \<and> event_of_code (cmd_event_type cmd) \<noteq> None \<and>
     0 \<le> cmd_score cmd \<and> cmd_score cmd \<le> 100"
| "command_in k kVecset cmd \<longleftrightarrow> token_ok (cmd_id cmd) \<and> vector_in cmd"
| "command_in k kVecdel cmd \<longleftrightarrow> token_ok (cmd_id cmd)"
| "command_in k kMetaset cmd \<longleftrightarrow> token_ok (cmd_id cmd) \<and> token_ok (cmd_filter_expr cmd)"
| "command_in k kSim cmd \<longleftrightarrow> token_ok (cmd_id cmd) \<and> top_k_in k (cmd_top_k cmd) \<and> cmd_mode cmd \<in> {''events'', ''vectors'', ''fusion''} \<and>
     isfinite (f32_value (cmd_min_score cmd))"
| "command_in k kSimv cmd \<longleftrightarrow> top_k_in k (cmd_top_k cmd) \<and> vector_in cmd \<and> isfinite (f32_value (cmd_min_score cmd))"
| "command_in k kUnknown cmd \<longleftrightarrow> False"
| "command_in k _ cmd \<longleftrightarrow> True"

definition command_ok :: "u32 \<Rightarrow> Command \<Rightarrow> bool" where
  "command_ok k cmd \<longleftrightarrow> command_in k (cmd_type cmd) cmd \<and> cmd_metadata cmd = None"

lemma ParseFloats_finite: "ParseFloats stof ts = Inr vs \<Longrightarrow> length vs = length ts \<and> list_all (\<lambda>w. isfinite (f32_value w)) vs"
  by (induction ts arbitrary: vs) (auto simp: ParseFloat_def split: sum.splits option.splits prod.splits if_splits)

lemma ParseInt_int: "ParseInt str = Inr v \<Longrightarrow> - (2 ^ 31) \<le> v \<and> v < 2 ^ 31"
  by (auto simp: ParseInt_def stoi_def split: option.splits if_splits)

lemma ParseTopK_in:
  assumes "ParseTopK str max_top_k = Inr k"
  shows "top_k_in max_top_k k"
proof -
  have k: "ParseInt str = Inr k" "0 < k" "max_top_k \<noteq> 0 \<Longrightarrow> word_of_int k \<le> max_top_k"
    using assms by (auto simp: ParseTopK_def word_gt_0 split: sum.splits if_splits)
  have "k < 2 ^ 31" using ParseInt_int [OF k(1)] by simp
  moreover from this have "uint (word_of_int k :: u32) = k" using k(2) by (simp add: uint_word_of_int_eq take_bit_int_eq_self)
  ultimately show ?thesis using k(2,3) by (auto simp: top_k_in_def word_le_def)
qed

lemma ParseEventScore_in: "ParseEventScore str = Inr v \<Longrightarrow> 0 \<le> v \<and> v \<le> 100"
  by (auto simp: ParseEventScore_def kMinEventScore_def kMaxEventScore_def split: sum.splits if_splits)

lemma with_timestamp_fields:
  "with_timestamp ts cmd = Inr cmd' \<Longrightarrow> \<exists>x. cmd' = cmd\<lparr>cmd_timestamp := x\<rparr>"
  by (auto simp: with_timestamp_def split: list.splits sum.splits intro: exI [of _ "cmd_timestamp cmd"])

lemma tokens_nth:
  assumes "list_all token_ok tokens" "i < length tokens"
  shows "token_ok (tokens ! i)"
  using assms by (simp add: list_all_length)

definition event_form :: "string list \<Rightarrow> EventType \<Rightarrow> int \<Rightarrow> u64 option \<Rightarrow> Command" where
  "event_form tokens ty sc x = new_command\<lparr>cmd_type := kEvent, cmd_ctx := tokens ! 1, cmd_event_type := event_code ty,
     cmd_id := tokens ! 3, cmd_score := sc, cmd_timestamp := x\<rparr>"

lemma with_timestamp_event:
  assumes "with_timestamp ts (new_command\<lparr>cmd_type := kEvent, cmd_ctx := c, cmd_event_type := t, cmd_id := i, cmd_score := sc\<rparr>) = Inr cmd"
  shows "\<exists>x. cmd = new_command\<lparr>cmd_type := kEvent, cmd_ctx := c, cmd_event_type := t, cmd_id := i, cmd_score := sc, cmd_timestamp := x\<rparr>"
proof -
  obtain x where "cmd = new_command\<lparr>cmd_type := kEvent, cmd_ctx := c, cmd_event_type := t, cmd_id := i, cmd_score := sc\<rparr>\<lparr>cmd_timestamp := x\<rparr>"
    using with_timestamp_fields [OF assms] by blast
  then show ?thesis by (intro exI [of _ x]) simp
qed

lemma parse_scored_event_form:
  assumes "parse_scored_event s ty tokens = Inr cmd"
  shows "\<exists>sc x. cmd = event_form tokens ty sc x \<and> 0 \<le> sc \<and> sc \<le> 100"
proof (cases "ParseEventScore (tokens ! 4)")
  case (Inl e)
  then show ?thesis using assms by (auto simp: parse_scored_event_def split: if_splits)
next
  case (Inr sc)
  then have "with_timestamp (drop 5 tokens) (new_command\<lparr>cmd_type := kEvent, cmd_ctx := tokens ! 1, cmd_event_type := event_code ty,
      cmd_id := tokens ! 3, cmd_score := sc\<rparr>) = Inr cmd" using assms by (auto simp: parse_scored_event_def split: if_splits)
  then show ?thesis using with_timestamp_event ParseEventScore_in [OF Inr] unfolding event_form_def by blast
qed

lemma parse_event_form:
  assumes "parse_event tokens = Inr cmd"
  shows "\<exists>ty sc x. cmd = event_form tokens ty sc x \<and> 0 \<le> sc \<and> sc \<le> 100" "4 \<le> length tokens"
proof -
  show "4 \<le> length tokens" using assms by (auto simp: parse_event_def split: if_splits)
  consider "\<exists>s ty. parse_scored_event s ty tokens = Inr cmd"
    | "with_timestamp (drop 4 tokens) (new_command\<lparr>cmd_type := kEvent, cmd_ctx := tokens ! 1,
         cmd_event_type := event_code DEL, cmd_id := tokens ! 3, cmd_score := 0\<rparr>) = Inr cmd"
    using assms by (auto simp: parse_event_def Let_def simp del: event_code.simps split: if_splits)
  then show "\<exists>ty sc x. cmd = event_form tokens ty sc x \<and> 0 \<le> sc \<and> sc \<le> 100"
  proof cases
    case 1
    then show ?thesis using parse_scored_event_form by blast
  next
    case 2
    then obtain x where "cmd = event_form tokens DEL 0 x" using with_timestamp_event unfolding event_form_def by blast
    then show ?thesis by (intro exI [of _ DEL] exI [of _ 0] exI [of _ x]) simp
  qed
qed

text \<open>The options of a search keep what the command has and set checked values.\<close>

definition search_ok :: "Command \<Rightarrow> bool" where
  "search_ok cmd \<longleftrightarrow> cmd_mode cmd \<in> {''events'', ''vectors'', ''fusion''} \<and> isfinite (f32_value (cmd_min_score cmd)) \<and> cmd_metadata cmd = None"

lemma shared_option_ok:
  assumes "shared_option stof name tok cmd = Inr cmd'" "search_ok cmd"
  shows "search_ok cmd' \<and> cmd_type cmd' = cmd_type cmd \<and> cmd_id cmd' = cmd_id cmd \<and> cmd_top_k cmd' = cmd_top_k cmd"
  using assms by (auto simp: shared_option_def search_ok_def ParseFloat_def split: if_splits sum.splits option.splits prod.splits)

lemma sim_option_ok:
  assumes "sim_option stof tok cmd = Inr cmd'" "search_ok cmd"
  shows "search_ok cmd' \<and> cmd_type cmd' = cmd_type cmd \<and> cmd_id cmd' = cmd_id cmd \<and> cmd_top_k cmd' = cmd_top_k cmd"
proof (cases "prefix ''using='' tok \<or> prefix ''adaptive='' tok")
  case True
  then show ?thesis using assms by (auto simp: sim_option_def search_ok_def Let_def split: if_splits)
next
  case False
  then have "shared_option stof ''SIM'' tok cmd = Inr cmd'" using assms(1) by (simp add: sim_option_def)
  then show ?thesis using shared_option_ok assms(2) by blast
qed

lemma sim_options_ok:
  "\<lbrakk>sim_options stof ts cmd = Inr cmd'; search_ok cmd\<rbrakk> \<Longrightarrow>
     search_ok cmd' \<and> cmd_type cmd' = cmd_type cmd \<and> cmd_id cmd' = cmd_id cmd \<and> cmd_top_k cmd' = cmd_top_k cmd"
  by (induction ts arbitrary: cmd) (auto split: sum.splits dest: sim_option_ok)

lemma simv_options_ok:
  "\<lbrakk>simv_options stof ts cmd = Inr (cmd', rest); search_ok cmd\<rbrakk> \<Longrightarrow>
     search_ok cmd' \<and> cmd_type cmd' = cmd_type cmd \<and> cmd_id cmd' = cmd_id cmd \<and> cmd_top_k cmd' = cmd_top_k cmd"
  by (induction ts arbitrary: cmd) (auto split: sum.splits if_splits dest: shared_option_ok)

lemma search_ok_new: "search_ok (new_command\<lparr>cmd_type := t, cmd_id := i, cmd_top_k := k\<rparr>)" "search_ok (new_command\<lparr>cmd_type := t, cmd_top_k := k\<rparr>)"
  by (simp_all add: search_ok_def new_command_def f32_value_def ieee_def)

lemma parse_event_ok:
  assumes "parse_event tokens = Inr cmd" "list_all token_ok tokens"
  shows "command_ok k cmd"
  using parse_event_form [OF assms(1)] tokens_nth [OF assms(2), of 1] tokens_nth [OF assms(2), of 3]
  by (auto simp: command_ok_def event_form_def new_command_def)

lemma parse_vecset_form:
  assumes "parse_vecset stof tokens = Inr cmd"
  shows "\<exists>vec. cmd = new_command\<lparr>cmd_type := kVecset, cmd_id := tokens ! 1, cmd_dimension := int (length vec), cmd_vector := vec\<rparr> \<and>
    list_all (\<lambda>w. isfinite (f32_value w)) vec \<and> length vec = length tokens - 2" "3 \<le> length tokens"
proof -
  show "3 \<le> length tokens" using assms by (auto simp: parse_vecset_def split: if_splits)
  obtain vec where "ParseFloats stof (drop 2 tokens) = Inr vec"
      "cmd = new_command\<lparr>cmd_type := kVecset, cmd_id := tokens ! 1, cmd_dimension := int (length vec), cmd_vector := vec\<rparr>"
    using assms by (auto simp: parse_vecset_def split: if_splits sum.splits)
  then show "\<exists>vec. cmd = new_command\<lparr>cmd_type := kVecset, cmd_id := tokens ! 1, cmd_dimension := int (length vec), cmd_vector := vec\<rparr> \<and>
      list_all (\<lambda>w. isfinite (f32_value w)) vec \<and> length vec = length tokens - 2"
    using ParseFloats_finite [of stof "drop 2 tokens" vec] by (intro exI [of _ vec]) simp
qed

lemma parse_vecset_ok:
  assumes "parse_vecset stof tokens = Inr cmd" "list_all token_ok tokens"
  shows "command_ok k cmd"
  using parse_vecset_form [OF assms(1)] tokens_nth [OF assms(2), of 1]
  by (auto simp: command_ok_def vector_in_def new_command_def)

lemma parse_sim_ok:
  assumes "parse_sim stof k tokens = Inr cmd" "list_all token_ok tokens"
  shows "command_ok k cmd \<and> \<not> IsSnapshotProtectedWrite (cmd_type cmd)"
proof -
  obtain n where n: "ParseTopK (tokens ! 2) k = Inr n" "3 \<le> length tokens"
      "sim_options stof (drop 3 tokens) (new_command\<lparr>cmd_type := kSim, cmd_id := tokens ! 1, cmd_top_k := n\<rparr>) = Inr cmd"
    using assms(1) by (auto simp: parse_sim_def split: if_splits sum.splits)
  from sim_options_ok [OF n(3) search_ok_new(1)] show ?thesis
    using ParseTopK_in [OF n(1)] tokens_nth [OF assms(2), of 1] n(2) by (simp add: command_ok_def search_ok_def IsSnapshotProtectedWrite_def new_command_def)
qed

lemma parse_simv_ok:
  assumes "parse_simv stof k tokens = Inr cmd"
  shows "command_ok k cmd \<and> \<not> IsSnapshotProtectedWrite (cmd_type cmd)"
proof -
  obtain n cmd0 rest vec where n: "ParseTopK (tokens ! 1) k = Inr n"
      "simv_options stof (drop 2 tokens) (new_command\<lparr>cmd_type := kSimv, cmd_top_k := n\<rparr>) = Inr (cmd0, rest)"
      "ParseFloats stof rest = Inr vec" "vec \<noteq> []" "cmd = cmd0\<lparr>cmd_dimension := int (length vec), cmd_vector := vec\<rparr>"
    using assms by (auto simp: parse_simv_def split: if_splits sum.splits)
  from simv_options_ok [OF n(2) search_ok_new(2)] show ?thesis
    using ParseTopK_in [OF n(1)] ParseFloats_finite [OF n(3)] n(4,5) by (simp add: command_ok_def search_ok_def vector_in_def IsSnapshotProtectedWrite_def new_command_def)
qed

lemma subcommand_type: "subcommand table missing unknown tokens = Inr t \<Longrightarrow> t \<in> snd ` set table"
  by (auto simp: subcommand_def split: if_splits option.splits dest!: map_of_SomeD) force

lemma parse_admin_ok:
  "parse_config tokens = Inr cmd \<Longrightarrow> command_ok k cmd \<and> \<not> IsSnapshotProtectedWrite (cmd_type cmd)" "parse_dump tokens = Inr cmd \<Longrightarrow> command_ok k cmd \<and> \<not> IsSnapshotProtectedWrite (cmd_type cmd)"
  "parse_debug tokens = Inr cmd \<Longrightarrow> command_ok k cmd \<and> \<not> IsSnapshotProtectedWrite (cmd_type cmd)" "parse_cache tokens = Inr cmd \<Longrightarrow> command_ok k cmd \<and> \<not> IsSnapshotProtectedWrite (cmd_type cmd)"
  "parse_show tokens = Inr cmd \<Longrightarrow> command_ok k cmd \<and> \<not> IsSnapshotProtectedWrite (cmd_type cmd)" "parse_auth line = Inr cmd \<Longrightarrow> command_ok k cmd \<and> \<not> IsSnapshotProtectedWrite (cmd_type cmd)"
  "parse_set tokens = Inr cmd \<Longrightarrow> command_ok k cmd \<and> \<not> IsSnapshotProtectedWrite (cmd_type cmd)" "parse_get tokens = Inr cmd \<Longrightarrow> command_ok k cmd \<and> \<not> IsSnapshotProtectedWrite (cmd_type cmd)"
proof -
  have sub: "\<exists>t. subcommand table missing unknown tokens = Inr t \<and> cmd = f t \<and> t \<in> snd ` set table"
    if "map_sum (\<lambda>e. e) f (subcommand table missing unknown tokens) = Inr cmd" for table missing unknown f
    using that subcommand_type by (cases "subcommand table missing unknown tokens") auto
  show "parse_config tokens = Inr cmd \<Longrightarrow> command_ok k cmd \<and> \<not> IsSnapshotProtectedWrite (cmd_type cmd)" "parse_dump tokens = Inr cmd \<Longrightarrow> command_ok k cmd \<and> \<not> IsSnapshotProtectedWrite (cmd_type cmd)"
    "parse_debug tokens = Inr cmd \<Longrightarrow> command_ok k cmd \<and> \<not> IsSnapshotProtectedWrite (cmd_type cmd)" "parse_cache tokens = Inr cmd \<Longrightarrow> command_ok k cmd \<and> \<not> IsSnapshotProtectedWrite (cmd_type cmd)"
    "parse_show tokens = Inr cmd \<Longrightarrow> command_ok k cmd \<and> \<not> IsSnapshotProtectedWrite (cmd_type cmd)"
    by (auto simp: parse_config_def parse_dump_def parse_debug_def parse_cache_def parse_show_def command_ok_def new_command_def IsSnapshotProtectedWrite_def
        split: if_split_asm dest!: sub)
qed (auto simp: parse_auth_def parse_set_def parse_get_def Let_def command_ok_def new_command_def IsSnapshotProtectedWrite_def split: if_split_asm)

lemma if_InrE: "\<lbrakk>(if b then x else y) = Inr c; x = Inr c \<Longrightarrow> P; y = Inr c \<Longrightarrow> P\<rbrakk> \<Longrightarrow> P"
  by (cases b) simp_all

lemma parse_tokens_cases:
  assumes "parse_tokens stof k line tokens = Inr cmd"
  obtains "parse_auth line = Inr cmd" | "parse_event tokens = Inr cmd" | "parse_vecset stof tokens = Inr cmd" | "parse_vecdel tokens = Inr cmd"
    | "parse_metaset tokens = Inr cmd" | "parse_sim stof k tokens = Inr cmd" | "parse_simv stof k tokens = Inr cmd"
    | "cmd = new_command\<lparr>cmd_type := kInfo\<rparr>" | "parse_config tokens = Inr cmd" | "parse_dump tokens = Inr cmd" | "parse_debug tokens = Inr cmd"
    | "parse_cache tokens = Inr cmd" | "parse_set tokens = Inr cmd" | "parse_get tokens = Inr cmd" | "parse_show tokens = Inr cmd"
  using assms unfolding parse_tokens_def Let_def
  by - (erule if_InrE, erule that(1), erule if_InrE, erule that(2), erule if_InrE, erule that(3), erule if_InrE, erule that(4),
       erule if_InrE, erule that(5), erule if_InrE, erule that(6), erule if_InrE, erule that(7), erule if_InrE, rule that(8), erule sum.inject(2) [THEN iffD1, THEN sym],
       erule if_InrE, erule that(9), erule if_InrE, erule that(10), erule if_InrE, erule that(11), erule if_InrE, erule that(12),
       erule if_InrE, erule that(13), erule if_InrE, erule that(14), erule if_InrE, erule that(15), simp)

lemma parse_tokens_ok:
  assumes "parse_tokens stof k line tokens = Inr cmd" "list_all token_ok tokens"
  shows "command_ok k cmd"
proof -
  have vecdel: "command_ok k cmd" if "parse_vecdel tokens = Inr cmd" using that tokens_nth [OF assms(2), of 1]
    by (auto simp: parse_vecdel_def command_ok_def new_command_def split: if_splits)
  have metaset: "command_ok k cmd" if "parse_metaset tokens = Inr cmd"
    using that tokens_nth [OF assms(2), of 1] tokens_nth [OF assms(2), of 2]
    by (auto simp: parse_metaset_def command_ok_def new_command_def split: if_splits)
  have info: "command_ok k (new_command\<lparr>cmd_type := kInfo\<rparr>)" by (simp add: command_ok_def new_command_def)
  show ?thesis
    by (rule parse_tokens_cases [OF assms(1)])
       (erule vecdel | erule metaset | erule parse_event_ok [OF _ assms(2)] | erule parse_vecset_ok [OF _ assms(2)] |
        erule parse_sim_ok [OF _ assms(2), THEN conjunct1] | erule parse_simv_ok [THEN conjunct1] | erule parse_admin_ok [THEN conjunct1] | simp only: info)+
qed

subsection \<open>Properties\<close>

text \<open>
  C12. A request that is parsed gives a well-formed command: identifiers and contexts are non-empty words
  without blanks, line breaks and NUL, event types are valid and scores between 0 and 100, vectors are
  non-empty and finite and have the stated dimension, top_k is positive and within the configured
  maximum, and search modes are known ones.
\<close>

theorem parsed_command_well_formed:
  assumes "ParseCommand stof request max_top_k = Inr cmd"
  shows "command_ok max_top_k cmd"
  using ParseCommand_tokens [OF assms] parse_tokens_ok by metis

text \<open>
  Every write command that is parsed from a request of less than 256 megabytes fits the log: its fields
  and its payload are within the 32-bit lengths of the encoding, and a replay reads it back.
\<close>

lemma parsed_write_loggable:
  assumes parse: "ParseCommand stof request max_top_k = Inr cmd" and len: "length request < 2 ^ 28"
    and ty: "IsSnapshotProtectedWrite (cmd_type cmd)"
  shows "loggable cmd \<and> length (EncodeCommand cmd) < 2 ^ 32"
proof -
  obtain tokens where tk: "parse_tokens stof max_top_k (raw_line request) tokens = Inr cmd" "tokens \<noteq> []" "list_all token_ok tokens"
      "list_all (\<lambda>t. length t \<le> length request) tokens" "length tokens \<le> length request"
    using ParseCommand_tokens [OF parse] by blast
  have short: "length (tokens ! i) < 2 ^ 28" if "i < length tokens" for i using tk(4) len that by (auto simp: list_all_length)
  from parse_tokens_cases [OF tk(1)] show ?thesis
  proof cases
    case 2
    then show ?thesis
      using parse_event_form [OF 2] short [of 1] short [of 3] by (auto simp: event_form_def loggable_def EncodeCommand_def AppendString_def new_command_def)
  next
    case 3
    then obtain vec where vec: "cmd = new_command\<lparr>cmd_type := kVecset, cmd_id := tokens ! 1, cmd_dimension := int (length vec), cmd_vector := vec\<rparr>"
        "length vec = length tokens - 2" "3 \<le> length tokens" using parse_vecset_form [OF 3] by blast
    moreover have "length vec < 2 ^ 28" using vec(2) tk(5) len by simp
    moreover have "length (concat (map AppendFloat vec)) = 4 * length vec" by (induction vec) (simp_all add: AppendFloat_def)
    ultimately show ?thesis using short [of 1] by (simp add: loggable_def EncodeCommand_def AppendString_def new_command_def)
  next
    case 4
    then show ?thesis using short [of 1] by (auto simp: parse_vecdel_def loggable_def EncodeCommand_def AppendString_def new_command_def split: if_splits)
  next
    case 5
    then show ?thesis using short [of 1] short [of 2]
      by (auto simp: parse_metaset_def loggable_def EncodeCommand_def AppendString_def new_command_def split: if_splits)
  qed (use ty parse_admin_ok parse_sim_ok [OF _ tk(3)] parse_simv_ok in \<open>auto simp: IsSnapshotProtectedWrite_def new_command_def\<close>)
qed

subsection \<open>Printing and parsing\<close>

definition word_text :: "string \<Rightarrow> bool" where
  "word_text s \<longleftrightarrow> s \<noteq> [] \<and> (\<forall>c \<in> set s. \<not> is_space c \<and> c \<noteq> CHR 0x00)"

fun type_text :: "EventType \<Rightarrow> string" where
  "type_text ADD = ''ADD''"
| "type_text SET = ''SET''"
| "type_text DEL = ''DEL''"

definition event_tokens :: "string \<Rightarrow> EventType \<Rightarrow> string \<Rightarrow> int \<Rightarrow> u64 \<Rightarrow> string list" where
  "event_tokens ctx ty item score ts =
     [''EVENT'', ctx, type_text ty, item] @ (if ty = DEL then [] else [show_int score]) @ [''timestamp='' @ show_nat (unat ts)]"

lemma Split_join: "\<forall>t \<in> set ts. t \<noteq> [] \<and> d \<notin> set t \<Longrightarrow> Split (join_with d ts) d = ts"
proof (induction d ts rule: join_with.induct)
  case (2 d x)
  have "takeWhile (\<lambda>c. c \<noteq> d) x = x" "dropWhile (\<lambda>c. c \<noteq> d) x = []" using 2 by (auto simp: takeWhile_eq_all_conv dropWhile_eq_Nil_conv)
  moreover have "x \<noteq> []" using 2 by simp
  ultimately show ?case by (subst join_with.simps, subst Split.simps) (simp only: Let_def if_False if_True not_False_eq_True list.sel(2), simp add: Split.simps)
next
  case (3 d x y xs)
  have x: "\<forall>c \<in> set x. c \<noteq> d" "x \<noteq> []" using 3(2) by auto
  then have "takeWhile (\<lambda>c. c \<noteq> d) (x @ d # join_with d (y # xs)) = x" "dropWhile (\<lambda>c. c \<noteq> d) (x @ d # join_with d (y # xs)) = d # join_with d (y # xs)"
    by (simp_all add: takeWhile_append2 dropWhile_append2)
  then show ?case using x 3 by (subst Split.simps) simp
qed (simp add: Split.simps)

lemma set_join: "set (join_with d ts) \<subseteq> \<Union> (set ` set ts) \<union> {d}"
  by (induction d ts rule: join_with.induct) auto

lemma dropWhile_last: "\<lbrakk>xs \<noteq> []; \<not> P (last xs)\<rbrakk> \<Longrightarrow> rev (dropWhile P (rev xs)) = xs"
  by (cases xs rule: rev_cases) simp_all

lemma last_join: "\<lbrakk>ts \<noteq> []; last ts \<noteq> []\<rbrakk> \<Longrightarrow> join_with d ts \<noteq> [] \<and> last (join_with d ts) = last (last ts)"
  by (induction d ts rule: join_with.induct) auto

lemma hd_join: "\<lbrakk>ts \<noteq> []; hd ts \<noteq> []\<rbrakk> \<Longrightarrow> hd (join_with d ts) = hd (hd ts)"
  by (induction d ts rule: join_with.induct) auto

lemma ParseCommand_join:
  assumes "ts \<noteq> []" "\<forall>t \<in> set ts. word_text t"
  shows "ParseCommand stof (join_with (CHR '' '') ts) k = parse_tokens stof k (join_with (CHR '' '') ts) ts"
proof -
  let ?s = "join_with (CHR '' '') ts"
  have words: "t \<noteq> []" "CHR '' '' \<notin> set t" if "t \<in> set ts" for t using assms(2) that by (auto simp: word_text_def is_space_def)
  have nonl: "\<not> is_newline c" if "\<not> is_space c \<or> c = CHR '' ''" for c using that by (auto simp: is_newline_def is_space_def)
  have "\<not> is_newline c \<and> c \<noteq> CHR 0x00" if mem: "c \<in> set ?s" for c
  proof -
    consider "c = CHR '' ''" | u where "u \<in> set ts" "c \<in> set u" using set_join [of "CHR '' ''" ts] mem by blast
    then show ?thesis using assms(2) nonl by cases (simp_all add: word_text_def)
  qed
  then have chars: "CHR 0x00 \<notin> set ?s" "\<not> list_ex is_newline ?s" by (auto simp: list_ex_iff)
  have ne: "hd ts \<noteq> []" "last ts \<noteq> []" using words assms(1) by auto
  have "\<not> is_space (last (last ts))" "\<not> is_space (hd (hd ts))"
    using assms(2) last_in_set [OF assms(1)] hd_in_set [OF assms(1)] last_in_set [OF ne(2)] hd_in_set [OF ne(1)] by (auto simp: word_text_def)
  then have ends: "\<not> is_space (last ?s)" "\<not> is_space (hd ?s)" "?s \<noteq> []" using last_join [OF assms(1) ne(2)] hd_join [OF assms(1) ne(1)] by auto
  have "dropWhile is_space ?s = ?s" using ends by (cases ?s) auto
  then have "Trim ?s = ?s" using dropWhile_last [OF ends(3), of is_space] ends(1) by (simp add: Trim_def)
  moreover have "raw_line ?s = ?s" using dropWhile_last [OF ends(3), of is_newline] ends(1) nonl by (simp add: raw_line_def)
  moreover have "Split ?s (CHR '' '') = ts" using words by (intro Split_join) auto
  ultimately show ?thesis using chars ends(3) assms(1) by (simp add: ParseCommand_def)
qed

lemma stoull_digits: "n < 2 ^ 64 \<Longrightarrow> stoull (show_nat n) = Some (of_nat n, [])"
proof -
  assume n: "n < 2 ^ 64"
  have all: "list_all dec_digit (show_nat n)" by (rule dec_digit_show)
  then obtain d ds where ds: "show_nat n = d # ds" by (cases "show_nat n") auto
  have d: "\<not> is_space d" "d \<noteq> CHR ''-''" "d \<noteq> CHR ''+''" using all ds by (auto simp: dec_digit_def is_space_def)
  have tw: "takeWhile dec_digit (show_nat n) = show_nat n" "dropWhile dec_digit (show_nat n) = []"
    using all by (auto simp: takeWhile_eq_all_conv dropWhile_eq_Nil_conv list_all_iff)
  have "dropWhile is_space (show_nat n) = show_nat n" "hd (show_nat n) \<notin> {CHR ''-'', CHR ''+''}" using d by (simp_all add: ds)
  then show ?thesis using n tw dec_value_show [of n] ds by (simp add: stoull_def Let_def)
qed

lemma ParseInt_show: "\<lbrakk>0 \<le> v; v < 2 ^ 31\<rbrakk> \<Longrightarrow> ParseInt (show_int v) = Inr v"
  using strtoll_digits [of "show_nat (nat v)" "nat v" "[]"] by (simp add: ParseInt_def stoi_def show_int_def Let_def)

lemma ParseTimestamp_show: "ParseTimestamp (''timestamp='' @ show_nat (unat ts)) = Inr ts"
proof -
  have "unat ts < 2 ^ 64" using unsigned_less [of ts] by simp
  then show ?thesis using stoull_digits [of "unat ts"] by (simp add: ParseTimestamp_def)
qed

lemma show_nat_word: "word_text (show_nat n)"
  using dec_digit_show [of n] by (auto simp: word_text_def list_all_iff dec_digit_def is_space_def)

text \<open>
  C13. An EVENT command that is printed with its context, type, item, score and time stamp is parsed back to
  exactly these fields.
\<close>

theorem event_text_roundtrip:
  assumes "word_text ctx" "word_text item" "0 \<le> score" "score \<le> 100" "ty = DEL \<longrightarrow> score = 0"
  shows "ParseCommand stof (join_with (CHR '' '') (event_tokens ctx ty item score ts)) k =
    Inr (new_command\<lparr>cmd_type := kEvent, cmd_ctx := ctx, cmd_event_type := event_code ty, cmd_id := item, cmd_score := score, cmd_timestamp := Some ts\<rparr>)"
proof -
  have "word_text ''EVENT''" "word_text (type_text ty)" by (simp add: word_text_def is_space_def) (cases ty, simp_all add: word_text_def is_space_def)
  moreover have "word_text (''timestamp='' @ s)" if "word_text s" for s using that by (simp add: word_text_def) (simp add: is_space_def)
  moreover have "word_text (show_int score)" using show_nat_word assms(3) by (simp add: show_int_def)
  ultimately have "word_text ''EVENT''" "word_text (type_text ty)" "word_text (''timestamp='' @ show_nat (unat ts))" "word_text (show_int score)"
    using show_nat_word by blast+
  then have words: "\<forall>t \<in> set (event_tokens ctx ty item score ts). word_text t" using assms(1,2) by (auto simp: event_tokens_def)
  have name: "ToUpper ''EVENT'' = ''EVENT''" "ToUpper (type_text ty) = type_text ty"
    by (simp add: ToUpper_def toupper_def) (cases ty, simp_all add: ToUpper_def toupper_def)
  have sc: "ParseEventScore (show_int score) = Inr score"
    using ParseInt_show [of score] assms(3,4) by (simp add: ParseEventScore_def kMinEventScore_def kMaxEventScore_def)
  have "parse_tokens stof k line (event_tokens ctx ty item score ts) = parse_event (event_tokens ctx ty item score ts)" for line
    using name by (simp add: parse_tokens_def event_tokens_def)
  moreover have "parse_event (event_tokens ctx ty item score ts) =
      Inr (new_command\<lparr>cmd_type := kEvent, cmd_ctx := ctx, cmd_event_type := event_code ty, cmd_id := item, cmd_score := score, cmd_timestamp := Some ts\<rparr>)"
    using name(2) sc ParseTimestamp_show [of ts] assms(5)
    by (cases ty) (simp_all add: parse_event_def parse_scored_event_def with_timestamp_def event_tokens_def)
  ultimately show ?thesis using ParseCommand_join [OF _ words] by (simp add: event_tokens_def)
qed

theorem event_text_roundtrip_witness:
  "ParseCommand (\<lambda>_. None) ''EVENT u1 ADD item7 95 timestamp=1700000000'' 0 =
     Inr (new_command\<lparr>cmd_type := kEvent, cmd_ctx := ''u1'', cmd_event_type := 0, cmd_id := ''item7'', cmd_score := 95, cmd_timestamp := Some 1700000000\<rparr>)"
proof -
  have "word_text ''u1''" "word_text ''item7''" by (simp_all add: word_text_def is_space_def)
  from event_text_roundtrip [OF this, of 95 ADD "\<lambda>_. None" 1700000000 0] show ?thesis
    by (simp add: event_tokens_def show_int_def show_nat.simps char_of_def bit_Suc_0_iff)
qed

theorem parsed_command_well_formed_witness:
  "command_ok 0 (new_command\<lparr>cmd_type := kVecdel, cmd_id := ''a''\<rparr>)"
proof -
  have "ParseCommand (\<lambda>_. None) (join_with (CHR '' '') [''VECDEL'', ''a'']) 0 = Inr (new_command\<lparr>cmd_type := kVecdel, cmd_id := ''a''\<rparr>)"
    by (subst ParseCommand_join) (simp_all add: word_text_def is_space_def parse_tokens_def ToUpper_def toupper_def parse_vecdel_def)
  then show ?thesis by (rule parsed_command_well_formed)
qed


subsection \<open>Serving requests\<close>

text \<open>
  The runs of a server on request lines: writes, requests that do not parse, AUTH and DEBUG, and
  maintenance.  Requests are shorter than 256 megabytes (\<^verbatim>\<open>perf.max_query_length\<close> is one megabyte by default).
\<close>

inductive serve :: "stof_fun \<Rightarrow> 'a other_handlers \<Rightarrow> 'a Env \<Rightarrow> bool \<Rightarrow> 'a HandlerContext \<Rightarrow> 'a HandlerContext \<Rightarrow> bool"
  for stof other env exact s0 where
  serve_start: "serve stof other env exact s0 s0"
| serve_write: "\<lbrakk>serve stof other env exact s0 s; log_ready call s; length request < 2 ^ 28; request_command (ParseCommand stof) request s = Inr cmd;
    IsSnapshotProtectedWrite (cmd_type cmd); exact \<and> cmd_type cmd = kEvent \<longrightarrow> fresh_event call cmd s;
    Dispatch (ParseCommand stof) other env call request conn s = Some (response, conn', s'); \<not> hc_read_only s'\<rbrakk> \<Longrightarrow>
    serve stof other env exact s0 s'"
| serve_other: "\<lbrakk>serve stof other env exact s0 s;
    case request_command (ParseCommand stof) request s of Inl e \<Rightarrow> True | Inr cmd \<Rightarrow> cmd_type cmd \<in> {kAuth, kDebugOn, kDebugOff};
    Dispatch (ParseCommand stof) other env call request conn s = Some (response, conn', s')\<rbrakk> \<Longrightarrow> serve stof other env exact s0 s'"
| serve_maintenance: "\<lbrakk>serve stof other env exact s0 s; log_ready call s; decay_ok alpha;
    MaintenanceCallback persist env call alpha prune s = Some (r, s'); \<not> hc_read_only s'\<rbrakk> \<Longrightarrow> serve stof other env exact s0 s'"

lemma Dispatch_other:
  assumes "Dispatch parse other env call request conn s = Some (response, conn', s')"
    and "case request_command parse request s of Inl e \<Rightarrow> True | Inr cmd \<Rightarrow> cmd_type cmd \<in> {kAuth, kDebugOn, kDebugOff}"
  shows "\<exists>x. s' = s\<lparr>hc_stats := x\<rparr>"
proof (cases "request_command parse request s")
  case (Inl e)
  then have "s' = s\<lparr>hc_stats := hc_stats s\<rparr>" using assms(1) by (auto simp: Dispatch_def request_command_def)
  then show ?thesis by blast
next
  case (Inr cmd)
  then consider "cmd_type cmd = kAuth" | "cmd_type cmd = kDebugOn" | "cmd_type cmd = kDebugOff" using assms(2) by auto
  then show ?thesis
  proof cases
    case 1
    then have "s' = s\<lparr>hc_stats := hc_stats s\<rparr> \<or> s' = failed s"
      using Inr assms(1) by (auto simp: Dispatch_def request_command_def HandleAuth_def split: if_splits)
    then show ?thesis unfolding failed_def by blast
  qed (use Inr assms(1) in \<open>auto simp: Dispatch_def request_command_def route_def failed_def count_command_def GetCommandPrivilege_def
       IsSnapshotProtectedCommand_def IsSnapshotProtectedWrite_def Let_def\<close>)
qed

lemma serve_live: "serve stof other env exact s0 s \<Longrightarrow> live (ParseCommand stof) other env exact s0 s"
proof (induction rule: serve.induct)
  case serve_start
  show ?case by (rule live_start)
next
  case (serve_write s call request cmd conn response conn' s')
  then have "loggable cmd \<and> length (EncodeCommand cmd) < 2 ^ 32" using parsed_write_loggable by (auto simp: request_command_def)
  then show ?case using live_request serve_write by blast
next
  case (serve_other s request call conn response conn' s')
  then show ?case using Dispatch_other live_stats by blast
next
  case (serve_maintenance s call alpha persist prune r s')
  then show ?case using live_maintenance by blast
qed

end
