(* ===== verification/Durability.thy ===== *)
theory Durability
  imports CommandParser VectorSearch
begin

text \<open>
  What the write path promises, over the handlers of \<open>Dispatcher\<close> and the simulation of \<open>Recovery\<close>:
  acknowledged writes survive a restart, a refused append changes no store, requests without the
  password change nothing, and two configurations with which the server cannot start again.
\<close>

subsection \<open>Restart\<close>



text \<open>An example: a server with an empty vector store and a fresh log.\<close>

definition example_env :: "unit Env" where
  "example_env = \<lparr>env_impl = scalar_impl, env_exp2 = exp2_ex, env_strtod = (\<lambda>_. None), env_crc = crc_zero, env_mem = mm_ex, env_ann = no_ann\<rparr>"

definition empty_vectors :: VectorStore where
  "empty_vectors = vs_new \<lparr>vc_default_dimension = 1, vc_distance_metric = ''cosine''\<rparr>"

definition example_context :: "WriteAheadLog option \<Rightarrow> unit HandlerContext" where
  "example_context w =
     \<lparr>hc_event_store = Some (es_new (default_events\<lparr>ec_dedup_window_sec := 0\<rparr>)),
      hc_co_index = Some (co_new \<lparr>cc_max_neighbors_per_item = 0, cc_min_support = Fin 0, cc_negative_max_propagation = 0\<rparr>),
      hc_vector_store = Some empty_vectors, hc_metadata_store = None, hc_similarity_engine = None, hc_cache = None,
      hc_stats = \<lparr>ss_total_commands = 0, ss_failed_commands = 0, ss_event_commands = 0, ss_sim_commands = 0, ss_vecset_commands = 0,
        ss_info_commands = 0, ss_config_commands = 0, ss_dump_commands = 0, ss_cache_commands = 0\<rparr>,
      hc_config = Some default_config, hc_loading = False, hc_read_only = False, hc_requirepass = [], hc_wal = w,
      hc_vector_generation = 0, hc_metadata_generation = 0, hc_dataset_generation = 0\<rparr>"

definition example_call :: Call where
  "example_call = \<lparr>call_clock = \<lparr>wall = 1, steady = 0\<rparr>, call_log_time = 5, call_faults = no_faults\<rparr>"

definition example_set :: Command where
  "example_set = new_command\<lparr>cmd_type := kVecset, cmd_id := ''a'', cmd_dimension := 1, cmd_vector := [0]\<rparr>"

lemma SetVector_example: "SetVector scalar_impl ''a'' [Fin 0] False empty_vectors = Some (Inr (), one_vector_store)"
proof -
  have prep: "vs_prepare scalar_impl ''a'' [Fin 0] False empty_vectors = Inr [Fin 0]"
    by (simp add: empty_vectors_def vs_prepare_def ValidateVector_def norm_zero kMaxVectorDimension_def vs_new_def)
  show ?thesis
    by (simp add: one_vector_store_def SetVector_def prep flip: empty_vectors_def)
       (simp add: empty_vectors_def vs_commit_def vs_new_def append_slot_def write_row_def)
qed

lemma ValidateVector_example: "ValidateVector scalar_impl ''a'' [Fin 0] empty_vectors = Inr ()"
  by (simp add: empty_vectors_def ValidateVector_def norm_zero kMaxVectorDimension_def vs_new_def)

lemma f32_value_0 [simp]: "f32_value 0 = Fin 0"
  by (simp add: f32_value_def ieee_def)

lemma example_sim: "sim example_env True (example_context (Some w)) (example_context None)"
proof -
  have "es_inv (es_new (default_events\<lparr>ec_dedup_window_sec := 0\<rparr>))" by (rule nv_inv) (simp add: default_events_def)
  moreover have "es_scores (es_new cfg)" for cfg by (simp add: es_scores_def GetEvents_def es_new_def)
  ultimately have "hc_ok example_env (example_context None)"
    by (simp add: hc_ok_def example_context_def example_env_def exp2_ex_ok default_config_def ingest_options_def options_ok_def default_events_def
        default_wal_def)
  then show ?thesis by (simp add: sim_def dedup_off_def data_of_def events_of_def) (simp add: example_context_def es_new_def)
qed

lemma loggable_example: "loggable example_set" "length (EncodeCommand example_set) \<le> 100"
  by (simp_all add: loggable_def example_set_def new_command_def EncodeCommand_def AppendString_def AppendFloat_def)

definition example_stof :: stof_fun where
  "example_stof s = (if s = ''0'' then Some (0, []) else None)"

lemma parse_example: "ParseCommand example_stof ''VECSET a 0'' k = Inr example_set"
proof -
  have "ParseCommand example_stof (join_with (CHR '' '') [''VECSET'', ''a'', ''0'']) k = Inr example_set"
    by (subst ParseCommand_join) (simp_all add: word_text_def is_space_def parse_tokens_def ToUpper_def toupper_def parse_vecset_def ParseFloat_def
        example_stof_def example_set_def)
  then show ?thesis by simp
qed

lemma example_step:
  assumes "Append crc_zero no_faults 5 kVecSet (EncodeCommand example_set) w = (Inr q, w')"
  shows "\<exists>s response. Dispatch (ParseCommand example_stof) (\<lambda>_ _ _. None) example_env example_call ''VECSET a 0'' conn (example_context (Some w)) =
      Some (response, conn, s) \<and> \<not> hc_read_only s \<and> hc_wal s = Some w' \<and> hc_vector_store s = Some one_vector_store"
proof -
  have cmd: "cmd_type example_set = kVecset" "cmd_id example_set = ''a''" "cmd_vector example_set = [0]" "cmd_metadata example_set = None"
    by (simp_all add: example_set_def new_command_def)
  show ?thesis
    using assms
    by (simp add: Dispatch_def parse_example example_context_def GetCommandPrivilege_def IsSnapshotProtectedCommand_def IsSnapshotProtectedWrite_def cmd route_def
        handle_write_def HandleVecset_def example_env_def ValidateVector_example logged_def AppendToWal_def example_call_def WalOpForCommand_def
        apply_vecset_def SetVector_example notify_added_def invalidate_item_def count_command_def default_config_def default_wal_def Let_def)
qed


subsection \<open>A refused append\<close>



subsection \<open>Authentication\<close>

lemma fold_or_zero: "fold (\<lambda>i d. d OR f i) xs (a :: 'a::len word) = 0 \<longleftrightarrow> a = 0 \<and> (\<forall>i \<in> set xs. f i = 0)"
proof (induction xs arbitrary: a)
  case (Cons x xs)
  have "a OR f x = 0 \<longleftrightarrow> a = 0 \<and> f x = 0" by (auto simp: bit_eq_iff bit_or_iff)
  then show ?case using Cons.IH by auto
qed simp

lemma unat_ucast_u8: "unat (ucast x :: u64) = unat (x :: u8)"
proof -
  have "unat x < 2 ^ 8" using unsigned_less [of x] by simp
  then show ?thesis by (simp add: unsigned_ucast_eq take_bit_nat_eq_self)
qed

lemma ConstantTimeEquals_iff:
  assumes "length left < 2 ^ 64" "length right < 2 ^ 64"
  shows "ConstantTimeEquals left right \<longleftrightarrow> left = right"
proof -
  have xor: "a XOR b = 0 \<longleftrightarrow> a = b" for a b :: "'a::len word" by (auto simp: bit_eq_iff bit_xor_iff)
  have uc: "(ucast x :: u64) = 0 \<longleftrightarrow> x = 0" for x :: u8
    by (metis unsigned_0 unat_ucast_u8 unat_eq_0)
  have len: "(of_nat (length left) :: u64) = of_nat (length right) \<longleftrightarrow> length left = length right"
    using assms by (auto simp: word_unat_eq_iff unat_of_nat take_bit_eq_mod)
  have "ConstantTimeEquals left right \<longleftrightarrow> length left = length right \<and> (\<forall>i < max (length left) (length right). byte_at left i = byte_at right i)"
    by (auto simp: ConstantTimeEquals_def fold_or_zero xor len uc)
  also have "\<dots> \<longleftrightarrow> left = right" by (auto simp: byte_at_def list_eq_iff_nth_eq)
  finally show ?thesis .
qed

text \<open>
  C6. With a password set, a connection that has not authenticated cannot change anything: a write or an
  administrative command is refused with NOAUTH, whatever the server's state, and only the count of
  failed commands moves. The connection becomes authenticated by AUTH with exactly the password and by
  no other value.
\<close>

theorem authentication_required:
  assumes "hc_requirepass s \<noteq> []" "\<not> conn_authenticated conn" "request_command parse request s = Inr cmd"
    and "cmd_type cmd = kAuth \<or> GetCommandPrivilege (cmd_type cmd) \<noteq> kRead"
    and "length (hc_requirepass s) < 2 ^ 64" "length (cmd_variable_value cmd) < 2 ^ 64"
  shows "\<exists>response. Dispatch parse other env call request conn s =
    (if cmd_type cmd = kAuth \<and> cmd_variable_value cmd = hc_requirepass s then Some (response, conn\<lparr>conn_authenticated := True\<rparr>, s)
     else Some (response, conn, failed s))"
  using assms ConstantTimeEquals_iff [of "cmd_variable_value cmd" "hc_requirepass s"]
  by (auto simp: Dispatch_def request_command_def HandleAuth_def Let_def)

theorem authentication_required_witness:
  "\<exists>response. Dispatch (\<lambda>_ _. Inr example_set) (\<lambda>_ _ _. None) example_env example_call ''VECSET a 0''
     \<lparr>conn_debug_mode = False, conn_authenticated = False\<rparr> ((example_context None)\<lparr>hc_requirepass := ''secret''\<rparr>) =
     Some (response, \<lparr>conn_debug_mode = False, conn_authenticated = False\<rparr>, failed ((example_context None)\<lparr>hc_requirepass := ''secret''\<rparr>))"
  using authentication_required [of "(example_context None)\<lparr>hc_requirepass := ''secret''\<rparr>" "\<lparr>conn_debug_mode = False, conn_authenticated = False\<rparr>"
      "\<lambda>_ _. Inr example_set" "''VECSET a 0''" example_set]
  by (simp add: request_command_def example_set_def new_command_def GetCommandPrivilege_def)

subsection \<open>Two ways not to start again\<close>

text \<open>A fresh log, one appended record, a restart: the replay hands the record to the callback.\<close>

definition fresh_log :: "(bytes \<Rightarrow> u32) \<Rightarrow> string \<Rightarrow> WriteAheadLog \<Rightarrow> bool" where
  "fresh_log crc dir w \<longleftrightarrow> (\<exists>es. wal_run crc dir es w) \<and> replayed_log crc w = [] \<and> wal_sequence w = 0 \<and> unat (wal_file_number w) + 2 < 10 ^ 6"

lemma one_record_recover:
  assumes fresh: "fresh_log (env_crc env) dir w0" and opr: "op_of_code (op_code opr) = opr"
    and app: "Append (env_crc env) no_faults now opr data w0 = (Inr q, w)" and len: "length data < 2 ^ 32"
    and refused: "ReplayRecord env (calls 1) (next_record w0 now opr data) t0 = Some (Inl e, t0)"
  shows "\<exists>w'. wal_Open (env_crc env) no_faults (Inr dir) config w = (Inr (), w') \<and> recover env no_faults calls 0 w' t0 = Some (Inl e, t0)"
proof -
  have fl: "replayed_log (env_crc env) w0 = []" "wal_sequence w0 = 0" "unat (wal_file_number w0) + 2 < 10 ^ 6"
    using fresh by (simp_all add: fresh_log_def)
  obtain segs0 where segs0: "wal_ok (env_crc env) w0 segs0" "lc_directory (wal_config w0) = dir"
    using fresh wal_run_log unfolding fresh_log_def by blast
  have small: "unat (wal_file_number w0) + 1 < 10 ^ 6" using fl(3) by simp
  from Append_log [OF segs0(1) rotation_ok_no_faults opr len small app] obtain segs where
    segs: "wal_config w = wal_config w0" "wal_ok (env_crc env) w segs" "log_of segs = log_of segs0 @ [next_record w0 now opr data]"
      "fst (last segs) \<le> fst (last segs0) + 1" by blast
  have num: "wal_file_number w0 = fst (last segs0)" using segs0(1) by (simp add: wal_ok_def Let_def)
  have "unat (fst (last segs)) + 1 < 10 ^ 6"
    using segs(4) small_number_inc [OF small] fl(3) num by (simp add: word_le_nat_alt)
  moreover have "on_disk (env_crc env) dir (wal_fs w) segs []" using segs(1,2) segs0(2) by (simp add: wal_ok_def Let_def)
  ultimately obtain w' segs' where w': "wal_Open (env_crc env) no_faults (Inr dir) config w = (Inr (), w')" "wal_ok (env_crc env) w' segs'"
      "log_of segs' = log_of segs" using wal_Open_log [of "env_crc env" dir w segs "[]" config] by auto
  have "log_of segs' = [next_record w0 now opr data]" unfolding w'(3) segs(3) using fl(1) replayed_log_ok [OF segs0(1)] by simp
  then have "recover env no_faults calls 0 w' t0 = Some (Inl e, t0)"
    using refused fl(2) by (simp add: recover_def ReplayValidated_ok [OF w'(2)] replay_spec_def replay_callback_def next_record_def)
  then show ?thesis using w'(1) by blast
qed

lemma f64_value_0 [simp]: "f64_value 0 = Fin 0"
  by (simp add: f64_value_def ieee_def)

text \<open>
  C36. A decay factor of 0 is a valid configuration and means that every maintenance clears the scores. The
  maintenance succeeds and is logged, but the record is refused as corrupt by the replay, so that the
  server does not start again.
\<close>

theorem zero_decay_blocks_restart:
  assumes cfg: "ValidateConfig c = Inr ()" and fresh: "fresh_log (env_crc env) dir w0" and call: "call_faults call = no_faults"
    and s: "hc_wal s = Some w0" "\<not> hc_read_only s" "hc_co_index s = Some co"
  shows "ValidateConfig (c\<lparr>cfg_events := (cfg_events c)\<lparr>ec_decay_alpha := Fin 0\<rparr>\<rparr>) = Inr () \<and>
    (\<exists>s' w w' e. MaintenanceCallback persist env call 0 False s = Some (Inr (), s') \<and> hc_wal s' = Some w \<and>
      wal_Open (env_crc env) no_faults (Inr dir) config w = (Inr (), w') \<and>
      recover env no_faults calls 0 w' t0 = Some (Inl e, t0) \<and> err_code e = kWalCorrupted)"
proof
  show "ValidateConfig (c\<lparr>cfg_events := (cfg_events c)\<lparr>ec_decay_alpha := Fin 0\<rparr>\<rparr>) = Inr ()"
    using cfg by (simp add: ValidateConfig_ok_iff events_ok_def runtime_ok_def)
  obtain segs0 where segs0: "wal_ok (env_crc env) w0 segs0" using fresh wal_run_log unfolding fresh_log_def by blast
  have op: "op_of_code (op_code kCoOccurrenceMaintenance) = kCoOccurrenceMaintenance" by (rule op_roundtrip) simp
  have small: "unat (wal_file_number w0) + 1 < 10 ^ 6" "wal_sequence w0 \<noteq> - 1" using fresh by (simp_all add: fresh_log_def)
  obtain w where w: "Append (env_crc env) no_faults (call_log_time call) kCoOccurrenceMaintenance (maintenance_payload 0 False) w0 =
      (Inr (wal_sequence w0 + 1), w)"
    using Append_done [OF segs0 op _ small, of "maintenance_payload 0 False"]
    by (auto simp: maintenance_payload_def kMaxWalRecordBodySize_def kWalRecordHeaderSize_def)
  have "MaintenanceCallback persist env call 0 False s = Some (Inr (), s\<lparr>hc_wal := Some w, hc_co_index := Some (ApplyDecay (Fin 0) co)\<rparr>)"
    using s call w by (simp add: MaintenanceCallback_def maintain_def)
  moreover define e where "e = MakeError kWalCorrupted ''Invalid co-occurrence maintenance WAL payload''"
  have "ReplayRecord env (calls 1) (next_record w0 (call_log_time call) kCoOccurrenceMaintenance (maintenance_payload 0 False)) t0 = Some (Inl e, t0)"
    by (simp add: ReplayRecord_def next_record_def replay_maintenance_def maintenance_payload_def fl_le_def e_def)
  from one_record_recover [where calls = calls and config = config, OF fresh op w _ this] obtain w' where
    "wal_Open (env_crc env) no_faults (Inr dir) config w = (Inr (), w')" "recover env no_faults calls 0 w' t0 = Some (Inl e, t0)"
    by (auto simp: maintenance_payload_def)
  ultimately show "\<exists>s' w w' e. MaintenanceCallback persist env call 0 False s = Some (Inr (), s') \<and> hc_wal s' = Some w \<and>
      wal_Open (env_crc env) no_faults (Inr dir) config w = (Inr (), w') \<and>
      recover env no_faults calls 0 w' t0 = Some (Inl e, t0) \<and> err_code e = kWalCorrupted"
    by (intro exI [of _ "s\<lparr>hc_wal := Some w, hc_co_index := Some (ApplyDecay (Fin 0) co)\<rparr>"] exI [of _ w] exI [of _ w'] exI [of _ e])
       (simp add: e_def MakeError_def)
qed

theorem zero_decay_blocks_restart_witness:
  "\<exists>w0 w' e. recover example_env no_faults (\<lambda>_. example_call) 0 w' (example_context None) = Some (Inl e, example_context None) \<and>
     hc_wal (example_context (Some w0)) = Some w0 \<and> err_code e = kWalCorrupted"
proof -
  obtain w0 where w0: "wal_run crc_zero ''wal'' [] w0" "wal_ok crc_zero w0 [(1, [])]" "wal_sequence w0 = 0" "wal_file_number w0 = 1"
    using example_open by blast
  have cfg: "ValidateConfig default_config = Inr ()"
    using default_events_ok default_similarity_ok default_runtime_ok by (simp add: ValidateConfig_ok_iff) (simp add: default_config_def)
  have fresh: "fresh_log (env_crc example_env) ''wal'' w0"
    using w0 replayed_log_ok [OF w0(2)] by (auto simp: fresh_log_def example_env_def)
  from zero_decay_blocks_restart [OF cfg fresh, of example_call "example_context (Some w0)" _ "\<lambda>_. Inr ()" example_config "\<lambda>_. example_call" "example_context None"]
  show ?thesis by (auto simp: example_context_def example_call_def)
qed

text \<open>
  C37. With vectors left out of the log, a vector that is set and deleted after the checkpoint leaves only the
  deletion in the log. Both commands are acknowledged, but the replay refuses the deletion of a vector
  it does not know, so that the server does not start again.
\<close>

theorem unlogged_vectors_block_restart:
  assumes fresh: "fresh_log (env_crc env) dir w0" and call: "call_faults call = no_faults"
    and s: "hc_wal s = Some w0" "hc_config s = Some c" "\<not> wc_include_vectors (cfg_wal c)" "\<not> hc_read_only s2"
    and cmds: "cmd_type set_cmd = kVecset" "cmd_type del_cmd = kVecdel" "loggable del_cmd" "length (EncodeCommand del_cmd) < 2 ^ 32"
    and run: "handle_write env call set_cmd s = Some (Inr r1, s1)" "handle_write env call del_cmd s1 = Some (Inr r2, s2)"
    and t0: "hc_vector_store t0 = Some vs" "GetCompactIndex vs (cmd_id del_cmd) = None"
  shows "\<exists>w w' e. hc_wal s2 = Some w \<and> wal_Open (env_crc env) no_faults (Inr dir) config w = (Inr (), w') \<and>
    recover env no_faults calls 0 w' t0 = Some (Inl e, t0) \<and> err_code e = kVectorNotFound"
proof -
  obtain vs0 where "apply_vecset env set_cmd vs0 s = Some (Inr r1, s1)"
    using run(1) cmds(1) s(1-3) by (auto simp: handle_write_def HandleVecset_def logged_def AppendToWal_def split: option.splits sum.splits)
  then have s1: "hc_wal s1 = Some w0" "events_of s1 = events_of s"
    using apply_vecset_same(2) [OF refl, of env set_cmd vs0 s] s(1) by (simp_all add: leaves_events_def)
  then have "hc_config s1 = Some c" using s(2) by (simp add: events_of_def)
  obtain vs1 i where del: "logged env call del_cmd (apply_vecdel env del_cmd vs1 i) s1 = Some (Inr r2, s2)"
    using run(2) cmds(2) by (auto simp: handle_write_def HandleVecdel_def split: option.splits)
  obtain q w where w: "Append (env_crc env) no_faults (call_log_time call) (WalOpForCommand del_cmd) (EncodeCommand del_cmd) w0 = (Inr q, w)"
      "apply_vecdel env del_cmd vs1 i (s1\<lparr>hc_wal := Some w\<rparr>) = Some (Inr r2, s2)"
    using del s1(1) cmds(2) call by (auto simp: logged_def AppendToWal_def split: prod.splits sum.splits)
  have wal: "hc_wal s2 = Some w"
    using apply_vecdel_same(2) [OF refl, of env del_cmd vs1 i "s1\<lparr>hc_wal := Some w\<rparr>"] w(2) by (simp add: leaves_events_def)
  let ?r = "next_record w0 (call_log_time call) (WalOpForCommand del_cmd) (EncodeCommand del_cmd)"
  have "ReplayRecord env (calls 1) ?r t0 = Some (Inl (vector_not_found (cmd_id del_cmd)), t0)"
    using t0 cmds(2) by (simp add: ReplayRecord_logged [OF cmds(3)] forget_def handle_write_def replayed_def HandleVecdel_def)
  from one_record_recover [where calls = calls and config = config, OF fresh op_roundtrip_logged w(1) cmds(4) this] wal
  show ?thesis by (auto simp: vector_not_found_def MakeError_def)
qed

definition example_del :: Command where
  "example_del = new_command\<lparr>cmd_type := kVecdel, cmd_id := ''a''\<rparr>"

definition unlogged_context :: "WriteAheadLog \<Rightarrow> VectorStore \<Rightarrow> unit HandlerContext" where
  "unlogged_context w vs = (example_context (Some w))\<lparr>hc_vector_store := Some vs,
     hc_config := Some (default_config\<lparr>cfg_wal := default_wal\<lparr>wc_include_vectors := False\<rparr>\<rparr>)\<rparr>"

lemma unlogged_set:
  "handle_write example_env example_call example_set (unlogged_context w empty_vectors) =
     Some (Inr (FormatOK ''VECSET''), (unlogged_context w one_vector_store)\<lparr>hc_vector_generation := 1\<rparr>)"
  by (simp add: handle_write_def HandleVecset_def unlogged_context_def example_context_def example_set_def new_command_def example_env_def
      ValidateVector_example logged_def AppendToWal_def apply_vecset_def SetVector_example notify_added_def invalidate_item_def Let_def)

lemma unlogged_delete:
  assumes "Append crc_zero no_faults 5 kVecDel (EncodeCommand example_del) w = (Inr q, w')"
  shows "\<exists>r s. handle_write example_env example_call example_del ((unlogged_context w one_vector_store)\<lparr>hc_vector_generation := 1\<rparr>) = Some (Inr r, s) \<and>
    \<not> hc_read_only s"
proof -
  note refines = vs_run_refines [OF one_vector_run]
  have "vs_inv scalar_impl one_vector_store" "vs_abs one_vector_store ''a'' \<noteq> None" using refines by simp_all
  then obtain vs' where vs': "DeleteVector ''a'' one_vector_store = Some (True, vs')" "vs_inv scalar_impl vs'"
    using DeleteVector_ok [of scalar_impl one_vector_store "''a''"] by (metis (full_types))
  then obtain z where "DefragmentLocked vs' = Some z" using DefragmentLocked_ok [of scalar_impl vs'] by (auto simp: vs_inv_def)
  then have vs2: "Defragment vs' = Some (bump_generation z)" by (simp add: Defragment_def)
  obtain i where i: "GetCompactIndex one_vector_store ''a'' = Some i"
    using vs'(1) by (auto simp: DeleteVector_def GetCompactIndex_def split: option.splits)
  have "cmd_type example_del = kVecdel" "cmd_id example_del = ''a''" by (simp_all add: example_del_def new_command_def)
  then show ?thesis
    using assms vs' vs2 i
    by (simp add: handle_write_def HandleVecdel_def unlogged_context_def example_context_def example_env_def logged_def AppendToWal_def example_call_def
        WalOpForCommand_def apply_vecdel_def invalidate_item_def Let_def)
qed

theorem unlogged_vectors_block_restart_witness:
  "\<exists>w' e. recover example_env no_faults (\<lambda>_. example_call) 0 w' (example_context None) = Some (Inl e, example_context None) \<and>
     err_code e = kVectorNotFound"
proof -
  obtain w0 where w0: "wal_run crc_zero ''wal'' [] w0" "wal_ok crc_zero w0 [(1, [])]" "wal_sequence w0 = 0" "wal_file_number w0 = 1"
    using example_open by blast
  have fresh: "fresh_log (env_crc example_env) ''wal'' w0"
    using w0 replayed_log_ok [OF w0(2)] by (auto simp: fresh_log_def example_env_def)
  have len: "length (EncodeCommand example_del) \<le> 10" "loggable example_del"
    by (simp_all add: example_del_def new_command_def EncodeCommand_def AppendString_def loggable_def)
  have "length (EncodeCommand example_del) \<le> kMaxWalRecordBodySize - kWalRecordHeaderSize"
    using len(1) by (simp add: kMaxWalRecordBodySize_def kWalRecordHeaderSize_def)
  then obtain q w where w: "Append crc_zero no_faults 5 kVecDel (EncodeCommand example_del) w0 = (Inr q, w)"
    using Append_done [OF w0(2) op_roundtrip_kVecDel, of "EncodeCommand example_del" 5] w0(3,4) by auto
  obtain r s2 where s2: "handle_write example_env example_call example_del ((unlogged_context w0 one_vector_store)\<lparr>hc_vector_generation := 1\<rparr>) =
      Some (Inr r, s2)" "\<not> hc_read_only s2" using unlogged_delete [OF w] by blast
  have ctx: "call_faults example_call = no_faults" "hc_wal (unlogged_context w0 empty_vectors) = Some w0"
    "hc_config (unlogged_context w0 empty_vectors) = Some (default_config\<lparr>cfg_wal := default_wal\<lparr>wc_include_vectors := False\<rparr>\<rparr>)"
    "\<not> wc_include_vectors (cfg_wal (default_config\<lparr>cfg_wal := default_wal\<lparr>wc_include_vectors := False\<rparr>\<rparr>))"
    by (simp_all add: example_call_def unlogged_context_def example_context_def)
  have cmds: "cmd_type example_set = kVecset" "cmd_type example_del = kVecdel" "length (EncodeCommand example_del) < 2 ^ 32"
    using len(1) by (simp_all add: example_set_def example_del_def new_command_def)
  have t0: "hc_vector_store (example_context None) = Some empty_vectors" "GetCompactIndex empty_vectors (cmd_id example_del) = None"
    by (simp_all add: example_context_def empty_vectors_def GetCompactIndex_def vs_new_def)
  from unlogged_vectors_block_restart [OF fresh ctx s2(2) cmds(1,2) len(2) cmds(3) unlogged_set s2(1) t0, of example_config "\<lambda>_. example_call"]
  show ?thesis by auto
qed

subsection \<open>Deduplication during a replay\<close>

text \<open>
  C39. The deduplication window is measured with the clock of the server as well. An event that is older by more
  than the window than the last one like it is stored exactly when more than the window has passed since
  that one arrived: a server that accepted and logged both can take the second for a duplicate when a
  replay hands over both records at once.
\<close>

theorem backdated_event_depends_on_arrival:
  assumes inv: "es_inv s" and val: "es_validate ctx item score ADD = Inr ()"
    and cache: "es_dedup_cache s = Some c" "dc_window_sec c \<noteq> 0" "um_find (dc_cache c) (ekey ctx item score) = None"
    and times: "ts2 \<noteq> 0" "ts2 < ts1" "ucast (dc_window_sec c) < ts1 - ts2"
  shows "\<exists>r1 s1 r2 s2. AddEventAndGetPrior ctx item score ADD ts1 clk1 s = Some (Inr r1, s1) \<and> \<not> ir_deduped r1 \<and>
    AddEventAndGetPrior ctx item score ADD ts2 clk2 s1 = Some (Inr r2, s2) \<and>
    (ir_deduped r2 \<longleftrightarrow> steady clk2 - steady clk1 \<le> seconds (dc_window_sec c))"
proof -
  have ts1: "ts1 \<noteq> 0" using times(2) by auto
  let ?c = "dc_add (ekey ctx item score) \<lparr>ce_timestamp = ts1, ce_last_seen_at = steady clk1\<rparr> (dc_miss c)"
  have dd: "es_dedup ctx item score ADD ts1 (steady clk1) (s\<lparr>es_total_events := n\<rparr>) = (False, s\<lparr>es_total_events := n, es_dedup_cache := Some ?c\<rparr>)" for n
    using cache by (simp add: es_dedup_def dc_CheckAndInsert_def)
  obtain r1 s1 where s1: "AddEventAndGetPrior ctx item score ADD ts1 clk1 s = Some (Inr r1, s1)" "\<not> ir_deduped r1" "es_dedup_cache s1 = Some ?c"
  proof (cases rule: AddEventAndGetPrior_cases [OF inv, where ctx = ctx and item = item and score = score and type = ADD and timestamp = ts1 and clk = clk1,
        case_names invalid duplicate stored])
    case (stored s2 rb)
    have "es_dedup_cache s2 = Some ?c" using stored(2) dd ts1 by (auto simp: ResolveTimestamp_def)
    then show ?thesis using that [OF stored(6)] by simp
  qed (use val dd ts1 in \<open>simp_all add: ResolveTimestamp_def\<close>)
  have inv1: "es_inv s1" by (rule es_inv_AddEventAndGetPrior [OF inv s1(1)])
  have find: "um_find (dc_cache ?c) (ekey ctx item score) = Some \<lparr>ce_timestamp = ts1, ce_last_seen_at = steady clk1\<rparr>"
    "dc_window_sec ?c = dc_window_sec c"
    by (simp_all add: dc_add_def dc_miss_def dc_EvictLRU_def Let_def)
  have dist: "event_time_distance ts2 ts1 = ts1 - ts2" using times(2) by (auto simp: event_time_distance_def)
  have "dc_WouldDeduplicate (ekey ctx item score) ts2 (steady clk2) ?c \<longleftrightarrow> steady clk2 - steady clk1 \<le> seconds (dc_window_sec c)"
    using cache(2) times find dist by (auto simp: dc_WouldDeduplicate_def dc_IsWithinWindow_def not_le)
  moreover obtain p where "PrepareEvent ctx item score ADD ts2 clk2 s1 = Inr p" "pe_deduped p = dc_WouldDeduplicate (ekey ctx item score) ts2 (steady clk2) ?c"
    using val s1(3) times(1) by (auto simp: PrepareEvent_def ResolveTimestamp_def Let_def)
  ultimately show ?thesis using PrepareEvent_agrees [OF inv1, of ctx item score ADD ts2 clk2] s1(1,2) by auto
qed

theorem backdated_event_depends_on_arrival_witness:
  "\<exists>r1 s1 r2 s2. AddEventAndGetPrior ''u'' ''a'' 5 ADD 1000 \<lparr>wall = 0, steady = 0\<rparr> (es_new default_events) = Some (Inr r1, s1) \<and>
     AddEventAndGetPrior ''u'' ''a'' 5 ADD 500 \<lparr>wall = 0, steady = 0\<rparr> s1 = Some (Inr r2, s2) \<and> ir_deduped r2"
proof -
  have inv: "es_inv (es_new default_events)" by (rule nv_inv) (simp add: default_events_def)
  have val: "es_validate ''u'' ''a'' 5 ADD = Inr ()" by (simp add: es_validate_def kMinEventScore_def kMaxEventScore_def)
  have cache: "es_dedup_cache (es_new default_events) = Some (dc_new 10000 60)" by (simp add: es_new_def default_events_def)
  from backdated_event_depends_on_arrival [OF inv val cache, of 500 1000 "\<lparr>wall = 0, steady = 0\<rparr>" "\<lparr>wall = 0, steady = 0\<rparr>"]
  show ?thesis by (auto simp: dc_new_def seconds_def)
qed

end
