(* ===== verification/AccessControl.thy ===== *)
theory AccessControl
  imports CommandParser
begin

text \<open>
  \<^verbatim>\<open>src/src/utils/network_utils.cpp\<close>: which client addresses a list of address ranges admits, and the list the
  server parses at startup.  \<^verbatim>\<open>inet_pton\<close> is an argument: the address in host byte order, or \<open>None\<close>
  for text that is not an IPv4 address.
\<close>

type_synonym pton_fun = "string \<Rightarrow> u32 option"

definition kIPv4BitCount :: int where
  "kIPv4BitCount = 32"

record CIDR =
  cidr_network :: u32
  cidr_netmask :: u32
  cidr_prefix_length :: int

definition Contains :: "CIDR \<Rightarrow> u32 \<Rightarrow> bool" where
  "Contains c ip_addr \<longleftrightarrow> ip_addr AND cidr_netmask c = cidr_network c"

definition netmask_of :: "int \<Rightarrow> u32" where
  "netmask_of prefix_length =
     (if 0 < prefix_length then NOT (push_bit (nat (kIPv4BitCount - prefix_length)) 1 - 1) else 0)"

definition cidr_Parse :: "pton_fun \<Rightarrow> string \<Rightarrow> CIDR option" where
  "cidr_Parse pton cidr_str =
     (if CHR ''/'' \<notin> set cidr_str then None
      else let ip_part = takeWhile (\<lambda>c. c \<noteq> CHR ''/'') cidr_str; prefix_str = tl (dropWhile (\<lambda>c. c \<noteq> CHR ''/'') cidr_str)
           in case pton ip_part of
                None \<Rightarrow> None
              | Some ip \<Rightarrow>
                  if prefix_str = [] \<or> \<not> list_all dec_digit prefix_str then None
                  else case stoi prefix_str of
                         None \<Rightarrow> None
                       | Some (prefix_length, rest) \<Rightarrow>
                           if rest \<noteq> [] \<or> prefix_length < 0 \<or> kIPv4BitCount < prefix_length then None
                           else Some \<lparr>cidr_network = ip AND netmask_of prefix_length, cidr_netmask = netmask_of prefix_length,
                                   cidr_prefix_length = prefix_length\<rparr>)"

text \<open>The two overloads, on texts and on parsed ranges.\<close>

definition IsIPAllowed_text :: "pton_fun \<Rightarrow> string \<Rightarrow> string list \<Rightarrow> bool" where
  "IsIPAllowed_text pton ip_str allow_cidrs =
     (if allow_cidrs = [] then False
      else case pton ip_str of
             None \<Rightarrow> False
           | Some ip \<Rightarrow> list_ex (\<lambda>s. case cidr_Parse pton s of None \<Rightarrow> False | Some c \<Rightarrow> Contains c ip) allow_cidrs)"

definition IsIPAllowed :: "pton_fun \<Rightarrow> string \<Rightarrow> CIDR list \<Rightarrow> bool" where
  "IsIPAllowed pton ip_str parsed_allow_cidrs =
     (if parsed_allow_cidrs = [] then False
      else case pton ip_str of None \<Rightarrow> False | Some ip \<Rightarrow> list_ex (\<lambda>c. Contains c ip) parsed_allow_cidrs)"

definition parsed_allow_cidrs :: "pton_fun \<Rightarrow> string list \<Rightarrow> CIDR list" where
  "parsed_allow_cidrs pton texts = List.map_filter (cidr_Parse pton) texts"

subsection \<open>Masks and intervals\<close>

lemma and_not_mask_eq_iff: "a AND NOT (push_bit k 1 - 1) = b AND NOT (push_bit k 1 - 1) \<longleftrightarrow> drop_bit k a = drop_bit k b" for a b :: u32
proof -
  have m: "push_bit k 1 - 1 = (mask k :: u32)" by (simp add: mask_eq_decr_exp push_bit_eq_mult)
  have up: "bit (w AND NOT (mask k)) n \<longleftrightarrow> k \<le> n \<and> bit (drop_bit k w) (n - k)" for w :: u32 and n
    by (auto simp: bit_simps dest: bit_imp_le_length)
  have "drop_bit k w = drop_bit k (w AND NOT (mask k))" for w :: u32
    by (rule bit_eqI) (auto simp: bit_simps dest: bit_imp_le_length)
  then show ?thesis using up m by (metis bit_eqI)
qed

lemma drop_bit_unat: "drop_bit k a = drop_bit k b \<longleftrightarrow> unat a div 2 ^ k = unat b div 2 ^ k" for a b :: u32
  by (simp only: word_unat_eq_iff unat_drop_bit_eq) (simp only: drop_bit_eq_div)

lemma mask_eq_iff:
  assumes "0 \<le> p" "p \<le> 32"
  shows "a AND netmask_of p = b AND netmask_of p \<longleftrightarrow> unat a div 2 ^ nat (32 - p) = unat b div 2 ^ nat (32 - p)"
proof (cases "p = 0")
  case True
  have "unat w div 2 ^ 32 = 0" for w :: u32 using unat_below32 [of w] by simp
  then show ?thesis using True by (simp add: netmask_of_def)
next
  case False
  then show ?thesis using assms and_not_mask_eq_iff drop_bit_unat by (simp add: netmask_of_def kIPv4BitCount_def)
qed

text \<open>The text of a range: an address, a slash and the decimal length of the prefix.\<close>

definition range_text :: "pton_fun \<Rightarrow> string \<Rightarrow> u32 \<Rightarrow> nat \<Rightarrow> bool" where
  "range_text pton s net p \<longleftrightarrow>
     p \<le> 32 \<and> (\<exists>ip digits. s = ip @ ''/'' @ digits \<and> CHR ''/'' \<notin> set ip \<and> pton ip = Some net \<and> digits \<noteq> [] \<and>
       list_all dec_digit digits \<and> dec_value digits = p)"

lemma stoi_digits:
  assumes "list_all dec_digit ds" "ds \<noteq> []"
  shows "stoi ds = (if dec_value ds < 2 ^ 31 then Some (int (dec_value ds), []) else None)"
proof -
  obtain d ds' where ds: "ds = d # ds'" using assms(2) by (cases ds) auto
  have d: "\<not> is_space d" "d \<noteq> CHR ''-''" "d \<noteq> CHR ''+''" using assms(1) ds by (auto simp: dec_digit_def is_space_def)
  have tw: "takeWhile dec_digit ds = ds" "dropWhile dec_digit ds = []"
    using assms(1) by (auto simp: takeWhile_eq_all_conv dropWhile_eq_Nil_conv list_all_iff)
  have "dropWhile is_space ds = ds" "hd ds \<notin> {CHR ''-'', CHR ''+''}" using d by (simp_all add: ds)
  then show ?thesis using assms(2) by (simp add: stoi_def strtoll_def Let_def tw)
qed

lemma cidr_Parse_text:
  "cidr_Parse pton s = Some c \<longleftrightarrow>
     (\<exists>net p. range_text pton s net p \<and> c = \<lparr>cidr_network = net AND netmask_of (int p), cidr_netmask = netmask_of (int p), cidr_prefix_length = int p\<rparr>)"
proof -
  let ?ip = "takeWhile (\<lambda>c. c \<noteq> CHR ''/'') s" and ?ds = "tl (dropWhile (\<lambda>c. c \<noteq> CHR ''/'') s)"
  have split: "range_text pton s net p \<longleftrightarrow>
      CHR ''/'' \<in> set s \<and> pton ?ip = Some net \<and> ?ds \<noteq> [] \<and> list_all dec_digit ?ds \<and> dec_value ?ds = p \<and> p \<le> 32" for net p
  proof
    assume "range_text pton s net p"
    then obtain ip ds where s: "s = ip @ CHR ''/'' # ds" "CHR ''/'' \<notin> set ip" "pton ip = Some net" "ds \<noteq> []" "list_all dec_digit ds"
        "dec_value ds = p" "p \<le> 32" by (auto simp: range_text_def)
    have "\<forall>c \<in> set ip. c \<noteq> CHR ''/''" using s(2) by auto
    then have "?ip = ip" "?ds = ds" by (simp_all add: s(1) takeWhile_append2 dropWhile_append2)
    then show "CHR ''/'' \<in> set s \<and> pton ?ip = Some net \<and> ?ds \<noteq> [] \<and> list_all dec_digit ?ds \<and> dec_value ?ds = p \<and> p \<le> 32"
      using s by simp
  next
    assume r: "CHR ''/'' \<in> set s \<and> pton ?ip = Some net \<and> ?ds \<noteq> [] \<and> list_all dec_digit ?ds \<and> dec_value ?ds = p \<and> p \<le> 32"
    have "dropWhile (\<lambda>c. c \<noteq> CHR ''/'') s = CHR ''/'' # ?ds"
      using r hd_dropWhile [of "\<lambda>c. c \<noteq> CHR ''/''" s] by (cases "dropWhile (\<lambda>c. c \<noteq> CHR ''/'') s") (auto simp: dropWhile_eq_Nil_conv)
    then have "s = ?ip @ ''/'' @ ?ds" using takeWhile_dropWhile_id [of "\<lambda>c. c \<noteq> CHR ''/''" s] by simp
    moreover have "CHR ''/'' \<notin> set ?ip" by (auto dest: set_takeWhileD)
    ultimately show "range_text pton s net p" unfolding range_text_def using r by blast
  qed
  show ?thesis using stoi_digits [of ?ds]
    by (auto simp: split cidr_Parse_def Let_def kIPv4BitCount_def split: option.splits if_splits)
qed

lemma Contains_range:
  assumes "range_text pton s net p"
    and "c = \<lparr>cidr_network = net AND netmask_of (int p), cidr_netmask = netmask_of (int p), cidr_prefix_length = int p\<rparr>"
  shows "Contains c a \<longleftrightarrow> unat a div 2 ^ (32 - p) = unat net div 2 ^ (32 - p)"
  using assms mask_eq_iff [of "int p" a net] by (simp add: Contains_def range_text_def nat_diff_distrib)

lemma allowed_text_iff:
  "IsIPAllowed_text pton ip texts \<longleftrightarrow>
     (\<exists>a s net p. pton ip = Some a \<and> s \<in> set texts \<and> range_text pton s net p \<and> unat a div 2 ^ (32 - p) = unat net div 2 ^ (32 - p))"
proof -
  have "(case cidr_Parse pton s of None \<Rightarrow> False | Some c \<Rightarrow> Contains c a) \<longleftrightarrow>
      (\<exists>net p. range_text pton s net p \<and> unat a div 2 ^ (32 - p) = unat net div 2 ^ (32 - p))" for s a
  proof (cases "cidr_Parse pton s")
    case None
    then have "\<not> range_text pton s net p" for net p using cidr_Parse_text [of pton s] by auto
    then show ?thesis using None by simp
  next
    case (Some c)
    then obtain net p where r: "range_text pton s net p"
        "c = \<lparr>cidr_network = net AND netmask_of (int p), cidr_netmask = netmask_of (int p), cidr_prefix_length = int p\<rparr>"
      using cidr_Parse_text by blast
    have "(unat a div 2 ^ (32 - q) = unat net' div 2 ^ (32 - q)) \<longleftrightarrow> Contains c a" if "range_text pton s net' q" for net' q
    proof -
      have "c = \<lparr>cidr_network = net' AND netmask_of (int q), cidr_netmask = netmask_of (int q), cidr_prefix_length = int q\<rparr>"
        using that Some cidr_Parse_text by (metis option.inject)
      then show ?thesis using Contains_range [OF that] by simp
    qed
    then show ?thesis using Some r(1) by auto
  qed
  then show ?thesis by (auto simp: IsIPAllowed_text_def list_ex_iff split: option.splits)
qed

lemma allowed_parsed: "IsIPAllowed pton ip (parsed_allow_cidrs pton texts) = IsIPAllowed_text pton ip texts"
proof -
  have "set (parsed_allow_cidrs pton texts) = {c. \<exists>s \<in> set texts. cidr_Parse pton s = Some c}"
    by (force simp: parsed_allow_cidrs_def List.map_filter_def)
  then have "list_ex (\<lambda>c. Contains c a) (parsed_allow_cidrs pton texts) \<longleftrightarrow>
      list_ex (\<lambda>s. case cidr_Parse pton s of None \<Rightarrow> False | Some c \<Rightarrow> Contains c a) texts" for a
    by (fastforce simp: list_ex_iff split: option.splits)
  moreover have "IsIPAllowed pton ip cs = (case pton ip of None \<Rightarrow> False | Some a \<Rightarrow> list_ex (\<lambda>c. Contains c a) cs)" for cs
    by (cases "pton ip"; cases cs) (simp_all add: IsIPAllowed_def)
  moreover have "IsIPAllowed_text pton ip texts = (case pton ip of None \<Rightarrow> False
      | Some a \<Rightarrow> list_ex (\<lambda>s. case cidr_Parse pton s of None \<Rightarrow> False | Some c \<Rightarrow> Contains c a) texts)"
    by (cases "pton ip"; cases texts) (simp_all add: IsIPAllowed_text_def)
  ultimately show ?thesis by (cases "pton ip") simp_all
qed

subsection \<open>Properties\<close>

text \<open>
  C10. The list of ranges that the server parses at startup admits a client exactly when its address shares the prefix
  of the stated length with the address of one of the configured ranges; texts that are not ranges
  admit nobody, and neither does an empty list.  The overload on texts admits the same clients.
\<close>

theorem ip_allowed_exactly:
  "(IsIPAllowed pton ip (parsed_allow_cidrs pton texts) \<longleftrightarrow>
     (\<exists>a s net p. pton ip = Some a \<and> s \<in> set texts \<and> range_text pton s net p \<and>
        unat a div 2 ^ (32 - p) = unat net div 2 ^ (32 - p))) \<and>
   IsIPAllowed_text pton ip texts = IsIPAllowed pton ip (parsed_allow_cidrs pton texts) \<and>
   \<not> IsIPAllowed pton ip (parsed_allow_cidrs pton [])"
proof -
  have "parsed_allow_cidrs pton [] = []" by (simp add: parsed_allow_cidrs_def)
  then have "\<not> IsIPAllowed pton ip (parsed_allow_cidrs pton [])" by (simp add: IsIPAllowed_def)
  then show ?thesis by (simp add: allowed_parsed allowed_text_iff)
qed

end
