(* ===== verification/PathUtils.thy ===== *)
theory PathUtils
  imports FilterParser Errors
begin

text \<open>
  \<^verbatim>\<open>src/src/utils/path_utils.h\<close>: which directories and files the server reads and writes snapshots in.  What the
  operating system answers is a record: canonical paths as their components below the root, or
  the text of the error, and the results of \<^verbatim>\<open>lstat\<close> and of opening a directory.
\<close>

record stat_info =
  st_mode :: u32
  st_uid :: u32

record Host =
  h_canonical :: "string \<Rightarrow> string + string list"
  h_weakly_canonical :: "string \<Rightarrow> string + bool \<times> string list"
  h_lstat :: "string \<Rightarrow> stat_info option"
  h_open_directory :: "string \<Rightarrow> stat_info option option"
  h_euid :: u32

unbundle bit_operations_syntax

subsection \<open>Paths\<close>

definition abs_path :: "string list \<Rightarrow> string" where
  "abs_path cs = (if cs = [] then ''/'' else concat (map (\<lambda>c. CHR ''/'' # c) cs))"

definition filename :: "string \<Rightarrow> string" where
  "filename p = rev (takeWhile (\<lambda>c. c \<noteq> CHR ''/'') (rev p))"

definition parent_path :: "string \<Rightarrow> string" where
  "parent_path p =
     (let q = dropWhile (\<lambda>c. c \<noteq> CHR ''/'') (rev p); r = dropWhile (\<lambda>c. c = CHR ''/'') q
      in if q = [] then [] else if r = [] then ''/'' else rev r)"

text \<open>\<^verbatim>\<open>lexically_relative\<close> of two absolute paths.\<close>

fun strip_common :: "string list \<Rightarrow> string list \<Rightarrow> string list \<times> string list" where
  "strip_common (x # xs) (y # ys) = (if x = y then strip_common xs ys else (x # xs, y # ys))"
| "strip_common xs ys = (xs, ys)"

definition up_steps :: "string list \<Rightarrow> int" where
  "up_steps base =
     int (length (filter (\<lambda>c. c \<notin> {[], ''.'', ''..''}) base)) - int (length (filter (\<lambda>c. c = ''..'') base))"

definition lexically_relative :: "string list \<Rightarrow> string list \<Rightarrow> string list" where
  "lexically_relative p base =
     (let (xs, ys) = strip_common p base; n = up_steps ys
      in if n < 0 then []
         else if n = 0 \<and> (xs = [] \<or> hd xs = []) then [''.'']
         else replicate (nat n) ''..'' @ xs)"

subsection \<open>Private directories\<close>

definition S_ISDIR :: "u32 \<Rightarrow> bool" where
  "S_ISDIR mode \<longleftrightarrow> mode AND 0xF000 = 0x4000"

definition shared_writable :: "u32 \<Rightarrow> bool" where
  "shared_writable mode \<longleftrightarrow> mode AND 0x12 \<noteq> 0"

definition sticky :: "u32 \<Rightarrow> bool" where
  "sticky mode \<longleftrightarrow> mode AND 0x200 \<noteq> 0"

definition denied :: "string \<Rightarrow> Error" where
  "denied msg = MakeError kPermissionDenied msg"

fun check_ancestors :: "Host \<Rightarrow> string list \<Rightarrow> string list \<Rightarrow> unit expected" where
  "check_ancestors h current [] = Inr ()"
| "check_ancestors h current (c # cs) =
     (case h_lstat h (abs_path (current @ [c])) of
        None \<Rightarrow> Inl (denied (''Invalid directory ancestor: '' @ abs_path (current @ [c])))
      | Some info \<Rightarrow>
          if \<not> S_ISDIR (st_mode info) then Inl (denied (''Invalid directory ancestor: '' @ abs_path (current @ [c])))
          else if shared_writable (st_mode info) \<and> \<not> sticky (st_mode info)
          then Inl (denied (''Directory ancestor is replaceable by another user: '' @ abs_path (current @ [c])))
          else check_ancestors h (current @ [c]) cs)"

definition ValidateSecureDirectoryAncestors :: "Host \<Rightarrow> string \<Rightarrow> unit expected" where
  "ValidateSecureDirectoryAncestors h directory =
     (case h_canonical h directory of
        Inl _ \<Rightarrow> Inl (denied (''Cannot resolve directory ancestors: '' @ directory))
      | Inr canonical \<Rightarrow> check_ancestors h [] canonical)"

definition ValidatePrivateDirectory :: "Host \<Rightarrow> string \<Rightarrow> unit expected" where
  "ValidatePrivateDirectory h directory =
     (case ValidateSecureDirectoryAncestors h directory of
        Inl e \<Rightarrow> Inl e
      | Inr _ \<Rightarrow>
          (case h_open_directory h directory of
             None \<Rightarrow> Inl (denied (''Cannot securely open storage directory: '' @ directory))
           | Some None \<Rightarrow> Inl (denied (''Cannot inspect storage directory: '' @ directory))
           | Some (Some info) \<Rightarrow>
               if \<not> S_ISDIR (st_mode info)
               then Inl (MakeError kInvalidArgument (''Storage path is not a directory: '' @ directory))
               else if st_uid info \<noteq> h_euid h
               then Inl (denied (''Storage directory must be owned by the service user: '' @ directory))
               else if shared_writable (st_mode info)
               then Inl (denied (''Storage directory must not be writable by group or others: '' @ directory))
               else Inr ()))"

definition ResolvePrivateStoragePath :: "Host \<Rightarrow> string \<Rightarrow> string expected" where
  "ResolvePrivateStoragePath h filepath =
     (let parent = (if parent_path filepath = [] then ''.'' else parent_path filepath)
      in case h_canonical h parent of
           Inl msg \<Rightarrow> Inl (MakeError kInvalidArgument (''Invalid storage directory: '' @ parent @ '': '' @ msg))
         | Inr canonical_parent \<Rightarrow>
             (case ValidatePrivateDirectory h (abs_path canonical_parent) of
                Inl e \<Rightarrow> Inl e
              | Inr _ \<Rightarrow>
                  if filename filepath \<in> {[], ''.'', ''..''}
                  then Inl (MakeError kInvalidArgument ''Storage path must name a file'')
                  else Inr (abs_path (canonical_parent @ [filename filepath]))))"

definition ValidateDumpPath :: "Host \<Rightarrow> string \<Rightarrow> string \<Rightarrow> string expected" where
  "ValidateDumpPath h filepath dump_dir =
     (if sublist ''..'' filepath then Inl (MakeError kInvalidArgument ''Invalid filepath: path traversal detected'')
      else let resolved = (if filepath \<noteq> [] \<and> hd filepath \<noteq> CHR ''/'' then dump_dir @ ''/'' @ filepath else filepath)
           in case h_canonical h dump_dir of
                Inl msg \<Rightarrow> Inl (MakeError kInvalidArgument (''Invalid dump directory: '' @ msg))
              | Inr dump_canonical \<Rightarrow>
                  (case ValidatePrivateDirectory h (abs_path dump_canonical) of
                     Inl e \<Rightarrow> Inl e
                   | Inr _ \<Rightarrow>
                       (case h_weakly_canonical h resolved of
                          Inl msg \<Rightarrow> Inl (MakeError kInvalidArgument (''Invalid filepath: '' @ msg))
                        | Inr (absolute, resolved_canonical) \<Rightarrow>
                            let rel = (if absolute then lexically_relative resolved_canonical dump_canonical else [])
                            in if rel = [] \<or> prefix ''..'' (join_with (CHR ''/'') rel)
                               then Inl (MakeError kInvalidArgument ''Invalid filepath: path traversal detected'')
                               else (case ValidatePrivateDirectory h (abs_path (butlast resolved_canonical)) of
                                       Inl e \<Rightarrow> Inl e
                                     | Inr _ \<Rightarrow> Inr (abs_path resolved_canonical)))))"

subsection \<open>What the checks establish\<close>

text \<open>A directory that only the service can change, below directories whose entries others cannot replace.\<close>

definition private_directory :: "Host \<Rightarrow> string \<Rightarrow> bool" where
  "private_directory h d \<longleftrightarrow>
     (\<exists>cs info. h_canonical h d = Inr cs \<and> h_open_directory h d = Some (Some info) \<and> S_ISDIR (st_mode info) \<and>
       st_uid info = h_euid h \<and> \<not> shared_writable (st_mode info) \<and>
       (\<forall>n. 0 < n \<and> n \<le> length cs \<longrightarrow> (\<exists>a. h_lstat h (abs_path (take n cs)) = Some a \<and> S_ISDIR (st_mode a) \<and>
          (shared_writable (st_mode a) \<longrightarrow> sticky (st_mode a)))))"

lemma check_ancestors_iff:
  "check_ancestors h current cs = Inr () \<longleftrightarrow>
     (\<forall>n. 0 < n \<and> n \<le> length cs \<longrightarrow> (\<exists>a. h_lstat h (abs_path (current @ take n cs)) = Some a \<and> S_ISDIR (st_mode a) \<and>
        (shared_writable (st_mode a) \<longrightarrow> sticky (st_mode a))))"
proof (induction cs arbitrary: current)
  case (Cons c cs)
  have split: "(\<forall>n. 0 < n \<and> n \<le> Suc m \<longrightarrow> P n) \<longleftrightarrow> P 1 \<and> (\<forall>n. 0 < n \<and> n \<le> m \<longrightarrow> P (Suc n))" for P m
    by (metis One_nat_def Suc_le_mono Suc_pred' le_add1 not_gr_zero plus_1_eq_Suc zero_less_Suc)
  show ?case unfolding list.size add_Suc_right add_0_right by (subst split) (auto simp: Cons split: option.splits)
qed simp

lemma ValidatePrivateDirectory_iff: "ValidatePrivateDirectory h d = Inr () \<longleftrightarrow> private_directory h d"
proof (cases "h_canonical h d")
  case (Inr cs)
  then show ?thesis using check_ancestors_iff [of h "[]" cs]
    by (auto simp: ValidatePrivateDirectory_def ValidateSecureDirectoryAncestors_def private_directory_def split: option.splits sum.splits if_splits)
qed (simp add: ValidatePrivateDirectory_def ValidateSecureDirectoryAncestors_def private_directory_def)

lemma strip_common_split: "strip_common p base = (xs, ys) \<Longrightarrow> \<exists>zs. p = zs @ xs \<and> base = zs @ ys"
proof (induction p base arbitrary: xs ys rule: strip_common.induct)
  case (1 x xs' y ys')
  then show ?case by (auto split: if_splits intro: exI [of _ "[]"])
qed auto

lemma relative_inside:
  assumes base: "list_all (\<lambda>c. c \<notin> {[], ''.'', ''..''}) base"
    and rel: "lexically_relative p base \<noteq> []" "\<not> prefix ''..'' (join_with (CHR ''/'') (lexically_relative p base))"
  shows "\<exists>rest. p = base @ rest"
proof -
  obtain xs ys where s: "strip_common p base = (xs, ys)" by fastforce
  from strip_common_split [OF this] obtain zs where z: "p = zs @ xs" "base = zs @ ys" by blast
  have ys: "list_all (\<lambda>c. c \<notin> {[], ''.'', ''..''}) ys" using base z(2) by simp
  then have "filter (\<lambda>c. c \<notin> {[], ''.'', ''..''}) ys = ys" "filter (\<lambda>c. c = ''..'') ys = []"
    by (auto simp: filter_id_conv list_all_iff filter_empty_conv)
  then have up: "up_steps ys = int (length ys)" by (simp add: up_steps_def)
  have "ys = []"
  proof (cases ys)
    case (Cons y ys')
    then have "lexically_relative p base = ''..'' # replicate (length ys') ''..'' @ xs" using s up by (simp add: lexically_relative_def nat_add_distrib)
    moreover have "prefix ''..'' (join_with (CHR ''/'') (''..'' # zs'))" for zs' by (cases zs') simp_all
    ultimately show ?thesis using rel(2) by metis
  qed
  then show ?thesis using z by simp
qed

subsection \<open>Properties\<close>

text \<open>
  C9. A dump path that is accepted stays inside the dump directory: its canonical form extends the canonical
  dump directory.  The dump directory and the directory of the file belong to the service, only the
  service can write them, and nobody else can replace a directory above them.
\<close>

theorem dump_path_confined:
  assumes "ValidateDumpPath h filepath dump_dir = Inr path" "h_canonical h dump_dir = Inr dir"
    and "list_all (\<lambda>c. c \<notin> {[], ''.'', ''..''}) dir"
  shows "\<exists>rest. path = abs_path (dir @ rest) \<and> private_directory h (abs_path dir) \<and>
    private_directory h (abs_path (butlast (dir @ rest)))"
proof -
  let ?resolved = "if filepath \<noteq> [] \<and> hd filepath \<noteq> CHR ''/'' then dump_dir @ ''/'' @ filepath else filepath"
  obtain rc where rc: "h_weakly_canonical h ?resolved = Inr (True, rc)" "path = abs_path rc"
      "ValidatePrivateDirectory h (abs_path dir) = Inr ()" "ValidatePrivateDirectory h (abs_path (butlast rc)) = Inr ()"
      "lexically_relative rc dir \<noteq> []" "\<not> prefix ''..'' (join_with (CHR ''/'') (lexically_relative rc dir))"
    using assms(1,2) by (auto simp: ValidateDumpPath_def Let_def split: if_splits sum.splits)
  from relative_inside [OF assms(3) rc(5,6)] obtain rest where "rc = dir @ rest" by blast
  then show ?thesis using rc(2-4) ValidatePrivateDirectory_iff by blast
qed

definition example_host :: Host where
  "example_host = \<lparr>h_canonical = (\<lambda>p. if p = ''/d'' then Inr [''d''] else if p = ''/'' then Inr [] else Inl ''no''),
     h_weakly_canonical = (\<lambda>p. if p = ''/d/a.dmp'' then Inr (True, [''d'', ''a.dmp'']) else Inl ''no''),
     h_lstat = (\<lambda>p. Some \<lparr>st_mode = 0x41C0, st_uid = 7\<rparr>), h_open_directory = (\<lambda>p. Some (Some \<lparr>st_mode = 0x41C0, st_uid = 7\<rparr>)),
     h_euid = 7\<rparr>"

theorem dump_path_confined_witness:
  "ValidateDumpPath example_host ''a.dmp'' ''/d'' = Inr ''/d/a.dmp'' \<and> private_directory example_host ''/d''"
proof -
  have c: "h_canonical example_host ''/d'' = Inr [''d'']" "list_all (\<lambda>c. c \<notin> {[], ''.'', ''..''}) [''d'']" by (simp_all add: example_host_def)
  have v: "ValidateDumpPath example_host ''a.dmp'' ''/d'' = Inr ''/d/a.dmp''"
    by (simp add: ValidateDumpPath_def ValidatePrivateDirectory_def ValidateSecureDirectoryAncestors_def example_host_def abs_path_def
        lexically_relative_def up_steps_def S_ISDIR_def shared_writable_def sublist_code)
  from dump_path_confined [OF v c] have "private_directory example_host (abs_path [''d''])" by blast
  then show ?thesis using v by (simp add: abs_path_def)
qed

end
