(* ===== verification/Checkpoint.thy ===== *)
theory Checkpoint
  imports PathUtils Recovery
begin

text \<open>
  \<^verbatim>\<open>src/src/storage/wal_checkpoint.cpp\<close>: the sidecar file that binds a snapshot to the sequence of the log it contains, and
  the choice of the snapshot at startup (\<^verbatim>\<open>NvecdServer::InitializeComponents\<close>).  Files are a map from paths to
  contents and system calls take faults, as for the log; zlib's running checksum is an argument.
\<close>

definition kWalCheckpointSuffix :: string where
  "kWalCheckpointSuffix = ''.walseq''"

definition kCheckpointMagic :: u32 where
  "kCheckpointMagic = 0x5043574E"

definition kCheckpointVersion :: u32 where
  "kCheckpointVersion = 1"

definition kCheckpointSize :: nat where
  "kCheckpointSize = 32"

definition kFrameCrcOffset :: nat where
  "kFrameCrcOffset = 28"

definition kMaxBoundSnapshotSize :: nat where
  "kMaxBoundSnapshotSize = 3 * 1024 * 1024 * 1024"

definition SidecarPath :: "string \<Rightarrow> string" where
  "SidecarPath snapshot_path = snapshot_path @ kWalCheckpointSuffix"

type_synonym files = "(string, bytes) umap"

datatype ck_call =
    OpenSnapshot | StatSnapshot | ReadSnapshot | CloseSnapshot | MakeTemp | Chmod | WriteFrame | FsyncFrame | CloseFrame
  | RenameFrame | FsyncParent | UnlinkTemp | OpenSidecar | StatSidecar | ReadSidecar | CloseSidecar

type_synonym ck_faults = "ck_call \<Rightarrow> (nat \<times> string) option"

subsection \<open>The snapshot a sidecar is bound to\<close>

record SnapshotBinding =
  sb_size :: u64
  sb_crc32 :: u32

function crc_chunks :: "(u32 \<Rightarrow> bytes \<Rightarrow> u32) \<Rightarrow> u32 \<Rightarrow> bytes \<Rightarrow> u32" where
  "crc_chunks crc32 c bs = (if bs = [] then c else crc_chunks crc32 (crc32 c (take 65536 bs)) (drop 65536 bs))"
  by pat_completeness auto
termination by (relation "measure (\<lambda>(_, _, bs). length bs)") (simp_all add: neq_Nil_conv)

declare crc_chunks.simps [simp del]

definition errno_text :: "(nat \<times> string) option \<Rightarrow> string" where
  "errno_text f = (case f of None \<Rightarrow> ''No such file or directory'' | Some (_, err) \<Rightarrow> err)"

text \<open>A snapshot that is too large is refused with the text of an earlier error, here the one \<open>stale\<close> gives.\<close>

definition ReadSnapshotBinding ::
    "(u32 \<Rightarrow> bytes \<Rightarrow> u32) \<Rightarrow> ck_faults \<Rightarrow> string \<Rightarrow> string \<Rightarrow> files \<Rightarrow> SnapshotBinding expected" where
  "ReadSnapshotBinding crc32 fl stale snapshot_path fs =
     (case (fl OpenSnapshot, um_find fs snapshot_path) of
        (None, Some content) \<Rightarrow>
          if fl StatSnapshot \<noteq> None \<or> kMaxBoundSnapshotSize < length content
          then Inl (MakeErrorContext kStorageCorrupted (''Checkpoint snapshot is not a bounded regular file: '' @
                 (case fl StatSnapshot of None \<Rightarrow> stale | Some (_, err) \<Rightarrow> err)) snapshot_path)
          else if content \<noteq> [] \<and> fl ReadSnapshot \<noteq> None
          then Inl (MakeErrorContext kWalReadError (''Failed to read checkpoint snapshot: '' @ errno_text (fl ReadSnapshot)) snapshot_path)
          else if fl CloseSnapshot \<noteq> None
          then Inl (MakeErrorContext kWalReadError (''Failed to close checkpoint snapshot: '' @ errno_text (fl CloseSnapshot)) snapshot_path)
          else Inr \<lparr>sb_size = of_nat (length content), sb_crc32 = crc_chunks crc32 0 content\<rparr>
      | (f, _) \<Rightarrow> Inl (MakeErrorContext kWalReadError (''Failed to open checkpoint snapshot: '' @ errno_text f) snapshot_path))"

subsection \<open>Writing and reading the sidecar\<close>

definition frame_body :: "u64 \<Rightarrow> SnapshotBinding \<Rightarrow> bytes" where
  "frame_body sequence binding =
     le32 kCheckpointMagic @ le32 kCheckpointVersion @ le64 sequence @ le64 (sb_size binding) @ le32 (sb_crc32 binding)"

definition checkpoint_frame :: "(u32 \<Rightarrow> bytes \<Rightarrow> u32) \<Rightarrow> u64 \<Rightarrow> SnapshotBinding \<Rightarrow> bytes" where
  "checkpoint_frame crc32 sequence binding =
     (let body = frame_body sequence binding in body @ le32 (crc32 0 (take kFrameCrcOffset body)))"

definition quote :: string where
  "quote = [CHR 0x27]"

definition discard_temp :: "ck_faults \<Rightarrow> string \<Rightarrow> string \<Rightarrow> files \<Rightarrow> unit expected \<times> files" where
  "discard_temp fl tmp_path msg fs =
     (Inl (MakeError kStorageWriteError msg), if fl UnlinkTemp = None then um_erase tmp_path fs else fs)"

definition publish_frame :: "ck_faults \<Rightarrow> bytes \<Rightarrow> string \<Rightarrow> string \<Rightarrow> files \<Rightarrow> unit expected \<times> files" where
  "publish_frame fl frame tmp_path final_path fs0 =
     (let fs = um_set tmp_path [] fs0
      in case fl Chmod of
           Some (_, err) \<Rightarrow> discard_temp fl tmp_path (''Failed to set WAL checkpoint permissions: '' @ err) fs
         | None \<Rightarrow>
             (case fl WriteFrame of
                Some (k, err) \<Rightarrow>
                  discard_temp fl tmp_path (''Failed to write WAL checkpoint  @ tmp_path @ : '' @ err)
                    (um_set tmp_path (partial_write k frame) fs)
              | None \<Rightarrow>
                  let fs = um_set tmp_path frame fs
                  in case fl FsyncFrame of
                       Some (_, err) \<Rightarrow> discard_temp fl tmp_path (''Failed to fsync WAL checkpoint  @ tmp_path @ : '' @ err) fs
                     | None \<Rightarrow>
                         (case fl CloseFrame of
                            Some (_, err) \<Rightarrow> discard_temp fl tmp_path (''Failed to close WAL checkpoint  @ tmp_path @ : '' @ err) fs
                          | None \<Rightarrow>
                              (case fl RenameFrame of
                                 Some (_, err) \<Rightarrow>
                                   discard_temp fl tmp_path (''Failed to rename WAL checkpoint into place  @ final_path @ : '' @ err) fs
                               | None \<Rightarrow>
                                   let fs = um_set final_path frame (um_erase tmp_path fs)
                                   in case fl FsyncParent of
                                        Some (_, err) \<Rightarrow>
                                          (Inl (MakeError kStorageWriteError
                                             (''Failed to fsync WAL checkpoint directory for  @ final_path @ : '' @ err)), fs)
                                      | None \<Rightarrow> (Inr (), fs)))))"

text \<open>\<open>suffix6\<close> are the six characters \<^verbatim>\<open>mkstemp\<close> chooses.\<close>

definition temp_path :: "string \<Rightarrow> string \<Rightarrow> string" where
  "temp_path final_path suffix6 = final_path @ ''.tmp.'' @ suffix6"

definition WriteWalCheckpoint :: "(u32 \<Rightarrow> bytes \<Rightarrow> u32) \<Rightarrow> Host \<Rightarrow> ck_faults \<Rightarrow> string \<Rightarrow> string \<Rightarrow> string \<Rightarrow> u64 \<Rightarrow> files \<Rightarrow>
    unit expected \<times> files" where
  "WriteWalCheckpoint crc32 h fl stale suffix6 snapshot_path sequence fs =
     (if sequence = - 1 then (Inl (MakeError kStorageWriteError ''Cannot checkpoint exhausted WAL sequence space''), fs)
      else case ReadSnapshotBinding crc32 fl stale snapshot_path fs of
             Inl e \<Rightarrow> (Inl e, fs)
           | Inr binding \<Rightarrow>
               (case ResolvePrivateStoragePath h (SidecarPath snapshot_path) of
                  Inl e \<Rightarrow> (Inl e, fs)
                | Inr final_path \<Rightarrow>
                    (case fl MakeTemp of
                       Some (_, err) \<Rightarrow> (Inl (MakeError kStorageWriteError (''Failed to create WAL checkpoint temp file: '' @ err)), fs)
                     | None \<Rightarrow> publish_frame fl (checkpoint_frame crc32 sequence binding) (temp_path final_path suffix6) final_path fs)))"

definition check_frame :: "(u32 \<Rightarrow> bytes \<Rightarrow> u32) \<Rightarrow> string \<Rightarrow> SnapshotBinding \<Rightarrow> bytes \<Rightarrow> u64 expected" where
  "check_frame crc32 final_path binding bytes =
     (if le32_decode bytes \<noteq> kCheckpointMagic \<or> le32_decode (drop 4 bytes) \<noteq> kCheckpointVersion
      then Inl (MakeErrorContext kStorageCorrupted ''Invalid WAL checkpoint magic or version'' final_path)
      else if le32_decode (drop kFrameCrcOffset bytes) \<noteq> crc32 0 (take kFrameCrcOffset bytes)
      then Inl (MakeErrorContext kStorageCorrupted ''WAL checkpoint CRC32 mismatch'' final_path)
      else if le64_decode (drop 8 bytes) = - 1
      then Inl (MakeErrorContext kStorageCorrupted ''WAL checkpoint sequence is exhausted'' final_path)
      else if le64_decode (drop 16 bytes) \<noteq> sb_size binding \<or> le32_decode (drop 24 bytes) \<noteq> sb_crc32 binding
      then Inl (MakeErrorContext kStorageCorrupted ''WAL checkpoint does not match snapshot'' final_path)
      else Inr (le64_decode (drop 8 bytes)))"

definition ReadWalCheckpoint :: "(u32 \<Rightarrow> bytes \<Rightarrow> u32) \<Rightarrow> ck_faults \<Rightarrow> string \<Rightarrow> string \<Rightarrow> files \<Rightarrow> u64 expected" where
  "ReadWalCheckpoint crc32 fl stale snapshot_path fs =
     (case ReadSnapshotBinding crc32 fl stale snapshot_path fs of
        Inl e \<Rightarrow> Inl e
      | Inr binding \<Rightarrow>
          let final_path = SidecarPath snapshot_path
          in case (fl OpenSidecar, um_find fs final_path) of
               (None, Some bytes) \<Rightarrow>
                 if fl StatSidecar \<noteq> None \<or> length bytes \<noteq> kCheckpointSize
                 then Inl (MakeErrorContext kStorageCorrupted ''Invalid WAL checkpoint file type or size'' final_path)
                 else if fl ReadSidecar \<noteq> None \<or> fl CloseSidecar \<noteq> None
                 then Inl (MakeErrorContext kWalReadError ''Failed to read WAL checkpoint frame'' final_path)
                 else check_frame crc32 final_path binding bytes
             | (f, _) \<Rightarrow> Inl (MakeErrorContext kWalReadError (''Failed to open WAL checkpoint: '' @ errno_text f) final_path))"

subsection \<open>The snapshot at startup, and a save\<close>

text \<open>
  \<open>load\<close> reads a snapshot into the stores, or leaves them as they are; \<open>read\<close> reads the sidecar of a candidate.
\<close>

fun load_newest_valid_snapshot :: "(string \<Rightarrow> 's \<Rightarrow> 's expected) \<Rightarrow> (string \<Rightarrow> u64 expected) \<Rightarrow> bool \<Rightarrow> string list \<Rightarrow> Error option \<Rightarrow> 's \<Rightarrow>
    (string \<times> u64) expected \<times> 's" where
  "load_newest_valid_snapshot load read require_checkpoint [] last_error s =
     (case last_error of Some e \<Rightarrow> (Inl e, s) | None \<Rightarrow> (Inr ([], 0), s))"
| "load_newest_valid_snapshot load read require_checkpoint (candidate # cs) last_error s =
     (case (if require_checkpoint then read candidate else Inr 0) of
        Inl e \<Rightarrow> load_newest_valid_snapshot load read require_checkpoint cs (Some e) s
      | Inr checkpoint \<Rightarrow>
          (case load candidate s of
             Inr s' \<Rightarrow> (Inr (candidate, checkpoint), s')
           | Inl e \<Rightarrow> load_newest_valid_snapshot load read require_checkpoint cs (Some e) s))"

text \<open>
  \<^verbatim>\<open>DUMP SAVE\<close> in lock mode; \<open>save\<close> is \<^verbatim>\<open>WriteSnapshotWithLock\<close>, which returns the sequence it captured.
\<close>

definition save_locked :: "(u32 \<Rightarrow> bytes \<Rightarrow> u32) \<Rightarrow> Host \<Rightarrow> ck_faults \<Rightarrow> faults \<Rightarrow> string \<Rightarrow> string \<Rightarrow> (files \<Rightarrow> u64 expected \<times> files) \<Rightarrow> string \<Rightarrow>
    bool \<Rightarrow> WriteAheadLog option \<Rightarrow> files \<Rightarrow> string expected \<times> WriteAheadLog option \<times> files" where
  "save_locked crc32 h fl wfl stale suffix6 save resolved_path read_only wal fs0 =
     (if read_only then (Inl (MakeError kSnapshotAlreadyInProgress ''Another snapshot save is already in progress''), wal, fs0)
      else case save fs0 of
             (Inl e, fs) \<Rightarrow>
               (Inl (MakeError kSnapshotSaveFailed (''Failed to save snapshot to '' @ resolved_path @ '': '' @ err_message e)), wal, fs)
           | (Inr sequence, fs) \<Rightarrow>
               (case wal of
                  None \<Rightarrow> (Inr (''OK DUMP_SAVED '' @ resolved_path @ crlf), wal, fs)
                | Some w \<Rightarrow>
                    (case WriteWalCheckpoint crc32 h fl stale suffix6 resolved_path sequence fs of
                       (Inl _, fs) \<Rightarrow> (Inr (''OK DUMP_SAVED '' @ resolved_path @ crlf), Some w, fs)
                     | (Inr _, fs) \<Rightarrow> (Inr (''OK DUMP_SAVED '' @ resolved_path @ crlf), Some (snd (wal_Truncate wfl sequence w)), fs))))"

subsection \<open>Frames\<close>

lemma frame_body_fields:
  "length (frame_body sequence binding) = 28" "take 28 (frame_body sequence binding @ bs) = frame_body sequence binding"
  "drop 28 (frame_body sequence binding @ bs) = bs"
  by (simp_all add: frame_body_def)

lemma check_frame_written:
  assumes "sequence \<noteq> - 1"
  shows "check_frame crc32 path binding (checkpoint_frame crc32 sequence written) = Inr v \<longleftrightarrow>
    v = sequence \<and> sb_size binding = sb_size written \<and> sb_crc32 binding = sb_crc32 written"
proof -
  let ?f = "checkpoint_frame crc32 sequence written"
  have body: "take 28 (frame_body sequence written) = frame_body sequence written" by (simp add: frame_body_fields)
  have f: "?f = frame_body sequence written @ le32 (crc32 0 (frame_body sequence written))"
    by (simp add: checkpoint_frame_def kFrameCrcOffset_def body Let_def)
  have "le32_decode (drop kFrameCrcOffset ?f) = crc32 0 (take kFrameCrcOffset ?f)"
    by (simp add: f kFrameCrcOffset_def frame_body_fields le32_roundtrip_exact)
  moreover have "le32_decode ?f = kCheckpointMagic" "le32_decode (drop 4 ?f) = kCheckpointVersion" "le64_decode (drop 8 ?f) = sequence"
      "le64_decode (drop 16 ?f) = sb_size written" "le32_decode (drop 24 ?f) = sb_crc32 written"
    by (simp_all add: f frame_body_def)
  ultimately show ?thesis using assms by (auto simp: check_frame_def)
qed

lemma checkpoint_frame_length: "length (checkpoint_frame crc32 sequence written) = kCheckpointSize"
  by (simp add: checkpoint_frame_def Let_def frame_body_fields kCheckpointSize_def)

lemma binding_found:
  "ReadSnapshotBinding crc32 fl stale p fs = Inr b \<Longrightarrow>
     \<exists>c. um_find fs p = Some c \<and> length c \<le> kMaxBoundSnapshotSize \<and> b = \<lparr>sb_size = of_nat (length c), sb_crc32 = crc_chunks crc32 0 c\<rparr>"
  by (auto simp: ReadSnapshotBinding_def split: option.splits prod.splits if_splits)

lemma binding_present:
  "\<lbrakk>um_find fs p = Some c; length c \<le> kMaxBoundSnapshotSize\<rbrakk> \<Longrightarrow>
     ReadSnapshotBinding crc32 (\<lambda>_. None) stale p fs = Inr \<lparr>sb_size = of_nat (length c), sb_crc32 = crc_chunks crc32 0 c\<rparr>"
  by (simp add: ReadSnapshotBinding_def)

lemma bounded_sizes_eq:
  "\<lbrakk>m \<le> kMaxBoundSnapshotSize; n \<le> kMaxBoundSnapshotSize\<rbrakk> \<Longrightarrow> (of_nat m :: u64) = of_nat n \<longleftrightarrow> m = n"
  by (simp add: kMaxBoundSnapshotSize_def of_nat_eq_iff take_bit_nat_eq_self_iff word_unat_eq_iff unat_of_nat)

text \<open>What the sidecar of a snapshot with content \<open>c\<close> holds.\<close>

definition sidecar_of :: "(u32 \<Rightarrow> bytes \<Rightarrow> u32) \<Rightarrow> u64 \<Rightarrow> bytes \<Rightarrow> bytes" where
  "sidecar_of crc32 sequence c = checkpoint_frame crc32 sequence \<lparr>sb_size = of_nat (length c), sb_crc32 = crc_chunks crc32 0 c\<rparr>"

lemma read_sidecar:
  assumes "um_find fs (SidecarPath p) = Some (sidecar_of crc32 sequence c)" "sequence \<noteq> - 1" "length c \<le> kMaxBoundSnapshotSize"
    and "um_find fs p = Some c2"
  shows "ReadWalCheckpoint crc32 (\<lambda>_. None) stale p fs = Inr v \<longleftrightarrow>
    v = sequence \<and> length c2 = length c \<and> crc_chunks crc32 0 c2 = crc_chunks crc32 0 c"
proof (cases "length c2 \<le> kMaxBoundSnapshotSize")
  case True
  then show ?thesis
    using binding_present [OF assms(4) True, of crc32 stale] assms(1,3) check_frame_written [OF assms(2)] bounded_sizes_eq [OF True assms(3)]
    by (simp add: ReadWalCheckpoint_def sidecar_of_def checkpoint_frame_length)
next
  case False
  then show ?thesis using assms(3,4) by (auto simp: ReadWalCheckpoint_def ReadSnapshotBinding_def)
qed

lemma temp_differs: "temp_path final suffix6 \<noteq> final" "SidecarPath p \<noteq> p"
  by (simp_all add: temp_path_def SidecarPath_def kWalCheckpointSuffix_def)

lemma publish_outcome:
  assumes "publish_frame fl frame tmp final fs = (r, fs')" "tmp \<noteq> final"
  shows "\<forall>path. path \<noteq> tmp \<longrightarrow> path \<noteq> final \<longrightarrow> um_find fs' path = um_find fs path"
    and "um_find fs' final = um_find fs final \<and> r \<noteq> Inr () \<or> um_find fs' final = Some frame"
    and "fl UnlinkTemp = None \<Longrightarrow> um_find fs' tmp = None"
  using assms by (auto simp: publish_frame_def discard_temp_def Let_def update_conv' delete_conv' split: option.splits if_splits)

lemma write_success:
  assumes "ResolvePrivateStoragePath h (SidecarPath p) = Inr final" "um_find fs p = Some c" "length c \<le> kMaxBoundSnapshotSize" "sequence \<noteq> - 1"
  shows "WriteWalCheckpoint crc32 h (\<lambda>_. None) stale suffix6 p sequence fs =
    (Inr (), um_set final (sidecar_of crc32 sequence c) (um_erase (temp_path final suffix6)
       (um_set (temp_path final suffix6) (sidecar_of crc32 sequence c) (um_set (temp_path final suffix6) [] fs))))"
  using assms binding_present [OF assms(2,3), of crc32 stale]
  by (simp add: WriteWalCheckpoint_def publish_frame_def sidecar_of_def Let_def)

subsection \<open>Properties\<close>

text \<open>
  C8. Writing a sidecar is atomic for every combination of failing system calls: the sidecar is unchanged and the call
  reports an error, or it is the complete frame of the snapshot; a call that succeeds has written it.  No other file
  changes, and the temporary file is gone unless it could not be removed.
\<close>

theorem checkpoint_write_atomic:
  assumes "ResolvePrivateStoragePath h (SidecarPath p) = Inr final" "um_find fs (temp_path final suffix6) = None"
    and "WriteWalCheckpoint crc32 h fl stale suffix6 p sequence fs = (r, fs')"
  shows "(\<forall>path. path \<noteq> temp_path final suffix6 \<longrightarrow> path \<noteq> final \<longrightarrow> um_find fs' path = um_find fs path) \<and>
    (um_find fs' final = um_find fs final \<and> r \<noteq> Inr () \<or>
     (\<exists>c. um_find fs p = Some c \<and> um_find fs' final = Some (sidecar_of crc32 sequence c))) \<and>
    (fl UnlinkTemp = None \<longrightarrow> um_find fs' (temp_path final suffix6) = None)"
proof (cases "fs' = fs \<and> r \<noteq> Inr ()")
  case False
  then obtain b where b: "ReadSnapshotBinding crc32 fl stale p fs = Inr b"
      "publish_frame fl (checkpoint_frame crc32 sequence b) (temp_path final suffix6) final fs = (r, fs')"
    using assms(1,3) by (auto simp: WriteWalCheckpoint_def split: if_splits sum.splits option.splits)
  obtain c where c: "um_find fs p = Some c" "checkpoint_frame crc32 sequence b = sidecar_of crc32 sequence c"
    using binding_found [OF b(1)] by (auto simp: sidecar_of_def)
  show ?thesis using publish_outcome [OF b(2) temp_differs(1)] c by metis
qed (use assms(2) in auto)

text \<open>
  C7. Without failing calls the sidecar of a snapshot of at most 3 GiB is written, and from then on reading it
  returns the sequence exactly as long as the snapshot has the same size and checksum: a snapshot
  that was replaced is refused, whatever happened to other files.
\<close>

theorem checkpoint_binds_snapshot:
  assumes "ResolvePrivateStoragePath h (SidecarPath p) = Inr (SidecarPath p)" "um_find fs p = Some c"
    and "length c \<le> kMaxBoundSnapshotSize" "sequence \<noteq> - 1"
    and "um_find fs2 (SidecarPath p) = um_find (snd (WriteWalCheckpoint crc32 h (\<lambda>_. None) stale suffix6 p sequence fs)) (SidecarPath p)"
    and "um_find fs2 p = Some c2"
  shows "fst (WriteWalCheckpoint crc32 h (\<lambda>_. None) stale suffix6 p sequence fs) = Inr () \<and>
    (ReadWalCheckpoint crc32 (\<lambda>_. None) stale p fs2 = Inr v \<longleftrightarrow>
       v = sequence \<and> length c2 = length c \<and> crc_chunks crc32 0 c2 = crc_chunks crc32 0 c)"
proof -
  have "um_find fs2 (SidecarPath p) = Some (sidecar_of crc32 sequence c)"
    using assms(5) write_success [OF assms(1-4), of crc32 stale suffix6] by (simp add: update_conv')
  then show ?thesis using read_sidecar [OF _ assms(4,3,6)] write_success [OF assms(1-4), of crc32 stale suffix6] by simp
qed

text \<open>
  C38. A save that replaces a snapshot with a checkpoint and then cannot write the new sidecar answers OK, and the next
  start refuses the snapshot because its old sidecar no longer matches: when it is the only one, recovery
  fails although snapshot and log are intact.
\<close>

theorem saved_snapshot_blocks_restart:
  assumes "um_find fs (SidecarPath p) = Some (sidecar_of crc32 old c)" "old \<noteq> - 1" "length c \<le> kMaxBoundSnapshotSize"
    and "save fs = (Inr sequence, um_set p c2 fs)" "length c2 \<noteq> length c" "fl MakeTemp \<noteq> None"
  shows "fst (save_locked crc32 h fl wfl stale suffix6 save p False (Some w) fs) = Inr (''OK DUMP_SAVED '' @ p @ crlf) \<and>
    (\<exists>e. load_newest_valid_snapshot load
       (\<lambda>q. ReadWalCheckpoint crc32 (\<lambda>_. None) stale q (snd (snd (save_locked crc32 h fl wfl stale suffix6 save p False (Some w) fs))))
       True [p] None s = (Inl e, s))"
proof -
  have w: "\<exists>e. WriteWalCheckpoint crc32 h fl stale suffix6 p sequence (um_set p c2 fs) = (Inl e, um_set p c2 fs)"
    using assms(6) by (auto simp: WriteWalCheckpoint_def split: sum.splits option.splits)
  then have sv: "save_locked crc32 h fl wfl stale suffix6 save p False (Some w) fs =
      (Inr (''OK DUMP_SAVED '' @ p @ crlf), Some w, um_set p c2 fs)"
    using assms(4) by (auto simp: save_locked_def)
  have "ReadWalCheckpoint crc32 (\<lambda>_. None) stale p (um_set p c2 fs) \<noteq> Inr v" for v
    using read_sidecar [of "um_set p c2 fs" p crc32 old c c2 stale v] assms(1-3,5) temp_differs(2) [of p] by (simp add: update_conv')
  then obtain e where "ReadWalCheckpoint crc32 (\<lambda>_. None) stale p (um_set p c2 fs) = Inl e"
    by (cases "ReadWalCheckpoint crc32 (\<lambda>_. None) stale p (um_set p c2 fs)") auto
  then show ?thesis using sv by simp
qed

subsection \<open>Witnesses\<close>

definition example_files :: files where
  "example_files = [(''/d/a.dmp'', [1, 2])]"

lemma example_resolves: "ResolvePrivateStoragePath example_host (SidecarPath ''/d/a.dmp'') = Inr (SidecarPath ''/d/a.dmp'')"
  by (simp add: ResolvePrivateStoragePath_def SidecarPath_def kWalCheckpointSuffix_def parent_path_def filename_def example_host_def abs_path_def
      ValidatePrivateDirectory_def ValidateSecureDirectoryAncestors_def S_ISDIR_def shared_writable_def)

theorem checkpoint_write_atomic_witness:
  "um_find (snd (WriteWalCheckpoint (\<lambda>c bs. c) example_host (\<lambda>call. if call = RenameFrame then Some (0, ''no'') else None) [] ''xxxxxx'' ''/d/a.dmp'' 5
     example_files)) ''/d/a.dmp'' = Some [1, 2]"
proof -
  let ?fl = "\<lambda>call. if call = RenameFrame then Some (0, ''no'') else None"
  obtain r fs' where w: "WriteWalCheckpoint (\<lambda>c bs. c) example_host ?fl [] ''xxxxxx'' ''/d/a.dmp'' 5 example_files = (r, fs')" by fastforce
  have "um_find example_files (temp_path (SidecarPath ''/d/a.dmp'') ''xxxxxx'') = None"
    by (simp add: example_files_def temp_path_def SidecarPath_def kWalCheckpointSuffix_def)
  from checkpoint_write_atomic [OF example_resolves this w]
  have "um_find fs' ''/d/a.dmp'' = um_find example_files ''/d/a.dmp''"
    by (auto simp: temp_path_def SidecarPath_def kWalCheckpointSuffix_def)
  then show ?thesis using w by (simp add: example_files_def)
qed

theorem checkpoint_binds_snapshot_witness:
  "ReadWalCheckpoint (\<lambda>c bs. c) (\<lambda>_. None) [] ''/d/a.dmp''
     (snd (WriteWalCheckpoint (\<lambda>c bs. c) example_host (\<lambda>_. None) [] ''xxxxxx'' ''/d/a.dmp'' 5 example_files)) = Inr 5"
proof -
  let ?fs = "snd (WriteWalCheckpoint (\<lambda>c bs. c) example_host (\<lambda>_. None) [] ''xxxxxx'' ''/d/a.dmp'' 5 example_files)"
  have c: "um_find example_files ''/d/a.dmp'' = Some [1, 2]" "length [1 :: 8 word, 2] \<le> kMaxBoundSnapshotSize" "(5 :: u64) \<noteq> - 1"
    by (simp_all add: example_files_def kMaxBoundSnapshotSize_def)
  have "um_find ?fs ''/d/a.dmp'' = Some [1, 2]" unfolding write_success [OF example_resolves c]
    by (simp add: update_conv' delete_conv' example_files_def temp_path_def SidecarPath_def kWalCheckpointSuffix_def)
  from checkpoint_binds_snapshot [OF example_resolves c refl this, of 5] show ?thesis by simp
qed

theorem saved_snapshot_blocks_restart_witness:
  "\<exists>e. load_newest_valid_snapshot (\<lambda>q s. Inr s)
     (\<lambda>q. ReadWalCheckpoint (\<lambda>c bs. c) (\<lambda>_. None) [] q (snd (snd (save_locked (\<lambda>c bs. c) example_host (\<lambda>_. Some (0, ''full'')) (\<lambda>_. None) [] ''xxxxxx''
        (\<lambda>fs. (Inr 9, um_set ''/d/a.dmp'' [3] fs)) ''/d/a.dmp'' False (Some example_closed)
        [(''/d/a.dmp'', [1, 2]), (SidecarPath ''/d/a.dmp'', sidecar_of (\<lambda>c bs. c) 5 [1, 2])]))))
     True [''/d/a.dmp''] None (0 :: nat) = (Inl e, 0)"
  by (rule saved_snapshot_blocks_restart [THEN conjunct2, of _ _ _ 5 "[1, 2]" _ 9 "[3]"])
     (simp_all add: SidecarPath_def kWalCheckpointSuffix_def kMaxBoundSnapshotSize_def)

end
