(* ===== verification/RateLimiter.thy ===== *)
theory RateLimiter
  imports FloatOrder
begin

text \<open>
  \<^verbatim>\<open>src/src/server/rate_limiter.cpp\<close>: a token bucket per client, with the least recently seen client evicted.  The
  clock is an argument in nanoseconds.  The iterators in \<^verbatim>\<open>lru_map_\<close> are the positions of the keys in
  \<^verbatim>\<open>lru_list_\<close>, so the list alone is the state.
\<close>

record Bucket =
  bk_tokens :: fl
  bk_last_refill :: int

record RateLimiter =
  rl_capacity :: int
  rl_refill_rate :: int
  rl_max_clients :: int
  rl_buckets :: "(string, Bucket) umap"
  rl_lru_list :: "string list"

definition rl_new :: "int \<Rightarrow> int \<Rightarrow> int \<Rightarrow> RateLimiter" where
  "rl_new capacity refill_rate max_clients =
     \<lparr>rl_capacity = capacity, rl_refill_rate = refill_rate, rl_max_clients = max_clients, rl_buckets = [], rl_lru_list = []\<rparr>"

definition Refill :: "RateLimiter \<Rightarrow> int \<Rightarrow> Bucket \<Rightarrow> Bucket" where
  "Refill l now bucket =
     (let elapsed_sec = fl_div F64 (fl_of_int F64 (now - bk_last_refill bucket)) (fl_of_int F64 1000000000)
      in \<lparr>bk_tokens = fl_min (fl_of_int F64 (rl_capacity l))
             (fl_add F64 (bk_tokens bucket) (fl_mul F64 elapsed_sec (fl_of_int F64 (rl_refill_rate l)))),
          bk_last_refill = now\<rparr>)"

definition EvictOldest :: "RateLimiter \<Rightarrow> RateLimiter" where
  "EvictOldest l =
     (if rl_lru_list l = [] then l
      else l\<lparr>rl_buckets := um_erase (last (rl_lru_list l)) (rl_buckets l), rl_lru_list := butlast (rl_lru_list l)\<rparr>)"

definition Allow :: "RateLimiter \<Rightarrow> string \<Rightarrow> int \<Rightarrow> bool \<times> RateLimiter" where
  "Allow l client_key now =
     (case um_find (rl_buckets l) client_key of
        None \<Rightarrow>
          let l1 = (if rl_max_clients l \<le> int (um_size (rl_buckets l)) then EvictOldest l else l);
              bucket = \<lparr>bk_tokens = fl_sub F64 (fl_of_int F64 (rl_capacity l)) (Fin 1), bk_last_refill = now\<rparr>
          in (True, l1\<lparr>rl_buckets := um_set client_key bucket (rl_buckets l1), rl_lru_list := client_key # rl_lru_list l1\<rparr>)
      | Some b \<Rightarrow>
          let bucket = Refill l now b;
              l1 = (if client_key \<in> set (rl_lru_list l) then l\<lparr>rl_lru_list := splice_front client_key (rl_lru_list l)\<rparr> else l)
          in if fl_le (Fin 1) (bk_tokens bucket)
             then (True, l1\<lparr>rl_buckets := um_set client_key (bucket\<lparr>bk_tokens := fl_sub F64 (bk_tokens bucket) (Fin 1)\<rparr>) (rl_buckets l)\<rparr>)
             else (False, l1\<lparr>rl_buckets := um_set client_key bucket (rl_buckets l)\<rparr>))"

subsection \<open>Doubles and integers\<close>

lemma fl_round_int64:
  assumes "\<bar>k\<bar> < 2 ^ 53"
  shows "fl_round F64 (of_int k) = Fin (of_int k)"
proof (cases "k = 0")
  case False
  define e where "e = max (rat_exp \<bar>of_int k :: rat\<bar>) (- 1022) - 52"
  have "of_int \<bar>k\<bar> < (of_int (2 ^ 53) :: rat)" using assms by (simp only: of_int_less_iff)
  then have z: "0 < \<bar>of_int k :: rat\<bar>" "\<bar>of_int k :: rat\<bar> < 2 ^ 53" using False by simp_all
  then have "rat_exp \<bar>of_int k :: rat\<bar> \<le> 52" by (intro rat_exp_le) (simp_all add: pow2_def)
  then have "of_int k = of_int (k * 2 ^ nat (- e)) * pow2 e" using pow2_split [of e 0] by (simp add: e_def)
  moreover have "(2 :: rat) ^ 53 < pow2 1024" by (simp add: pow2_def)
  ultimately show ?thesis using z(2) by (intro fl_round_multiple [of _ "k * 2 ^ nat (- e)" "pow2 e"]) (simp_all add: e_def)
qed simp

text \<open>A value between 0 and an integer stays there when it is rounded.\<close>

definition upto_int :: "int \<Rightarrow> fl \<Rightarrow> bool" where
  "upto_int m v \<longleftrightarrow> (\<exists>x. v = Fin x \<and> 0 \<le> x \<and> x \<le> of_int m)"

lemma round_within:
  assumes "0 \<le> x" "x \<le> of_int m" "m < 2 ^ 53"
  shows "upto_int m (fl_round F64 x)"
proof -
  have "0 \<le> m" using assms(1,2) by linarith
  then have "fl_le (fl_round F64 x) (Fin (of_int m))" using fl_round_mono [OF assms(1,2), of F64] fl_round_int64 [of m] assms(3) by simp
  moreover have "fl_le (Fin 0) (fl_round F64 x)" using fl_round_sign(2) [OF assms(1)] .
  ultimately show ?thesis by (cases "fl_round F64 x") (auto simp: fl_le_def upto_int_def)
qed

lemma round_nonneg: "0 \<le> x \<Longrightarrow> fl_le (Fin 0) (fl_round F64 x)"
  by (rule fl_round_sign(2))

lemma within_sub:
  assumes "upto_int m v" "fl_le (Fin 1) v" "m < 2 ^ 53"
  shows "1 \<le> m \<and> upto_int (m - 1) (fl_sub F64 v (Fin 1))"
proof -
  obtain x where x: "v = Fin x" "0 \<le> x" "x \<le> of_int m" using assms(1) by (auto simp: upto_int_def)
  have "1 \<le> x" using assms(2) x(1) by (auto simp: fl_le_def)
  then show ?thesis using x assms(3) round_within [of "x - 1" "m - 1"] by (simp add: fl_sub_def)
qed

subsection \<open>Invariant\<close>

definition bucket_ok :: "int \<Rightarrow> int \<Rightarrow> Bucket \<Rightarrow> bool" where
  "bucket_ok m t b \<longleftrightarrow> upto_int m (bk_tokens b) \<and> 0 \<le> bk_last_refill b \<and> bk_last_refill b \<le> t"

definition rl_ok :: "RateLimiter \<Rightarrow> int \<Rightarrow> bool" where
  "rl_ok l t \<longleftrightarrow> 1 \<le> rl_capacity l \<and> rl_capacity l < 2 ^ 31 \<and> 0 \<le> rl_refill_rate l \<and> rl_refill_rate l < 2 ^ 31 \<and>
     lru_wf (rl_lru_list l) (rl_buckets l) \<and> um_size (rl_buckets l) \<le> max 1 (nat (rl_max_clients l)) \<and>
     (\<forall>k b. um_find (rl_buckets l) k = Some b \<longrightarrow> bucket_ok (rl_capacity l) t b)"

lemma round_finite:
  assumes "0 \<le> x" "x \<le> pow2 k" "0 \<le> k" "k \<le> 1023"
  shows "\<exists>r. fl_round F64 x = Fin r \<and> 0 \<le> r \<and> r \<le> pow2 k"
  using fl_round_le_pow2 [of x k F64] fl_round_sign(2) [OF assms(1), of F64] assms by (auto simp: fl_le_def)

lemma round_ge_1: "1 \<le> x \<Longrightarrow> fl_le (Fin 1) (fl_round F64 x)"
  using fl_round_mono [of 1 x F64] fl_round_int64 [of 1] by simp

text \<open>What a refill adds: nothing within one instant, and a token or more after a second.\<close>

definition gain :: "int \<Rightarrow> int \<Rightarrow> fl" where
  "gain d r = fl_mul F64 (fl_div F64 (fl_of_int F64 d) (fl_of_int F64 1000000000)) (fl_of_int F64 r)"

lemma gain_finite:
  assumes "0 \<le> d" "d < 2 ^ 63" "0 \<le> r" "r < 2 ^ 31"
  shows "\<exists>g. gain d r = Fin g \<and> 0 \<le> g \<and> (d = 0 \<longrightarrow> g = 0) \<and> (1 \<le> r \<and> 1000000000 \<le> d \<longrightarrow> 1 \<le> g)"
proof -
  have c: "fl_of_int F64 1000000000 = Fin 1000000000" "fl_of_int F64 r = Fin (of_int r)"
    using fl_round_int64 [of 1000000000] fl_round_int64 [of r] assms by (simp_all add: fl_of_int_def)
  have "of_int d \<le> (of_int (2 ^ 63) :: rat)" using assms(2) by (simp only: of_int_le_iff)
  then have "of_int d \<le> pow2 63" by (simp add: pow2_def)
  then obtain x where x: "fl_of_int F64 d = Fin x" "0 \<le> x" "x \<le> pow2 63"
    using round_finite [of "of_int d" 63] assms(1) by (auto simp: fl_of_int_def)
  have "x / 1000000000 \<le> pow2 63" using x(2,3) by (simp add: divide_le_eq)
  then obtain y where y: "fl_round F64 (x / 1000000000) = Fin y" "0 \<le> y" "y \<le> pow2 63" using round_finite [of "x / 1000000000" 63] x(2) by auto
  have "of_int r \<le> (of_int (2 ^ 31) :: rat)" using assms(4) by (simp only: of_int_le_iff)
  then have "y * of_int r \<le> pow2 63 * 2 ^ 31" using y(2,3) assms(3) by (intro mult_mono) simp_all
  then obtain g where g: "fl_round F64 (y * of_int r) = Fin g" "0 \<le> g" using round_finite [of "y * of_int r" 94] y(2) assms(3) by (auto simp: pow2_def)
  have gain: "gain d r = Fin g" using c x(1) y(1) g(1) by (simp add: gain_def)
  have "g = 0" if "d = 0" using that x(1) y(1) g(1) by (simp add: fl_of_int_def)
  moreover have "1 \<le> g" if r: "1 \<le> r" and d: "1000000000 \<le> d"
  proof -
    have "fl_le (Fin (of_int 1000000000)) (Fin x)"
      using fl_round_mono [of "of_int 1000000000" "of_int d" F64] fl_round_int64 [of 1000000000] d x(1) by (simp add: fl_of_int_def)
    then have "1 \<le> x / 1000000000" by (auto simp: fl_le_def)
    from round_ge_1 [OF this] have "1 \<le> y" using y(1) by (auto simp: fl_le_def)
    then have "1 \<le> y * of_int r" using r mult_mono [of 1 y 1 "of_int r"] by simp
    from round_ge_1 [OF this] show ?thesis using g(1) by (auto simp: fl_le_def)
  qed
  ultimately show ?thesis using gain g(2) by blast
qed

lemma Refill_ok:
  assumes cap: "1 \<le> rl_capacity l" "rl_capacity l < 2 ^ 31" "0 \<le> rl_refill_rate l" "rl_refill_rate l < 2 ^ 31"
    and b: "bucket_ok m t b" "m \<le> rl_capacity l" and now: "t \<le> now" "now < 2 ^ 63"
  shows "bucket_ok (rl_capacity l) now (Refill l now b)"
    and "bk_last_refill b = now \<Longrightarrow> bucket_ok m now (Refill l now b)"
    and "\<lbrakk>1 \<le> rl_refill_rate l; bk_last_refill b + 1000000000 \<le> now\<rbrakk> \<Longrightarrow> fl_le (Fin 1) (bk_tokens (Refill l now b))"
proof -
  have C: "fl_of_int F64 (rl_capacity l) = Fin (of_int (rl_capacity l))" using fl_round_int64 [of "rl_capacity l"] cap by (simp add: fl_of_int_def)
  obtain x where x: "bk_tokens b = Fin x" "0 \<le> x" "x \<le> of_int m" using b(1) by (auto simp: bucket_ok_def upto_int_def)
  have d: "0 \<le> now - bk_last_refill b" "now - bk_last_refill b < 2 ^ 63" using b(1) now by (simp_all add: bucket_ok_def)
  obtain g where g: "gain (now - bk_last_refill b) (rl_refill_rate l) = Fin g" "0 \<le> g" "now = bk_last_refill b \<Longrightarrow> g = 0"
      "\<lbrakk>1 \<le> rl_refill_rate l; 1000000000 \<le> now - bk_last_refill b\<rbrakk> \<Longrightarrow> 1 \<le> g"
    using gain_finite [OF d cap(3,4)] by auto
  have tokens: "bk_tokens (Refill l now b) = fl_min (Fin (of_int (rl_capacity l))) (fl_round F64 (x + g))" "bk_last_refill (Refill l now b) = now"
    using C x(1) g(1) by (simp_all add: Refill_def gain_def Let_def)
  have pos: "fl_le (Fin 0) (fl_round F64 (x + g))" using x(2) g(2) by (intro round_nonneg) simp
  have last: "0 \<le> now" using b(1) now by (simp add: bucket_ok_def)
  show "bucket_ok (rl_capacity l) now (Refill l now b)" using tokens pos cap(1) last
    by (cases "fl_round F64 (x + g)") (auto simp: bucket_ok_def upto_int_def fl_min_def fl_le_def)
  show "bucket_ok m now (Refill l now b)" if "bk_last_refill b = now"
    using tokens g(3) that round_within [OF x(2,3)] b(2) cap(2) last by (auto simp: bucket_ok_def upto_int_def fl_min_def)
  show "fl_le (Fin 1) (bk_tokens (Refill l now b))" if "1 \<le> rl_refill_rate l" "bk_last_refill b + 1000000000 \<le> now"
    using tokens(1) round_ge_1 [of "x + g"] g(4) that x(2) cap(1)
    by (cases "fl_round F64 (x + g)") (auto simp: fl_min_def fl_le_def)
qed

lemma EvictOldest_ok:
  assumes "lru_wf (rl_lru_list l) (rl_buckets l)" "rl_lru_list l \<noteq> []"
  shows "lru_wf (rl_lru_list (EvictOldest l)) (rl_buckets (EvictOldest l)) \<and> Suc (um_size (rl_buckets (EvictOldest l))) = um_size (rl_buckets l) \<and>
    (\<forall>k b. um_find (rl_buckets (EvictOldest l)) k = Some b \<longrightarrow> um_find (rl_buckets l) k = Some b)"
proof -
  obtain xs k where lru: "rl_lru_list l = xs @ [k]" using assms(2) by (metis append_butlast_last_id)
  have wf: "distinct (xs @ [k])" "um_wf (rl_buckets l)" "fst ` set (rl_buckets l) = insert k (set xs)" using assms(1) lru by (auto simp: lru_wf_def)
  have "um_size (rl_buckets l) \<noteq> 0" using wf(3) by auto
  then show ?thesis using wf lru um_size_erase [OF wf(2), of k] by (auto simp: EvictOldest_def lru_wf_def split: if_splits)
qed

text \<open>A client that is not tracked gets a full bucket, less one token.\<close>

lemma Allow_new:
  assumes "rl_ok l t" "t \<le> now" "0 \<le> now" "um_find (rl_buckets l) key = None"
  shows "fst (Allow l key now)" "rl_ok (snd (Allow l key now)) now"
    and "um_find (rl_buckets (snd (Allow l key now))) key = Some \<lparr>bk_tokens = Fin (of_int (rl_capacity l - 1)), bk_last_refill = now\<rparr>"
    and "rl_capacity (snd (Allow l key now)) = rl_capacity l"
proof -
  define l1 where "l1 = (if rl_max_clients l \<le> int (um_size (rl_buckets l)) then EvictOldest l else l)"
  define b where "b = \<lparr>bk_tokens = Fin (of_int (rl_capacity l - 1)), bk_last_refill = now\<rparr>"
  have ok: "lru_wf (rl_lru_list l) (rl_buckets l)" "um_size (rl_buckets l) \<le> max 1 (nat (rl_max_clients l))" "1 \<le> rl_capacity l"
      "rl_capacity l < 2 ^ 31" using assms(1) by (simp_all add: rl_ok_def)
  have "fl_sub F64 (fl_of_int F64 (rl_capacity l)) (Fin 1) = Fin (of_int (rl_capacity l - 1))"
    using fl_round_int64 [of "rl_capacity l"] fl_round_int64 [of "rl_capacity l - 1"] ok(3,4) by (simp add: fl_of_int_def fl_sub_def)
  then have allow: "Allow l key now = (True, l1\<lparr>rl_buckets := um_set key b (rl_buckets l1), rl_lru_list := key # rl_lru_list l1\<rparr>)"
    using assms(4) by (simp add: Allow_def l1_def b_def Let_def)
  have keys: "set (rl_lru_list l) = fst ` set (rl_buckets l)" using ok(1) by (simp add: lru_wf_def)
  have l1: "lru_wf (rl_lru_list l1) (rl_buckets l1) \<and> Suc (um_size (rl_buckets l1)) \<le> max 1 (nat (rl_max_clients l)) \<and>
      (\<forall>k b. um_find (rl_buckets l1) k = Some b \<longrightarrow> um_find (rl_buckets l) k = Some b)"
  proof (cases "rl_max_clients l \<le> int (um_size (rl_buckets l)) \<and> rl_lru_list l \<noteq> []")
    case True
    then show ?thesis using EvictOldest_ok [OF ok(1)] ok(2) by (simp add: l1_def)
  next
    case False
    then have "l1 = l" "Suc (um_size (rl_buckets l)) \<le> max 1 (nat (rl_max_clients l))" using keys by (auto simp: l1_def EvictOldest_def)
    then show ?thesis using ok(1) by simp
  qed
  have same: "rl_capacity l1 = rl_capacity l" "rl_refill_rate l1 = rl_refill_rate l" "rl_max_clients l1 = rl_max_clients l"
    by (simp_all add: l1_def EvictOldest_def)
  have new: "key \<notin> fst ` set (rl_buckets l1)" "key \<notin> set (rl_lru_list l1)"
    using l1 assms(4) um_find_None [of "rl_buckets l1" key] by (auto simp: lru_wf_def)
  have wf: "um_wf (rl_buckets l1)" using l1 by (simp add: lru_wf_def)
  have "bucket_ok (rl_capacity l) now b" using ok(3) assms(3) by (simp add: bucket_ok_def upto_int_def b_def)
  moreover have "bucket_ok (rl_capacity l) now c" if "um_find (rl_buckets l1) k = Some c" for k c
    using that l1 assms(1,2) by (fastforce simp: rl_ok_def bucket_ok_def)
  ultimately show "rl_ok (snd (Allow l key now)) now"
    using assms(1) l1 same new um_size_set [OF wf, of key b] by (auto simp: allow rl_ok_def lru_wf_def)
  show "fst (Allow l key now)" "um_find (rl_buckets (snd (Allow l key now))) key = Some \<lparr>bk_tokens = Fin (of_int (rl_capacity l - 1)), bk_last_refill = now\<rparr>"
    "rl_capacity (snd (Allow l key now)) = rl_capacity l" using same by (simp_all add: allow b_def)
qed

text \<open>A tracked client pays a token, or is refused and keeps what it has.\<close>

lemma Allow_tracked:
  assumes "rl_ok l t" "t \<le> now" "now < 2 ^ 63" "um_find (rl_buckets l) key = Some b"
  shows "fst (Allow l key now) = fl_le (Fin 1) (bk_tokens (Refill l now b))" "rl_ok (snd (Allow l key now)) now"
    and "um_find (rl_buckets (snd (Allow l key now))) key = Some (if fl_le (Fin 1) (bk_tokens (Refill l now b))
      then (Refill l now b)\<lparr>bk_tokens := fl_sub F64 (bk_tokens (Refill l now b)) (Fin 1)\<rparr> else Refill l now b)"
    and "rl_capacity (snd (Allow l key now)) = rl_capacity l"
proof -
  define r where "r = Refill l now b"
  define b' where "b' = (if fl_le (Fin 1) (bk_tokens r) then r\<lparr>bk_tokens := fl_sub F64 (bk_tokens r) (Fin 1)\<rparr> else r)"
  have ok: "lru_wf (rl_lru_list l) (rl_buckets l)" "1 \<le> rl_capacity l" "rl_capacity l < 2 ^ 31" "0 \<le> rl_refill_rate l" "rl_refill_rate l < 2 ^ 31"
      "bucket_ok (rl_capacity l) t b" using assms(1,4) by (simp_all add: rl_ok_def)
  have key: "key \<in> fst ` set (rl_buckets l)" "key \<in> set (rl_lru_list l)" using um_find_Some_key [OF assms(4)] ok(1) by (auto simp: lru_wf_def)
  have allow: "Allow l key now = (fl_le (Fin 1) (bk_tokens r),
      l\<lparr>rl_lru_list := splice_front key (rl_lru_list l), rl_buckets := um_set key b' (rl_buckets l)\<rparr>)"
    using assms(4) key(2) by (simp add: Allow_def r_def b'_def Let_def)
  have r: "bucket_ok (rl_capacity l) now r" unfolding r_def using Refill_ok(1) [OF ok(2-6) order.refl assms(2,3)] .
  then have "bucket_ok (rl_capacity l) now b'"
    using within_sub [of "rl_capacity l" "bk_tokens r"] ok(3) by (fastforce simp: b'_def bucket_ok_def upto_int_def)
  moreover have "bucket_ok (rl_capacity l) now c" if "um_find (rl_buckets l) k = Some c" for k c
    using that assms(1,2) by (fastforce simp: rl_ok_def bucket_ok_def)
  moreover have "lru_wf (splice_front key (rl_lru_list l)) (um_set key b' (rl_buckets l))" "um_size (um_set key b' (rl_buckets l)) = um_size (rl_buckets l)"
    using ok(1) key um_size_set [of "rl_buckets l" key b'] by (auto simp: lru_wf_def splice_front_def)
  ultimately show "rl_ok (snd (Allow l key now)) now" using assms(1) by (auto simp: allow rl_ok_def)
  show "fst (Allow l key now) = fl_le (Fin 1) (bk_tokens (Refill l now b))"
    "um_find (rl_buckets (snd (Allow l key now))) key = Some (if fl_le (Fin 1) (bk_tokens (Refill l now b))
      then (Refill l now b)\<lparr>bk_tokens := fl_sub F64 (bk_tokens (Refill l now b)) (Fin 1)\<rparr> else Refill l now b)"
    "rl_capacity (snd (Allow l key now)) = rl_capacity l" by (simp_all add: allow r_def b'_def)
qed

subsection \<open>Bursts and runs\<close>

text \<open>\<open>n\<close> requests of one client at one reading of the clock: how many are allowed.\<close>

fun burst :: "RateLimiter \<Rightarrow> string \<Rightarrow> int \<Rightarrow> nat \<Rightarrow> nat" where
  "burst l key now 0 = 0"
| "burst l key now (Suc n) = (if fst (Allow l key now) then 1 else 0) + burst (snd (Allow l key now)) key now n"

definition run :: "RateLimiter \<Rightarrow> (string \<times> int) list \<Rightarrow> RateLimiter" where
  "run l requests = foldl (\<lambda>l (key, now). snd (Allow l key now)) l requests"

lemma burst_now:
  assumes "rl_ok l now" "now < 2 ^ 63" "um_find (rl_buckets l) key = Some b" "bk_last_refill b = now" "bucket_ok m now b" "m \<le> rl_capacity l"
  shows "burst l key now n \<le> nat m"
  using assms
proof (induction n arbitrary: l b m)
  case (Suc n)
  have ok: "1 \<le> rl_capacity l" "rl_capacity l < 2 ^ 31" "0 \<le> rl_refill_rate l" "rl_refill_rate l < 2 ^ 31" using Suc.prems(1) by (simp_all add: rl_ok_def)
  note step = Allow_tracked [OF Suc.prems(1) order.refl Suc.prems(2,3)]
  let ?r = "Refill l now b"
  have r: "bucket_ok m now ?r" "bk_last_refill ?r = now" using Refill_ok(2) [OF ok Suc.prems(5,6) order.refl Suc.prems(2,4)] by (simp_all add: Refill_def)
  show ?case
  proof (cases "fl_le (Fin 1) (bk_tokens ?r)")
    case True
    then have sub: "1 \<le> m" "upto_int (m - 1) (fl_sub F64 (bk_tokens ?r) (Fin 1))"
      using within_sub [of m "bk_tokens ?r"] r(1) ok(2) Suc.prems(6) by (simp_all add: bucket_ok_def)
    have "burst (snd (Allow l key now)) key now n \<le> nat (m - 1)"
    proof (rule Suc.IH [OF step(2) Suc.prems(2)])
      show "um_find (rl_buckets (snd (Allow l key now))) key = Some (?r\<lparr>bk_tokens := fl_sub F64 (bk_tokens ?r) (Fin 1)\<rparr>)" using step(3) True by simp
    qed (use sub r Suc.prems(6) step(4) in \<open>auto simp: bucket_ok_def\<close>)
    then show ?thesis using True step(1) sub(1) by simp
  next
    case False
    then have "burst (snd (Allow l key now)) key now n \<le> nat m"
      using Suc.IH [OF step(2) Suc.prems(2), of ?r m] step(3,4) r Suc.prems(6) by simp
    then show ?thesis using False step(1) by simp
  qed
qed simp

lemma burst_exact:
  assumes "rl_ok l now" "now < 2 ^ 63" "um_find (rl_buckets l) key = Some \<lparr>bk_tokens = Fin (of_int m), bk_last_refill = now\<rparr>"
  shows "burst l key now n = min n (nat m)"
  using assms
proof (induction n arbitrary: l m)
  case (Suc n)
  have "bucket_ok (rl_capacity l) now \<lparr>bk_tokens = Fin (of_int m), bk_last_refill = now\<rparr>" using Suc.prems(1,3) by (simp add: rl_ok_def)
  then have cap: "rl_capacity l < 2 ^ 31" "0 \<le> m" "m \<le> rl_capacity l" "0 \<le> rl_refill_rate l" "rl_refill_rate l < 2 ^ 31"
    using Suc.prems(1) by (auto simp: rl_ok_def bucket_ok_def upto_int_def)
  have "gain 0 (rl_refill_rate l) = Fin 0" using gain_finite [of 0 "rl_refill_rate l"] cap by auto
  then have refill: "Refill l now \<lparr>bk_tokens = Fin (of_int m), bk_last_refill = now\<rparr> = \<lparr>bk_tokens = Fin (of_int m), bk_last_refill = now\<rparr>"
    using fl_round_int64 [of m] fl_round_int64 [of "rl_capacity l"] cap by (simp add: Refill_def gain_def fl_min_def fl_of_int_def Let_def)
  have sub: "fl_sub F64 (Fin (of_int m)) (Fin 1) = Fin (of_int (m - 1))" if "1 \<le> m" using fl_round_int64 [of "m - 1"] cap that by (simp add: fl_sub_def)
  note step = Allow_tracked [OF Suc.prems(1) order.refl Suc.prems(2,3), unfolded refill]
  have one: "fl_le (Fin 1) (Fin (of_int m)) \<longleftrightarrow> 1 \<le> m" by (auto simp: fl_le_def)
  show ?case
  proof (cases "1 \<le> m")
    case True
    then have "burst (snd (Allow l key now)) key now n = min n (nat (m - 1))"
      using Suc.IH [OF step(2) Suc.prems(2), of "m - 1"] step(3) one sub by simp
    then show ?thesis using True step(1) one by (simp add: nat_diff_distrib)
  next
    case False
    then show ?thesis using Suc.IH [OF step(2) Suc.prems(2), of m] step(1,3) one cap(2) by simp
  qed
qed simp

lemma burst_tracked:
  assumes "rl_ok l t" "t \<le> now" "now < 2 ^ 63" "um_find (rl_buckets l) key = Some b"
  shows "burst l key now n \<le> nat (rl_capacity l)"
proof (cases n)
  case (Suc m)
  have ok: "1 \<le> rl_capacity l" "rl_capacity l < 2 ^ 31" "0 \<le> rl_refill_rate l" "rl_refill_rate l < 2 ^ 31" "bucket_ok (rl_capacity l) t b"
    using assms(1,4) by (simp_all add: rl_ok_def)
  note step = Allow_tracked [OF assms]
  let ?r = "Refill l now b" and ?l = "snd (Allow l key now)"
  have r: "bucket_ok (rl_capacity l) now ?r" "bk_last_refill ?r = now" using Refill_ok(1) [OF ok order.refl assms(2,3)] by (simp_all add: Refill_def)
  show ?thesis
  proof (cases "fl_le (Fin 1) (bk_tokens ?r)")
    case True
    then have sub: "upto_int (rl_capacity l - 1) (fl_sub F64 (bk_tokens ?r) (Fin 1))"
      using within_sub [of "rl_capacity l" "bk_tokens ?r"] r(1) ok(2) by (simp add: bucket_ok_def)
    have "burst ?l key now m \<le> nat (rl_capacity l - 1)"
      using burst_now [OF step(2) assms(3), of key "?r\<lparr>bk_tokens := fl_sub F64 (bk_tokens ?r) (Fin 1)\<rparr>" "rl_capacity l - 1" m] step(3,4) True r sub
      by (simp add: bucket_ok_def)
    then show ?thesis using Suc True step(1) ok(1) by simp
  next
    case False
    then show ?thesis using burst_now [OF step(2) assms(3), of key ?r "rl_capacity l" m] step r Suc by simp
  qed
qed simp

lemma burst_new:
  assumes "rl_ok l t" "t \<le> now" "0 \<le> now" "now < 2 ^ 63" "um_find (rl_buckets l) key = None"
  shows "burst l key now n = min n (nat (rl_capacity l))"
proof (cases n)
  case (Suc m)
  have "1 \<le> rl_capacity l" using assms(1) by (simp add: rl_ok_def)
  then show ?thesis using Suc Allow_new(1) [OF assms(1-3,5)] burst_exact [OF Allow_new(2) [OF assms(1-3,5)] assms(4) Allow_new(3) [OF assms(1-3,5)], of m]
    by (simp add: nat_diff_distrib)
qed simp

lemma Allow_ok: "\<lbrakk>rl_ok l t; t \<le> now; 0 \<le> now; now < 2 ^ 63\<rbrakk> \<Longrightarrow> rl_ok (snd (Allow l key now)) now"
  using Allow_new(2) Allow_tracked(2) by (cases "um_find (rl_buckets l) key") blast+

lemma Allow_config:
  "rl_capacity (snd (Allow l key now)) = rl_capacity l" "rl_refill_rate (snd (Allow l key now)) = rl_refill_rate l"
  "rl_max_clients (snd (Allow l key now)) = rl_max_clients l"
  by (simp_all add: Allow_def EvictOldest_def Let_def split: option.splits)

lemma run_ok:
  assumes "rl_ok l t" "sorted (map snd requests)" "\<forall>q \<in> set requests. t \<le> snd q \<and> snd q \<le> now" "t \<le> now" "0 \<le> t" "now < 2 ^ 63"
  shows "rl_ok (run l requests) now \<and> rl_capacity (run l requests) = rl_capacity l \<and> rl_refill_rate (run l requests) = rl_refill_rate l \<and>
    rl_max_clients (run l requests) = rl_max_clients l"
  using assms
proof (induction requests arbitrary: l t)
  case Nil
  then show ?case by (fastforce simp: run_def rl_ok_def bucket_ok_def)
next
  case (Cons q qs)
  obtain key u where q: "q = (key, u)" by fastforce
  have "rl_ok (snd (Allow l key u)) u" using Cons.prems q by (intro Allow_ok) auto
  then have "rl_ok (run (snd (Allow l key u)) qs) now \<and> rl_capacity (run (snd (Allow l key u)) qs) = rl_capacity l \<and>
      rl_refill_rate (run (snd (Allow l key u)) qs) = rl_refill_rate l \<and> rl_max_clients (run (snd (Allow l key u)) qs) = rl_max_clients l"
    using Cons.IH [of "snd (Allow l key u)" u] Cons.prems q Allow_config by simp
  then show ?case by (simp add: run_def q)
qed

subsection \<open>Properties\<close>

text \<open>
  C11. After any run of requests the limiter tracks at most the configured number of clients (at least
  one).  However many requests a client sends at one reading of the clock, at most \<^verbatim>\<open>capacity\<close> of them are
  allowed, and exactly that many when it is not tracked; with a positive refill rate a tracked client
  that waited a second is allowed again.
\<close>

theorem rate_limiter_guarantee:
  assumes "1 \<le> capacity" "capacity < 2 ^ 31" "0 \<le> refill_rate" "refill_rate < 2 ^ 31"
    and "sorted (map snd requests)" "\<forall>q \<in> set requests. 0 \<le> snd q \<and> snd q \<le> now" "0 \<le> now" "now < 2 ^ 63"
    and l: "l = run (rl_new capacity refill_rate max_clients) requests"
  shows "um_size (rl_buckets l) \<le> max 1 (nat max_clients) \<and> burst l key now n \<le> nat capacity \<and>
    (um_find (rl_buckets l) key = None \<longrightarrow> burst l key now n = min n (nat capacity)) \<and>
    (\<forall>b. um_find (rl_buckets l) key = Some b \<and> 1 \<le> refill_rate \<and> bk_last_refill b + 1000000000 \<le> now \<longrightarrow> fst (Allow l key now))"
proof -
  have "rl_ok (rl_new capacity refill_rate max_clients) 0" using assms(1-4) by (simp add: rl_ok_def rl_new_def lru_wf_def)
  then have ok: "rl_ok l now" "rl_capacity l = capacity" "rl_refill_rate l = refill_rate" "rl_max_clients l = max_clients"
    using run_ok [of "rl_new capacity refill_rate max_clients" 0 requests now] assms(5-9) by (simp_all add: rl_new_def)
  have "fst (Allow l key now)" if "um_find (rl_buckets l) key = Some b" "1 \<le> refill_rate" "bk_last_refill b + 1000000000 \<le> now" for b
    using Allow_tracked(1) [OF ok(1) order.refl assms(8) that(1)] Refill_ok(3) [of l capacity now b now] ok that assms by (simp add: rl_ok_def)
  moreover have "burst l key now n \<le> nat capacity"
    using burst_tracked [OF ok(1) order.refl assms(8)] burst_new [OF ok(1) order.refl assms(7,8)] ok(2) by (cases "um_find (rl_buckets l) key") auto
  ultimately show ?thesis using ok burst_new [OF ok(1) order.refl assms(7,8)] by (auto simp: rl_ok_def)
qed

theorem rate_limiter_guarantee_witness:
  "burst (run (rl_new 3 1 10) [(''10.0.0.1'', 5)]) ''10.0.0.2'' 7 100 = 3"
proof -
  have "um_find (rl_buckets (run (rl_new 3 1 10) [(''10.0.0.1'', 5)])) ''10.0.0.2'' = None" by (simp add: run_def Allow_def rl_new_def)
  then show ?thesis
    using rate_limiter_guarantee [of 3 1 "[(''10.0.0.1'', 5)]" 7 "run (rl_new 3 1 10) [(''10.0.0.1'', 5)]" 10 "''10.0.0.2''" 100] by simp
qed

end
