(* ===== verification/Spec2Isabelle.thy ===== *)
theory Spec2Isabelle
  imports Fusion FilterParser SimilarityCache CacheKeys Durability AccessControl Checkpoint RateLimiter
begin

text \<open>
  A verification development of nvecd, an in-memory server for similarity search that combines vector
  similarity with co-occurrence of events.

  \<^bold>\<open>The program.\<close>  A client sends commands over TCP (\<^verbatim>\<open>src/src/server\<close>).  \<^verbatim>\<open>RequestDispatcher::Dispatch\<close>
  parses a request, checks authentication and the loading and read-only flags, and calls a handler.
  Write handlers (EVENT, VECSET, VECDEL, METASET) validate the command, append a record to the
  write-ahead log (\<^verbatim>\<open>src/src/storage/wal.cpp\<close>) and only then change the stores: the event store with
  its deduplication caches and the co-occurrence index (\<^verbatim>\<open>src/src/events\<close>), the vector store and the
  metadata (\<^verbatim>\<open>src/src/vectors\<close>), and the approximate index of the similarity engine
  (\<^verbatim>\<open>src/src/similarity\<close>).  Searches go through the result cache (\<^verbatim>\<open>src/src/cache\<close>), which the writes
  invalidate, to the engine, which ranks items by vectors, by events, or by both.  At startup a
  snapshot is loaded and the log replayed through the same handlers.

  \<^bold>\<open>Theories and what they model.\<close>
  \<^item> \<open>Prelude\<close>, \<open>Bytes\<close>, \<open>Lru\<close>, \<open>KeyValue\<close>: hash maps as association lists (\<open>um_find\<close>, \<open>um_set\<close>, \<open>um_erase\<close>), little-endian
    bytes, recency lists, and the locale \<open>kv_store\<close> of stores that read back what was written.
  \<^item> \<open>Errors\<close>: \<^verbatim>\<open>utils/error.h\<close>, \<^verbatim>\<open>utils/expected.h\<close>; a fallible operation returns \<open>Error + 'a\<close>.
  \<^item> \<open>Floats\<close>, \<open>FloatOrder\<close>: IEEE binary32 and binary64 values (a rational, an infinity or NaN) and operations
    rounded to nearest even; sums, products, comparisons and conversions are those of the code.
  \<^item> \<open>Config\<close>: \<^verbatim>\<open>config/config.h\<close> and \<^verbatim>\<open>ValidateConfig\<close>.
  \<^item> \<open>RingBuffer\<close>, \<open>DedupCache\<close>, \<open>StateCache\<close>, \<open>EventStore\<close>, \<open>CoOccurrence\<close>: the files of those names under \<^verbatim>\<open>events/\<close>.
  \<^item> \<open>Metadata\<close>, \<open>FilterParser\<close>: \<^verbatim>\<open>vectors/metadata*\<close> and \<^verbatim>\<open>server/filter_parser.cpp\<close>.
  \<^item> \<open>Distance\<close>, \<open>VectorStore\<close>: the distance kernels (scalar, AVX2, NEON) and \<^verbatim>\<open>vectors/vector_store.cpp\<close>.
  \<^item> \<open>TopK\<close>, \<open>SimilarityEngine\<close>, \<open>VectorSearch\<close>, \<open>Fusion\<close>: \<^verbatim>\<open>similarity/similarity_engine.cpp\<close>.
  \<^item> \<open>ResultCompressor\<close>, \<open>SimilarityCache\<close>, \<open>Md5\<close>, \<open>CacheKeys\<close>: the files of \<^verbatim>\<open>cache/\<close>.
  \<^item> \<open>Commands\<close>, \<open>WalCodec\<close>, \<open>Wal\<close>, \<open>WalRecovery\<close>: commands, their log payloads, and the log on a file system that is a map
    from paths to bytes.
  \<^item> \<open>CommandParser\<close>: \<^verbatim>\<open>server/command_parser.cpp\<close>, from a request line to a command, and the runs of a server on request lines.
  \<^item> \<open>AccessControl\<close>, \<open>RateLimiter\<close>: \<^verbatim>\<open>utils/network_utils.cpp\<close> and \<^verbatim>\<open>server/rate_limiter.cpp\<close>, which clients are admitted and how often.
  \<^item> \<open>PathUtils\<close>, \<open>Checkpoint\<close>: the validation of paths in \<^verbatim>\<open>utils/path_utils.h\<close>, \<^verbatim>\<open>storage/wal_checkpoint.cpp\<close>, the choice of the
    snapshot at startup and DUMP SAVE in lock mode.
  \<^item> \<open>Dispatcher\<close>, \<open>Recovery\<close>, \<open>Durability\<close>: \<^verbatim>\<open>server/request_dispatcher.cpp\<close>, the replay and the maintenance callback of
    \<^verbatim>\<open>server/nvecd_server.cpp\<close>, and \<^verbatim>\<open>server/decay_scheduler.cpp\<close>.

  The state of a component is a record with the members of its class, an operation is a function with
  the name of the method that returns the result and the new state, and the critical section of a lock is
  one step.  An operation that would index out of range, use an invalidated iterator or dereference a
  null pointer returns \<open>None\<close>.

  \<^bold>\<open>What the theorems show.\<close>
  \<^item> Stores: the vector store refines a map through tombstones, reuse of slots and defragmentation; a ring
    buffer keeps the most recent events; the event store and the index reach no undefined behaviour and keep
    their invariants (symmetry, limits, finite scores); dumps restore.
  \<^item> Searches: the exact searches return the best items that pass the filter in the order of results, the
    approximate one returns only items that were stored at the published generation, fusion ranks the
    union of both sources.
  \<^item> Cache: every interleaving of operations keeps the list, the map, the reverse index and the memory in
    agreement; a lookup returns what was inserted; invalidation is exact; MD5 is RFC 1321.
  \<^item> Log: it refines a list of records through rotation, truncation, failed writes and restarts; torn tails
    are cut; payloads and filter expressions round-trip.
  \<^item> Admission: a request that parses is a well-formed command, an event survives printing and parsing, clients
    are admitted by their address prefix, a burst is bounded by the capacity, dump paths stay in the dump directory.
  \<^item> Checkpoints: a sidecar is written atomically and binds the sequence to the size and checksum of its snapshot.
  \<^item> Composition: acknowledged writes survive a restart, a refused append changes nothing, no write
    without the password.
  \<^item> Defects: theorems that prove a behaviour the code does not intend name it in their text.

  \<^bold>\<open>Parameters, faults and bounds.\<close>  \<^verbatim>\<open>std::exp2\<close>, \<^verbatim>\<open>std::strtod\<close>, \<^verbatim>\<open>std::stof\<close>, \<^verbatim>\<open>inet_pton\<close>, LZ4, zlib's checksum, the sizes of standard
  containers, the order of a priority queue among equal elements, the random numbers and the virtual
  methods of an approximate index are arguments; hypotheses on them (\<open>exp2_ok\<close>, the LZ4 round trip) are
  what their documentation promises.  The readings of clocks and the faults of system calls are arguments of each
  call.  Segments of the log are numbered below a million, the width of their file names, and the
  calls of a rotation succeed in the theorems about runs; single theorems treat their failure.  There is no fuel: every
  loop is a terminating function.

  \<^bold>\<open>Not modelled.\<close>  Snapshot files (\<^verbatim>\<open>storage/snapshot_*\<close>, streams, fork and renames) and the scan for candidates at
  startup; the approximate indexes (\<^verbatim>\<open>vectors/hnsw_index.cpp\<close>, \<^verbatim>\<open>vectors/ivf_index.cpp\<close>), which the engine uses through
  their interface; the HTTP server, which repeats the handlers over httplib; the reactor, sockets and
  threads; the administrative handlers, which format reports; the client library and the command line; the YAML
  reader.
\<close>

end
